(* ===== verification/Prelude.thy ===== *)
theory Prelude
  imports Complex_Main
    "HOL-Library.AList"
    "HOL-Library.Char_ord"
    "HOL-Library.List_Lexorder"
    "HOL-Library.Product_Lexorder"
    "HOL-Library.Multiset"
begin

text \<open>
  The vocabulary shared by every component theory.

  Time and numbers: a UTC instant is a \<open>stamp\<close>, the integer number of microseconds since the
  epoch (the resolution of a Python \<open>datetime\<close>); a \<open>day\<close> is the proleptic ordinal of a Python
  \<open>date\<close>.  Python integers are \<open>int\<close>, Python floats are \<open>real\<close> (rounding and the IEEE special
  values are outside the model; a NaN or an absent value that the code tests for is \<open>None\<close>).

  Errors: a Python exception is a value of the type \<open>err\<close>, one constructor per exception class
  that the modelled code raises; the message text is not modelled.  A function that can raise
  returns \<open>err + 'a\<close>.

  Dictionaries: a Python dict iterates in insertion order, so a dict whose order is observed is
  an association list; \<open>AList.update\<close> is the assignment \<open>d[k] = v\<close> and \<open>push\<close> is the
  \<open>setdefault(k, []).append(v)\<close> of the sources.
\<close>

type_synonym stamp = int
type_synonym day = int

datatype err =
    ValueError
  | LookupError
  | KeyError
  | UnmappedObservation
  | TransitionError
  | RuntimeError
  | TypeError
  | IndexError
  | ZeroDivisionError
  | ConceptNotFoundError
  | ConceptExistsError
  | IntegrityViolation
  | DataException
  | SystemExit

named_theorems result_simps "evaluation of the error sum"
named_theorems dict_simps "lookup laws of the association-list dictionaries"
named_theorems frame_simps "field updates an operation leaves alone"

section \<open>The error sum\<close>

definition ebind :: "err + 'a \<Rightarrow> ('a \<Rightarrow> err + 'b) \<Rightarrow> err + 'b" where
  "ebind m f = (case m of Inl e \<Rightarrow> Inl e | Inr x \<Rightarrow> f x)"

lemma ebind_Inl [simp, result_simps]: "ebind (Inl e) f = Inl e"
  by (simp add: ebind_def)

lemma ebind_Inr [simp, result_simps]: "ebind (Inr x) f = f x"
  by (simp add: ebind_def)

lemma ebind_eq_Inr [result_simps]:
  "ebind m f = Inr y \<longleftrightarrow> (\<exists>x. m = Inr x \<and> f x = Inr y)"
  by (cases m) auto

lemma ebind_cong [fundef_cong]:
  "m = m' \<Longrightarrow> (\<And>x. m' = Inr x \<Longrightarrow> f x = g x) \<Longrightarrow> ebind m f = ebind m' g"
  by (cases m') auto

fun emap :: "('a \<Rightarrow> err + 'b) \<Rightarrow> 'a list \<Rightarrow> err + 'b list" where
  "emap f [] = Inr []"
| "emap f (x # xs) = ebind (f x) (\<lambda>y. ebind (emap f xs) (\<lambda>ys. Inr (y # ys)))"

lemma emap_length: "emap f xs = Inr ys \<Longrightarrow> length ys = length xs"
  by (induction xs arbitrary: ys) (auto simp: ebind_eq_Inr)

lemma emap_nth:
  "emap f xs = Inr ys \<Longrightarrow> i < length xs \<Longrightarrow> f (xs ! i) = Inr (ys ! i)"
  by (induction xs arbitrary: ys i) (auto simp: ebind_eq_Inr nth_Cons split: nat.splits)

lemma emap_set:
  "emap f xs = Inr ys \<Longrightarrow> y \<in> set ys \<Longrightarrow> \<exists>x \<in> set xs. f x = Inr y"
  by (induction xs arbitrary: ys) (auto simp: ebind_eq_Inr)

lemma emap_total:
  "(\<And>x. x \<in> set xs \<Longrightarrow> \<exists>y. f x = Inr y) \<Longrightarrow> \<exists>ys. emap f xs = Inr ys"
proof (induction xs)
  case (Cons a xs)
  then obtain y ys where "f a = Inr y" "emap f xs = Inr ys"
    by (meson list.set_intros)
  then show ?case by simp
qed simp

section \<open>Dictionaries of lists\<close>

fun push :: "'k \<Rightarrow> 'v \<Rightarrow> ('k \<times> 'v list) list \<Rightarrow> ('k \<times> 'v list) list" where
  "push k v [] = [(k, [v])]"
| "push k v ((k', vs) # d) = (if k = k' then (k', vs @ [v]) # d else (k', vs) # push k v d)"

definition group_by :: "('a \<Rightarrow> 'k) \<Rightarrow> 'a list \<Rightarrow> ('k \<times> 'a list) list" where
  "group_by f xs = fold (\<lambda>x. push (f x) x) xs []"

lemma push_keys: "fst ` set (push k v d) = insert k (fst ` set d)"
proof (induction d)
  case (Cons a d)
  then show ?case by (cases a) (auto simp: insert_commute)
qed simp

lemma push_distinct: "distinct (map fst d) \<Longrightarrow> distinct (map fst (push k v d))"
proof (induction d)
  case (Cons a d)
  obtain k' vs where a: "a = (k', vs)" by (cases a)
  with Cons show ?case by (simp add: push_keys)
qed simp

lemma push_lookup:
  "map_of (push k v d) j =
     (if j = k then Some ((case map_of d k of None \<Rightarrow> [] | Some vs \<Rightarrow> vs) @ [v])
      else map_of d j)"
  by (induction d) auto

lemma group_by_snoc: "group_by f (xs @ [x]) = push (f x) x (group_by f xs)"
  by (simp add: group_by_def)

lemma group_by_Nil [simp]: "group_by f [] = []"
  by (simp add: group_by_def)

lemma group_by_keys [dict_simps]: "fst ` set (group_by f xs) = f ` set xs"
  by (induction xs rule: rev_induct) (auto simp: group_by_snoc push_keys)

lemma group_by_distinct [simp]: "distinct (map fst (group_by f xs))"
  by (induction xs rule: rev_induct) (auto simp: group_by_snoc push_distinct)

lemma group_by_lookup [dict_simps]:
  "map_of (group_by f xs) k =
     (if k \<in> f ` set xs then Some (filter (\<lambda>x. f x = k) xs) else None)"
proof (induction xs rule: rev_induct)
  case (snoc x xs)
  then show ?case
    by (cases "f x \<in> f ` set xs") (auto simp: group_by_snoc push_lookup filter_empty_conv empty_filter_conv, metis imageI)
qed simp

lemma group_by_entry:
  assumes "(k, ys) \<in> set (group_by f xs)"
  shows "ys = filter (\<lambda>x. f x = k) xs \<and> ys \<noteq> []"
proof -
  from assms have "map_of (group_by f xs) k = Some ys" by simp
  then show ?thesis by (auto simp: group_by_lookup filter_empty_conv split: if_splits)
qed

lemmas dict_facts = group_by_keys group_by_distinct group_by_lookup group_by_entry

section \<open>Sorting and extrema\<close>

text \<open>\<open>sorted(set(xs))\<close> and \<open>min(xs, key=f)\<close> (the first minimal element).\<close>

definition sorted_set :: "'a::linorder list \<Rightarrow> 'a list" where
  "sorted_set xs = sort (remdups xs)"

lemma set_sorted_set [simp]: "set (sorted_set xs) = set xs"
  by (simp add: sorted_set_def)

lemma sorted_sorted_set [simp]: "sorted (sorted_set xs)"
  by (simp add: sorted_set_def)

lemma distinct_sorted_set [simp]: "distinct (sorted_set xs)"
  by (simp add: sorted_set_def)

lemma sorted_set_cong: "set xs = set ys \<Longrightarrow> sorted_set xs = sorted_set ys"
  by (metis sorted_distinct_set_unique set_sorted_set sorted_sorted_set distinct_sorted_set)

lemma sorted_set_empty_iff [simp]: "sorted_set xs = [] \<longleftrightarrow> xs = []"
  by (metis set_sorted_set set_empty)

lemma sorted_set_Nil [simp]: "sorted_set [] = []"
  by (simp add: sorted_set_def)

lemma mset_sorted_set: "mset (sorted_set xs) = mset_set (set xs)"
  by (metis distinct_sorted_set mset_set_set set_sorted_set)

text \<open>An option as a list of at most one element, as in \<open>[x for x in ... if x is not None]\<close>.\<close>

lemma set_case_option [simp]: "b \<in> set (case z of None \<Rightarrow> [] | Some a \<Rightarrow> [a]) \<longleftrightarrow> z = Some b"
  by (cases z) auto

lemma sort_key_fst_keys: "sorted (map f (sort_key f xs))"
  by simp

lemma arg_min_list_least:
  "xs \<noteq> [] \<Longrightarrow> x \<in> set xs \<Longrightarrow> f (arg_min_list f xs) \<le> (f x :: 'b::linorder)"
  by (simp add: f_arg_min_list_f)

text \<open>The two helpers Python writes as \<open>max(xs, default)\<close> and \<open>next(x for x in xs if P x)\<close>.\<close>

definition max_or :: "'a::linorder \<Rightarrow> 'a list \<Rightarrow> 'a" where
  "max_or d xs = (if xs = [] then d else Max (set xs))"

lemma max_or_ge: "x \<in> set xs \<Longrightarrow> x \<le> max_or d xs"
  by (auto simp: max_or_def)

text \<open>\<open>max(xs, key=f)\<close> (the first maximal element) and \<open>statistics.median\<close>, both on a non-empty
  list.\<close>

fun max_by :: "('a \<Rightarrow> 'b::linorder) \<Rightarrow> 'a list \<Rightarrow> 'a" where
  "max_by f [x] = x"
| "max_by f (x # y # zs) = (let m = max_by f (y # zs) in if f m \<le> f x then x else m)"

lemma max_by_in: "xs \<noteq> [] \<Longrightarrow> max_by f xs \<in> set xs"
  by (induction f xs rule: max_by.induct) (auto simp: Let_def)

lemma max_by_ge: "xs \<noteq> [] \<Longrightarrow> x \<in> set xs \<Longrightarrow> f x \<le> f (max_by f xs)"
  by (induction f xs rule: max_by.induct) (auto simp: Let_def)

definition median :: "real list \<Rightarrow> real" where
  "median xs =
     (let s = sort xs; n = length xs
      in if odd n then s ! (n div 2) else (s ! (n div 2 - 1) + s ! (n div 2)) / 2)"

lemma median_bounds:
  assumes "xs \<noteq> []"
  shows "Min (set xs) \<le> median xs \<and> median xs \<le> Max (set xs)"
proof -
  have nth: "Min (set xs) \<le> sort xs ! i \<and> sort xs ! i \<le> Max (set xs)" if "i < length xs" for i
  proof -
    have "sort xs ! i \<in> set (sort xs)" using that by (intro nth_mem) simp
    then show ?thesis by simp
  qed
  have len: "length xs div 2 < length xs" "length xs div 2 - 1 < length xs"
    using assms by (cases xs; simp)+
  from nth [OF len(1)] nth [OF len(2)] show ?thesis by (simp add: median_def Let_def)
qed

lemma median_permuted: "mset xs = mset ys \<Longrightarrow> median xs = median ys"
proof -
  assume m: "mset xs = mset ys"
  then have "sort ys = sort xs" by (intro properties_for_sort) simp_all
  moreover have "length xs = length ys" using m by (metis size_mset)
  ultimately show ?thesis by (simp add: median_def)
qed

text \<open>Rounding to the nearest integer, ties to the even one (\<open>round(x)\<close>).\<close>

definition py_round :: "real \<Rightarrow> int" where
  "py_round x =
     (let f = \<lfloor>x\<rfloor>; d = x - of_int f
      in if d < 1 / 2 then f else if 1 / 2 < d then f + 1 else if even f then f else f + 1)"

lemma py_round_near: "\<bar>x - of_int (py_round x)\<bar> \<le> 1 / 2"
proof -
  have "of_int \<lfloor>x\<rfloor> \<le> x" "x < of_int \<lfloor>x\<rfloor> + 1" by linarith+
  then show ?thesis by (auto simp: py_round_def Let_def)
qed

lemma py_round_of_int [simp]: "py_round (of_int k) = k"
  by (simp add: py_round_def)

lemma find_Some_iff2: "find P xs = Some x \<Longrightarrow> x \<in> set xs \<and> P x"
  by (auto simp: find_Some_iff)

section \<open>Dictionary comprehensions\<close>

text \<open>\<open>{k: v for ...}\<close>: a later pair overwrites an earlier one, in the earlier one's place.\<close>

definition dict_of :: "('k \<times> 'v) list \<Rightarrow> ('k \<times> 'v) list" where
  "dict_of kvs = foldl (\<lambda>d (k, v). AList.update k v d) [] kvs"

lemma dict_of_snoc: "dict_of (kvs @ [(k, v)]) = AList.update k v (dict_of kvs)"
  by (simp add: dict_of_def)

lemma dict_of_Nil [simp]: "dict_of [] = []"
  by (simp add: dict_of_def)

lemma dict_of_lookup [dict_simps]: "map_of (dict_of kvs) = map_of (rev kvs)"
proof (induction kvs rule: rev_induct)
  case (snoc kv kvs)
  then show ?case by (cases kv) (simp add: dict_of_snoc update_conv')
qed simp

lemma dict_of_distinct [simp]: "distinct (map fst (dict_of kvs))"
proof (induction kvs rule: rev_induct)
  case (snoc kv kvs)
  then show ?case by (cases kv) (simp add: dict_of_snoc distinct_update)
qed simp

lemma dict_of_keys [simp]: "fst ` set (dict_of kvs) = fst ` set kvs"
  by (metis dict_of_lookup dom_map_of_conv_image_fst set_rev)

section \<open>Dictionaries up to order\<close>

text \<open>Two dicts with the same entries in a possibly different order; what is observed of a dict
  through membership, lookup, size and sorted iteration is the same in both.\<close>

definition dict_eq :: "('k \<times> 'v) list \<Rightarrow> ('k \<times> 'v) list \<Rightarrow> bool" where
  "dict_eq d d' \<longleftrightarrow> distinct (map fst d) \<and> distinct (map fst d') \<and> map_of d = map_of d'"

lemma dict_eq_keys: "dict_eq d d' \<Longrightarrow> set (map fst d) = set (map fst d')"
  by (metis dict_eq_def dom_map_of_conv_image_fst image_set)

lemma dict_eq_length: "dict_eq d d' \<Longrightarrow> length d = length d'"
  using dict_eq_keys [of d d'] by (metis dict_eq_def distinct_card length_map)

lemma dict_eq_refl: "distinct (map fst d) \<Longrightarrow> dict_eq d d"
  by (simp add: dict_eq_def)

definition dict_rel :: "('v \<Rightarrow> 'w \<Rightarrow> bool) \<Rightarrow> ('k \<times> 'v) list \<Rightarrow> ('k \<times> 'w) list \<Rightarrow> bool" where
  "dict_rel R d d' \<longleftrightarrow> distinct (map fst d) \<and> distinct (map fst d') \<and>
     (\<forall>k. rel_option R (map_of d k) (map_of d' k))"

lemma dict_rel_keys: "dict_rel R d d' \<Longrightarrow> set (map fst d) = set (map fst d')"
proof -
  assume r: "dict_rel R d d'"
  have "map_of d k = None \<longleftrightarrow> map_of d' k = None" for k
    using r by (metis dict_rel_def option.rel_sel)
  then show ?thesis by (auto simp: map_of_eq_None_iff)
qed

lemma sort_key_fst_map: "map fst (sort_key fst d) = sort (map fst d)"
  by (rule properties_for_sort [symmetric]) simp_all

lemma dict_rel_sorted:
  assumes "dict_rel R (d :: ('k::linorder \<times> 'v) list) d'"
  shows "list_all2 (\<lambda>x y. fst x = fst y \<and> R (snd x) (snd y)) (sort_key fst d) (sort_key fst d')"
proof -
  let ?s = "sort_key fst d" and ?s' = "sort_key fst d'"
  have keys: "map fst ?s = map fst ?s'"
    unfolding sort_key_fst_map using assms dict_rel_keys [OF assms]
    by (intro sorted_distinct_set_unique) (auto simp: dict_rel_def)
  then have len: "length ?s = length ?s'" by (metis length_map)
  have "fst (?s ! i) = fst (?s' ! i) \<and> R (snd (?s ! i)) (snd (?s' ! i))" if i: "i < length ?s" for i
  proof -
    obtain k v where kv: "?s ! i = (k, v)" by (cases "?s ! i")
    obtain k' v' where kv': "?s' ! i = (k', v')" by (cases "?s' ! i")
    have "k = k'" using keys i len kv kv' by (metis fst_conv nth_map)
    have "(k, v) \<in> set d" "(k', v') \<in> set d'"
      using i len kv kv' by (metis nth_mem set_sort)+
    then have "map_of d k = Some v" "map_of d' k = Some v'"
      using assms \<open>k = k'\<close> by (auto simp: dict_rel_def)
    moreover have "rel_option R (map_of d k) (map_of d' k)" using assms by (simp add: dict_rel_def)
    ultimately show ?thesis using \<open>k = k'\<close> kv kv' by simp
  qed
  with len show ?thesis by (simp add: list_all2_conv_all_nth)
qed

lemma emap_all2:
  "list_all2 (\<lambda>x y. f x = g y) xs ys \<Longrightarrow> emap f xs = emap g ys"
  by (induction xs ys rule: list_all2_induct) auto

lemma emap_cong: "(\<And>x. x \<in> set xs \<Longrightarrow> f x = g x) \<Longrightarrow> emap f xs = emap g xs"
  by (induction xs) auto

lemma emap_Inl_ex: "emap f xs = Inl e \<Longrightarrow> \<exists>x \<in> set xs. f x = Inl e"
proof (induction xs)
  case (Cons x xs)
  then show ?case by (cases "f x"; cases "emap f xs") auto
qed simp

lemma emap_fails: "x \<in> set xs \<Longrightarrow> f x = Inl e \<Longrightarrow> \<exists>e'. emap f xs = Inl e'"
proof (induction xs)
  case (Cons a xs)
  then show ?case by (cases "f a") auto
qed simp

lemma emap_filter_map:
  "emap f xs = Inr ys \<Longrightarrow> ys = map (\<lambda>x. projr (f x)) xs"
  by (induction xs arbitrary: ys) (auto simp: ebind_eq_Inr)

text \<open>A dict comprehension with a fallible value: its lookups, and its error.\<close>

definition emap_dict :: "('k \<Rightarrow> 'a \<Rightarrow> err + 'b) \<Rightarrow> ('k \<times> 'a) list \<Rightarrow> err + ('k \<times> 'b) list" where
  "emap_dict G d = emap (\<lambda>(k, a). ebind (G k a) (\<lambda>b. Inr (k, b))) d"

lemma emap_dict_lookup:
  "emap_dict G d = Inr g \<Longrightarrow> map_of g k = map_option (\<lambda>a. projr (G k a)) (map_of d k)"
proof (induction d arbitrary: g)
  case (Cons p d)
  obtain k' a where "p = (k', a)" by (cases p)
  with Cons show ?case by (auto simp: emap_dict_def ebind_eq_Inr)
qed (simp add: emap_dict_def)

lemma emap_dict_error:
  "(\<exists>e. emap_dict G d = Inl e) \<longleftrightarrow> (\<exists>k a e. (k, a) \<in> set d \<and> G k a = Inl e)"
proof (induction d)
  case (Cons p d)
  obtain k a where p: "p = (k, a)" by (cases p)
  show ?case
  proof (cases "G k a")
    case (Inr b)
    have "(\<exists>e. emap_dict G (p # d) = Inl e) \<longleftrightarrow> (\<exists>e. emap_dict G d = Inl e)"
      using Inr p by (cases "emap_dict G d") (auto simp: emap_dict_def)
    with Cons Inr p show ?thesis by auto
  qed (auto simp: emap_dict_def p)
qed (simp add: emap_dict_def)

lemma emap_dict_same:
  assumes rel: "dict_rel R d d'" and same: "\<And>k a b. R a b \<Longrightarrow> G k a = G k b"
    and err: "\<And>k a e. (k, a) \<in> set d \<union> set d' \<Longrightarrow> G k a = Inl e \<Longrightarrow> e = E"
  shows "(\<exists>g g'. emap_dict G d = Inr g \<and> emap_dict G d' = Inr g' \<and> map_of g = map_of g') \<or>
         emap_dict G d = Inl E \<and> emap_dict G d' = Inl E"
proof -
  have look: "rel_option R (map_of d k) (map_of d' k)" for k
    using rel by (simp add: dict_rel_def)
  have opt: "map_option (\<lambda>a. projr (G k a)) (map_of d k) = map_option (\<lambda>a. projr (G k a)) (map_of d' k)" for k
    using look [of k]
  proof (cases rule: option.rel_cases)
    case (Some a b)
    then have "G k a = G k b" by (intro same) simp
    with Some show ?thesis by simp
  qed simp
  have in_map: "(k, a) \<in> set d \<longleftrightarrow> map_of d k = Some a" "(k, b) \<in> set d' \<longleftrightarrow> map_of d' k = Some b" for k a b
    using rel by (auto simp: dict_rel_def)
  have "(\<exists>a. map_of d k = Some a \<and> G k a = Inl e) \<longleftrightarrow> (\<exists>b. map_of d' k = Some b \<and> G k b = Inl e)" for k e
    using look [of k]
  proof (cases rule: option.rel_cases)
    case (Some a b)
    then have "G k a = G k b" by (intro same) simp
    with Some show ?thesis by simp
  qed simp
  then have "(\<exists>e. emap_dict G d = Inl e) \<longleftrightarrow> (\<exists>e. emap_dict G d' = Inl e)"
    unfolding emap_dict_error in_map by blast
  moreover have uniform: "emap_dict G ds = Inl e \<Longrightarrow> e = E" if "set ds \<subseteq> set d \<union> set d'" for ds e
  proof -
    assume "emap_dict G ds = Inl e"
    then obtain p where "p \<in> set ds" "(\<lambda>(k, a). ebind (G k a) (\<lambda>b. Inr (k, b))) p = Inl e"
      unfolding emap_dict_def by (blast dest: emap_Inl_ex)
    moreover obtain k a where "p = (k, a)" by (cases p)
    ultimately have "(k, a) \<in> set ds" "G k a = Inl e"
      by (cases "G k a"; simp)+
    with that err show "e = E" by blast
  qed
  ultimately show ?thesis
    using emap_dict_lookup [of G d] emap_dict_lookup [of G d'] opt
      uniform [of d] uniform [of d']
    by (cases "emap_dict G d"; cases "emap_dict G d'") (auto simp: fun_eq_iff)
qed

section \<open>Stepped loops\<close>

text \<open>\<open>while t < e: yield t; t += i\<close>.  Every step of the sources is a positive constant; a
  step of zero or less, with which the Python loop would not end, yields nothing here.\<close>

function steps :: "int \<Rightarrow> int \<Rightarrow> int \<Rightarrow> int list" where
  "steps t e i = (if t < e \<and> 0 < i then t # steps (t + i) e i else [])"
  by pat_completeness auto
termination
  by (relation "measure (\<lambda>(t, e, i). nat (e - t))") auto

declare steps.simps [simp del]

lemma steps_Cons: "t < e \<Longrightarrow> 0 < i \<Longrightarrow> steps t e i = t # steps (t + i) e i"
  by (subst steps.simps) simp

lemma steps_Nil: "\<not> t < e \<Longrightarrow> steps t e i = []"
  by (subst steps.simps) simp

lemma step_member:
  assumes "0 < i" "t < e"
  shows "(x = t \<or> (t + i \<le> x \<and> x < e \<and> i dvd (x - (t + i)))) \<longleftrightarrow>
         (t \<le> x \<and> x < e \<and> i dvd (x - (t::int)))"
proof -
  have "x - (t + i) + i = x - t" by simp
  then have shift: "i dvd (x - (t + i)) \<longleftrightarrow> i dvd (x - t)"
    using dvd_add_left_iff [of i i "x - (t + i)"] by simp
  have "t + i \<le> x" if "t < x" "i dvd (x - t)"
    using that zdvd_imp_le [of i "x - t"] by simp
  with assms shift show ?thesis by auto
qed

lemma steps_set:
  assumes "0 < i"
  shows "set (steps t e i) = {x. t \<le> x \<and> x < e \<and> i dvd (x - t)}"
  using assms
proof (induction t e i rule: steps.induct)
  case (1 t e i)
  show ?case
  proof (cases "t < e")
    case True
    with 1 have "set (steps t e i) = insert t {x. t + i \<le> x \<and> x < e \<and> i dvd (x - (t + i))}"
      by (simp add: steps_Cons)
    with 1 True step_member [of i t e] show ?thesis by blast
  qed (auto simp: steps_Nil)
qed

lemma steps_sorted: "sorted_wrt (<) (steps t e i)"
proof (induction t e i rule: steps.induct)
  case (1 t e i)
  show ?case
  proof (cases "t < e \<and> 0 < i")
    case True
    with 1 steps_set [of i "t + i" e] show ?thesis
      by (auto simp: steps_Cons)
  next
    case False
    then have "steps t e i = []" by (subst steps.simps) auto
    then show ?thesis by simp
  qed
qed

lemma steps_distinct [simp]: "distinct (steps t e i)"
  using steps_sorted [of t e i] by (simp add: strict_sorted_iff)

lemma sorted_bounds:
  assumes "sorted xs" "x \<in> set xs"
  shows "hd xs \<le> x \<and> x \<le> last xs"
proof -
  obtain i where "i < length xs" "x = xs ! i" using assms(2) by (metis in_set_conv_nth)
  moreover have "xs \<noteq> []" using assms(2) by auto
  ultimately show ?thesis using assms(1) by (simp add: hd_conv_nth last_conv_nth sorted_nth_mono)
qed

lemma option_ext: "(\<And>e. a = Some e \<longleftrightarrow> b = Some e) \<Longrightarrow> a = b"
  by (cases a; cases b) auto

lemma map_of_functional:
  assumes "\<And>a b. (k, a) \<in> set xs \<Longrightarrow> (k, b) \<in> set xs \<Longrightarrow> a = b"
  shows "map_of xs k = Some v \<longleftrightarrow> (k, v) \<in> set xs"
proof
  show "map_of xs k = Some v \<Longrightarrow> (k, v) \<in> set xs" by (rule map_of_SomeD)
  assume v: "(k, v) \<in> set xs"
  then obtain w where "map_of xs k = Some w" by (metis fst_conv image_eqI map_of_eq_None_iff not_Some_eq)
  with assms v show "map_of xs k = Some v" by (metis map_of_SomeD)
qed

section \<open>Slices\<close>

text \<open>\<open>xs[i : i + n]\<close> for \<open>i\<close> in \<open>range(0, len(xs), n)\<close>.\<close>

function chunks :: "nat \<Rightarrow> 'a list \<Rightarrow> 'a list list" where
  "chunks n xs = (if n = 0 \<or> xs = [] then [] else take n xs # chunks n (drop n xs))"
  by pat_completeness auto
termination
  by (relation "measure (\<lambda>(n, xs). length xs)") auto

declare chunks.simps [simp del]

lemma concat_chunks: "0 < n \<Longrightarrow> concat (chunks n xs) = xs"
proof (induction n xs rule: chunks.induct)
  case (1 n xs)
  then show ?case by (subst chunks.simps) auto
qed

section \<open>Time arithmetic\<close>

definition second :: int where "second = 1000000"
definition minute :: int where "minute = 60000000"
definition hour :: int where "hour = 3600000000"
definition one_day :: int where "one_day = 86400000000"

lemmas time_defs = second_def minute_def hour_def one_day_def

text \<open>The proleptic Gregorian calendar of \<open>datetime.date\<close>: the ordinal of 1 January of a year and
  the year of an ordinal (CPython's \<open>_days_before_year\<close> and the year part of \<open>_ord2ymd\<close>), and the
  UTC calendar date of an instant (ordinal 719163 is 1970-01-01).\<close>

definition jan1 :: "int \<Rightarrow> day" where
  "jan1 y = (y - 1) * 365 + (y - 1) div 4 - (y - 1) div 100 + (y - 1) div 400 + 1"

definition year_of :: "day \<Rightarrow> int" where
  "year_of d =
     (let n = d - 1;
          n400 = n div 146097; r400 = n mod 146097;
          n100 = r400 div 36524; r100 = r400 mod 36524;
          n4 = r100 div 1461; r4 = r100 mod 1461;
          n1 = r4 div 365;
          y = n400 * 400 + n100 * 100 + n4 * 4 + n1 + 1
      in if n1 = 4 \<or> n100 = 4 then y - 1 else y)"

definition utc_day :: "stamp \<Rightarrow> day" where
  "utc_day t = t div one_day + 719163"

text \<open>\<open>date.weekday\<close>: Monday is 0.\<close>

definition weekday :: "day \<Rightarrow> int" where "weekday d = (d + 6) mod 7"

lemma jan1_1970: "jan1 1970 = 719163"
  by (simp add: jan1_def)

lemma utc_day_mono: "s \<le> t \<Longrightarrow> utc_day s \<le> utc_day t"
  by (simp add: utc_day_def one_day_def zdiv_mono1)

end
