(* ===== verification/Sessions.thy ===== *)
theory Sessions
  imports Prelude
begin

text \<open>
  Session bounds and complete bars: \<open>src/intelligence/bars/sessions.py\<close> and
  \<open>src/intelligence/bars/complete_bars.py\<close>.

  The exchange calendar (\<open>pandas_market_calendars\<close>) is third-party data: it is the parameter
  \<open>cal\<close>, the NYSE schedule as a list of (trading date, open, close).  The America/New_York zone is
  the parameter \<open>ny\<close>, the local calendar date of an instant.  A bar is a pair of its stamp and
  its payload.
\<close>

type_synonym schedule = "(day \<times> stamp \<times> stamp) list"
type_synonym sessions = "(day \<times> (stamp \<times> stamp)) list"

definition GRID_SECONDS :: int where "GRID_SECONDS = 300"

definition floor_to_grid :: "stamp \<Rightarrow> stamp" where
  "floor_to_grid t = t - t mod (GRID_SECONDS * second)"

definition nyse_sessions :: "schedule \<Rightarrow> day \<Rightarrow> day \<Rightarrow> err + sessions" where
  "nyse_sessions cal start end =
     (if end < start then Inl ValueError
      else Inr (dict_of (map (\<lambda>(d, opn, cls). (d, (floor_to_grid opn, cls)))
                  (filter (\<lambda>(d, _). start \<le> d \<and> d \<le> end) cal))))"

definition session_complete_at ::
  "schedule \<Rightarrow> day \<Rightarrow> stamp \<Rightarrow> sessions option \<Rightarrow> err + bool" where
  "session_complete_at cal d now sessions =
     ebind (case sessions of Some ss \<Rightarrow> Inr ss | None \<Rightarrow> nyse_sessions cal d d)
       (\<lambda>ss. Inr (case map_of ss d of
                     None \<Rightarrow> d < utc_day now
                   | Some (_, close) \<Rightarrow> close \<le> now))"

section \<open>Complete bars\<close>

definition INTRADAY_BAR_SECONDS :: "(string \<times> int) list" where
  "INTRADAY_BAR_SECONDS = [(''1m'', 60), (''5m'', 300), (''15m'', 900), (''1h'', 3600), (''4h'', 14400)]"

text \<open>\<open>int(ts.timestamp())\<close> truncates towards zero.\<close>

definition epoch :: "stamp \<Rightarrow> int" where
  "epoch t = (if 0 \<le> t then t div second else - ((- t) div second))"

definition block_end :: "stamp \<Rightarrow> string \<Rightarrow> err + stamp" where
  "block_end ts timeframe =
     (case map_of INTRADAY_BAR_SECONDS timeframe of
        None \<Rightarrow> Inl KeyError
      | Some sz \<Rightarrow> Inr ((epoch ts - epoch ts mod sz + sz) * second))"

definition bounds :: "schedule \<Rightarrow> (stamp \<Rightarrow> day) \<Rightarrow> stamp list \<Rightarrow> err + sessions" where
  "bounds cal ny stamps =
     (if stamps = [] then Inr []
      else nyse_sessions cal (Min (ny ` set stamps)) (Max (ny ` set stamps)))"

definition on_grid :: "stamp \<Rightarrow> string \<Rightarrow> stamp option \<Rightarrow> err + bool" where
  "on_grid ts timeframe session_open =
     (case map_of INTRADAY_BAR_SECONDS timeframe of
        None \<Rightarrow> Inl KeyError
      | Some sz \<Rightarrow> Inr (epoch ts mod sz = 0 \<or> session_open = Some ts))"

text \<open>The verdict of the loop body of \<open>split_complete\<close> on one intraday bar: its end, capped at the
  session close for a regular-hours bar, and whether it is a complete answer.\<close>

definition bar_end :: "(stamp \<times> stamp) option \<Rightarrow> stamp \<Rightarrow> stamp \<Rightarrow> stamp" where
  "bar_end session ts end =
     (case session of
        Some (opn, cls) \<Rightarrow> if opn \<le> ts \<and> ts < cls then min end cls else end
      | None \<Rightarrow> end)"

definition bar_complete ::
  "(stamp \<times> stamp) option \<Rightarrow> string \<Rightarrow> stamp \<Rightarrow> stamp option \<Rightarrow> int \<Rightarrow> stamp \<Rightarrow> err + bool" where
  "bar_complete session timeframe answered_at request_end settle ts =
     ebind (block_end ts timeframe) (\<lambda>blk.
     ebind (on_grid ts timeframe (map_option fst session)) (\<lambda>grid.
       let end = bar_end session ts blk;
           ok = (end \<le> answered_at \<and>
                 (case request_end of None \<Rightarrow> True | Some e \<Rightarrow> end \<le> e) \<and> grid)
       in Inr (case session of
                 Some (_, cls) \<Rightarrow> if ok \<and> cls \<le> end then cls + settle \<le> answered_at else ok
               | None \<Rightarrow> ok)))"

text \<open>The loop: the verdict of every bar, then the two lists in input order.\<close>

definition split_by :: "bool list \<Rightarrow> 'b list \<Rightarrow> 'b list \<times> 'b list" where
  "split_by oks bars =
     (map snd (filter fst (zip oks bars)), map snd (filter (\<lambda>p. \<not> fst p) (zip oks bars)))"

definition split_complete ::
  "schedule \<Rightarrow> (stamp \<Rightarrow> day) \<Rightarrow> (stamp \<times> 'b) list \<Rightarrow> string \<Rightarrow> stamp \<Rightarrow> stamp option \<Rightarrow> int
   \<Rightarrow> err + (stamp \<times> 'b) list \<times> (stamp \<times> 'b) list" where
  "split_complete cal ny bars timeframe answered_at request_end settle =
     (if bars = [] then Inr ([], [])
      else if timeframe = ''1d'' then
        (let days = map (\<lambda>(ts, _). utc_day ts) bars
         in ebind (nyse_sessions cal (Min (set days)) (Max (set days))) (\<lambda>ss.
            ebind (emap (\<lambda>d. session_complete_at cal d answered_at (Some ss)) days) (\<lambda>oks.
              Inr (split_by oks bars))))
      else if map_of INTRADAY_BAR_SECONDS timeframe = None then Inl ValueError
      else
        ebind (bounds cal ny (map fst bars)) (\<lambda>ss.
        ebind (emap (\<lambda>(ts, _). bar_complete (map_of ss (ny ts)) timeframe answered_at request_end settle ts)
                 bars) (\<lambda>oks.
          Inr (split_by oks bars))))"

section \<open>Lemmas\<close>

lemma nyse_sessions_Inr: "start \<le> end \<Longrightarrow> \<exists>ss. nyse_sessions cal start end = Inr ss"
  by (simp add: nyse_sessions_def)

lemma floor_to_grid_le: "floor_to_grid t \<le> t \<and> t < floor_to_grid t + GRID_SECONDS * second"
  by (simp add: floor_to_grid_def GRID_SECONDS_def second_def)

lemma split_by_filter:
  "split_by (map P bars) bars = (filter P bars, filter (\<lambda>b. \<not> P b) bars)"
  by (induction bars) (auto simp: split_by_def)

lemma emap_pure: "(\<And>x. x \<in> set xs \<Longrightarrow> f x = Inr (g x)) \<Longrightarrow> emap f xs = Inr (map g xs)"
  by (induction xs) auto

lemma intraday_positive: "map_of INTRADAY_BAR_SECONDS tf = Some sz \<Longrightarrow> 0 < sz"
  by (auto simp: INTRADAY_BAR_SECONDS_def split: if_splits)

lemma bar_complete_total:
  assumes "map_of INTRADAY_BAR_SECONDS tf = Some sz"
  shows "\<exists>b. bar_complete session tf now req settle ts = Inr b"
  using assms by (auto simp: bar_complete_def block_end_def on_grid_def Let_def split: option.splits)

end
