(* ===== verification/Vendor_Kind.thy ===== *)
theory Vendor_Kind
  imports Prelude
begin

text \<open>
  The vocabulary of bar identities: \<open>src/intelligence/bars/sources.py\<close> (source labels, canonical
  daily pairs), the label constants of \<open>src/core/bar_normalizer.py\<close> and all of
  \<open>src/intelligence/bars/vendor_kind.py\<close> (the one map between source labels and (vendor, kind),
  the kind an observation is stored under, the canonical daily kind of a raw row and the volume
  basis of a canonical bar).  Strings are Python's; \<open>lower\<close> is \<open>str.lower\<close> on ASCII.
\<close>

type_synonym vendor_kind = "string \<times> string"

definition SOURCE_IBKR_NAMED :: string where "SOURCE_IBKR_NAMED = ''ibkr_named''"
definition SOURCE_IBKR_CONTINUOUS :: string where "SOURCE_IBKR_CONTINUOUS = ''ibkr_continuous_adj''"
definition SOURCE_IBKR_OFFICIAL :: string where "SOURCE_IBKR_OFFICIAL = ''ibkr_official''"
definition SOURCE_IBKR_GENERIC :: string where "SOURCE_IBKR_GENERIC = ''ibkr''"
definition SOURCE_IBKR_VENUE :: string where "SOURCE_IBKR_VENUE = ''ibkr_venue''"
definition SOURCE_IBKR_FALLBACK :: string where "SOURCE_IBKR_FALLBACK = ''ibkr_fallback''"
definition SOURCE_ALPACA :: string where "SOURCE_ALPACA = ''alpaca''"
definition ROUTE_ALPACA :: string where "ROUTE_ALPACA = ''ALPACA''"
definition SOURCE_DERIVED_5M :: string where "SOURCE_DERIVED_5M = ''derived_5m''"

definition GRID_TIMEFRAMES :: "(string \<times> int) list" where
  "GRID_TIMEFRAMES = [(''15m'', 15), (''1h'', 60)]"

definition DERIVATION_OWNED_TIMEFRAMES :: "string set" where
  "DERIVATION_OWNED_TIMEFRAMES = set (map fst GRID_TIMEFRAMES) \<union> {''1d''}"

definition CANONICAL_1D_SOURCES :: "vendor_kind list" where
  "CANONICAL_1D_SOURCES =
     [(''ibkr'', ''named''), (''ibkr'', ''venue''), (''ibkr'', ''fallback''), (''alpaca'', ''sip_rth'')]"

definition CANONICAL_1D_VENDORS :: "string list" where
  "CANONICAL_1D_VENDORS = sorted_set (map fst CANONICAL_1D_SOURCES)"

definition CANONICAL_1D_KINDS :: "string list" where
  "CANONICAL_1D_KINDS = sorted_set (map snd CANONICAL_1D_SOURCES)"

definition VENDOR_IBKR :: string where "VENDOR_IBKR = ''ibkr''"
definition VENDOR_ALPACA :: string where "VENDOR_ALPACA = ''alpaca''"
definition VENDOR_DERIVED :: string where "VENDOR_DERIVED = ''derived''"

lemmas label_defs =
  SOURCE_IBKR_NAMED_def SOURCE_IBKR_CONTINUOUS_def SOURCE_IBKR_OFFICIAL_def SOURCE_IBKR_GENERIC_def
  SOURCE_IBKR_VENUE_def SOURCE_IBKR_FALLBACK_def SOURCE_ALPACA_def ROUTE_ALPACA_def
  SOURCE_DERIVED_5M_def VENDOR_IBKR_def VENDOR_ALPACA_def VENDOR_DERIVED_def

definition LABEL_TO_VENDOR_KIND :: "(string \<times> vendor_kind) list" where
  "LABEL_TO_VENDOR_KIND =
     [(SOURCE_IBKR_NAMED, (VENDOR_IBKR, ''named'')),
      (SOURCE_IBKR_VENUE, (VENDOR_IBKR, ''venue'')),
      (SOURCE_IBKR_CONTINUOUS, (VENDOR_IBKR, ''continuous'')),
      (SOURCE_IBKR_OFFICIAL, (VENDOR_IBKR, ''official'')),
      (SOURCE_IBKR_GENERIC, (VENDOR_IBKR, ''generic'')),
      (SOURCE_IBKR_FALLBACK, (VENDOR_IBKR, ''fallback'')),
      (SOURCE_ALPACA, (VENDOR_ALPACA, ''sip_rth'')),
      (SOURCE_DERIVED_5M, (VENDOR_DERIVED, ''5m_grid''))]"

definition VENDOR_KIND_TO_LABEL :: "(vendor_kind \<times> string) list" where
  "VENDOR_KIND_TO_LABEL = dict_of (map (\<lambda>(label, pair). (pair, label)) LABEL_TO_VENDOR_KIND)"

definition DERIVED_PAIR :: vendor_kind where
  "DERIVED_PAIR = (VENDOR_DERIVED, ''5m_grid'')"

definition ALPACA_FEED_KINDS :: "(string \<times> string) list" where
  "ALPACA_FEED_KINDS = [(''sip'', ''sip_rth''), (''iex'', ''iex_rth'')]"

definition ALPACA_RAW_ADJUSTMENT :: string where "ALPACA_RAW_ADJUSTMENT = ''split''"

definition alpaca_kind_for_feed :: "string \<Rightarrow> string \<Rightarrow> err + string" where
  "alpaca_kind_for_feed feed adjustment =
     (if adjustment \<noteq> ALPACA_RAW_ADJUSTMENT then Inl ValueError
      else case map_of ALPACA_FEED_KINDS feed of
             Some kind \<Rightarrow> Inr kind
           | None \<Rightarrow> Inl ValueError)"

definition VENDOR_SERVED_KINDS :: "(string \<times> string list) list" where
  "VENDOR_SERVED_KINDS = [(VENDOR_ALPACA, map snd ALPACA_FEED_KINDS)]"

definition pair_token :: "string \<Rightarrow> string \<Rightarrow> string" where
  "pair_token vendor kind = vendor @ ''/'' @ kind"

definition BAR_KINDS :: "string list" where
  "BAR_KINDS =
     [''named'', ''venue'', ''continuous'', ''official'', ''generic'', ''smart_trades'',
      ''smart_adjusted'', ''fallback'', ''consolidated'', ''sip_rth'', ''iex_rth'', ''5m_grid'']"

definition VENUE_ROUTES :: "string list" where
  "VENUE_ROUTES = [''AMEX'', ''ARCA'', ''BATS'', ''ISLAND'', ''NYSE'']"

definition lower :: "string \<Rightarrow> string" where
  "lower s = map (\<lambda>c. if CHR ''A'' \<le> c \<and> c \<le> CHR ''Z'' then char_of (of_char c + 32 :: nat) else c) s"

definition VENUE_ROUTE_KINDS :: "string list" where
  "VENUE_ROUTE_KINDS = map (\<lambda>route. ''venue_'' @ lower route) VENUE_ROUTES"

definition CANONICAL_KIND_FOR_RAW :: "(vendor_kind \<times> string) list" where
  "CANONICAL_KIND_FOR_RAW =
     [((VENDOR_IBKR, ''smart_trades''), ''named''),
      ((VENDOR_IBKR, ''venue''), ''venue''),
      ((VENDOR_ALPACA, ''sip_rth''), ''sip_rth'')]"

definition label_to_vendor_kind :: "string \<Rightarrow> err + vendor_kind" where
  "label_to_vendor_kind label =
     (case map_of LABEL_TO_VENDOR_KIND label of Some p \<Rightarrow> Inr p | None \<Rightarrow> Inl KeyError)"

definition vendor_kind_to_label :: "string \<Rightarrow> string \<Rightarrow> err + string" where
  "vendor_kind_to_label vendor kind =
     (case map_of VENDOR_KIND_TO_LABEL (vendor, kind) of Some l \<Rightarrow> Inr l | None \<Rightarrow> Inl KeyError)"

definition observation_kind :: "string \<Rightarrow> string \<Rightarrow> string \<Rightarrow> err + string" where
  "observation_kind source route what_to_show =
     (if source = VENDOR_IBKR then
        (if route \<in> {''SMART'', ''LEGACY_IMPORT''} then
           (if what_to_show = ''TRADES'' then Inr ''smart_trades''
            else if what_to_show = ''ADJUSTED_LAST'' \<and> route = ''SMART'' then Inr ''smart_adjusted''
            else Inl UnmappedObservation)
         else if what_to_show = ''TRADES'' \<and> route \<noteq> ROUTE_ALPACA then
           (if route \<notin> set VENUE_ROUTES then Inl UnmappedObservation
            else Inr (''venue_'' @ lower route))
         else Inl UnmappedObservation)
      else if source = VENDOR_ALPACA \<and> route \<in> {ROUTE_ALPACA, ''SIP'', ''LEGACY_IMPORT''} then
        (if what_to_show = ''TRADES'' then Inr ''sip_rth'' else Inl UnmappedObservation)
      else if source = VENDOR_ALPACA \<and> route = ''IEX'' then
        (if what_to_show = ''TRADES'' then Inr ''iex_rth'' else Inl UnmappedObservation)
      else Inl UnmappedObservation)"

definition canonical_kind_for_raw :: "string \<Rightarrow> string \<Rightarrow> err + string" where
  "canonical_kind_for_raw vendor kind =
     (if vendor = VENDOR_IBKR \<and> kind \<in> set VENUE_ROUTE_KINDS then Inr ''venue''
      else case map_of CANONICAL_KIND_FOR_RAW (vendor, kind) of
             Some k \<Rightarrow> Inr k
           | None \<Rightarrow> Inl ValueError)"

section \<open>Volume basis\<close>

definition VOLUME_BASIS_NONE :: int where "VOLUME_BASIS_NONE = 0"
definition VOLUME_BASIS_CONSOLIDATED :: int where "VOLUME_BASIS_CONSOLIDATED = 1"
definition VOLUME_BASIS_SMART :: int where "VOLUME_BASIS_SMART = 2"
definition VOLUME_BASIS_MIXED :: int where "VOLUME_BASIS_MIXED = 3"

lemmas basis_defs = VOLUME_BASIS_NONE_def VOLUME_BASIS_CONSOLIDATED_def VOLUME_BASIS_SMART_def
  VOLUME_BASIS_MIXED_def

definition VOLUME_BASIS_BY_VENDOR_KIND :: "(vendor_kind \<times> int) list" where
  "VOLUME_BASIS_BY_VENDOR_KIND =
     [((VENDOR_ALPACA, ''sip_rth''), VOLUME_BASIS_CONSOLIDATED),
      ((VENDOR_IBKR, ''named''), VOLUME_BASIS_SMART),
      ((VENDOR_IBKR, ''smart_trades''), VOLUME_BASIS_SMART),
      ((VENDOR_IBKR, ''fallback''), VOLUME_BASIS_SMART),
      ((VENDOR_IBKR, ''venue''), VOLUME_BASIS_NONE)]"

definition volume_basis :: "string \<Rightarrow> string \<Rightarrow> err + int" where
  "volume_basis vendor kind =
     (case map_of VOLUME_BASIS_BY_VENDOR_KIND (vendor, kind) of
        Some b \<Rightarrow> Inr b
      | None \<Rightarrow> Inl ValueError)"

text \<open>\<open>numpy.searchsorted(stamps, v, side='left')\<close> on an ascending array: the number of leading
  elements below \<open>v\<close>.\<close>

definition searchsorted :: "int list \<Rightarrow> int \<Rightarrow> nat" where
  "searchsorted stamps v = length (takeWhile (\<lambda>s. s < v) stamps)"

fun grid_ends :: "int list \<Rightarrow> int \<Rightarrow> int list" where
  "grid_ends (t # u # ts) m = min (t + 60 * m) u # grid_ends (u # ts) m"
| "grid_ends [t] m = [t + 60 * m]"
| "grid_ends [] m = []"

definition basis_present :: "int list \<Rightarrow> nat \<Rightarrow> nat \<Rightarrow> int \<Rightarrow> bool" where
  "basis_present bases lo hi code \<longleftrightarrow> code \<in> set (take (hi - lo) (drop lo bases))"

text \<open>\<open>present.sum(axis=1) > 1\<close> and \<open>present.argmax(axis=1)\<close>: the first present code, and 0 when
  no code of the table is present.\<close>

definition basis_of_slice :: "int list \<Rightarrow> nat \<Rightarrow> nat \<Rightarrow> int" where
  "basis_of_slice bases lo hi =
     (case filter (basis_present bases lo hi) [0, 1, 2, 3] of
        [] \<Rightarrow> 0
      | [b] \<Rightarrow> b
      | b # _ # _ \<Rightarrow> VOLUME_BASIS_MIXED)"

definition grid_volume_basis :: "int list \<Rightarrow> int \<Rightarrow> int list \<Rightarrow> int list \<Rightarrow> err + int list" where
  "grid_volume_basis grid minutes stamps bases =
     (if length bases \<noteq> length stamps then Inl ValueError
      else
        let ends = grid_ends grid minutes;
            bounds = zip (map (searchsorted stamps) grid) (map (searchsorted stamps) ends)
        in if \<exists>(lo, hi) \<in> set bounds. hi \<le> lo then Inl ValueError
           else Inr (map (\<lambda>(lo, hi). basis_of_slice bases lo hi) bounds))"

section \<open>Lemmas\<close>

lemma vendor_kind_to_label_lookup:
  "map_of VENDOR_KIND_TO_LABEL p = map_of (rev (map (\<lambda>(label, pair). (pair, label)) LABEL_TO_VENDOR_KIND)) p"
  by (simp add: VENDOR_KIND_TO_LABEL_def dict_of_lookup)

lemma derived_pair_of_label: "label_to_vendor_kind SOURCE_DERIVED_5M = Inr DERIVED_PAIR"
  by (simp add: label_to_vendor_kind_def LABEL_TO_VENDOR_KIND_def DERIVED_PAIR_def label_defs)

lemma lower_routes:
  "lower ''AMEX'' = ''amex''" "lower ''ARCA'' = ''arca''" "lower ''BATS'' = ''bats''"
  "lower ''ISLAND'' = ''island''" "lower ''NYSE'' = ''nyse''"
  by code_simp+

lemma venue_route_kinds:
  "VENUE_ROUTE_KINDS = [''venue_amex'', ''venue_arca'', ''venue_bats'', ''venue_island'', ''venue_nyse'']"
  by (simp add: VENUE_ROUTE_KINDS_def VENUE_ROUTES_def lower_routes)

lemma observation_kind_cases:
  assumes "observation_kind source route what_to_show = Inr kind"
  obtains (smart) "source = VENDOR_IBKR" "kind = ''smart_trades''" "what_to_show = ''TRADES''"
  | (adjusted) "source = VENDOR_IBKR" "kind = ''smart_adjusted''"
  | (venue) "source = VENDOR_IBKR" "route \<in> set VENUE_ROUTES" "kind = ''venue_'' @ lower route"
  | (sip) "source = VENDOR_ALPACA" "kind = ''sip_rth''"
  | (iex) "source = VENDOR_ALPACA" "kind = ''iex_rth''"
  using assms by (auto simp: observation_kind_def split: if_splits)

lemma searchsorted_le: "searchsorted xs v \<le> length xs"
  by (simp add: searchsorted_def length_takeWhile_le)

lemma searchsorted_nth:
  assumes "sorted xs" "i < length xs"
  shows "i < searchsorted xs v \<longleftrightarrow> xs ! i < v"
proof
  assume "i < searchsorted xs v"
  then show "xs ! i < v"
    unfolding searchsorted_def by (metis nth_mem set_takeWhileD takeWhile_nth)
next
  assume *: "xs ! i < v"
  show "i < searchsorted xs v"
  proof (rule ccontr)
    let ?k = "searchsorted xs v"
    assume "\<not> i < ?k"
    then have "?k \<le> i" by simp
    then have k: "?k < length xs" using assms by simp
    then have "\<not> xs ! ?k < v"
      unfolding searchsorted_def by (rule nth_length_takeWhile)
    moreover have "xs ! ?k \<le> xs ! i"
      using assms \<open>?k \<le> i\<close> by (simp add: sorted_nth_mono)
    ultimately show False using * by simp
  qed
qed

lemma grid_ends_length [simp]: "length (grid_ends ts m) = length ts"
  by (induction ts m rule: grid_ends.induct) auto

lemma grid_ends_nth:
  "i < length ts \<Longrightarrow>
   grid_ends ts m ! i =
     (if i + 1 < length ts then min (ts ! i + 60 * m) (ts ! (i + 1)) else ts ! i + 60 * m)"
  by (induction ts m arbitrary: i rule: grid_ends.induct) (auto simp: nth_Cons split: nat.splits)

lemma basis_present_window:
  assumes "sorted stamps" "length bases = length stamps"
  shows "basis_present bases (searchsorted stamps t) (searchsorted stamps e) code \<longleftrightarrow>
         (\<exists>j < length stamps. t \<le> stamps ! j \<and> stamps ! j < e \<and> bases ! j = code)"
proof -
  let ?lo = "searchsorted stamps t" and ?hi = "searchsorted stamps e"
  have "basis_present bases ?lo ?hi code \<longleftrightarrow> (\<exists>j < length bases. ?lo \<le> j \<and> j < ?hi \<and> bases ! j = code)"
  proof
    assume "basis_present bases ?lo ?hi code"
    then obtain n where "n < ?hi - ?lo" "n < length bases - ?lo" "bases ! (?lo + n) = code"
      by (auto simp: basis_present_def in_set_conv_nth)
    then show "\<exists>j < length bases. ?lo \<le> j \<and> j < ?hi \<and> bases ! j = code"
      by (intro exI [of _ "?lo + n"]) auto
  next
    assume "\<exists>j < length bases. ?lo \<le> j \<and> j < ?hi \<and> bases ! j = code"
    then obtain j where "j < length bases" "?lo \<le> j" "j < ?hi" "bases ! j = code" by blast
    then show "basis_present bases ?lo ?hi code"
      unfolding basis_present_def in_set_conv_nth by (intro exI [of _ "j - ?lo"]) auto
  qed
  moreover have "?lo \<le> j \<and> j < ?hi \<longleftrightarrow> t \<le> stamps ! j \<and> stamps ! j < e" if "j < length stamps" for j
    using searchsorted_nth [OF assms(1) that] by (meson not_le)
  ultimately show ?thesis using assms(2) by auto
qed

lemma basis_of_slice_uniform:
  assumes "b \<in> {0, 1, 2, 3}" "\<And>c. basis_present bases lo hi c \<longleftrightarrow> c = b"
  shows "basis_of_slice bases lo hi = b"
  using assms by (auto simp: basis_of_slice_def)

lemma basis_of_slice_mixed:
  assumes "a \<in> {0, 1, 2, 3}" "b \<in> {0, 1, 2, 3}" "a \<noteq> b"
    "basis_present bases lo hi a" "basis_present bases lo hi b"
  shows "basis_of_slice bases lo hi = VOLUME_BASIS_MIXED"
  using assms by (auto simp: basis_of_slice_def)

section \<open>Properties\<close>

lemma label_roundtrip:
  "label_to_vendor_kind label = Inr (vendor, kind) \<longleftrightarrow> vendor_kind_to_label vendor kind = Inr label"
  unfolding label_to_vendor_kind_def vendor_kind_to_label_def vendor_kind_to_label_lookup
  by (auto simp: LABEL_TO_VENDOR_KIND_def label_defs split: if_splits)

lemma observation_vocabulary_closed:
  assumes "observation_kind source route what_to_show = Inr kind"
  shows "(source, kind) \<in> {(VENDOR_IBKR, ''smart_adjusted''), (VENDOR_ALPACA, ''iex_rth'')} \<or>
    (\<exists>c b. canonical_kind_for_raw source kind = Inr c \<and> (source, c) \<in> set CANONICAL_1D_SOURCES \<and>
      volume_basis source c = Inr b)"
  using assms
proof (cases rule: observation_kind_cases)
  case venue
  then have "kind \<in> set VENUE_ROUTE_KINDS"
    by (auto simp: VENUE_ROUTE_KINDS_def)
  with venue show ?thesis
    by (auto simp: canonical_kind_for_raw_def volume_basis_def VOLUME_BASIS_BY_VENDOR_KIND_def
        CANONICAL_1D_SOURCES_def VENDOR_IBKR_def VENDOR_ALPACA_def)
qed (auto simp: canonical_kind_for_raw_def volume_basis_def VOLUME_BASIS_BY_VENDOR_KIND_def
        CANONICAL_KIND_FOR_RAW_def CANONICAL_1D_SOURCES_def VENDOR_IBKR_def VENDOR_ALPACA_def)

text \<open>The constituents of the grid bar at index \<open>i\<close>: the 5m stamps from its stamp up to its end or
  the next grid stamp.\<close>

definition constituent :: "int list \<Rightarrow> int \<Rightarrow> int list \<Rightarrow> nat \<Rightarrow> nat \<Rightarrow> bool" where
  "constituent grid minutes stamps i j \<longleftrightarrow>
     j < length stamps \<and> grid ! i \<le> stamps ! j \<and> stamps ! j < grid_ends grid minutes ! i"

lemma grid_volume_basis_nth:
  assumes "grid_volume_basis grid minutes stamps bases = Inr out" and "i < length grid"
  defines "lo \<equiv> searchsorted stamps (grid ! i)"
  defines "hi \<equiv> searchsorted stamps (grid_ends grid minutes ! i)"
  shows "length bases = length stamps" "lo < hi" "out ! i = basis_of_slice bases lo hi"
proof -
  let ?bounds = "zip (map (searchsorted stamps) grid) (map (searchsorted stamps) (grid_ends grid minutes))"
  show "length bases = length stamps" using assms(1)
    by (auto simp: grid_volume_basis_def split: if_splits)
  from assms(1) have ok: "\<not> (\<exists>(lo, hi) \<in> set ?bounds. hi \<le> lo)"
    and out: "out = map (\<lambda>(lo, hi). basis_of_slice bases lo hi) ?bounds"
    by (auto simp: grid_volume_basis_def Let_def split: if_splits)
  from assms(2) have "(lo, hi) \<in> set ?bounds"
    by (auto simp: in_set_conv_nth lo_def hi_def intro!: exI [of _ i])
  with ok show "lo < hi" by force
  from out assms(2) show "out ! i = basis_of_slice bases lo hi"
    by (simp add: lo_def hi_def)
qed

lemma grid_volume_basis_spec:
  assumes "grid_volume_basis grid minutes stamps bases = Inr out"
    and "sorted stamps" and "set bases \<subseteq> {0, 1, 2, 3}" and "i < length grid"
  shows "(\<exists>j. constituent grid minutes stamps i j) \<and>
    (\<forall>b. (\<forall>j. constituent grid minutes stamps i j \<longrightarrow> bases ! j = b) \<longrightarrow> out ! i = b) \<and>
    (\<forall>j k. constituent grid minutes stamps i j \<longrightarrow> constituent grid minutes stamps i k \<longrightarrow>
       bases ! j \<noteq> bases ! k \<longrightarrow> out ! i = VOLUME_BASIS_MIXED)"
proof (intro conjI allI impI)
  note slice = grid_volume_basis_nth [OF assms(1,4)]
  let ?lo = "searchsorted stamps (grid ! i)"
  let ?hi = "searchsorted stamps (grid_ends grid minutes ! i)"
  have present: "basis_present bases ?lo ?hi c \<longleftrightarrow> (\<exists>j. constituent grid minutes stamps i j \<and> bases ! j = c)" for c
    using basis_present_window [OF assms(2) slice(1)] by (auto simp: constituent_def)
  have in_table: "bases ! j \<in> {0, 1, 2, 3}" if "constituent grid minutes stamps i j" for j
    using that slice(1) by (intro subsetD [OF assms(3)] nth_mem) (simp add: constituent_def)
  have "?lo < length stamps" using slice(2) searchsorted_le [of stamps] by (meson less_le_trans)
  then have "constituent grid minutes stamps i ?lo"
    using slice(2) searchsorted_nth [OF assms(2)] by (auto simp: constituent_def not_less [symmetric])
  then show ex: "\<exists>j. constituent grid minutes stamps i j" ..
  show "out ! i = b" if "\<forall>j. constituent grid minutes stamps i j \<longrightarrow> bases ! j = b" for b
    unfolding slice(3) using that ex in_table present by (intro basis_of_slice_uniform) auto
  show "out ! i = VOLUME_BASIS_MIXED"
    if "constituent grid minutes stamps i j" "constituent grid minutes stamps i k"
      "bases ! j \<noteq> bases ! k" for j k
    unfolding slice(3) using that in_table present
    by (intro basis_of_slice_mixed [of "bases ! j" "bases ! k"]) auto
qed

lemma grid_volume_basis_spec_witness:
  "(\<exists>j. constituent [0, 900] 15 [0, 300, 900] 0 j) \<and> [3, 1::int] ! 0 = VOLUME_BASIS_MIXED"
proof -
  have "grid_volume_basis [0, 900] 15 [0, 300, 900] [1, 2, 1] = Inr [3, 1]" by code_simp
  from grid_volume_basis_spec [OF this, of 0] show ?thesis by (simp add: VOLUME_BASIS_MIXED_def)
qed

lemma observation_vocabulary_closed_witness:
  "(VENDOR_IBKR, ''venue_arca'') \<in> {(VENDOR_IBKR, ''smart_adjusted''), (VENDOR_ALPACA, ''iex_rth'')} \<or>
    (\<exists>c b. canonical_kind_for_raw VENDOR_IBKR ''venue_arca'' = Inr c \<and>
      (VENDOR_IBKR, c) \<in> set CANONICAL_1D_SOURCES \<and> volume_basis VENDOR_IBKR c = Inr b)"
  by (rule observation_vocabulary_closed [of _ "''ARCA''" "''TRADES''"]) code_simp

end
