(* ===== verification/Policy.thy ===== *)
theory Policy
  imports Prelude
begin

text \<open>
  The contract of a policy lookup, stated once.  Three parts of the repository resolve a
  \<open>bar_source_policy\<close> row for a symbol (\<open>selection.rank_vendors\<close>, \<open>daily_rule.resolve_policy\<close>):
  the row of the symbol itself beats the default row, two rows of one scope are an error, and no
  row at all raises \<open>LookupError\<close>.  The clients' lemmas are proved from that contract.
\<close>

locale scoped_policy =
  fixes scope :: "'r \<Rightarrow> string option"
    and in_force :: "'k \<Rightarrow> 'r \<Rightarrow> bool"
    and lookup :: "'r list \<Rightarrow> string \<Rightarrow> 'k \<Rightarrow> err + 'a"
    and view :: "'r \<Rightarrow> 'a"
    and clash :: err
  assumes symbol_row:
      "filter (\<lambda>r. in_force k r \<and> scope r = Some s) rows = [r] \<Longrightarrow> lookup rows s k = Inr (view r)"
    and symbol_clash:
      "1 < length (filter (\<lambda>r. in_force k r \<and> scope r = Some s) rows) \<Longrightarrow> lookup rows s k = Inl clash"
    and default_row:
      "filter (\<lambda>r. in_force k r \<and> scope r = Some s) rows = [] \<Longrightarrow>
       filter (\<lambda>r. in_force k r \<and> scope r = None) rows = [r] \<Longrightarrow> lookup rows s k = Inr (view r)"
    and default_clash:
      "filter (\<lambda>r. in_force k r \<and> scope r = Some s) rows = [] \<Longrightarrow>
       1 < length (filter (\<lambda>r. in_force k r \<and> scope r = None) rows) \<Longrightarrow> lookup rows s k = Inl clash"
    and no_row:
      "filter (\<lambda>r. in_force k r \<and> scope r = Some s) rows = [] \<Longrightarrow>
       filter (\<lambda>r. in_force k r \<and> scope r = None) rows = [] \<Longrightarrow> lookup rows s k = Inl LookupError"
begin

definition scope_rows :: "'r list \<Rightarrow> string option \<Rightarrow> 'k \<Rightarrow> 'r list" where
  "scope_rows rows sc k = filter (\<lambda>r. in_force k r \<and> scope r = sc) rows"

lemma lookup_cases:
  "lookup rows s k =
     (case scope_rows rows (Some s) k of
        [r] \<Rightarrow> Inr (view r)
      | _ # _ # _ \<Rightarrow> Inl clash
      | [] \<Rightarrow> (case scope_rows rows None k of
                  [r] \<Rightarrow> Inr (view r)
                | _ # _ # _ \<Rightarrow> Inl clash
                | [] \<Rightarrow> Inl LookupError))"
  using symbol_row [of k s rows] symbol_clash [of k s rows] default_row [of k s rows]
    default_clash [of k s rows] no_row [of k s rows]
  by (auto simp: scope_rows_def split: list.splits)

lemma lookup_cong:
  "scope_rows rows (Some s) k = scope_rows rows' (Some s) k \<Longrightarrow>
   scope_rows rows None k = scope_rows rows' None k \<Longrightarrow> lookup rows s k = lookup rows' s k"
  by (simp only: lookup_cases)

lemma lookup_sound:
  assumes "lookup rows s k = Inr a"
  shows "\<exists>r \<in> set rows. in_force k r \<and> view r = a \<and>
    (scope r = Some s \<or> scope r = None \<and> (\<forall>q \<in> set rows. in_force k q \<longrightarrow> scope q \<noteq> Some s))"
proof -
  consider (own) r where "scope_rows rows (Some s) k = [r]" "a = view r"
    | (default) r where "scope_rows rows (Some s) k = []" "scope_rows rows None k = [r]" "a = view r"
    using assms by (auto simp: lookup_cases split: list.splits)
  then show ?thesis
  proof cases
    case own
    then have "r \<in> set (scope_rows rows (Some s) k)" by simp
    then have "r \<in> set rows" "in_force k r" "scope r = Some s" by (auto simp: scope_rows_def)
    with own show ?thesis by blast
  next
    case default
    then have "r \<in> set (scope_rows rows None k)" by simp
    then have "r \<in> set rows" "in_force k r" "scope r = None" by (auto simp: scope_rows_def)
    moreover from default have "\<forall>q \<in> set rows. in_force k q \<longrightarrow> scope q \<noteq> Some s"
      by (auto simp: scope_rows_def filter_empty_conv)
    ultimately show ?thesis using default by blast
  qed
qed

lemma permuted_short_or_long:
  assumes "mset xs = mset ys"
  shows "xs = ys \<or> (\<exists>x x' xs' y y' ys'. xs = x # x' # xs' \<and> ys = y # y' # ys')"
proof (cases "length xs \<le> 1")
  case True
  with assms show ?thesis by (cases xs) auto
next
  case False
  then have "\<not> length ys \<le> 1" using assms by (metis size_mset)
  with False show ?thesis by (cases xs; cases "tl xs"; cases ys; cases "tl ys") auto
qed

lemma lookup_permuted:
  assumes "mset rows = mset rows'"
  shows "lookup rows s k = lookup rows' s k"
proof -
  have "mset (scope_rows rows sc k) = mset (scope_rows rows' sc k)" for sc
    using assms by (simp add: scope_rows_def)
  note either = permuted_short_or_long [OF this]
  from either [of "Some s"] either [of None] show ?thesis
    by (elim disjE exE conjE) (simp_all add: lookup_cases split: list.split)
qed

lemma lookup_scoped:
  "lookup (filter (\<lambda>r. scope r \<in> {None, Some s}) rows) s k = lookup rows s k"
proof (rule lookup_cong)
  show "scope_rows (filter (\<lambda>r. scope r \<in> {None, Some s}) rows) (Some s) k = scope_rows rows (Some s) k"
    by (auto simp: scope_rows_def intro: filter_cong)
  show "scope_rows (filter (\<lambda>r. scope r \<in> {None, Some s}) rows) None k = scope_rows rows None k"
    by (auto simp: scope_rows_def intro: filter_cong)
qed

lemma lookup_irrelevant:
  assumes "\<And>r. r \<in> set extra \<Longrightarrow> in_force k r \<Longrightarrow> scope r \<noteq> Some s \<and> scope r \<noteq> None"
  shows "lookup (rows @ extra) s k = lookup rows s k"
proof (rule lookup_cong)
  have none: "scope_rows extra sc k = []" if "sc = Some s \<or> sc = None" for sc
    unfolding scope_rows_def filter_empty_conv using assms that by blast
  show "scope_rows (rows @ extra) (Some s) k = scope_rows rows (Some s) k"
    using none by (simp add: scope_rows_def)
  show "scope_rows (rows @ extra) None k = scope_rows rows None k"
    using none by (simp add: scope_rows_def)
qed

end

end
