(* ===== verification/Selection.thy ===== *)
theory Selection
  imports Sessions Vendor_Kind Policy
begin

text \<open>
  Canonical bar selection, \<open>src/intelligence/bars/selection.py\<close>: per (symbol, timeframe, session)
  one vendor is chosen by policy and every slot's winner is that vendor's best kind.

  The exchange calendar and the New York date are the parameters \<open>cal\<close> and \<open>ny\<close> of theory
  \<open>Sessions\<close>.  A frozen set of stamps is the list of its elements, used only through membership
  and the number of its distinct elements.
\<close>

definition NEVER_SELECTED_KINDS :: "string set" where
  "NEVER_SELECTED_KINDS = {''smart_adjusted'', ''iex_rth''}"

definition RTH_GRID_STEP_MINUTES :: "(string \<times> int) list" where
  "RTH_GRID_STEP_MINUTES = [(''5m'', 5)]"

definition SESSION_BOUND_KINDS :: "string set" where
  "SESSION_BOUND_KINDS = {''sip_rth'', ''iex_rth''}"

record policy_row =
  pr_timeframe :: string
  pr_symbol :: "string option"
  pr_valid_from :: day
  pr_valid_to :: "day option"
  pr_primary :: string
  pr_fallback :: "string option"

definition covers :: "policy_row \<Rightarrow> day \<Rightarrow> bool" where
  "covers p d \<longleftrightarrow> pr_valid_from p \<le> d \<and> (case pr_valid_to p of None \<Rightarrow> True | Some e \<Rightarrow> d < e)"

record candidate =
  c_timestamp :: stamp
  c_symbol :: string
  c_timeframe :: string
  c_vendor :: string
  c_kind :: string
  c_open :: real
  c_high :: real
  c_low :: real
  c_close :: real
  c_volume :: "int option"

definition rth_grid_stamps :: "schedule \<Rightarrow> string \<Rightarrow> int \<Rightarrow> int \<Rightarrow> err + stamp list" where
  "rth_grid_stamps cal timeframe first_year last_year =
     (case map_of RTH_GRID_STEP_MINUTES timeframe of
        None \<Rightarrow> Inl KeyError
      | Some m \<Rightarrow>
          if first_year < 1 \<or> 9999 < last_year then Inl ValueError
          else ebind (nyse_sessions cal (jan1 first_year) (jan1 (last_year + 1) - 1)) (\<lambda>ss.
            Inr (concat (map (\<lambda>(_, opn, cls). steps opn cls (m * minute)) ss))))"

definition session_bound :: "candidate \<Rightarrow> bool" where
  "session_bound c \<longleftrightarrow>
     c_timeframe c \<in> set (map fst RTH_GRID_STEP_MINUTES) \<and> c_kind c \<in> SESSION_BOUND_KINDS"

definition utc_year :: "candidate \<Rightarrow> int" where
  "utc_year c = year_of (utc_day (c_timestamp c))"

definition session_grids :: "schedule \<Rightarrow> candidate list \<Rightarrow> err + (string \<times> stamp list) list" where
  "session_grids cal held =
     emap_dict (\<lambda>tf cs. rth_grid_stamps cal tf (Min (utc_year ` set cs) - 1) (Max (utc_year ` set cs) + 1))
       (group_by c_timeframe (filter session_bound held))"

definition off_session :: "(string \<times> stamp list) list \<Rightarrow> candidate \<Rightarrow> bool" where
  "off_session grids c \<longleftrightarrow>
     c_kind c \<in> SESSION_BOUND_KINDS \<and>
     (case map_of grids (c_timeframe c) of
        None \<Rightarrow> False
      | Some g \<Rightarrow> c_timestamp c \<notin> set g)"

definition partition_session ::
  "schedule \<Rightarrow> candidate list \<Rightarrow> err + candidate list \<times> candidate list" where
  "partition_session cal candidates =
     ebind (session_grids cal candidates) (\<lambda>grids.
       Inr (filter (\<lambda>c. \<not> off_session grids c) candidates, filter (off_session grids) candidates))"

text \<open>\<open>session_date\<close> is the New York date of an instant, the parameter \<open>ny\<close>.\<close>

definition vendors_of :: "policy_row \<Rightarrow> string list" where
  "vendors_of row =
     pr_primary row # (case pr_fallback row of None \<Rightarrow> [] | Some f \<Rightarrow> if f = '''' then [] else [f])"

fun rank_scopes ::
  "policy_row list \<Rightarrow> string option list \<Rightarrow> err + string list" where
  "rank_scopes covering [] = Inl LookupError"
| "rank_scopes covering (scope # scopes) =
     (case filter (\<lambda>p. pr_symbol p = scope) covering of
        [] \<Rightarrow> rank_scopes covering scopes
      | [row] \<Rightarrow> Inr (vendors_of row)
      | _ # _ # _ \<Rightarrow> Inl ValueError)"

definition rank_vendors ::
  "policy_row list \<Rightarrow> string \<Rightarrow> string \<Rightarrow> day \<Rightarrow> err + string list" where
  "rank_vendors policy_rows symbol timeframe slot_date =
     rank_scopes (filter (\<lambda>p. pr_timeframe p = timeframe \<and> covers p slot_date) policy_rows)
       [Some symbol, None]"

definition eligible :: "string list \<Rightarrow> candidate \<Rightarrow> bool" where
  "eligible ranking c \<longleftrightarrow>
     c_vendor c \<noteq> VENDOR_DERIVED \<and> c_kind c \<notin> NEVER_SELECTED_KINDS \<and> c_vendor c \<in> set ranking"

definition kind_rank :: "(string \<times> int) list \<Rightarrow> candidate \<Rightarrow> int \<times> string" where
  "kind_rank kind_order c = (the (map_of kind_order (c_kind c)), c_kind c)"

fun select_from ::
  "candidate list \<Rightarrow> string list \<Rightarrow> (string \<times> int) list \<Rightarrow> err + candidate option" where
  "select_from elig [] kind_order = Inr None"
| "select_from elig (vendor # ranking) kind_order =
     (let held = filter (\<lambda>c. c_vendor c = vendor) elig
      in if held = [] then select_from elig ranking kind_order
         else if \<exists>c \<in> set held. c_kind c \<notin> set (map fst kind_order) then Inl KeyError
         else Inr (Some (arg_min_list (kind_rank kind_order) held)))"

definition select_slot ::
  "candidate list \<Rightarrow> string list \<Rightarrow> (string \<times> int) list \<Rightarrow> err + candidate option" where
  "select_slot candidates ranking kind_order =
     select_from (filter (eligible ranking) candidates) ranking kind_order"

definition grid_by_session ::
  "schedule \<Rightarrow> (stamp \<Rightarrow> day) \<Rightarrow> string \<Rightarrow> int \<Rightarrow> err + (day \<times> stamp list) list" where
  "grid_by_session cal ny timeframe year =
     ebind (rth_grid_stamps cal timeframe year year) (\<lambda>stamps. Inr (group_by ny stamps))"

definition session_grid ::
  "schedule \<Rightarrow> (stamp \<Rightarrow> day) \<Rightarrow> string \<Rightarrow> day \<Rightarrow> err + stamp list option" where
  "session_grid cal ny timeframe d =
     (if timeframe \<notin> set (map fst RTH_GRID_STEP_MINUTES) then Inr None
      else ebind (grid_by_session cal ny timeframe (year_of d)) (\<lambda>g. Inr (map_of g d)))"

record session_choice =
  sc_symbol :: string
  sc_timeframe :: string
  sc_session :: day
  sc_ranking :: "string list"
  sc_vendor :: string
  sc_complete :: bool
  sc_n_slots :: nat
  sc_n_vendor_slots :: nat
  sc_n_grid_slots :: "nat option"
  sc_n_vendor_grid_slots :: "nat option"
  sc_dropped :: "stamp list"
  sc_n_primary_grid_slots :: "nat option"

definition choice_fallback :: "session_choice \<Rightarrow> bool" where
  "choice_fallback ch \<longleftrightarrow> sc_vendor ch \<noteq> hd (sc_ranking ch)"

definition choice_partial :: "session_choice \<Rightarrow> bool" where
  "choice_partial ch \<longleftrightarrow>
     (case sc_n_grid_slots ch of
        None \<Rightarrow> False
      | Some n \<Rightarrow> (case sc_n_vendor_grid_slots ch of None \<Rightarrow> 0 | Some m \<Rightarrow> m) < n)"

type_synonym slot = "string \<times> string \<times> stamp"

record selection_outcome =
  so_winners :: "candidate list"
  so_n_slots :: nat
  so_n_unselected :: nat
  so_n_off_grid :: nat
  so_dropped :: "slot list"
  so_unselected :: "slot list"
  so_n_excluded :: nat
  so_choices :: "session_choice list"
  so_sessions :: "day list"

text \<open>One turn of the loop over sessions.  \<open>slots\<close> is the session's dict from stamp to the
  candidates there; \<open>held_by\<close> is \<open>by_vendor[vendor]\<close>, the vendor's best candidate per slot.\<close>

definition held_by ::
  "(string \<times> int) list \<Rightarrow> (stamp \<times> candidate list) list \<Rightarrow> string \<Rightarrow> err + (stamp \<times> candidate) list" where
  "held_by kind_order slots vendor =
     ebind (emap (\<lambda>(ts, here). ebind (select_slot here [vendor] kind_order) (\<lambda>best. Inr (ts, best))) slots)
       (\<lambda>bs. Inr (concat (map (\<lambda>(ts, best). case best of None \<Rightarrow> [] | Some c \<Rightarrow> [(ts, c)]) bs)))"

definition has :: "('k \<times> 'v) list \<Rightarrow> 'k \<Rightarrow> bool" where
  "has d k \<longleftrightarrow> k \<in> set (map fst d)"

definition n_in :: "'a list \<Rightarrow> ('a \<times> 'v) list \<Rightarrow> nat" where
  "n_in xs d = length (filter (has d) (remdups xs))"

text \<open>\<open>choose_vendor\<close>: the first ranked vendor that holds every judged slot, else the first of
  those holding the most.\<close>

definition holds_all :: "stamp list \<Rightarrow> (stamp \<times> candidate) list \<Rightarrow> bool" where
  "holds_all judged d \<longleftrightarrow> (\<forall>ts \<in> set judged. has d ts)"

definition choose_vendor ::
  "(string \<times> (stamp \<times> candidate) list) list \<Rightarrow> stamp list \<Rightarrow> (string \<times> (stamp \<times> candidate) list) \<times> bool" where
  "choose_vendor by_vendor judged =
     (case filter (\<lambda>(v, d). holds_all judged d) by_vendor of
        vd # _ \<Rightarrow> (vd, True)
      | [] \<Rightarrow>
          let most = Max ((\<lambda>(v, d). n_in judged d) ` set by_vendor)
          in (hd (filter (\<lambda>(v, d). n_in judged d = most) by_vendor), False))"

record session_result =
  sr_winners :: "candidate list"
  sr_dropped :: "slot list"
  sr_unselected :: "slot list"
  sr_n_slots :: nat
  sr_n_unselected :: nat
  sr_n_excluded :: nat
  sr_choices :: "session_choice list"

definition all_never :: "candidate list \<Rightarrow> bool" where
  "all_never here \<longleftrightarrow> (\<forall>c \<in> set here. c_kind c \<in> NEVER_SELECTED_KINDS)"

definition session_choice_of ::
  "string \<Rightarrow> string \<Rightarrow> day \<Rightarrow> (string \<times> (stamp \<times> candidate) list) list \<Rightarrow> stamp list \<Rightarrow> stamp list option
   \<Rightarrow> session_choice" where
  "session_choice_of symbol timeframe d by_vendor session_slots grid =
     (let judged = (case grid of None \<Rightarrow> session_slots | Some g \<Rightarrow> filter (\<lambda>ts. ts \<in> set g) session_slots);
          ((chosen, held), complete) = choose_vendor by_vendor judged
      in \<lparr>sc_symbol = symbol, sc_timeframe = timeframe, sc_session = d,
          sc_ranking = map fst by_vendor, sc_vendor = chosen, sc_complete = complete,
          sc_n_slots = length session_slots, sc_n_vendor_slots = length held,
          sc_n_grid_slots = map_option (\<lambda>g. length (remdups g)) grid,
          sc_n_vendor_grid_slots = map_option (\<lambda>g. n_in g held) grid,
          sc_dropped = filter (\<lambda>ts. \<not> has held ts) session_slots,
          sc_n_primary_grid_slots = map_option (\<lambda>g. n_in g (snd (hd by_vendor))) grid\<rparr>)"

definition session_result_of ::
  "string \<Rightarrow> string \<Rightarrow> day \<Rightarrow> (stamp \<times> candidate list) list \<Rightarrow> (string \<times> (stamp \<times> candidate) list) list
   \<Rightarrow> stamp list option \<Rightarrow> session_result" where
  "session_result_of symbol timeframe d slots by_vendor grid =
     (let stamps = sort (map fst slots);
          session_slots = filter (\<lambda>ts. \<exists>(v, h) \<in> set by_vendor. has h ts) stamps;
          missing = filter (\<lambda>ts. ts \<notin> set session_slots) stamps;
          excluded = filter (\<lambda>ts. all_never (the (map_of slots ts))) missing;
          base = \<lparr>sr_winners = [], sr_dropped = [],
                  sr_unselected = map (\<lambda>ts. (symbol, timeframe, ts)) missing,
                  sr_n_slots = length slots,
                  sr_n_unselected = length missing - length excluded,
                  sr_n_excluded = length excluded, sr_choices = []\<rparr>
      in if session_slots = [] then base
         else
           let choice = session_choice_of symbol timeframe d by_vendor session_slots grid;
               held = the (map_of by_vendor (sc_vendor choice))
           in base\<lparr>sr_winners := map (\<lambda>ts. the (map_of held ts)) (filter (has held) session_slots),
                   sr_dropped := map (\<lambda>ts. (symbol, timeframe, ts)) (sc_dropped choice),
                   sr_choices :=
                     (if choice_fallback choice \<or> \<not> sc_complete choice \<or> choice_partial choice
                      then [choice] else [])\<rparr>)"

definition select_session ::
  "schedule \<Rightarrow> (stamp \<Rightarrow> day) \<Rightarrow> policy_row list \<Rightarrow> (string \<times> int) list
   \<Rightarrow> (string \<times> string \<times> day) \<times> (stamp \<times> candidate list) list \<Rightarrow> err + session_result" where
  "select_session cal ny policy_rows kind_order = (\<lambda>((symbol, timeframe, d), slots).
     let scoped = filter (\<lambda>p. pr_timeframe p = timeframe \<and> pr_symbol p \<in> {None, Some symbol}) policy_rows
     in ebind (rank_vendors scoped symbol timeframe d) (\<lambda>ranking.
        ebind (emap (\<lambda>v. ebind (held_by kind_order slots v) (\<lambda>h. Inr (v, h))) ranking) (\<lambda>by_vendor.
        ebind (session_grid cal ny timeframe d) (\<lambda>grid.
          Inr (session_result_of symbol timeframe d slots by_vendor grid)))))"

definition session_key :: "(stamp \<Rightarrow> day) \<Rightarrow> candidate \<Rightarrow> string \<times> string \<times> day" where
  "session_key ny c = (c_symbol c, c_timeframe c, ny (c_timestamp c))"

definition sessions_of ::
  "(stamp \<Rightarrow> day) \<Rightarrow> candidate list \<Rightarrow> ((string \<times> string \<times> day) \<times> (stamp \<times> candidate list) list) list" where
  "sessions_of ny on = map (\<lambda>(k, cs). (k, group_by c_timestamp cs)) (group_by (session_key ny) on)"

definition select_slots ::
  "schedule \<Rightarrow> (stamp \<Rightarrow> day) \<Rightarrow> candidate list \<Rightarrow> policy_row list \<Rightarrow> (string \<times> int) list
   \<Rightarrow> err + selection_outcome" where
  "select_slots cal ny candidates policy_rows kind_order =
     ebind (partition_session cal candidates) (\<lambda>(on, off).
       let sess = sort_key fst (sessions_of ny on)
       in ebind (emap (select_session cal ny policy_rows kind_order) sess) (\<lambda>rs.
          Inr \<lparr>so_winners = concat (map sr_winners rs),
               so_n_slots = sum_list (map sr_n_slots rs),
               so_n_unselected = sum_list (map sr_n_unselected rs),
               so_n_off_grid = length off,
               so_dropped = concat (map sr_dropped rs),
               so_unselected = concat (map sr_unselected rs),
               so_n_excluded = sum_list (map sr_n_excluded rs),
               so_choices = concat (map sr_choices rs),
               so_sessions = sorted_set (map (\<lambda>((_, _, d), _). d) sess)\<rparr>))"

definition select_all ::
  "schedule \<Rightarrow> (stamp \<Rightarrow> day) \<Rightarrow> candidate list \<Rightarrow> policy_row list \<Rightarrow> (string \<times> int) list
   \<Rightarrow> err + candidate list" where
  "select_all cal ny candidates policy_rows kind_order =
     ebind (select_slots cal ny candidates policy_rows kind_order) (\<lambda>out. Inr (so_winners out))"

end
