(* ===== verification/Selection_Correct.thy ===== *)
theory Selection_Correct
  imports Selection
begin

text \<open>
  Correctness of canonical bar selection (\<open>src/intelligence/bars/selection.py\<close>): the ranking obeys
  the policy-lookup contract, selection does not depend on the order of its candidates, a session
  is served by one ranked vendor, and every on-grid slot is accounted for exactly once.
\<close>

section \<open>The ranking\<close>

interpretation rank: scoped_policy pr_symbol
  "\<lambda>(tf, d) p. pr_timeframe p = tf \<and> covers p d"
  "\<lambda>rows s (tf, d). rank_vendors rows s tf d" vendors_of ValueError
  by unfold_locales
    (auto simp: rank_vendors_def conj_commute conj_left_commute split: list.splits)

section \<open>Order independence of a slot\<close>

lemma arg_min_list_set_cong:
  assumes "set xs = set ys" "xs \<noteq> []" "inj_on f (set xs)"
  shows "arg_min_list (f :: 'a \<Rightarrow> 'b::linorder) xs = arg_min_list f ys"
proof -
  from assms have "ys \<noteq> []" by auto
  have "f (arg_min_list f xs) = f (arg_min_list f ys)"
    using assms \<open>ys \<noteq> []\<close> by (simp add: f_arg_min_list_f)
  moreover have "arg_min_list f xs \<in> set xs" "arg_min_list f ys \<in> set xs"
    using assms \<open>ys \<noteq> []\<close> arg_min_list_in by metis+
  ultimately show ?thesis using assms(3) by (meson inj_onD)
qed

definition vk :: "candidate \<Rightarrow> string \<times> string" where
  "vk c = (c_vendor c, c_kind c)"

lemma select_from_cong:
  assumes "set xs = set ys" "inj_on vk (set xs)"
  shows "select_from xs ranking ko = select_from ys ranking ko"
proof (induction ranking)
  case (Cons v ranking)
  let ?h = "filter (\<lambda>c. c_vendor c = v)"
  have same: "set (?h xs) = set (?h ys)" using assms(1) by simp
  have "inj_on (kind_rank ko) (set (?h xs))"
    using assms(2) by (auto simp: inj_on_def kind_rank_def vk_def)
  then have "arg_min_list (kind_rank ko) (?h xs) = arg_min_list (kind_rank ko) (?h ys)" if "?h xs \<noteq> []"
    using same that by (intro arg_min_list_set_cong) auto
  moreover have "?h xs = [] \<longleftrightarrow> ?h ys = []" using same by (metis set_empty)
  ultimately show ?case
    using Cons same unfolding select_from.simps Let_def by (auto simp del: set_filter)
qed simp

lemma select_slot_cong:
  assumes "set xs = set ys" "inj_on vk (set xs)"
  shows "select_slot xs ranking ko = select_slot ys ranking ko"
  unfolding select_slot_def using assms by (intro select_from_cong) (auto simp: inj_on_def)

lemma select_slot_error: "select_slot xs ranking ko = Inl e \<Longrightarrow> e = KeyError"
proof -
  have "select_from ys ranking ko = Inl e \<Longrightarrow> e = KeyError" for ys
    by (induction ranking) (auto simp: Let_def split: if_splits)
  then show "select_slot xs ranking ko = Inl e \<Longrightarrow> e = KeyError"
    by (simp add: select_slot_def)
qed

lemma select_from_Some:
  "select_from xs ranking ko = Inr (Some c) \<Longrightarrow> c \<in> set xs \<and> c_vendor c \<in> set ranking"
proof (induction ranking)
  case (Cons v ranking)
  let ?h = "filter (\<lambda>c. c_vendor c = v) xs"
  show ?case
  proof (cases "?h = []")
    case True
    with Cons show ?thesis by (auto simp: Let_def)
  next
    case False
    with Cons.prems have "c = arg_min_list (kind_rank ko) ?h"
      by (auto simp: Let_def split: if_splits)
    with False have "c \<in> set ?h" by (metis arg_min_list_in)
    then show ?thesis by auto
  qed
qed simp

lemma select_slot_Some:
  assumes "select_slot xs ranking ko = Inr (Some c)"
  shows "c \<in> set xs" "eligible ranking c"
  using select_from_Some [OF assms [unfolded select_slot_def]] by auto

lemma select_slot_None:
  assumes "select_slot xs [v] ko = Inr None" "c \<in> set xs"
  shows "\<not> eligible [v] c"
  using assms by (auto simp: select_slot_def Let_def eligible_def filter_empty_conv split: if_splits)

section \<open>What a vendor holds of a session\<close>

definition best :: "(string \<times> int) list \<Rightarrow> string \<Rightarrow> candidate list \<Rightarrow> candidate option" where
  "best ko v here = (case select_slot here [v] ko of Inr b \<Rightarrow> b | Inl _ \<Rightarrow> None)"

definition bad :: "(string \<times> int) list \<Rightarrow> string \<Rightarrow> candidate list \<Rightarrow> bool" where
  "bad ko v here \<longleftrightarrow> select_slot here [v] ko = Inl KeyError"

lemma held_by_eq:
  "held_by ko slots v =
     (if \<exists>p \<in> set slots. bad ko v (snd p) then Inl KeyError
      else Inr (concat (map (\<lambda>(ts, here). case best ko v here of None \<Rightarrow> [] | Some c \<Rightarrow> [(ts, c)]) slots)))"
proof (induction slots)
  case (Cons p slots)
  obtain ts here where [simp]: "p = (ts, here)" by (cases p)
  show ?case
  proof (cases "select_slot here [v] ko")
    case (Inl e)
    then have "e = KeyError" by (rule select_slot_error)
    with Inl show ?thesis by (simp add: held_by_def bad_def)
  next
    case (Inr b)
    then have "\<not> bad ko v here" "best ko v here = b" by (auto simp: bad_def best_def)
    with Inr Cons show ?thesis
      by (cases "emap (\<lambda>(ts, here). ebind (select_slot here [v] ko) (\<lambda>best. Inr (ts, best))) slots")
        (auto simp: held_by_def split: if_splits option.split)
  qed
qed (simp add: held_by_def)

lemma held_by_distinct:
  "held_by ko slots v = Inr h \<Longrightarrow> distinct (map fst slots) \<Longrightarrow>
   distinct (map fst h) \<and> set (map fst h) \<subseteq> set (map fst slots)"
proof (induction slots arbitrary: h)
  case (Cons p slots)
  obtain ts here where [simp]: "p = (ts, here)" by (cases p)
  from Cons.prems obtain h' where h': "held_by ko slots v = Inr h'"
    and h: "h = (case best ko v here of None \<Rightarrow> [] | Some c \<Rightarrow> [(ts, c)]) @ h'"
    by (auto simp: held_by_eq split: if_splits)
  have "distinct (map fst h')" "set (map fst h') \<subseteq> set (map fst slots)"
    using Cons.IH [OF h'] Cons.prems(2) by auto
  with h Cons.prems(2) show ?case by (cases "best ko v here") auto
qed (simp add: held_by_def)

lemma held_by_lookup:
  "held_by ko slots v = Inr h \<Longrightarrow> distinct (map fst slots) \<Longrightarrow>
   map_of h ts = Option.bind (map_of slots ts) (best ko v)"
proof (induction slots arbitrary: h)
  case (Cons p slots)
  obtain t here where [simp]: "p = (t, here)" by (cases p)
  from Cons.prems obtain h' where h': "held_by ko slots v = Inr h'"
    and h: "h = (case best ko v here of None \<Rightarrow> [] | Some c \<Rightarrow> [(t, c)]) @ h'"
    by (auto simp: held_by_eq split: if_splits)
  have "map_of h' ts = Option.bind (map_of slots ts) (best ko v)"
    using Cons h' by simp
  moreover have "map_of h' t = None" if "distinct (map fst (p # slots))"
    using held_by_distinct [OF h'] that by (auto simp: map_of_eq_None_iff)
  ultimately show ?case using h Cons.prems(2) by (cases "best ko v here") auto
qed (simp add: held_by_def)

section \<open>Order independence of a session\<close>

abbreviation same_slots :: "(stamp \<times> candidate list) list \<Rightarrow> (stamp \<times> candidate list) list \<Rightarrow> bool" where
  "same_slots \<equiv> dict_rel (\<lambda>a b. set a = set b \<and> inj_on vk (set a))"

lemma best_cong: "set a = set b \<Longrightarrow> inj_on vk (set a) \<Longrightarrow> best ko v a = best ko v b \<and> bad ko v a = bad ko v b"
  using select_slot_cong [of a b "[v]" ko] by (simp add: best_def bad_def)

lemma same_slots_lookup:
  assumes "same_slots s s'"
  shows "Option.bind (map_of s ts) (best ko v) = Option.bind (map_of s' ts) (best ko v)"
proof -
  have "rel_option (\<lambda>a b. set a = set b \<and> inj_on vk (set a)) (map_of s ts) (map_of s' ts)"
    using assms by (simp add: dict_rel_def)
  then show ?thesis
  proof (cases rule: option.rel_cases)
    case (Some a b)
    then show ?thesis using best_cong [of a b ko v] by auto
  qed simp
qed

lemma dict_rel_transfer:
  assumes "dict_rel R s s'" "\<And>a b. R a b \<Longrightarrow> P a \<longleftrightarrow> Q b"
  shows "(\<exists>p \<in> set s. P (snd p)) \<longleftrightarrow> (\<exists>p \<in> set s'. Q (snd p))"
proof -
  have sym: "\<exists>p \<in> set d'. Y (snd p)"
    if "distinct (map fst d)" "\<And>k. rel_option S (map_of d k) (map_of d' k)"
      "\<And>a b. S a b \<Longrightarrow> X a \<Longrightarrow> Y b" "\<exists>p \<in> set d. X (snd p)"
    for d :: "('k \<times> 'u) list" and d' :: "('k \<times> 'w) list" and S X Y
  proof -
    from that(4) obtain k a where "(k, a) \<in> set d" "X a" by auto
    with that(1) have "map_of d k = Some a" by simp
    with that(2) [of k] obtain b where "map_of d' k = Some b" "S a b"
      by (auto simp: option_rel_Some1)
    with \<open>X a\<close> that(3) have "(k, b) \<in> set d'" "Y b" by (blast intro: map_of_SomeD)+
    then show ?thesis by force
  qed
  show ?thesis
  proof
    assume "\<exists>p \<in> set s. P (snd p)"
    then show "\<exists>p \<in> set s'. Q (snd p)"
      using assms by (intro sym [of s R s' P Q]) (auto simp: dict_rel_def)
  next
    assume "\<exists>p \<in> set s'. Q (snd p)"
    then show "\<exists>p \<in> set s. P (snd p)"
      using assms by (intro sym [of s' "R\<inverse>\<inverse>" s Q P]) (auto simp: dict_rel_def option.rel_flip)
  qed
qed

lemma held_by_same:
  assumes "same_slots s s'"
  shows "(\<exists>h h'. held_by ko s v = Inr h \<and> held_by ko s' v = Inr h' \<and> dict_eq h h') \<or>
         held_by ko s v = Inl KeyError \<and> held_by ko s' v = Inl KeyError"
proof -
  have "(\<exists>p \<in> set s. bad ko v (snd p)) \<longleftrightarrow> (\<exists>p \<in> set s'. bad ko v (snd p))"
    by (rule dict_rel_transfer [OF assms]) (use best_cong in blast)
  then consider (err) "held_by ko s v = Inl KeyError" "held_by ko s' v = Inl KeyError"
    | (ok) h h' where "held_by ko s v = Inr h" "held_by ko s' v = Inr h'"
    by (metis held_by_eq)
  then show ?thesis
  proof cases
    case ok
    have "distinct (map fst s)" "distinct (map fst s')" using assms by (auto simp: dict_rel_def)
    then have "dict_eq h h'"
      using held_by_distinct [OF ok(1)] held_by_distinct [OF ok(2)] held_by_lookup [OF ok(1)]
        held_by_lookup [OF ok(2)] same_slots_lookup [OF assms]
      by (auto simp: dict_eq_def)
    with ok show ?thesis by blast
  qed blast
qed

lemma has_eq: "dict_eq h h' \<Longrightarrow> has h = has h'"
  using dict_eq_keys [of h h'] by (simp add: has_def fun_eq_iff del: set_map)

lemma n_in_eq: "dict_eq h h' \<Longrightarrow> n_in xs h = n_in xs h'"
  by (simp add: n_in_def has_eq)

abbreviation same_held ::
  "string \<times> (stamp \<times> candidate) list \<Rightarrow> string \<times> (stamp \<times> candidate) list \<Rightarrow> bool" where
  "same_held a b \<equiv> fst a = fst b \<and> dict_eq (snd a) (snd b)"

lemma list_all2_filter_cong:
  "list_all2 R xs ys \<Longrightarrow> (\<And>x y. R x y \<Longrightarrow> P x = Q y) \<Longrightarrow> list_all2 R (filter P xs) (filter Q ys)"
  by (induction xs ys rule: list_all2_induct) auto

lemma list_all2_map_eq:
  "list_all2 R xs ys \<Longrightarrow> (\<And>x y. R x y \<Longrightarrow> f x = g y) \<Longrightarrow> map f xs = map g ys"
  by (induction xs ys rule: list_all2_induct) auto

lemma hd_all2: "list_all2 R xs ys \<Longrightarrow> xs \<noteq> [] \<Longrightarrow> R (hd xs) (hd ys)"
  by (cases xs; cases ys) auto

lemma choose_vendor_same:
  assumes "list_all2 same_held bv bv'" "bv \<noteq> []"
  shows "same_held (fst (choose_vendor bv js)) (fst (choose_vendor bv' js)) \<and>
         snd (choose_vendor bv js) = snd (choose_vendor bv' js)"
proof -
  let ?all = "\<lambda>(v :: string, d). holds_all js d" and ?n = "\<lambda>(v :: string, d). n_in js d"
  have all: "list_all2 same_held (filter ?all bv) (filter ?all bv')"
    using assms(1) by (rule list_all2_filter_cong) (auto simp: holds_all_def has_eq)
  have ns: "map ?n bv = map ?n bv'"
    using assms(1) by (rule list_all2_map_eq) (auto simp: n_in_eq)
  then have img: "?n ` set bv = ?n ` set bv'" by (metis image_set)
  define most where "most = Max (?n ` set bv)"
  have rest: "list_all2 same_held (filter (\<lambda>(v, d). n_in js d = most) bv)
      (filter (\<lambda>(v, d). n_in js d = most) bv')"
    using assms(1) by (rule list_all2_filter_cong) (auto simp: n_in_eq)
  have "most \<in> ?n ` set bv" unfolding most_def using assms(2) by (intro Max_in) auto
  then have "filter (\<lambda>(v, d). n_in js d = most) bv \<noteq> []" by (auto simp: filter_empty_conv)
  from hd_all2 [OF rest this] all show ?thesis
    by (cases "filter ?all bv"; cases "filter ?all bv'")
      (auto simp: choose_vendor_def Let_def img [symmetric] most_def [symmetric])
qed

lemma session_choice_same:
  assumes "list_all2 same_held bv bv'" "bv \<noteq> []"
  shows "session_choice_of symb tf d bv ss g = session_choice_of symb tf d bv' ss g"
proof -
  let ?js = "case g of None \<Rightarrow> ss | Some g \<Rightarrow> filter (\<lambda>ts. ts \<in> set g) ss"
  have names: "map fst bv = map fst bv'"
    using assms(1) by (rule list_all2_map_eq) simp
  have hd: "dict_eq (snd (hd bv)) (snd (hd bv'))" using hd_all2 [OF assms] by simp
  obtain v h c where cv: "choose_vendor bv ?js = ((v, h), c)" by (metis surj_pair)
  obtain v' h' c' where cv': "choose_vendor bv' ?js = ((v', h'), c')" by (metis surj_pair)
  from choose_vendor_same [OF assms, of ?js] cv cv'
  have "v = v'" "c = c'" "dict_eq h h'" by auto
  moreover have "(\<lambda>xs. n_in xs h) = (\<lambda>xs. n_in xs h')"
    "(\<lambda>xs. n_in xs (snd (hd bv))) = (\<lambda>xs. n_in xs (snd (hd bv')))"
    using n_in_eq [OF hd] n_in_eq [OF \<open>dict_eq h h'\<close>] by auto
  ultimately show ?thesis
    using names has_eq [of h h'] dict_eq_length [of h h']
    by (simp add: session_choice_of_def Let_def cv cv')
qed

lemma map_of_all2_same_held:
  "list_all2 same_held bv bv' \<Longrightarrow> v \<in> fst ` set bv \<Longrightarrow> dict_eq (the (map_of bv v)) (the (map_of bv' v))"
  by (induction bv bv' rule: list_all2_induct) auto

lemma choose_vendor_in:
  assumes "bv \<noteq> []"
  shows "fst (choose_vendor bv js) \<in> set bv"
proof (cases "filter (\<lambda>(v, d). holds_all js d) bv")
  case Nil
  let ?n = "\<lambda>(v :: string, d). n_in js d"
  define most where "most = Max (?n ` set bv)"
  have "most \<in> ?n ` set bv" unfolding most_def using assms by (intro Max_in) auto
  then have "filter (\<lambda>(v, d). n_in js d = most) bv \<noteq> []" by (auto simp: filter_empty_conv)
  then have "hd (filter (\<lambda>(v, d). n_in js d = most) bv) \<in> set (filter (\<lambda>(v, d). n_in js d = most) bv)"
    by (rule hd_in_set)
  with Nil show ?thesis by (auto simp: choose_vendor_def Let_def most_def)
next
  case (Cons a xs)
  then have "a \<in> set (filter (\<lambda>(v, d). holds_all js d) bv)" by simp
  then have "a \<in> set bv" by simp
  with Cons show ?thesis by (simp add: choose_vendor_def)
qed

lemma sc_vendor_in:
  assumes "bv \<noteq> []"
  shows "sc_vendor (session_choice_of symb tf d bv ss g) \<in> fst ` set bv"
proof -
  let ?js = "case g of None \<Rightarrow> ss | Some g \<Rightarrow> filter (\<lambda>ts. ts \<in> set g) ss"
  obtain v h c where cv: "choose_vendor bv ?js = ((v, h), c)" by (metis surj_pair)
  with choose_vendor_in [OF assms, of ?js] have "(v, h) \<in> set bv" by simp
  then show ?thesis by (force simp: session_choice_of_def Let_def cv)
qed

lemma session_result_same:
  assumes "list_all2 same_held bv bv'" "bv \<noteq> []" "same_slots s s'"
  shows "session_result_of symb tf d s bv g = session_result_of symb tf d s' bv' g"
proof -
  have keys: "sort (map fst s) = sort (map fst s')"
    using assms(3) dict_rel_keys [OF assms(3)]
    by (intro sorted_distinct_set_unique) (auto simp: dict_rel_def)
  have "length (map fst s) = length (map fst s')" using keys by (metis length_sort)
  then have len: "length s = length s'" by simp
  have any: "(\<exists>(v, h) \<in> set bv. has h ts) \<longleftrightarrow> (\<exists>(v, h) \<in> set bv'. has h ts)" for ts
  proof -
    have "map (\<lambda>(v, h). has h ts) bv = map (\<lambda>(v, h). has h ts) bv'"
      using assms(1) by (rule list_all2_map_eq) (auto simp: has_eq)
    then have "True \<in> set (map (\<lambda>(v, h). has h ts) bv) \<longleftrightarrow> True \<in> set (map (\<lambda>(v, h). has h ts) bv')"
      by simp
    then show ?thesis by (auto simp: image_iff split_beta)
  qed
  have never: "all_never (the (map_of s ts)) = all_never (the (map_of s' ts))" if "ts \<in> set (map fst s)" for ts
  proof -
    have "rel_option (\<lambda>a b. set a = set b \<and> inj_on vk (set a)) (map_of s ts) (map_of s' ts)"
      using assms(3) by (simp add: dict_rel_def)
    then show ?thesis using that
      by (cases rule: option.rel_cases) (auto simp: all_never_def map_of_eq_None_iff)
  qed
  define ss where "ss = filter (\<lambda>ts. \<exists>(v, h) \<in> set bv. has h ts) (sort (map fst s))"
  have ss': "ss = filter (\<lambda>ts. \<exists>(v, h) \<in> set bv'. has h ts) (sort (map fst s'))"
    unfolding ss_def keys any ..
  define missing where "missing = filter (\<lambda>ts. ts \<notin> set ss) (sort (map fst s))"
  have missing': "missing = filter (\<lambda>ts. ts \<notin> set ss) (sort (map fst s'))"
    unfolding missing_def keys ..
  have excl: "filter (\<lambda>ts. all_never (the (map_of s ts))) missing =
      filter (\<lambda>ts. all_never (the (map_of s' ts))) missing"
    by (rule filter_cong [OF refl], rule never) (simp add: missing_def)
  define ch where "ch = session_choice_of symb tf d bv ss g"
  have ch': "ch = session_choice_of symb tf d bv' ss g"
    unfolding ch_def by (rule session_choice_same [OF assms(1,2)])
  have "dict_eq (the (map_of bv (sc_vendor ch))) (the (map_of bv' (sc_vendor ch)))"
    unfolding ch_def by (rule map_of_all2_same_held [OF assms(1) sc_vendor_in [OF assms(2)]])
  then have win: "has (the (map_of bv (sc_vendor ch))) = has (the (map_of bv' (sc_vendor ch)))"
    "map_of (the (map_of bv (sc_vendor ch))) = map_of (the (map_of bv' (sc_vendor ch)))"
    by (auto simp: has_eq dict_eq_def)
  show ?thesis
    unfolding session_result_of_def Let_def ss_def [symmetric] ss' [symmetric]
      missing_def [symmetric] missing' [symmetric] ch_def [symmetric] ch' [symmetric] excl win len ..
qed

section \<open>Order independence of the whole selection\<close>

text \<open>The primary key of the raw table: one row per slot, vendor and kind.\<close>

definition raw_key :: "candidate \<Rightarrow> string \<times> string \<times> stamp \<times> string \<times> string" where
  "raw_key c = (c_symbol c, c_timeframe c, c_timestamp c, c_vendor c, c_kind c)"

lemma rank_vendors_nonempty: "rank_vendors rows s tf d = Inr r \<Longrightarrow> r \<noteq> []"
  using rank.lookup_sound [of rows s "(tf, d)" r] by (auto simp: vendors_of_def)

lemma select_session_same:
  assumes "same_slots s s'"
  shows "select_session cal ny P ko (k, s) = select_session cal ny P ko (k, s')"
proof -
  obtain symb tf d where k: "k = (symb, tf, d)" by (metis surj_pair)
  let ?scoped = "filter (\<lambda>p. pr_timeframe p = tf \<and> pr_symbol p \<in> {None, Some symb}) P"
  show ?thesis
  proof (cases "rank_vendors ?scoped symb tf d")
    case (Inr ranking)
    let ?f = "\<lambda>s v. ebind (held_by ko s v) (\<lambda>h. Inr (v, h) :: err + _)"
    have pair: "(\<exists>a b. ?f s v = Inr a \<and> ?f s' v = Inr b \<and> same_held a b) \<or>
        ?f s v = Inl KeyError \<and> ?f s' v = Inl KeyError" for v
      using held_by_same [OF assms, of ko v] by auto
    have rel: "(\<exists>bv bv'. emap (?f s) vs = Inr bv \<and> emap (?f s') vs = Inr bv' \<and> list_all2 same_held bv bv') \<or>
        emap (?f s) vs = Inl KeyError \<and> emap (?f s') vs = Inl KeyError" for vs
    proof (induction vs)
      case (Cons v vs)
      then show ?case using pair [of v] by (elim disjE exE conjE) simp_all
    qed simp
    from rel [of ranking] show ?thesis
    proof (elim disjE exE conjE)
      fix bv bv'
      assume bv: "emap (?f s) ranking = Inr bv" "emap (?f s') ranking = Inr bv'"
        and all: "list_all2 same_held bv bv'"
      have "bv \<noteq> []" using emap_length [OF bv(1)] rank_vendors_nonempty [OF Inr] by auto
      from session_result_same [OF all this assms] bv show ?thesis
        by (simp add: select_session_def k Inr [simplified])
    qed (simp add: select_session_def k Inr [simplified])
  qed (simp add: select_session_def k)
qed

lemma permuted_filter: "mset xs = mset ys \<Longrightarrow> set (filter P xs) = set (filter P ys)"
  by (metis mset_filter set_mset_mset)

lemma group_by_same:
  assumes "mset xs = mset ys"
  shows "dict_rel (\<lambda>a b. mset a = mset b \<and> (\<exists>k. a = filter (\<lambda>x. f x = k) xs)) (group_by f xs) (group_by f ys)"
  using mset_eq_setD [OF assms] assms
  by (auto simp: dict_rel_def group_by_lookup)

lemma sessions_of_same:
  assumes "mset xs = mset ys" "inj_on raw_key (set xs)"
  shows "dict_rel same_slots (sessions_of ny xs) (sessions_of ny ys)"
proof -
  have lookup: "map_of (sessions_of ny zs) k = map_option (group_by c_timestamp) (map_of (group_by (session_key ny) zs) k)"
    for zs k
    unfolding sessions_of_def by (simp add: map_of_map)
  have slots: "same_slots (group_by c_timestamp a) (group_by c_timestamp b)"
    if ab: "mset a = mset b" "a = filter (\<lambda>x. session_key ny x = k) xs" for a b k
  proof -
    have "inj_on vk (set (filter (\<lambda>x. c_timestamp x = t) a))" for t
    proof (rule inj_onI)
      fix x y
      assume "x \<in> set (filter (\<lambda>x. c_timestamp x = t) a)" "y \<in> set (filter (\<lambda>x. c_timestamp x = t) a)"
        and "vk x = vk y"
      then have "raw_key x = raw_key y" "x \<in> set xs" "y \<in> set xs"
        using ab(2) by (auto simp: raw_key_def vk_def session_key_def)
      then show "x = y" using assms(2) by (meson inj_onD)
    qed
    moreover have "set (filter (\<lambda>x. c_timestamp x = t) a) = set (filter (\<lambda>x. c_timestamp x = t) b)" for t
      using ab(1) by (rule permuted_filter)
    ultimately show ?thesis
      using mset_eq_setD [OF ab(1)] by (simp add: dict_rel_def group_by_lookup)
  qed
  have "rel_option same_slots (map_of (sessions_of ny xs) k) (map_of (sessions_of ny ys) k)" for k
  proof -
    have "rel_option (\<lambda>a b. mset a = mset b \<and> (\<exists>k. a = filter (\<lambda>x. session_key ny x = k) xs))
        (map_of (group_by (session_key ny) xs) k) (map_of (group_by (session_key ny) ys) k)"
      using group_by_same [OF assms(1), of "session_key ny"] unfolding dict_rel_def by blast
    then show ?thesis
      unfolding lookup by (cases rule: option.rel_cases) (auto intro: slots)
  qed
  moreover have "distinct (map fst (sessions_of ny zs))" for zs
    by (simp add: sessions_of_def comp_def split_beta)
  ultimately show ?thesis by (simp add: dict_rel_def)
qed

lemma rth_grid_error:
  assumes "rth_grid_stamps cal tf (Min (utc_year ` set cs) - 1) (Max (utc_year ` set cs) + 1) = Inl e"
    and "tf \<in> set (map fst RTH_GRID_STEP_MINUTES)"
  shows "e = ValueError"
  using assms
  by (auto simp: rth_grid_stamps_def nyse_sessions_def RTH_GRID_STEP_MINUTES_def split: if_splits)

lemma session_grids_same:
  assumes "mset xs = mset ys"
  shows "(\<exists>g g'. session_grids cal xs = Inr g \<and> session_grids cal ys = Inr g' \<and> map_of g = map_of g') \<or>
         session_grids cal xs = Inl ValueError \<and> session_grids cal ys = Inl ValueError"
  unfolding session_grids_def
proof (rule emap_dict_same)
  have "mset (filter session_bound xs) = mset (filter session_bound ys)"
    using assms by simp
  then show "dict_rel (\<lambda>a b. mset a = mset b \<and> (\<exists>k. a = filter (\<lambda>x. c_timeframe x = k) (filter session_bound xs)))
      (group_by c_timeframe (filter session_bound xs)) (group_by c_timeframe (filter session_bound ys))"
    by (rule group_by_same)
next
  fix k a b
  assume "mset a = mset b \<and> (\<exists>k. a = filter (\<lambda>x. c_timeframe x = k) (filter session_bound xs))"
  then have "set a = set b" using mset_eq_setD by blast
  then show "rth_grid_stamps cal k (Min (utc_year ` set a) - 1) (Max (utc_year ` set a) + 1) =
      rth_grid_stamps cal k (Min (utc_year ` set b) - 1) (Max (utc_year ` set b) + 1)" by simp
next
  fix k a e
  assume "(k, a) \<in> set (group_by c_timeframe (filter session_bound xs)) \<union>
      set (group_by c_timeframe (filter session_bound ys))"
    and err: "rth_grid_stamps cal k (Min (utc_year ` set a) - 1) (Max (utc_year ` set a) + 1) = Inl e"
  then have "k \<in> c_timeframe ` set (filter session_bound xs) \<union> c_timeframe ` set (filter session_bound ys)"
    using group_by_keys by (metis (no_types, lifting) UnCI UnE fst_conv image_eqI)
  then have "k \<in> set (map fst RTH_GRID_STEP_MINUTES)" by (auto simp: session_bound_def)
  with err show "e = ValueError" by (rule rth_grid_error)
qed

lemma partition_same:
  assumes "mset xs = mset ys"
  shows "(\<exists>on off on' off'. partition_session cal xs = Inr (on, off) \<and> partition_session cal ys = Inr (on', off') \<and>
           mset on = mset on' \<and> mset off = mset off' \<and> set on \<subseteq> set xs) \<or>
         partition_session cal xs = Inl ValueError \<and> partition_session cal ys = Inl ValueError"
  using session_grids_same [OF assms, of cal]
proof (elim disjE exE conjE)
  fix g g'
  assume g: "session_grids cal xs = Inr g" "session_grids cal ys = Inr g'" "map_of g = map_of g'"
  then have "off_session g = off_session g'" by (simp add: off_session_def fun_eq_iff)
  with g assms show ?thesis by (auto simp: partition_session_def)
qed (simp add: partition_session_def)

text \<open>C1. Selection is a function of the raw rows and the policy, never of their order: any
  reordering of the candidates (rows with distinct raw-table keys) gives the same outcome, errors
  and every count, drop and session choice included.\<close>

lemma select_slots_order_independent:
  assumes "mset cs = mset cs'" and "inj_on raw_key (set cs)"
  shows "select_slots cal ny cs P ko = select_slots cal ny cs' P ko"
  using partition_same [OF assms(1), of cal]
proof (elim disjE exE conjE)
  fix on off on' off'
  assume p: "partition_session cal cs = Inr (on, off)" "partition_session cal cs' = Inr (on', off')"
    and m: "mset on = mset on'" "mset off = mset off'" and sub: "set on \<subseteq> set cs"
  have "inj_on raw_key (set on)" using assms(2) sub by (rule inj_on_subset)
  note all = dict_rel_sorted [OF sessions_of_same [OF m(1) this, of ny]]
  let ?s = "sort_key fst (sessions_of ny on)" and ?s' = "sort_key fst (sessions_of ny on')"
  have emaps: "emap (select_session cal ny P ko) ?s = emap (select_session cal ny P ko) ?s'"
  proof (rule emap_all2, rule list_all2_mono [OF all])
    fix x y :: "(string \<times> string \<times> day) \<times> (stamp \<times> candidate list) list"
    assume "fst x = fst y \<and> same_slots (snd x) (snd y)"
    then show "select_session cal ny P ko x = select_session cal ny P ko y"
      by (cases x; cases y) (auto intro: select_session_same)
  qed
  have days: "map (\<lambda>((_, _, d), _). d) ?s = map (\<lambda>((_, _, d), _). d) ?s'"
    using all by (rule list_all2_map_eq) (auto split: prod.splits)
  have "length off = length off'" using m(2) by (metis size_mset)
  with emaps days p show ?thesis by (simp add: select_slots_def Let_def)
qed (simp add: select_slots_def)

section \<open>The vendor of a session\<close>

lemma choose_vendor_complete:
  assumes "choose_vendor bv js = ((v, h), True)"
  shows "\<exists>i < length bv. bv ! i = (v, h) \<and> holds_all js h \<and> (\<forall>j < i. \<not> holds_all js (snd (bv ! j)))"
proof -
  let ?P = "\<lambda>(v :: string, d). holds_all js d"
  from assms obtain rest where "filter ?P bv = (v, h) # rest"
    by (auto simp: choose_vendor_def Let_def split: list.splits)
  then obtain us vs where bv: "bv = us @ (v, h) # vs" and us: "\<forall>u \<in> set us. \<not> ?P u" and P: "?P (v, h)"
    by (auto simp: filter_eq_Cons_iff)
  have "\<not> holds_all js (snd (bv ! j))" if "j < length us" for j
    using us that bv by (auto simp: nth_append split_beta)
  with bv P show ?thesis by (intro exI [of _ "length us"]) auto
qed

lemma choose_vendor_incomplete:
  assumes "choose_vendor bv js = ((v, h), False)" and "bv \<noteq> []"
  shows "\<exists>i < length bv. bv ! i = (v, h) \<and>
    (\<forall>j < length bv. \<not> holds_all js (snd (bv ! j)) \<and> n_in js (snd (bv ! j)) \<le> n_in js h) \<and>
    (\<forall>j < i. n_in js (snd (bv ! j)) < n_in js h)"
proof -
  let ?P = "\<lambda>(v :: string, d). holds_all js d" and ?n = "\<lambda>(v :: string, d). n_in js d"
  define most where "most = Max (?n ` set bv)"
  from assms(1) have none: "filter ?P bv = []"
    and hd: "hd (filter (\<lambda>(v, d). n_in js d = most) bv) = (v, h)"
    by (auto simp: choose_vendor_def Let_def most_def split: list.splits)
  have "most \<in> ?n ` set bv" unfolding most_def using assms(2) by (intro Max_in) auto
  then have "filter (\<lambda>(v, d). n_in js d = most) bv \<noteq> []" by (auto simp: filter_empty_conv)
  with hd obtain rest where "filter (\<lambda>(v, d). n_in js d = most) bv = (v, h) # rest"
    by (metis list.exhaust_sel)
  then obtain us vs where bv: "bv = us @ (v, h) # vs" and us: "\<forall>u \<in> set us. \<not> (case u of (v, d) \<Rightarrow> n_in js d = most)"
    and m: "n_in js h = most"
    by (auto simp: filter_eq_Cons_iff)
  have le: "n_in js (snd (bv ! j)) \<le> most" if "j < length bv" for j
    unfolding most_def using nth_mem [OF that] by (intro Max_ge) (auto simp: image_iff split_beta)
  have "n_in js (snd (bv ! j)) \<noteq> most" if "j < length us" for j
    using us that bv by (auto simp: nth_append split_beta)
  moreover have "length us < length bv" using bv by simp
  ultimately have before: "\<forall>j < length us. n_in js (snd (bv ! j)) < n_in js h"
    using le m by (metis less_trans nat_less_le)
  have "\<not> holds_all js (snd (bv ! j))" if "j < length bv" for j
    using none nth_mem [OF that] by (auto simp: filter_empty_conv split_beta)
  with le m bv before show ?thesis by (intro exI [of _ "length us"]) auto
qed

text \<open>The session-level fallback rule.  A session is taken from the first ranked vendor that
  holds every judged slot; when no ranked vendor does, from the earliest-ranked of the vendors
  holding the most of them.\<close>

lemma session_vendor_rule:
  assumes "choose_vendor bv js = ((v, h), full)" and "bv \<noteq> []"
  shows "\<exists>i < length bv. bv ! i = (v, h) \<and>
    (if full then holds_all js h \<and> (\<forall>j < i. \<not> holds_all js (snd (bv ! j)))
     else (\<forall>j < length bv. \<not> holds_all js (snd (bv ! j)) \<and> n_in js (snd (bv ! j)) \<le> n_in js h) \<and>
          (\<forall>j < i. n_in js (snd (bv ! j)) < n_in js h))"
  using choose_vendor_complete [of bv js v h] choose_vendor_incomplete [of bv js v h] assms
  by (cases full) auto

lemma rank_scoped:
  "rank_vendors (filter (\<lambda>p. pr_timeframe p = tf \<and> pr_symbol p \<in> {None, Some symb}) P) symb tf d =
   rank_vendors P symb tf d"
proof -
  let ?sym = "\<lambda>p. pr_symbol p \<in> {None, Some symb}"
  have "rank_vendors (filter (\<lambda>p. pr_timeframe p = tf \<and> ?sym p) P) symb tf d =
      rank_vendors (filter ?sym P) symb tf d"
    unfolding rank_vendors_def by (simp add: conj_ac cong: conj_cong)
  also have "\<dots> = rank_vendors P symb tf d"
    using rank.lookup_scoped [of symb P "(tf, d)"] by simp
  finally show ?thesis .
qed

lemma select_session_cases:
  assumes "select_session cal ny P ko ((symb, tf, d), slots) = Inr r"
  obtains ranking bv grid where
    "rank_vendors P symb tf d = Inr ranking" "map fst bv = ranking" "bv \<noteq> []"
    "\<And>v h. (v, h) \<in> set bv \<Longrightarrow> held_by ko slots v = Inr h"
    "r = session_result_of symb tf d slots bv grid"
proof -
  from assms obtain ranking bv grid where *:
    "rank_vendors P symb tf d = Inr ranking"
    "emap (\<lambda>v. ebind (held_by ko slots v) (\<lambda>h. Inr (v, h))) ranking = Inr bv"
    "r = session_result_of symb tf d slots bv grid"
    by (auto simp: select_session_def ebind_eq_Inr rank_scoped [simplified])
  have "map fst bv = ranking"
  proof (rule nth_equalityI)
    show "length (map fst bv) = length ranking" using emap_length [OF *(2)] by simp
    fix i assume "i < length (map fst bv)"
    then show "map fst bv ! i = ranking ! i"
      using emap_nth [OF *(2), of i] emap_length [OF *(2)] by (auto simp: ebind_eq_Inr) (metis fst_conv)
  qed
  moreover have "bv \<noteq> []" using emap_length [OF *(2)] rank_vendors_nonempty [OF *(1)] by auto
  moreover have "held_by ko slots v = Inr h" if "(v, h) \<in> set bv" for v h
    using emap_set [OF *(2) that] by (auto simp: ebind_eq_Inr)
  ultimately show ?thesis using * that by blast
qed

lemma session_winners:
  assumes "select_session cal ny P ko ((symb, tf, d), group_by c_timestamp cs) = Inr r"
  shows "\<exists>v ranking. rank_vendors P symb tf d = Inr ranking \<and> v \<in> set ranking \<and>
    (\<forall>c \<in> set (sr_winners r). c \<in> set cs \<and> eligible [v] c)"
proof -
  let ?slots = "group_by c_timestamp cs"
  from assms obtain ranking bv grid where rank: "rank_vendors P symb tf d = Inr ranking"
    and names: "map fst bv = ranking" and ne: "bv \<noteq> []"
    and held: "\<And>v h. (v, h) \<in> set bv \<Longrightarrow> held_by ko ?slots v = Inr h"
    and r: "r = session_result_of symb tf d ?slots bv grid"
    by (rule select_session_cases) blast
  define ss where "ss = filter (\<lambda>ts. \<exists>(v, h) \<in> set bv. has h ts) (sort (map fst ?slots))"
  define v where "v = sc_vendor (session_choice_of symb tf d bv ss grid)"
  have v: "v \<in> fst ` set bv" unfolding v_def by (rule sc_vendor_in [OF ne])
  then obtain h where h: "map_of bv v = Some h" by (metis map_of_eq_None_iff not_Some_eq)
  then have hv: "held_by ko ?slots v = Inr h" by (intro held map_of_SomeD)
  have "c \<in> set cs \<and> eligible [v] c" if "c \<in> set (sr_winners r)" for c
  proof -
    from that have "\<exists>ts. has h ts \<and> c = the (map_of h ts)"
      unfolding r session_result_of_def Let_def ss_def [symmetric] v_def [symmetric] h option.sel
      by (auto split: if_splits)
    then obtain ts where c: "map_of h ts = Some c"
      by (metis has_def list.set_map map_of_eq_None_iff option.exhaust_sel)
    then obtain here where "map_of ?slots ts = Some here" "best ko v here = Some c"
      using held_by_lookup [OF hv group_by_distinct] by (auto simp: bind_eq_Some_conv)
    then have sel: "select_slot here [v] ko = Inr (Some c)" and sub: "set here \<subseteq> set cs"
      by (auto simp: best_def group_by_lookup split: sum.splits if_splits)
    from select_slot_Some [OF sel] sub show ?thesis by auto
  qed
  moreover have "v \<in> set ranking" unfolding names [symmetric] using v by simp
  ultimately show ?thesis using rank by blast
qed

lemma select_slots_cases:
  assumes "select_slots cal ny cs P ko = Inr out"
  obtains on off rs where "partition_session cal cs = Inr (on, off)"
    "emap (select_session cal ny P ko) (sort_key fst (sessions_of ny on)) = Inr rs"
    "so_winners out = concat (map sr_winners rs)" "so_dropped out = concat (map sr_dropped rs)"
    "so_unselected out = concat (map sr_unselected rs)" "so_n_slots out = sum_list (map sr_n_slots rs)"
    "so_n_unselected out = sum_list (map sr_n_unselected rs)"
    "so_n_excluded out = sum_list (map sr_n_excluded rs)" "so_n_off_grid out = length off"
  using assms by (auto simp: select_slots_def Let_def ebind_eq_Inr)

lemma sessions_of_entry:
  assumes "(k, slots) \<in> set (sort_key fst (sessions_of ny on))"
  shows "slots = group_by c_timestamp (filter (\<lambda>c. session_key ny c = k) on)"
  using assms by (auto simp: sessions_of_def dest: group_by_entry)

lemma winners_of_one_vendor:
  assumes "select_slots cal ny cs P ko = Inr out"
  shows "(\<forall>c \<in> set (so_winners out). c \<in> set cs \<and> c_kind c \<notin> NEVER_SELECTED_KINDS \<and>
      c_vendor c \<noteq> VENDOR_DERIVED \<and>
      (\<exists>ranking. rank_vendors P (c_symbol c) (c_timeframe c) (ny (c_timestamp c)) = Inr ranking \<and>
         c_vendor c \<in> set ranking)) \<and>
    (\<forall>c \<in> set (so_winners out). \<forall>c' \<in> set (so_winners out).
       session_key ny c = session_key ny c' \<longrightarrow> c_vendor c = c_vendor c')"
proof -
  from assms obtain on off rs where part: "partition_session cal cs = Inr (on, off)"
    and rs: "emap (select_session cal ny P ko) (sort_key fst (sessions_of ny on)) = Inr rs"
    and win: "so_winners out = concat (map sr_winners rs)"
    by (rule select_slots_cases) blast
  have on: "set on \<subseteq> set cs" using part by (auto simp: partition_session_def ebind_eq_Inr)
  let ?S = "sort_key fst (sessions_of ny on)"
  have per: "\<exists>k v ranking. rank_vendors P (fst k) (fst (snd k)) (snd (snd k)) = Inr ranking \<and> v \<in> set ranking \<and>
      (\<forall>c \<in> set (sr_winners r). c \<in> set on \<and> session_key ny c = k \<and> eligible [v] c) \<and>
      (\<exists>slots. (k, slots) \<in> set ?S \<and> select_session cal ny P ko (k, slots) = Inr r)"
    if r: "r \<in> set rs" for r
  proof -
    from emap_set [OF rs r] obtain k slots where ks: "(k, slots) \<in> set ?S"
      "select_session cal ny P ko (k, slots) = Inr r" by auto
    obtain symb tf d where k: "k = (symb, tf, d)" by (metis surj_pair)
    note sl = sessions_of_entry [OF ks(1)]
    from session_winners [OF ks(2) [unfolded k sl]] k ks sl show ?thesis by fastforce
  qed
  have uniq: "r = r'" if "(k, s) \<in> set ?S" "(k, s') \<in> set ?S"
    "select_session cal ny P ko (k, s) = Inr r" "select_session cal ny P ko (k, s') = Inr r'" for k s s' r r'
    using that sessions_of_entry [OF that(1)] sessions_of_entry [OF that(2)] by simp
  show ?thesis
  proof (intro conjI ballI impI)
    fix c assume "c \<in> set (so_winners out)"
    then obtain r where "r \<in> set rs" "c \<in> set (sr_winners r)" unfolding win by auto
    with per [of r] obtain k v ranking where
      "rank_vendors P (fst k) (fst (snd k)) (snd (snd k)) = Inr ranking" "v \<in> set ranking"
      "c \<in> set on" "session_key ny c = k" "eligible [v] c" by blast
    with on show "c \<in> set cs" "c_kind c \<notin> NEVER_SELECTED_KINDS" "c_vendor c \<noteq> VENDOR_DERIVED"
      "\<exists>ranking. rank_vendors P (c_symbol c) (c_timeframe c) (ny (c_timestamp c)) = Inr ranking \<and>
         c_vendor c \<in> set ranking"
      by (auto simp: eligible_def session_key_def)
  next
    fix c c' assume "c \<in> set (so_winners out)" "c' \<in> set (so_winners out)"
      and same: "session_key ny c = session_key ny c'"
    then obtain r r' where r: "r \<in> set rs" "c \<in> set (sr_winners r)" "r' \<in> set rs" "c' \<in> set (sr_winners r')"
      unfolding win by auto
    from per [OF r(1)] obtain k v s where k: "\<forall>c \<in> set (sr_winners r). session_key ny c = k \<and> eligible [v] c"
      "(k, s) \<in> set ?S" "select_session cal ny P ko (k, s) = Inr r" by blast
    from per [OF r(3)] obtain k' v' s' where k': "\<forall>c \<in> set (sr_winners r'). session_key ny c = k' \<and> eligible [v'] c"
      "(k', s') \<in> set ?S" "select_session cal ny P ko (k', s') = Inr r'" by blast
    have "k = k'" using k(1) k'(1) r same by metis
    with k k' have "r = r'" by (intro uniq [of k s s' r r']) auto
    with k(1) r show "c_vendor c = c_vendor c'" by (auto simp: eligible_def)
  qed
qed

text \<open>C3. Every winner was a candidate of its slot, of a kind and vendor that may be selected, and
  all the winners of one (symbol, timeframe, session) come from one vendor, which the policy in
  force on that session ranks: vendors are never mixed inside a session.\<close>

theorem one_vendor_per_session:
  assumes "select_slots cal ny cs P ko = Inr out"
  shows "(\<forall>c \<in> set (so_winners out). c \<in> set cs \<and> c_kind c \<notin> NEVER_SELECTED_KINDS \<and>
      c_vendor c \<noteq> VENDOR_DERIVED \<and>
      (\<exists>ranking. rank_vendors P (c_symbol c) (c_timeframe c) (ny (c_timestamp c)) = Inr ranking \<and>
         c_vendor c \<in> set ranking)) \<and>
    (\<forall>c \<in> set (so_winners out). \<forall>c' \<in> set (so_winners out).
       session_key ny c = session_key ny c' \<longrightarrow> c_vendor c = c_vendor c')"
  by (rule winners_of_one_vendor [OF assms])

section \<open>Every slot is accounted for\<close>

definition slot_of :: "candidate \<Rightarrow> slot" where
  "slot_of c = (c_symbol c, c_timeframe c, c_timestamp c)"

lemma group_by_slots: "mset (map fst (group_by f xs)) = mset_set (f ` set xs)"
  using group_by_keys [of f xs] by (simp add: mset_set_set [symmetric] del: mset_map)

lemma filter_split_mset: "mset (filter P xs) + mset (filter (\<lambda>x. \<not> P x) xs) = mset xs"
  by (induction xs) auto

lemma mset_slots:
  assumes "\<forall>c \<in> set cs. c_symbol c = symb \<and> c_timeframe c = tf"
  shows "mset (map (\<lambda>ts. (symb, tf, ts)) (sort (map fst (group_by c_timestamp cs)))) = mset_set (slot_of ` set cs)"
proof -
  have "slot_of ` set cs = (\<lambda>ts. (symb, tf, ts)) ` c_timestamp ` set cs"
    using assms by (force simp: slot_of_def)
  moreover have "mset_set ((\<lambda>ts. (symb, tf, ts)) ` c_timestamp ` set cs) =
      image_mset (\<lambda>ts. (symb, tf, ts)) (mset_set (c_timestamp ` set cs))"
    by (rule image_mset_mset_set [symmetric]) (simp add: inj_on_def)
  ultimately show ?thesis
    using group_by_slots [of c_timestamp cs] by simp
qed

lemma held_by_slot:
  assumes "held_by ko (group_by c_timestamp cs) v = Inr h" "has h ts"
  shows "the (map_of h ts) \<in> set cs \<and> c_timestamp (the (map_of h ts)) = ts"
proof -
  obtain c where c: "map_of h ts = Some c"
    using assms(2) by (metis has_def list.set_map map_of_eq_None_iff option.exhaust_sel)
  then obtain here where "map_of (group_by c_timestamp cs) ts = Some here" "best ko v here = Some c"
    using held_by_lookup [OF assms(1) group_by_distinct] by (auto simp: bind_eq_Some_conv)
  then have sel: "select_slot here [v] ko = Inr (Some c)"
    and "here = filter (\<lambda>c. c_timestamp c = ts) cs"
    by (auto simp: best_def group_by_lookup split: sum.splits if_splits)
  with select_slot_Some [OF sel] c show ?thesis by auto
qed

lemma session_accounting:
  assumes "select_session cal ny P ko ((symb, tf, d), group_by c_timestamp cs) = Inr r"
    and key: "\<forall>c \<in> set cs. c_symbol c = symb \<and> c_timeframe c = tf"
  shows "mset (map slot_of (sr_winners r) @ sr_dropped r @ sr_unselected r) = mset_set (slot_of ` set cs)"
    and "sr_n_unselected r + sr_n_excluded r = length (sr_unselected r)"
    and "sr_n_slots r = card (slot_of ` set cs)"
proof -
  let ?slots = "group_by c_timestamp cs"
  from assms(1) obtain bv grid where ne: "bv \<noteq> []"
    and held: "\<And>v h. (v, h) \<in> set bv \<Longrightarrow> held_by ko ?slots v = Inr h"
    and r: "r = session_result_of symb tf d ?slots bv grid"
    by (rule select_session_cases) blast
  let ?stamps = "sort (map fst ?slots)" and ?slot = "\<lambda>ts. (symb, tf, ts)"
  define Q where "Q ts \<longleftrightarrow> (\<exists>(v, h) \<in> set bv. has h ts)" for ts
  define ss where "ss = filter Q ?stamps"
  define missing where "missing = filter (\<lambda>ts. ts \<notin> set ss) ?stamps"
  define ch where "ch = session_choice_of symb tf d bv ss grid"
  define h where "h = the (map_of bv (sc_vendor ch))"
  note r' = r [unfolded session_result_of_def Let_def, folded Q_def, folded ss_def,
      folded missing_def ch_def, folded h_def]
  have missing: "missing = filter (\<lambda>ts. \<not> Q ts) ?stamps"
    unfolding missing_def by (rule filter_cong) (auto simp: ss_def)
  have all: "mset (map ?slot ss) + mset (map ?slot missing) = mset_set (slot_of ` set cs)"
    using mset_slots [OF key] filter_split_mset [of Q ?stamps]
    by (metis image_mset_union missing mset_map ss_def)
  let ?js = "case grid of None \<Rightarrow> ss | Some g \<Rightarrow> filter (\<lambda>ts. ts \<in> set g) ss"
  obtain v0 h0 c0 where cv: "choose_vendor bv ?js = ((v0, h0), c0)" by (metis surj_pair)
  then have v0: "sc_vendor ch = v0" and drop: "sc_dropped ch = filter (\<lambda>ts. \<not> has h0 ts) ss"
    by (simp_all add: ch_def session_choice_of_def Let_def)
  have mem: "(v0, h0) \<in> set bv" using choose_vendor_in [OF ne, of ?js] cv by simp
  then have "v0 \<in> fst ` set bv" by force
  then have "map_of bv v0 = Some h" unfolding h_def v0 by (metis map_of_eq_None_iff option.exhaust_sel)
  then have "held_by ko ?slots v0 = Inr h" by (intro held map_of_SomeD)
  with held [OF mem] have h0: "h0 = h" and hv: "held_by ko ?slots v0 = Inr h" by auto
  have slot: "map slot_of (map (\<lambda>ts. the (map_of h ts)) (filter (has h) ss)) = map ?slot (filter (has h) ss)"
    using held_by_slot [OF hv] key by (auto simp: slot_of_def)
  have un: "sr_unselected r = map ?slot missing" by (simp add: r')
  have "mset (map slot_of (sr_winners r) @ sr_dropped r) = mset (map ?slot ss)"
  proof (cases "ss = []")
    case False
    then have "mset (map slot_of (sr_winners r) @ sr_dropped r) =
        mset (map ?slot (filter (has h) ss)) + mset (map ?slot (filter (\<lambda>ts. \<not> has h ts) ss))"
      unfolding slot [symmetric] by (simp add: r' drop h0)
    then show ?thesis using filter_split_mset [of "has h" ss] by (metis image_mset_union mset_map)
  qed (simp add: r')
  then have "mset (map slot_of (sr_winners r) @ sr_dropped r) + mset (sr_unselected r) = mset_set (slot_of ` set cs)"
    using all un by simp
  then show "mset (map slot_of (sr_winners r) @ sr_dropped r @ sr_unselected r) = mset_set (slot_of ` set cs)"
    by (simp only: mset_append add.assoc)
  show "sr_n_unselected r + sr_n_excluded r = length (sr_unselected r)"
    using length_filter_le [of _ missing] by (simp add: r')
  have "sr_n_slots r = length ?stamps" by (simp add: r')
  also have "\<dots> = size (mset (map ?slot ?stamps))" by simp
  also have "\<dots> = card (slot_of ` set cs)" unfolding mset_slots [OF key] by simp
  finally show "sr_n_slots r = card (slot_of ` set cs)" .
qed

lemma mset_concat_parts:
  "mset (concat (map f rs)) + mset (concat (map g rs)) + mset (concat (map h rs)) =
   sum_list (map (\<lambda>r. mset (f r @ g r @ h r)) rs)"
  by (induction rs) (auto simp: ac_simps)

lemma sum_list_mset_set:
  assumes "distinct ks" "\<And>k. finite (A k)" "\<And>k k'. k \<noteq> k' \<Longrightarrow> A k \<inter> A k' = {}"
  shows "sum_list (map (\<lambda>k. mset_set (A k)) ks) = mset_set (\<Union>k \<in> set ks. A k)"
  using assms(1)
proof (induction ks)
  case (Cons k ks)
  then have "A k \<inter> A k' = {}" if "k' \<in> set ks" for k' using that by (intro assms(3)) auto
  then have "A k \<inter> (\<Union>k \<in> set ks. A k) = {}" by blast
  then have "mset_set (A k \<union> (\<Union>k \<in> set ks. A k)) = mset_set (A k) + mset_set (\<Union>k \<in> set ks. A k)"
    using assms(2) by (intro mset_set_Union) auto
  with Cons show ?case by simp
qed simp

lemma size_sum_list: "size (sum_list (map f ks) :: 'm multiset) = sum_list (map (\<lambda>k. size (f k)) ks)"
  by (induction ks) auto

lemma sum_list_map_zip:
  "length xs = length ys \<Longrightarrow> (\<And>i. i < length xs \<Longrightarrow> f (xs ! i) = g (ys ! i)) \<Longrightarrow>
   sum_list (map f xs) = sum_list (map g ys)"
  by (metis length_map nth_equalityI nth_map)

lemma slots_accounted:
  assumes "select_slots cal ny cs P ko = Inr out"
  shows "\<exists>on off. partition_session cal cs = Inr (on, off) \<and>
    mset (map slot_of (so_winners out)) + mset (so_dropped out) + mset (so_unselected out) =
      mset_set (slot_of ` set on) \<and>
    so_n_slots out = card (slot_of ` set on) \<and>
    so_n_unselected out + so_n_excluded out = length (so_unselected out) \<and>
    so_n_off_grid out = length off"
proof -
  from assms obtain on off rs where part: "partition_session cal cs = Inr (on, off)"
    and rs: "emap (select_session cal ny P ko) (sort_key fst (sessions_of ny on)) = Inr rs"
    and out: "so_winners out = concat (map sr_winners rs)" "so_dropped out = concat (map sr_dropped rs)"
      "so_unselected out = concat (map sr_unselected rs)" "so_n_slots out = sum_list (map sr_n_slots rs)"
      "so_n_unselected out = sum_list (map sr_n_unselected rs)"
      "so_n_excluded out = sum_list (map sr_n_excluded rs)" "so_n_off_grid out = length off"
    by (rule select_slots_cases) blast
  let ?S = "sort_key fst (sessions_of ny on)"
  define A where "A k = slot_of ` set (filter (\<lambda>c. session_key ny c = k) on)" for k
  have acc: "mset (map slot_of (sr_winners (rs ! i)) @ sr_dropped (rs ! i) @ sr_unselected (rs ! i)) = mset_set (A (fst (?S ! i)))"
    "sr_n_unselected (rs ! i) + sr_n_excluded (rs ! i) = length (sr_unselected (rs ! i))"
    "sr_n_slots (rs ! i) = size (mset_set (A (fst (?S ! i))))" if i: "i < length ?S" for i
  proof -
    obtain symb tf d slots where s: "?S ! i = ((symb, tf, d), slots)" by (metis surj_pair)
    then have "slots = group_by c_timestamp (filter (\<lambda>c. session_key ny c = (symb, tf, d)) on)"
      using nth_mem [OF i] by (auto intro: sessions_of_entry)
    then have "select_session cal ny P ko ((symb, tf, d),
        group_by c_timestamp (filter (\<lambda>c. session_key ny c = (symb, tf, d)) on)) = Inr (rs ! i)"
      using emap_nth [OF rs i] s by simp
    note session_accounting [OF this]
    then show "mset (map slot_of (sr_winners (rs ! i)) @ sr_dropped (rs ! i) @ sr_unselected (rs ! i)) = mset_set (A (fst (?S ! i)))"
      "sr_n_unselected (rs ! i) + sr_n_excluded (rs ! i) = length (sr_unselected (rs ! i))"
      "sr_n_slots (rs ! i) = size (mset_set (A (fst (?S ! i))))"
      unfolding A_def s by (auto simp: session_key_def)
  qed
  have len: "length rs = length ?S" using emap_length [OF rs] .
  have keys: "distinct (map fst ?S)" "set (map fst ?S) = session_key ny ` set on"
    using group_by_keys [of "session_key ny" on]
    by (auto simp: sessions_of_def comp_def split_beta sort_key_fst_map image_image)
  have "(\<Union>k \<in> set (map fst ?S). A k) = slot_of ` set on" unfolding keys(2) by (auto simp: A_def)
  moreover have "sum_list (map (\<lambda>k. mset_set (A k)) (map fst ?S)) = mset_set (\<Union>k \<in> set (map fst ?S). A k)"
    by (rule sum_list_mset_set [OF keys(1)]) (auto simp: A_def slot_of_def session_key_def)
  ultimately have sum: "sum_list (map (\<lambda>k. mset_set (A k)) (map fst ?S)) = mset_set (slot_of ` set on)"
    by simp
  have "sum_list (map (\<lambda>r. mset (map slot_of (sr_winners r) @ sr_dropped r @ sr_unselected r)) rs) =
      sum_list (map (\<lambda>k. mset_set (A k)) (map fst ?S))"
    using len acc(1) by (intro sum_list_map_zip) auto
  then have total: "mset (map slot_of (so_winners out)) + mset (so_dropped out) + mset (so_unselected out) =
      mset_set (slot_of ` set on)"
    using mset_concat_parts [of "\<lambda>r. map slot_of (sr_winners r)" rs sr_dropped sr_unselected]
    unfolding out sum map_concat by (simp add: comp_def)
  have "so_n_slots out = sum_list (map (\<lambda>k. size (mset_set (A k))) (map fst ?S))"
    unfolding out using len acc(3) by (intro sum_list_map_zip) auto
  also have "\<dots> = size (mset_set (slot_of ` set on))" unfolding size_sum_list [symmetric] sum ..
  finally have n: "so_n_slots out = card (slot_of ` set on)" by simp
  have "sr_n_unselected r + sr_n_excluded r = length (sr_unselected r)" if "r \<in> set rs" for r
    using that acc(2) len by (metis in_set_conv_nth)
  then have "so_n_unselected out + so_n_excluded out = length (so_unselected out)"
    unfolding out by (simp add: length_concat comp_def sum_list_addf [symmetric] cong: map_cong)
  with total n out part show ?thesis by blast
qed

text \<open>C4. Accounting.  The winners' slots, the dropped slots and the unselected slots are together
  exactly the slots of the on-grid candidates, each once; the counts the loader reports agree.\<close>

theorem every_slot_accounted:
  assumes "select_slots cal ny cs P ko = Inr out"
  shows "\<exists>on off. partition_session cal cs = Inr (on, off) \<and>
    mset (map slot_of (so_winners out)) + mset (so_dropped out) + mset (so_unselected out) =
      mset_set (slot_of ` set on) \<and>
    so_n_slots out = card (slot_of ` set on) \<and>
    so_n_unselected out + so_n_excluded out = length (so_unselected out) \<and>
    so_n_off_grid out = length off"
  by (rule slots_accounted [OF assms])

section \<open>A concrete session\<close>

text \<open>Two vendors answer a two-slot session; the primary misses the second slot, so the session is
  taken whole from the fallback.\<close>

definition ex_bar :: "stamp \<Rightarrow> string \<Rightarrow> string \<Rightarrow> candidate" where
  "ex_bar t v k = \<lparr>c_timestamp = t, c_symbol = ''SPY'', c_timeframe = ''5m'', c_vendor = v, c_kind = k,
     c_open = 1, c_high = 2, c_low = 1, c_close = 2, c_volume = None\<rparr>"

definition ex_open :: stamp where "ex_open = 1728052200000000"

definition ex_cal :: schedule where "ex_cal = [(739163, ex_open, ex_open + 10 * minute)]"

definition ex_policy :: "policy_row list" where
  "ex_policy = [\<lparr>pr_timeframe = ''5m'', pr_symbol = None, pr_valid_from = 0, pr_valid_to = None,
     pr_primary = ''alpaca'', pr_fallback = Some ''ibkr''\<rparr>]"

definition ex_kinds :: "(string \<times> int) list" where "ex_kinds = [(''named'', 1), (''sip_rth'', 2)]"

definition ex_cands :: "candidate list" where
  "ex_cands = [ex_bar ex_open ''alpaca'' ''sip_rth'', ex_bar (ex_open + 5 * minute) ''ibkr'' ''named'',
     ex_bar ex_open ''ibkr'' ''named'']"

definition ex_out :: selection_outcome where
  "ex_out = projr (select_slots ex_cal utc_day ex_cands ex_policy ex_kinds)"

lemma ex_out: "select_slots ex_cal utc_day ex_cands ex_policy ex_kinds = Inr ex_out"
  unfolding ex_out_def by code_simp

lemma select_slots_order_independent_witness:
  "select_slots ex_cal utc_day ex_cands ex_policy ex_kinds =
   select_slots ex_cal utc_day (rev ex_cands) ex_policy ex_kinds"
  by (rule select_slots_order_independent) (simp, simp add: ex_cands_def ex_bar_def raw_key_def minute_def)

definition ex_held :: "(string \<times> (stamp \<times> candidate) list) list" where
  "ex_held = [(''alpaca'', [(1, ex_bar 1 ''alpaca'' ''sip_rth'')]),
     (''ibkr'', [(1, ex_bar 1 ''ibkr'' ''named''), (2, ex_bar 2 ''ibkr'' ''named'')])]"

lemma session_vendor_rule_witness:
  "\<exists>i < length ex_held. fst (ex_held ! i) = ''ibkr'' \<and> holds_all [1, 2] (snd (ex_held ! i))"
proof -
  have "choose_vendor ex_held [1, 2] =
      ((''ibkr'', [(1, ex_bar 1 ''ibkr'' ''named''), (2, ex_bar 2 ''ibkr'' ''named'')]), True)"
    by (simp add: ex_held_def choose_vendor_def holds_all_def has_def)
  from session_vendor_rule [OF this] show ?thesis by (auto simp: ex_held_def)
qed

lemma ex_winners: "so_winners ex_out = [ex_bar ex_open ''ibkr'' ''named'', ex_bar (ex_open + 5 * minute) ''ibkr'' ''named'']"
  by code_simp

lemma one_vendor_per_session_witness:
  "so_winners ex_out ! 0 \<in> set ex_cands \<and> c_kind (so_winners ex_out ! 1) \<notin> NEVER_SELECTED_KINDS"
proof -
  have "so_winners ex_out ! 0 \<in> set (so_winners ex_out)" "so_winners ex_out ! 1 \<in> set (so_winners ex_out)"
    by (simp_all add: ex_winners)
  with one_vendor_per_session [OF ex_out] show ?thesis by blast
qed

lemma every_slot_accounted_witness:
  "\<exists>on off. partition_session ex_cal ex_cands = Inr (on, off) \<and>
    mset (map slot_of (so_winners ex_out)) + mset (so_dropped ex_out) + mset (so_unselected ex_out) =
      mset_set (slot_of ` set on) \<and>
    so_n_slots ex_out = card (slot_of ` set on) \<and>
    so_n_unselected ex_out + so_n_excluded ex_out = length (so_unselected ex_out) \<and>
    so_n_off_grid ex_out = length off"
  by (rule every_slot_accounted [OF ex_out])

end
