(* ===== verification/Bar_Slots.thy ===== *)
theory Bar_Slots
  imports Sessions
begin

text \<open>
  Expected bar slots: \<open>src/core/market_calendar.py\<close> (the per-exchange session lookup) and
  \<open>src/core/bar_normalizer.py\<close> (\<open>generate_session_slots\<close> and the generator of each session type).

  Third-party data are the fields of the parameter \<open>market\<close>: \<open>mk_pmc\<close> is a
  \<open>pandas_market_calendars\<close> schedule by calendar name (trading date, open, close), \<open>mk_ny\<close> and
  \<open>mk_et_hour\<close> are the New York date and hour of an instant, \<open>mk_et_at\<close> is the instant of a New
  York date and hour.  The callers pass UTC datetimes, so a datetime's own date is its UTC date.
\<close>

record market =
  mk_pmc :: "string \<Rightarrow> schedule"
  mk_ny :: "stamp \<Rightarrow> day"
  mk_et_hour :: "stamp \<Rightarrow> int"
  mk_et_at :: "day \<Rightarrow> int \<Rightarrow> stamp"

text \<open>\<open>cal.schedule(start, end)\<close>: the sessions of the inclusive date range; it raises
  \<open>ValueError\<close> when the range is reversed.\<close>

definition pmc_schedule :: "market \<Rightarrow> string \<Rightarrow> day \<Rightarrow> day \<Rightarrow> err + schedule" where
  "pmc_schedule mk name start end =
     (if end < start then Inl ValueError
      else Inr (filter (\<lambda>(d, _). start \<le> d \<and> d \<le> end) (mk_pmc mk name)))"

section \<open>The market calendar\<close>

definition EXCHANGE_TO_PMC :: "(string \<times> string) list" where
  "EXCHANGE_TO_PMC =
     [(''NYSE'', ''NYSE''), (''NASDAQ'', ''NYSE''), (''ARCA'', ''NYSE''), (''BATS'', ''NYSE''),
      (''ICE'', ''NYSE''), (''CME'', ''CME_Equity''), (''CBOT'', ''CME_Equity''),
      (''COMEX'', ''CME_Equity''), (''NYMEX'', ''CME_Equity'')]"

definition PMC_RANGE_START :: day where "PMC_RANGE_START = jan1 2000"
definition PMC_RANGE_END :: day where "PMC_RANGE_END = jan1 2036 - 1"

definition build_daily_sessions :: "market \<Rightarrow> string \<Rightarrow> (day \<times> (stamp \<times> stamp)) list" where
  "build_daily_sessions mk name =
     dict_of (map (\<lambda>(d, opn, cls). (d, (opn, cls)))
       (filter (\<lambda>(d, _). PMC_RANGE_START \<le> d \<and> d \<le> PMC_RANGE_END) (mk_pmc mk name)))"

definition daily_sessions :: "market \<Rightarrow> string \<Rightarrow> (day \<times> (stamp \<times> stamp)) list option" where
  "daily_sessions mk exchange = map_option (build_daily_sessions mk) (map_of EXCHANGE_TO_PMC exchange)"

definition is_trading_minute :: "market \<Rightarrow> string \<Rightarrow> stamp \<Rightarrow> bool" where
  "is_trading_minute mk exchange t =
     (case daily_sessions mk exchange of
        None \<Rightarrow> False
      | Some ss \<Rightarrow>
          (case map_of ss (utc_day t) of
             None \<Rightarrow> False
           | Some (open_utc, close_utc) \<Rightarrow> open_utc \<le> t \<and> t < close_utc))"

definition is_trading_day :: "market \<Rightarrow> string \<Rightarrow> day \<Rightarrow> bool" where
  "is_trading_day mk exchange d =
     (case daily_sessions mk exchange of
        None \<Rightarrow> False
      | Some ss \<Rightarrow> d \<in> set (map fst ss))"

definition first_session :: "market \<Rightarrow> string \<Rightarrow> err + day" where
  "first_session mk exchange =
     (case daily_sessions mk exchange of
        None \<Rightarrow> Inl KeyError
      | Some ss \<Rightarrow> if ss = [] then Inl ValueError else Inr (Min (set (map fst ss))))"

definition session_bounds :: "market \<Rightarrow> string \<Rightarrow> day \<Rightarrow> err + stamp \<times> stamp" where
  "session_bounds mk exchange d =
     (case daily_sessions mk exchange of
        None \<Rightarrow> Inl KeyError
      | Some ss \<Rightarrow> (case map_of ss d of None \<Rightarrow> Inl KeyError | Some b \<Rightarrow> Inr b))"

definition supports_exchange :: "market \<Rightarrow> string \<Rightarrow> bool" where
  "supports_exchange mk exchange \<longleftrightarrow> daily_sessions mk exchange \<noteq> None"

definition is_trading_bar :: "market \<Rightarrow> string \<Rightarrow> stamp \<Rightarrow> string \<Rightarrow> bool" where
  "is_trading_bar mk exchange bar_ts tf =
     (if tf = ''1d'' then is_trading_day mk exchange (utc_day bar_ts)
      else is_trading_minute mk exchange bar_ts)"

section \<open>Slot generators\<close>

definition TF_MINUTES :: "(string \<times> int) list" where
  "TF_MINUTES = [(''1m'', 1), (''5m'', 5), (''15m'', 15), (''1h'', 60), (''4h'', 240), (''1d'', 1440)]"

definition FUTURES_EXCHANGE_TO_PMC :: "(string \<times> string) list" where
  "FUTURES_EXCHANGE_TO_PMC =
     [(''CME'', ''CME_Equity''), (''CBOT'', ''CBOT_Equity''), (''COMEX'', ''CME_Equity''),
      (''NYMEX'', ''CME_Equity''), (''CFE'', ''CFE'')]"

text \<open>\<open>while t <= end\<close> over integers is the exclusive loop up to \<open>end + 1\<close>.\<close>

definition slots_always_open :: "stamp \<Rightarrow> stamp \<Rightarrow> int \<Rightarrow> stamp list" where
  "slots_always_open start end interval = steps start (end + 1) interval"

definition slots_fx :: "stamp \<Rightarrow> stamp \<Rightarrow> int \<Rightarrow> stamp list" where
  "slots_fx start end interval =
     filter (\<lambda>t. weekday (utc_day t) < 5) (steps start (end + 1) interval)"

definition slots_from_windows :: "(stamp \<times> stamp) list \<Rightarrow> stamp \<Rightarrow> stamp \<Rightarrow> int \<Rightarrow> stamp list" where
  "slots_from_windows windows start end interval =
     concat (map (\<lambda>(win_open, win_close). steps (max win_open start) (min win_close end + 1) interval) windows)"

definition nyse_window :: "market \<Rightarrow> day \<times> stamp \<times> stamp \<Rightarrow> stamp \<times> stamp" where
  "nyse_window mk = (\<lambda>(_, market_open, market_close).
     let day_et = mk_ny mk market_open;
         day_open = mk_et_at mk day_et 4;
         full_close_et = mk_et_at mk day_et 20
     in (day_open, if mk_et_hour mk market_close < 16 then market_close else full_close_et))"

definition slots_nyse :: "market \<Rightarrow> stamp \<Rightarrow> stamp \<Rightarrow> int \<Rightarrow> err + stamp list" where
  "slots_nyse mk start end interval =
     ebind (pmc_schedule mk ''NYSE'' (mk_ny mk start) (mk_ny mk end)) (\<lambda>sched.
       Inr (slots_from_windows (map (nyse_window mk) sched) start end interval))"

definition midnight :: "day \<Rightarrow> stamp" where "midnight d = (d - 719163) * one_day"

definition daily_slots :: "stamp \<Rightarrow> stamp \<Rightarrow> (day \<Rightarrow> bool) \<Rightarrow> stamp list" where
  "daily_slots start end is_trading_date =
     filter (\<lambda>slot. start \<le> slot \<and> slot \<le> end)
       (map midnight (filter is_trading_date [utc_day start..utc_day end]))"

definition slots_nyse_daily :: "market \<Rightarrow> stamp \<Rightarrow> stamp \<Rightarrow> stamp list" where
  "slots_nyse_daily mk start end = daily_slots start end (is_trading_day mk ''NYSE'')"

definition slots_futures_daily :: "market \<Rightarrow> string \<Rightarrow> stamp \<Rightarrow> stamp \<Rightarrow> err + stamp list" where
  "slots_futures_daily mk exchange start end =
     (if \<not> supports_exchange mk exchange then Inl ValueError
      else Inr (daily_slots start end (is_trading_day mk exchange)))"

definition slots_fx_daily :: "stamp \<Rightarrow> stamp \<Rightarrow> stamp list" where
  "slots_fx_daily start end = daily_slots start end (\<lambda>d. weekday d < 5)"

definition slots_crypto_daily :: "stamp \<Rightarrow> stamp \<Rightarrow> stamp list" where
  "slots_crypto_daily start end = daily_slots start end (\<lambda>_. True)"

definition slots_futures :: "market \<Rightarrow> string \<Rightarrow> stamp \<Rightarrow> stamp \<Rightarrow> int \<Rightarrow> err + stamp list" where
  "slots_futures mk exchange start end interval =
     (case map_of FUTURES_EXCHANGE_TO_PMC exchange of
        None \<Rightarrow> Inl KeyError
      | Some pmc_name \<Rightarrow>
          (case pmc_schedule mk pmc_name (utc_day start) (utc_day end) of
             Inl _ \<Rightarrow> Inr []
           | Inr sched \<Rightarrow> Inr (slots_from_windows (map snd sched) start end interval)))"

definition generate_session_slots ::
  "market \<Rightarrow> string \<Rightarrow> string \<Rightarrow> string \<Rightarrow> stamp \<Rightarrow> stamp \<Rightarrow> err + stamp list" where
  "generate_session_slots mk session_id exchange timeframe start end =
     (if timeframe = ''1d'' then
        (if session_id = ''nyse'' then Inr (slots_nyse_daily mk start end)
         else if session_id = ''futures_24_5'' then slots_futures_daily mk exchange start end
         else if session_id = ''fx_24_5'' then Inr (slots_fx_daily start end)
         else if session_id = ''crypto_24_7'' then Inr (slots_crypto_daily start end)
         else Inl ValueError)
      else case map_of TF_MINUTES timeframe of
        None \<Rightarrow> Inl KeyError
      | Some m \<Rightarrow>
          (if session_id = ''crypto_24_7'' then Inr (slots_always_open start end (m * minute))
           else if session_id = ''fx_24_5'' then Inr (slots_fx start end (m * minute))
           else if session_id = ''nyse'' then slots_nyse mk start end (m * minute)
           else if session_id = ''futures_24_5'' then slots_futures mk exchange start end (m * minute)
           else Inl ValueError))"

section \<open>Lemmas\<close>

lemma utc_day_midnight [simp]: "utc_day (midnight d) = d"
  by (simp add: utc_day_def midnight_def one_day_def)

lemma midnight_utc_day: "t mod one_day = 0 \<Longrightarrow> midnight (utc_day t) = t"
  unfolding midnight_def utc_day_def one_day_def
  using div_mult_mod_eq [of t 86400000000] by simp

lemma midnight_mod [simp]: "midnight d mod one_day = 0"
  by (simp add: midnight_def)

lemma midnight_less [simp]: "midnight d < midnight d' \<longleftrightarrow> d < d'"
  by (simp add: midnight_def one_day_def)

lemma tf_minutes_positive: "map_of TF_MINUTES tf = Some m \<Longrightarrow> 0 < m * minute"
  by (auto simp: TF_MINUTES_def minute_def split: if_splits)

lemma slots_from_windows_set:
  assumes "0 < i"
  shows "set (slots_from_windows ws s e i) =
    {t. \<exists>(opn, cls) \<in> set ws. max opn s \<le> t \<and> t \<le> min cls e \<and> i dvd (t - max opn s)}"
  using steps_set [OF assms] by (fastforce simp: slots_from_windows_def)

lemma daily_slots_set:
  "t \<in> set (daily_slots s e P) \<longleftrightarrow> s \<le> t \<and> t \<le> e \<and> t mod one_day = 0 \<and> P (utc_day t)"
proof
  assume "t \<in> set (daily_slots s e P)"
  then show "s \<le> t \<and> t \<le> e \<and> t mod one_day = 0 \<and> P (utc_day t)"
    by (auto simp: daily_slots_def)
next
  assume *: "s \<le> t \<and> t \<le> e \<and> t mod one_day = 0 \<and> P (utc_day t)"
  then have "midnight (utc_day t) = t" by (simp add: midnight_utc_day)
  moreover have "utc_day t \<in> set (filter P [utc_day s..utc_day e])"
    using * by (auto simp: utc_day_mono)
  ultimately show "t \<in> set (daily_slots s e P)"
    using * unfolding daily_slots_def by (auto intro: image_eqI [of _ _ "utc_day t"])
qed

lemma daily_slots_sorted: "sorted_wrt (<) (daily_slots s e P)"
  unfolding daily_slots_def
  by (intro sorted_wrt_filter) (simp add: sorted_wrt_map sorted_wrt_filter)

section \<open>Properties\<close>

text \<open>C5. Slot bounds: whatever the session type, exchange and timeframe, every slot
  \<open>generate_session_slots\<close> returns lies in the requested range, and a daily slot is a UTC
  midnight.\<close>

lemma generated_slots_in_range:
  assumes "generate_session_slots mk session_id exchange timeframe start end = Inr slots"
    and "t \<in> set slots"
  shows "start \<le> t \<and> t \<le> end \<and> (timeframe = ''1d'' \<longrightarrow> t mod one_day = 0)"
proof (cases "timeframe = ''1d''")
  case True
  with assms show ?thesis
    by (auto simp: generate_session_slots_def slots_nyse_daily_def slots_futures_daily_def
        slots_fx_daily_def slots_crypto_daily_def daily_slots_set split: if_splits)
next
  case False
  with assms(1) obtain m where m: "map_of TF_MINUTES timeframe = Some m"
    by (auto simp: generate_session_slots_def split: option.splits)
  note pos = tf_minutes_positive [OF m]
  from False assms m show ?thesis
    by (auto simp: generate_session_slots_def slots_always_open_def slots_fx_def slots_nyse_def
        slots_futures_def slots_from_windows_set [OF pos] steps_set [OF pos] ebind_eq_Inr
        split: if_splits option.splits sum.splits)
qed

definition ex_market :: market where
  "ex_market = \<lparr>mk_pmc = (\<lambda>_. []), mk_ny = utc_day, mk_et_hour = (\<lambda>_. 0),
     mk_et_at = (\<lambda>d h. midnight d + h * hour)\<rparr>"

lemma generated_slots_in_range_witness:
  "(0::int) \<le> 86400000000 \<and> 86400000000 \<le> (100000000000::int) \<and> (86400000000::int) mod one_day = 0"
proof -
  have "generate_session_slots ex_market ''crypto_24_7'' ''X'' ''1d'' 0 100000000000 = Inr [0, 86400000000]"
    by code_simp
  from generated_slots_in_range [OF this, of 86400000000] show ?thesis by simp
qed

end
