(* ===== verification/Gap_Plan.thy ===== *)
theory Gap_Plan
  imports Bar_Slots
begin

text \<open>
  Missing bars: \<open>src/intelligence/bars/gap_plan.py\<close>.  Answered request windows are merged and
  tested for coverage, provider-verified empty spans are confirmed per route, and \<open>plan_gaps\<close>
  turns the expected slots that nothing covers into contiguous, end-exclusive fetch windows.

  A window is a pair of stamps.  The decoding helpers \<open>request_ts\<close> and \<open>_partial_list\<close> (ISO
  strings and JSON) are outside the model: rows arrive decoded.
\<close>

type_synonym window = "stamp \<times> stamp"

section \<open>Answered windows\<close>

record answered_windows =
  aw_starts :: "stamp list"
  aw_ends :: "stamp list"
  aw_partial :: "stamp list"

text \<open>One turn of the merge loops: the new window extends the last merged one when it starts no
  later than its end (plus the slack), and is appended otherwise.\<close>

definition merge_step :: "int \<Rightarrow> window list \<Rightarrow> window \<Rightarrow> window list" where
  "merge_step slack merged w =
     (if merged \<noteq> [] \<and> fst w \<le> snd (last merged) + slack
      then butlast merged @ [(fst (last merged), max (snd (last merged)) (snd w))]
      else merged @ [w])"

definition from_rows :: "window list \<Rightarrow> stamp list \<Rightarrow> answered_windows" where
  "from_rows rows partial =
     (let merged = foldl (merge_step 0) [] (sort (filter (\<lambda>row. fst row < snd row) rows))
      in \<lparr>aw_starts = map fst merged, aw_ends = map snd merged, aw_partial = partial\<rparr>)"

definition bisect_right :: "stamp list \<Rightarrow> stamp \<Rightarrow> nat" where
  "bisect_right xs x = length (takeWhile (\<lambda>s. s \<le> x) xs)"

definition aw_covers :: "answered_windows \<Rightarrow> stamp \<Rightarrow> int \<Rightarrow> bool" where
  "aw_covers a slot interval \<longleftrightarrow>
     (if aw_starts a = [] \<or> slot \<in> set (aw_partial a) then False
      else let i = bisect_right (aw_starts a) slot
           in 0 < i \<and> slot + interval \<le> aw_ends a ! (i - 1))"

definition load_range_windows :: "(day \<times> day) list \<Rightarrow> window list" where
  "load_range_windows ranges =
     map (\<lambda>(first_day, last_day). (midnight first_day, midnight (last_day + 1)))
       (filter (\<lambda>(first_day, last_day). first_day \<le> last_day) ranges)"

section \<open>Live partials\<close>

record answer =
  an_start :: stamp
  an_end :: stamp
  an_partial :: "stamp list"
  an_at :: "stamp option"

definition mark_partial :: "stamp option \<Rightarrow> (stamp \<times> stamp option) list \<Rightarrow> stamp \<Rightarrow> (stamp \<times> stamp option) list" where
  "mark_partial answered marked ts =
     (let prior = (case map_of marked ts of None \<Rightarrow> None | Some p \<Rightarrow> p)
      in if map_of marked ts = None
            \<or> (case answered of None \<Rightarrow> False
               | Some a \<Rightarrow> (case prior of None \<Rightarrow> True | Some p \<Rightarrow> p < a))
         then AList.update ts answered marked else marked)"

definition marked_partials :: "answer list \<Rightarrow> (stamp \<times> stamp option) list" where
  "marked_partials rows =
     foldl (\<lambda>marked row. foldl (mark_partial (an_at row)) marked (an_partial row)) [] rows"

definition partial_cleared :: "answer list \<Rightarrow> stamp \<Rightarrow> stamp option \<Rightarrow> bool" where
  "partial_cleared rows ts at_opt =
     (case at_opt of
        None \<Rightarrow> False
      | Some a \<Rightarrow> (\<exists>row \<in> set rows.
          (case an_at row of None \<Rightarrow> False | Some b \<Rightarrow> a < b)
          \<and> an_start row \<le> ts \<and> ts < an_end row \<and> ts \<notin> set (an_partial row)))"

definition live_partials :: "answer list \<Rightarrow> stamp list" where
  "live_partials rows =
     map fst (filter (\<lambda>(ts, a). \<not> partial_cleared rows ts a) (marked_partials rows))"

section \<open>Empty spans\<close>

definition fresh_empty_span ::
  "stamp \<Rightarrow> stamp \<Rightarrow> stamp \<Rightarrow> int \<Rightarrow> stamp \<Rightarrow> int \<Rightarrow> int \<Rightarrow> window option" where
  "fresh_empty_span empty_from empty_through verified_at n_confirming_chunks now reverify_days min_confirmations =
     (if n_confirming_chunks < min_confirmations then None
      else if reverify_days * one_day \<le> now - verified_at then None
      else Some (empty_from, empty_through))"

record confirmed_span =
  cs_start :: stamp
  cs_end :: stamp
  cs_n_confirming :: nat

definition merge_windows :: "window list \<Rightarrow> int \<Rightarrow> window list" where
  "merge_windows windows slack = foldl (merge_step slack) [] (sort windows)"

fun intersect_windows :: "window list \<Rightarrow> window list \<Rightarrow> window list" where
  "intersect_windows (l # left) (r # right) =
     (let start = max (fst l) (fst r); end = min (snd l) (snd r)
      in (if start \<le> end then [(start, end)] else []) @
         (if snd l \<le> snd r then intersect_windows left (r # right)
          else intersect_windows (l # left) right))"
| "intersect_windows [] right = []"
| "intersect_windows left [] = []"

text \<open>The two loops of \<open>confirmed_empty_spans\<close>, with their early returns: \<open>None\<close> when a required
  route has no window, and an empty intersection ends the fold.\<close>

fun route_runs :: "(string \<times> window list) list \<Rightarrow> string list \<Rightarrow> int \<Rightarrow> window list list option" where
  "route_runs by_route [] slack = Some []"
| "route_runs by_route (route # routes) slack =
     (case map_of by_route route of
        None \<Rightarrow> None
      | Some windows \<Rightarrow>
          if windows = [] then None
          else map_option ((#) (merge_windows windows slack)) (route_runs by_route routes slack))"

fun intersect_all :: "window list \<Rightarrow> window list list \<Rightarrow> window list" where
  "intersect_all spans [] = spans"
| "intersect_all spans (other # others) =
     (let s = intersect_windows spans other in if s = [] then [] else intersect_all s others)"

definition n_confirming :: "(string \<times> window list) list \<Rightarrow> string list \<Rightarrow> window \<Rightarrow> nat" where
  "n_confirming by_route routes sp =
     sum_list (map (\<lambda>route. length (filter (\<lambda>w. fst w \<le> snd sp \<and> fst sp \<le> snd w)
       (the (map_of by_route route)))) routes)"

definition confirmed_empty_spans ::
  "(string \<times> window list) list \<Rightarrow> string list \<Rightarrow> int \<Rightarrow> confirmed_span list" where
  "confirmed_empty_spans by_route required_routes slack =
     (if required_routes = [] then []
      else case route_runs by_route required_routes slack of
        None \<Rightarrow> []
      | Some per_route \<Rightarrow>
          map (\<lambda>sp. \<lparr>cs_start = fst sp, cs_end = snd sp,
                        cs_n_confirming = n_confirming by_route required_routes sp\<rparr>)
            (intersect_all (hd per_route) (tl per_route)))"

section \<open>Expected slots\<close>

definition RTH_GRID_TFS :: "string set" where "RTH_GRID_TFS = {''15m'', ''1h''}"

definition GRID_TF_MINUTES :: "(string \<times> int) list" where
  "GRID_TF_MINUTES = [(''5m'', 5), (''15m'', 15), (''1h'', 60)]"

function grid_loop :: "bool \<Rightarrow> stamp \<Rightarrow> stamp \<Rightarrow> stamp \<Rightarrow> int \<Rightarrow> stamp list" where
  "grid_loop hourly slot next_hour close interval =
     (if slot < close \<and> 0 < interval \<and> (hourly \<longrightarrow> slot < next_hour)
      then slot # (if hourly then grid_loop hourly next_hour (next_hour + interval) close interval
                   else grid_loop hourly (slot + interval) next_hour close interval)
      else [])"
  by pat_completeness auto
termination
  by (relation "measure (\<lambda>(hourly, slot, next_hour, close, interval). nat (close - slot))") auto

declare grid_loop.simps [simp del]

definition rth_grid_slots :: "schedule \<Rightarrow> string \<Rightarrow> stamp \<Rightarrow> stamp \<Rightarrow> err + stamp list" where
  "rth_grid_slots cal timeframe start_dt end_dt =
     (case map_of GRID_TF_MINUTES timeframe of
        None \<Rightarrow> Inl KeyError
      | Some m \<Rightarrow>
          let interval = m * minute
          in ebind (nyse_sessions cal (utc_day start_dt - 1) (utc_day end_dt + 1)) (\<lambda>ss.
            Inr (concat (map (\<lambda>(_, session_open, session_close).
              let hour_start = session_open - session_open mod hour;
                  next_hour = (if hour_start \<le> session_open then hour_start + interval else hour_start)
              in filter (\<lambda>slot. start_dt \<le> slot \<and> slot \<le> end_dt)
                   (grid_loop (timeframe = ''1h'') session_open next_hour session_close interval)) ss))))"

definition expected_grid_slots ::
  "market \<Rightarrow> schedule \<Rightarrow> string \<Rightarrow> string \<Rightarrow> string \<Rightarrow> stamp \<Rightarrow> stamp \<Rightarrow> err + stamp list" where
  "expected_grid_slots mk cal session_id exchange timeframe start_dt end_dt =
     (if timeframe \<in> RTH_GRID_TFS \<and> session_id = ''nyse''
      then rth_grid_slots cal timeframe start_dt end_dt
      else generate_session_slots mk session_id exchange timeframe start_dt end_dt)"

section \<open>The plan\<close>

text \<open>\<open>slot_end\<close>: each slot of the horizon with its end, one interval on or the next slot's
  start when that comes first (the last slot is paired with itself).\<close>

fun slot_ends :: "int \<Rightarrow> stamp list \<Rightarrow> (stamp \<times> stamp) list" where
  "slot_ends interval (s # t # ts) =
     (s, if s < t then min (s + interval) t else s + interval) # slot_ends interval (t # ts)"
| "slot_ends interval [s] = [(s, s + interval)]"
| "slot_ends interval [] = []"

text \<open>The grouping loop: \<open>run_start\<close> and the end of the previous missing slot are its state.\<close>

fun group_gaps :: "stamp \<Rightarrow> stamp \<Rightarrow> stamp \<Rightarrow> (stamp \<times> stamp) list \<Rightarrow> window list" where
  "group_gaps run_end run_start prev_end [] = [(run_start, min prev_end run_end)]"
| "group_gaps run_end run_start prev_end ((slot, slot_end) # rest) =
     (if slot \<noteq> prev_end
      then (run_start, min prev_end run_end) # group_gaps run_end slot slot_end rest
      else group_gaps run_end run_start slot_end rest)"

definition slot_missing ::
  "stamp list \<Rightarrow> answered_windows \<Rightarrow> window list \<Rightarrow> stamp \<times> stamp \<Rightarrow> bool" where
  "slot_missing stored answered empty_ranges = (\<lambda>(slot, slot_end).
     slot \<notin> set stored \<and> \<not> aw_covers answered slot (slot_end - slot) \<and>
     \<not> (\<exists>(empty_from, through) \<in> set (filter (\<lambda>(f, t). f \<le> t) empty_ranges).
          empty_from \<le> slot \<and> slot \<le> through))"

definition plan_gaps ::
  "stamp list \<Rightarrow> stamp list \<Rightarrow> answered_windows \<Rightarrow> int \<Rightarrow> stamp \<Rightarrow> window list \<Rightarrow> window list" where
  "plan_gaps slots stored answered interval run_end empty_ranges =
     (let horizon = sorted_set (filter (\<lambda>slot. slot < run_end) slots)
      in if horizon = [] then []
         else let missing = filter (slot_missing stored answered empty_ranges) (slot_ends interval horizon)
         in case missing of
              [] \<Rightarrow> []
            | (slot, slot_end) # rest \<Rightarrow> group_gaps run_end slot slot_end rest)"

end
