(* ===== verification/Gap_Plan_Correct.thy ===== *)
theory Gap_Plan_Correct
  imports Gap_Plan
begin

text \<open>
  Correctness of the missing-bar planner (\<open>src/intelligence/bars/gap_plan.py\<close>): merged windows
  cover exactly the instants the answered rows cover, an empty span is confirmed by every
  required route, and a plan asks exactly for the uncovered slots, in disjoint ascending windows
  that never pass the run's end.
\<close>

section \<open>Merged windows\<close>

definition separated :: "int \<Rightarrow> window list \<Rightarrow> bool" where
  "separated slack ws \<longleftrightarrow> sorted_wrt (\<lambda>w v. snd w + slack < fst v) ws \<and> (\<forall>w \<in> set ws. fst w \<le> snd w)"

definition cover :: "window list \<Rightarrow> stamp set" where
  "cover ws = {t. \<exists>w \<in> set ws. fst w \<le> t \<and> t < snd w}"

definition closed_cover :: "window list \<Rightarrow> stamp set" where
  "closed_cover ws = {t. \<exists>w \<in> set ws. fst w \<le> t \<and> t \<le> snd w}"

lemma cover_simps [simp]:
  "cover [] = {}" "cover (ws @ vs) = cover ws \<union> cover vs"
  "cover (w # ws) = {t. fst w \<le> t \<and> t < snd w} \<union> cover ws"
  by (auto simp: cover_def)

lemma closed_cover_simps [simp]:
  "closed_cover [] = {}" "closed_cover (ws @ vs) = closed_cover ws \<union> closed_cover vs"
  "closed_cover (w # ws) = {t. fst w \<le> t \<and> t \<le> snd w} \<union> closed_cover ws"
  by (auto simp: closed_cover_def)

lemma separated_snoc:
  "separated slack (ws @ [v]) \<longleftrightarrow>
     separated slack ws \<and> (\<forall>w \<in> set ws. snd w + slack < fst v) \<and> fst v \<le> snd v"
  by (auto simp: separated_def sorted_wrt_append)

text \<open>What the fold maintains over a sorted prefix: the merged windows are separated, start where
  some row starts, cover what the rows cover, and (without slack) nothing else.\<close>

definition merged_ok :: "int \<Rightarrow> window list \<Rightarrow> window list \<Rightarrow> bool" where
  "merged_ok slack rows ms \<longleftrightarrow>
     separated slack ms \<and> fst ` set ms \<subseteq> fst ` set rows \<and> snd ` set ms \<subseteq> snd ` set rows \<and>
     (\<forall>t \<in> closed_cover ms. \<exists>r \<in> set rows. fst r \<le> t \<and> t \<le> snd r + slack) \<and>
     cover rows \<subseteq> cover ms \<and> closed_cover rows \<subseteq> closed_cover ms \<and>
     (slack = 0 \<longrightarrow> cover ms = cover rows)"

lemma merge_step_ok:
  assumes ok: "merged_ok slack rows ms" and "0 \<le> slack"
    and later: "\<forall>r \<in> set rows. fst r \<le> fst w \<and> fst r \<le> snd r" and "fst w \<le> snd w"
  shows "merged_ok slack (rows @ [w]) (merge_step slack ms w)"
proof (cases "ms \<noteq> [] \<and> fst w \<le> snd (last ms) + slack")
  case True
  define a where "a = fst (last ms)"
  define b where "b = snd (last ms)"
  define init where "init = butlast ms"
  have ms: "ms = init @ [(a, b)]"
    using True by (simp add: a_def b_def init_def)
  then have step: "merge_step slack ms w = init @ [(a, max b (snd w))]"
    using True by (simp add: merge_step_def a_def [symmetric] b_def [symmetric] init_def [symmetric])
  have "a \<in> fst ` set ms" using ms by force
  then have a: "a \<in> fst ` set rows" using ok by (auto simp only: merged_ok_def)
  then have a': "a \<le> fst w" using later by (metis imageE)
  have near: "fst w \<le> b + slack" using True b_def by simp
  have sep: "separated slack init" "\<forall>v \<in> set init. snd v + slack < a" "a \<le> b"
    using ok unfolding merged_ok_def ms separated_snoc by auto
  have "separated slack (merge_step slack ms w)"
    unfolding step separated_snoc using sep by auto
  moreover have "fst ` set (merge_step slack ms w) \<subseteq> fst ` set (rows @ [w])"
  proof -
    have "fst ` set init \<subseteq> fst ` set rows" using ok unfolding merged_ok_def ms by auto
    with a show ?thesis unfolding step by auto
  qed
  moreover have "snd ` set (merge_step slack ms w) \<subseteq> snd ` set (rows @ [w])"
  proof -
    have "snd ` set init \<subseteq> snd ` set rows" "b \<in> snd ` set rows" using ok unfolding merged_ok_def ms by auto
    then show ?thesis unfolding step by (auto simp: max_def)
  qed
  moreover have "\<exists>r \<in> set (rows @ [w]). fst r \<le> t \<and> t \<le> snd r + slack"
    if t: "t \<in> closed_cover (merge_step slack ms w)" for t
  proof -
    have old: "\<exists>r \<in> set rows. fst r \<le> t \<and> t \<le> snd r + slack" if "t \<in> closed_cover ms"
      using ok that unfolding merged_ok_def by blast
    have "b \<in> snd ` set rows" using ok unfolding merged_ok_def ms by auto
    then obtain r where r: "r \<in> set rows" "snd r = b" "fst r \<le> b" using later by auto
    from t consider "t \<in> closed_cover ms" | "b < t" "t < fst w" | "fst w \<le> t" "t \<le> snd w"
      unfolding step by (auto simp: ms) linarith+
    then show ?thesis
    proof cases
      case 2
      with r near show ?thesis by (intro bexI [of _ r]) auto
    qed (use old \<open>0 \<le> slack\<close> in auto)
  qed
  moreover have grow: "cover (ms @ [w]) \<subseteq> cover (merge_step slack ms w)"
    "closed_cover (ms @ [w]) \<subseteq> closed_cover (merge_step slack ms w)"
    unfolding step using a' by (auto simp: ms)
  moreover have "cover (merge_step slack ms w) = cover (rows @ [w])" if "slack = 0"
    using ok a' near that grow unfolding step merged_ok_def by (auto simp: ms)
  ultimately show ?thesis
    using ok unfolding merged_ok_def by (auto simp: subset_iff)
next
  case False
  then have step: "merge_step slack ms w = ms @ [w]" by (auto simp: merge_step_def)
  have "snd v + slack < fst w" if "v \<in> set ms" for v
  proof -
    from that have ne: "ms \<noteq> []" by auto
    then have last: "snd (last ms) + slack < fst w" using False by simp
    from ne have ms: "ms = butlast ms @ [last ms]" by simp
    then have "separated slack (butlast ms @ [last ms])" using ok by (simp add: merged_ok_def)
    then have "v = last ms \<or> snd v + slack < fst (last ms)" "fst (last ms) \<le> snd (last ms)"
      using that ms unfolding separated_snoc by (metis Un_iff empty_iff insert_iff list.set(1,2) set_append)+
    with last \<open>0 \<le> slack\<close> show ?thesis by auto
  qed
  moreover have "\<exists>r \<in> set (rows @ [w]). fst r \<le> t \<and> t \<le> snd r + slack"
    if "t \<in> closed_cover (ms @ [w])" for t
  proof (cases "t \<in> closed_cover ms")
    case True
    then have "\<exists>r \<in> set rows. fst r \<le> t \<and> t \<le> snd r + slack"
      using ok unfolding merged_ok_def by blast
    then show ?thesis by auto
  next
    case False
    with that assms(2) show ?thesis by (intro bexI [of _ w]) auto
  qed
  ultimately show ?thesis
    using ok assms(4) unfolding step merged_ok_def separated_snoc by (simp add: image_Un) blast
qed

lemma merge_fold_ok:
  assumes "0 \<le> slack" "sorted rows" "\<forall>r \<in> set rows. fst r \<le> snd r"
  shows "merged_ok slack rows (foldl (merge_step slack) [] rows)"
  using assms(2,3)
proof (induction rows rule: rev_induct)
  case Nil
  then show ?case by (simp add: merged_ok_def separated_def)
next
  case (snoc w rows)
  then have "\<forall>r \<in> set rows. r \<le> w" by (auto simp: sorted_append)
  then have "\<forall>r \<in> set rows. fst r \<le> fst w" by (auto simp: less_eq_prod_def)
  with snoc assms(1) show ?case by (auto simp: sorted_append intro!: merge_step_ok)
qed

section \<open>Coverage of a bar\<close>

lemma bisect_right_last:
  assumes "sorted xs" "j < length xs" "xs ! j \<le> x" "j + 1 < length xs \<Longrightarrow> x < xs ! (j + 1)"
  shows "bisect_right xs x = j + 1"
proof -
  have "takeWhile (\<lambda>s. s \<le> x) xs = take (j + 1) xs"
  proof (rule takeWhile_eq_take_P_nth)
    show "xs ! i \<le> x" if "i < j + 1" "i < length xs" for i
      using that assms sorted_nth_mono [OF assms(1), of i j] by simp
    show "\<not> xs ! (j + 1) \<le> x" if "j + 1 < length xs"
      using that assms(4) by simp
  qed
  with assms(2) show ?thesis by (simp add: bisect_right_def)
qed

lemma bisect_right_nth:
  assumes "0 < bisect_right xs x"
  shows "bisect_right xs x - 1 < length xs" "xs ! (bisect_right xs x - 1) \<le> x"
proof -
  let ?k = "length (takeWhile (\<lambda>s. s \<le> x) xs)"
  have "?k \<le> length xs" by (rule length_takeWhile_le)
  with assms show "bisect_right xs x - 1 < length xs" unfolding bisect_right_def by linarith
  have "takeWhile (\<lambda>s. s \<le> x) xs ! (?k - 1) \<in> set (takeWhile (\<lambda>s. s \<le> x) xs)"
    using assms by (intro nth_mem) (simp add: bisect_right_def)
  then show "xs ! (bisect_right xs x - 1) \<le> x"
    using assms by (auto simp: bisect_right_def takeWhile_nth dest: set_takeWhileD)
qed

lemma separated_nth:
  "separated slack ws \<Longrightarrow> i < j \<Longrightarrow> j < length ws \<Longrightarrow> snd (ws ! i) + slack < fst (ws ! j)"
  by (simp add: separated_def sorted_wrt_iff_nth_less)

lemma separated_wf: "separated slack ws \<Longrightarrow> i < length ws \<Longrightarrow> fst (ws ! i) \<le> snd (ws ! i)"
  by (simp add: separated_def)

lemma separated_starts_sorted:
  assumes "separated slack ws" "0 \<le> slack"
  shows "sorted (map fst ws)"
  unfolding sorted_iff_nth_mono_less length_map
proof (intro allI impI)
  fix i j assume "i < j" "j < length ws"
  with separated_nth [OF assms(1)] separated_wf [OF assms(1), of i] assms(2)
  show "map fst ws ! i \<le> map fst ws ! j" by fastforce
qed

lemma bisect_window:
  assumes "separated slack ws" "0 \<le> slack" "j < length ws" "fst (ws ! j) \<le> x" "x < snd (ws ! j)"
  shows "bisect_right (map fst ws) x = j + 1"
proof (rule bisect_right_last)
  show "sorted (map fst ws)" using assms(1,2) by (rule separated_starts_sorted)
  show "x < map fst ws ! (j + 1)" if "j + 1 < length (map fst ws)"
    using separated_nth [OF assms(1), of j "j + 1"] that assms by simp
qed (use assms in auto)

text \<open>A bar lies inside one merged window exactly when every instant of it lies in some window.\<close>

lemma inside_one_window:
  assumes sep: "separated 0 ws" and "0 < d"
  shows "(\<exists>j < length ws. fst (ws ! j) \<le> x \<and> x + d \<le> snd (ws ! j)) \<longleftrightarrow>
         (\<forall>t. x \<le> t \<and> t < x + d \<longrightarrow> t \<in> cover ws)"
proof
  assume "\<exists>j < length ws. fst (ws ! j) \<le> x \<and> x + d \<le> snd (ws ! j)"
  then obtain j where "j < length ws" "fst (ws ! j) \<le> x" "x + d \<le> snd (ws ! j)" by blast
  moreover from this have "ws ! j \<in> set ws" by simp
  ultimately show "\<forall>t. x \<le> t \<and> t < x + d \<longrightarrow> t \<in> cover ws"
    unfolding cover_def by (intro allI impI CollectI bexI [of _ "ws ! j"]) auto
next
  assume all: "\<forall>t. x \<le> t \<and> t < x + d \<longrightarrow> t \<in> cover ws"
  then have "x \<in> cover ws" using \<open>0 < d\<close> by simp
  then obtain j where j: "j < length ws" "fst (ws ! j) \<le> x" "x < snd (ws ! j)"
    by (auto simp: cover_def in_set_conv_nth)
  have "x + d \<le> snd (ws ! j)"
  proof (rule ccontr)
    let ?b = "snd (ws ! j)"
    assume "\<not> x + d \<le> ?b"
    then have "?b \<in> cover ws" using all j by simp
    then obtain k where k: "k < length ws" "fst (ws ! k) \<le> ?b" "?b < snd (ws ! k)"
      by (auto simp: cover_def in_set_conv_nth)
    consider "k = j" | "j < k" | "k < j" by linarith
    then show False
    proof cases
      case 2
      with separated_nth [OF sep 2 k(1)] k show False by simp
    next
      case 3
      with separated_nth [OF sep 3 j(1)] k j separated_wf [OF sep j(1)] show False by simp
    qed (use k in simp)
  qed
  with j show "\<exists>j < length ws. fst (ws ! j) \<le> x \<and> x + d \<le> snd (ws ! j)" by blast
qed

lemma covers_window:
  assumes "separated 0 ws" "0 < d"
  shows "aw_covers \<lparr>aw_starts = map fst ws, aw_ends = map snd ws, aw_partial = p\<rparr> x d \<longleftrightarrow>
    x \<notin> set p \<and> (\<exists>j < length ws. fst (ws ! j) \<le> x \<and> x + d \<le> snd (ws ! j))"
    (is "?l \<longleftrightarrow> ?p \<and> ?r")
proof
  assume l: ?l
  define k where "k = bisect_right (map fst ws) x"
  have "x \<notin> set p" "0 < k" and le: "x + d \<le> map snd ws ! (k - 1)"
    using l by (auto simp: aw_covers_def k_def Let_def split: if_splits)
  moreover have "k - 1 < length ws" "map fst ws ! (k - 1) \<le> x"
    using bisect_right_nth [of "map fst ws" x] \<open>0 < k\<close> by (auto simp: k_def)
  ultimately show "?p \<and> ?r" by auto
next
  assume r: "?p \<and> ?r"
  then obtain j where j: "j < length ws" "fst (ws ! j) \<le> x" "x + d \<le> snd (ws ! j)" by blast
  then have "bisect_right (map fst ws) x = j + 1"
    using assms by (intro bisect_window) auto
  moreover have "ws \<noteq> []" using j by auto
  ultimately show ?l using j r by (simp add: aw_covers_def)
qed

text \<open>C6. Coverage.  Whatever order, overlap or duplication the answered rows come in, a bar is
  covered exactly when its slot was not served partial and every instant of the bar lies inside
  some answered row: merging neither loses nor invents coverage.\<close>

lemma covers_iff_answered:
  assumes "0 < interval"
  shows "aw_covers (from_rows rows partial) slot interval \<longleftrightarrow>
    slot \<notin> set partial \<and>
    (\<forall>t. slot \<le> t \<and> t < slot + interval \<longrightarrow> (\<exists>row \<in> set rows. fst row \<le> t \<and> t < snd row))"
proof -
  let ?rows = "sort (filter (\<lambda>row. fst row < snd row) rows)"
  define ms where "ms = foldl (merge_step 0) [] ?rows"
  have ok: "merged_ok 0 ?rows ms" unfolding ms_def by (rule merge_fold_ok) auto
  then have sep: "separated 0 ms" and "cover ms = cover ?rows" by (auto simp: merged_ok_def)
  moreover have "t \<in> cover ?rows \<longleftrightarrow> (\<exists>row \<in> set rows. fst row \<le> t \<and> t < snd row)" for t
    by (force simp: cover_def)
  ultimately show ?thesis
    using covers_window [OF sep assms] inside_one_window [OF sep assms]
    by (simp add: from_rows_def ms_def [symmetric] Let_def)
qed

lemma covers_iff_answered_witness:
  "aw_covers (from_rows [(10, 20), (0, 12), (5, 5)] [3]) 8 6"
  using covers_iff_answered [of 6 "[(10, 20), (0, 12), (5, 5)]" "[3]" 8] by force

section \<open>Confirmed empty spans\<close>

lemma intersect_member:
  "w \<in> set (intersect_windows ls rs) \<Longrightarrow>
   \<exists>l \<in> set ls. \<exists>r \<in> set rs. fst w = max (fst l) (fst r) \<and> snd w = min (snd l) (snd r) \<and> fst w \<le> snd w"
proof (induction ls rs rule: intersect_windows.induct)
  case (1 l left r right)
  then show ?case by (cases "snd l \<le> snd r") (auto simp: Let_def split: if_splits)
qed auto

lemma separated_Cons:
  "separated slack (w # ws) \<longleftrightarrow>
     separated slack ws \<and> (\<forall>v \<in> set ws. snd w + slack < fst v) \<and> fst w \<le> snd w"
  by (auto simp: separated_def)

lemma intersect_correct:
  assumes "separated 0 ls" "separated 0 rs"
  shows "separated 0 (intersect_windows ls rs) \<and>
    closed_cover (intersect_windows ls rs) = closed_cover ls \<inter> closed_cover rs"
  using assms
proof (induction ls rs rule: intersect_windows.induct)
  case (1 l left r right)
  have far: "t \<notin> closed_cover ws" if "\<forall>v \<in> set ws. u < fst v" "t \<le> u" for t u ws
    using that by (auto simp: closed_cover_def)
  show ?case
  proof (cases "snd l \<le> snd r")
    case True
    let ?rest = "intersect_windows left (r # right)"
    have IH: "separated 0 ?rest" "closed_cover ?rest = closed_cover left \<inter> closed_cover (r # right)"
      using 1 True by (simp_all add: separated_Cons)
    have "snd l < fst w" if "w \<in> set ?rest" for w
      using intersect_member [OF that] 1(3) by (auto simp: separated_Cons)
    then have "separated 0 (intersect_windows (l # left) (r # right))"
      using IH True by (auto simp: Let_def separated_Cons)
    moreover have "t \<notin> closed_cover right" if "t \<le> snd l" for t
      using 1(4) True that by (intro far [of _ "snd r"]) (auto simp: separated_Cons)
    ultimately show ?thesis
      using IH True by (auto simp: Let_def)
  next
    case False
    let ?rest = "intersect_windows (l # left) right"
    have IH: "separated 0 ?rest" "closed_cover ?rest = closed_cover (l # left) \<inter> closed_cover right"
      using 1 False by (simp_all add: separated_Cons)
    have "snd r < fst w" if "w \<in> set ?rest" for w
      using intersect_member [OF that] 1(4) by (auto simp: separated_Cons)
    then have "separated 0 (intersect_windows (l # left) (r # right))"
      using IH False by (auto simp: Let_def separated_Cons)
    moreover have "t \<notin> closed_cover left" if "t \<le> snd r" for t
      using 1(3) False that by (intro far [of _ "snd l"]) (auto simp: separated_Cons)
    ultimately show ?thesis
      using IH False by (auto simp: Let_def)
  qed
qed (auto simp: separated_def)

lemma intersect_all_correct:
  "separated 0 ws \<Longrightarrow> \<forall>o' \<in> set os. separated 0 o' \<Longrightarrow>
   closed_cover (intersect_all ws os) = closed_cover ws \<inter> (\<Inter>o' \<in> set os. closed_cover o')"
proof (induction ws os rule: intersect_all.induct)
  case (2 ws other others)
  note both = intersect_correct [of ws other]
  show ?case
  proof (cases "intersect_windows ws other = []")
    case True
    with both 2 have "closed_cover ws \<inter> closed_cover other = {}" by auto
    with True show ?thesis by auto
  qed (use 2 both in \<open>auto simp: Let_def\<close>)
qed simp

lemma separated_weaken: "separated slack ws \<Longrightarrow> 0 \<le> slack \<Longrightarrow> separated 0 ws"
  by (auto simp: separated_def intro: sorted_wrt_mono_rel [rotated])

lemma route_runs_Some:
  "route_runs by_route routes slack = Some runs \<Longrightarrow>
   runs = map (\<lambda>r. merge_windows (the (map_of by_route r)) slack) routes \<and>
   (\<forall>r \<in> set routes. \<exists>ws. map_of by_route r = Some ws \<and> ws \<noteq> [])"
  by (induction routes arbitrary: runs) (auto split: option.splits if_splits)

lemma route_runs_None:
  "route_runs by_route routes slack = None \<Longrightarrow>
   \<exists>r \<in> set routes. map_of by_route r = None \<or> map_of by_route r = Some []"
  by (induction routes) (auto split: option.splits if_splits)

lemma merge_windows_ok:
  assumes "0 \<le> slack" "\<forall>w \<in> set ws. fst w \<le> snd w"
  shows "separated 0 (merge_windows ws slack)" "closed_cover ws \<subseteq> closed_cover (merge_windows ws slack)"
    "t \<in> closed_cover (merge_windows ws slack) \<Longrightarrow> \<exists>w \<in> set ws. fst w \<le> t \<and> t \<le> snd w + slack"
proof -
  have "merged_ok slack (sort ws) (merge_windows ws slack)"
    unfolding merge_windows_def using assms by (intro merge_fold_ok) auto
  then show "separated 0 (merge_windows ws slack)" "closed_cover ws \<subseteq> closed_cover (merge_windows ws slack)"
    "t \<in> closed_cover (merge_windows ws slack) \<Longrightarrow> \<exists>w \<in> set ws. fst w \<le> t \<and> t \<le> snd w + slack"
    using assms(1) by (auto simp: merged_ok_def closed_cover_def intro: separated_weaken)
qed

lemma confirmed_spans_cover:
  assumes "0 \<le> slack" "required \<noteq> []"
    and wf: "\<forall>r \<in> set required. \<forall>ws. map_of by_route r = Some ws \<longrightarrow> (\<forall>w \<in> set ws. fst w \<le> snd w)"
  shows "(\<exists>s \<in> set (confirmed_empty_spans by_route required slack). cs_start s \<le> t \<and> t \<le> cs_end s) \<longleftrightarrow>
    (\<forall>r \<in> set required. \<exists>ws. map_of by_route r = Some ws \<and> t \<in> closed_cover (merge_windows ws slack))"
proof (cases "route_runs by_route required slack")
  case None
  then obtain r where "r \<in> set required" "map_of by_route r = None \<or> map_of by_route r = Some []"
    by (blast dest: route_runs_None)
  moreover have "merge_windows [] slack = []" by (simp add: merge_windows_def)
  ultimately show ?thesis using None assms(2)
    by (auto simp: confirmed_empty_spans_def intro!: bexI [of _ r])
next
  case (Some runs)
  note facts = route_runs_Some [OF Some]
  let ?run = "\<lambda>r. merge_windows (the (map_of by_route r)) slack"
  have sep: "\<forall>o' \<in> set runs. separated 0 o'"
  proof
    fix o' assume "o' \<in> set runs"
    then obtain r where r: "r \<in> set required" "o' = ?run r" using facts by auto
    then obtain ws where "map_of by_route r = Some ws" using facts by blast
    with r wf show "separated 0 o'" using merge_windows_ok(1) [OF assms(1), of ws] by auto
  qed
  obtain h tl' where runs: "runs = h # tl'" using facts assms(2) by (cases runs) auto
  have "closed_cover (intersect_all (hd runs) (tl runs)) = (\<Inter>o' \<in> set runs. closed_cover o')"
    using intersect_all_correct [of h tl'] sep by (auto simp: runs)
  also have "\<dots> = {t. \<forall>r \<in> set required. t \<in> closed_cover (?run r)}" using facts by auto
  finally have "t \<in> closed_cover (intersect_all (hd runs) (tl runs)) \<longleftrightarrow>
      (\<forall>r \<in> set required. t \<in> closed_cover (?run r))" by auto
  moreover have "(\<exists>s \<in> set (confirmed_empty_spans by_route required slack). cs_start s \<le> t \<and> t \<le> cs_end s) \<longleftrightarrow>
      t \<in> closed_cover (intersect_all (hd runs) (tl runs))"
    using Some assms(2) by (simp add: confirmed_empty_spans_def closed_cover_def)
  ultimately show ?thesis using facts by fastforce
qed

text \<open>C7. Confirmed empty spans.  An instant every required route answered empty for is in a
  confirmed span; and an instant of a confirmed span is, on every required route, inside a window
  that route answered empty, or less than the slack past its end.  A required route without an
  answered window confirms nothing.\<close>

lemma confirmed_by_every_route:
  assumes "0 \<le> slack" "required \<noteq> []"
    and "\<forall>r \<in> set required. \<forall>ws. map_of by_route r = Some ws \<longrightarrow> (\<forall>w \<in> set ws. fst w \<le> snd w)"
  shows "((\<forall>r \<in> set required. \<exists>ws. map_of by_route r = Some ws \<and> (\<exists>w \<in> set ws. fst w \<le> t \<and> t \<le> snd w)) \<longrightarrow>
       (\<exists>s \<in> set (confirmed_empty_spans by_route required slack). cs_start s \<le> t \<and> t \<le> cs_end s)) \<and>
    ((\<exists>s \<in> set (confirmed_empty_spans by_route required slack). cs_start s \<le> t \<and> t \<le> cs_end s) \<longrightarrow>
       (\<forall>r \<in> set required. \<exists>ws. map_of by_route r = Some ws \<and>
          (\<exists>w \<in> set ws. fst w \<le> t \<and> t \<le> snd w + slack)))"
  unfolding confirmed_spans_cover [OF assms]
proof (intro conjI impI ballI)
  fix r assume "\<forall>r \<in> set required. \<exists>ws. map_of by_route r = Some ws \<and> (\<exists>w \<in> set ws. fst w \<le> t \<and> t \<le> snd w)"
    and r: "r \<in> set required"
  then obtain ws where ws: "map_of by_route r = Some ws" "t \<in> closed_cover ws"
    unfolding closed_cover_def by blast
  with assms r have "closed_cover ws \<subseteq> closed_cover (merge_windows ws slack)"
    by (intro merge_windows_ok(2)) auto
  with ws show "\<exists>ws. map_of by_route r = Some ws \<and> t \<in> closed_cover (merge_windows ws slack)" by blast
next
  fix r assume "\<forall>r \<in> set required. \<exists>ws. map_of by_route r = Some ws \<and> t \<in> closed_cover (merge_windows ws slack)"
    and r: "r \<in> set required"
  then obtain ws where ws: "map_of by_route r = Some ws" "t \<in> closed_cover (merge_windows ws slack)" by blast
  moreover have "\<forall>w \<in> set ws. fst w \<le> snd w" using assms(3) r ws(1) by blast
  ultimately have "\<exists>w \<in> set ws. fst w \<le> t \<and> t \<le> snd w + slack"
    using merge_windows_ok(3) [OF assms(1)] by blast
  with ws show "\<exists>ws. map_of by_route r = Some ws \<and> (\<exists>w \<in> set ws. fst w \<le> t \<and> t \<le> snd w + slack)" by blast
qed

definition ex_routes :: "(string \<times> window list) list" where
  "ex_routes = [(''SMART'', [(0, 5), (7, 9)]), (''ARCA'', [(4, 8)])]"

lemma confirmed_by_every_route_witness:
  "\<exists>s \<in> set (confirmed_empty_spans ex_routes [''SMART'', ''ARCA''] 2). cs_start s \<le> 8 \<and> 8 \<le> cs_end s"
  using confirmed_by_every_route [of 2 "[''SMART'', ''ARCA'']" ex_routes 8] by (simp add: ex_routes_def)

section \<open>The plan\<close>

definition chain :: "(stamp \<times> stamp) list \<Rightarrow> bool" where
  "chain ps \<longleftrightarrow> sorted_wrt (\<lambda>p q. snd p \<le> fst q) ps \<and> (\<forall>p \<in> set ps. fst p < snd p)"

lemma chain_Cons: "chain (p # ps) \<longleftrightarrow> chain ps \<and> (\<forall>q \<in> set ps. snd p \<le> fst q) \<and> fst p < snd p"
  by (auto simp: chain_def)

lemma slot_ends_fst [simp]: "map fst (slot_ends i xs) = xs"
  by (induction i xs rule: slot_ends.induct) auto

lemma slot_ends_chain: "0 < i \<Longrightarrow> sorted_wrt (<) xs \<Longrightarrow> chain (slot_ends i xs)"
proof (induction i xs rule: slot_ends.induct)
  case (1 i s t ts)
  then have IH: "chain (slot_ends i (t # ts))" by simp
  have "min (s + i) t \<le> fst q" if q: "q \<in> set (slot_ends i (t # ts))" for q
  proof -
    have "fst q \<in> set (map fst (slot_ends i (t # ts)))" using q by (metis image_eqI list.set_map)
    then have "fst q \<in> set (t # ts)" by simp
    with 1(3) show ?thesis by auto
  qed
  with IH 1 show ?case by (auto simp: chain_Cons)
qed (auto simp: chain_def)

lemma chain_filter: "chain ps \<Longrightarrow> chain (filter P ps)"
  by (auto simp: chain_def sorted_wrt_filter)

lemma group_gaps_correct:
  assumes "rs < pe" "rs < re" "chain rest" "\<forall>q \<in> set rest. pe \<le> fst q \<and> fst q < re"
  shows "cover (group_gaps re rs pe rest) = {t. t < re \<and> (rs \<le> t \<and> t < pe \<or> t \<in> cover rest)} \<and>
    sorted_wrt (\<lambda>w v. snd w < fst v) (group_gaps re rs pe rest) \<and>
    (\<forall>w \<in> set (group_gaps re rs pe rest). rs \<le> fst w \<and> fst w < snd w \<and> snd w \<le> re \<and>
       (fst w = rs \<or> pe < fst w))"
  using assms
proof (induction re rs pe rest rule: group_gaps.induct)
  case (1 re rs pe)
  then show ?case by auto
next
  case (2 re rs pe slot slot_end rest)
  have rest: "chain rest" "\<forall>q \<in> set rest. slot_end \<le> fst q \<and> fst q < re" "slot < slot_end" "pe \<le> slot" "slot < re"
    using 2(5,6) by (auto simp: chain_Cons)
  show ?case
  proof (cases "slot = pe")
    case False
    then have "pe < slot" using rest by simp
    have IH: "cover (group_gaps re slot slot_end rest) = {t. t < re \<and> (slot \<le> t \<and> t < slot_end \<or> t \<in> cover rest)}"
      "sorted_wrt (\<lambda>w v. snd w < fst v) (group_gaps re slot slot_end rest)"
      "\<forall>w \<in> set (group_gaps re slot slot_end rest). slot \<le> fst w \<and> fst w < snd w \<and> snd w \<le> re"
      using 2(1) [OF False rest(3,5,1,2)] by auto
    with False \<open>pe < slot\<close> 2(3,4) rest show ?thesis by fastforce
  next
    case True
    have "rs < slot_end" using True 2(3) rest by simp
    from 2(2) [OF _ this 2(4) rest(1,2)] True rest 2(3) show ?thesis by fastforce
  qed
qed

definition missing_slots ::
  "stamp list \<Rightarrow> stamp list \<Rightarrow> answered_windows \<Rightarrow> int \<Rightarrow> stamp \<Rightarrow> window list \<Rightarrow> (stamp \<times> stamp) list" where
  "missing_slots slots stored answered interval run_end empty_ranges =
     filter (slot_missing stored answered empty_ranges)
       (slot_ends interval (sorted_set (filter (\<lambda>slot. slot < run_end) slots)))"

lemma plan_gaps_missing:
  "plan_gaps slots stored answered interval run_end empty_ranges =
     (case missing_slots slots stored answered interval run_end empty_ranges of
        [] \<Rightarrow> []
      | (slot, slot_end) # rest \<Rightarrow> group_gaps run_end slot slot_end rest)"
proof (cases "filter (\<lambda>slot. slot < run_end) slots = []")
  case True
  then show ?thesis by (simp add: plan_gaps_def missing_slots_def)
qed (simp add: plan_gaps_def missing_slots_def Let_def)

lemma missing_slots_chain:
  assumes "0 < interval"
  shows "chain (missing_slots slots stored answered interval run_end empty_ranges)"
    and "\<forall>p \<in> set (missing_slots slots stored answered interval run_end empty_ranges). fst p < run_end"
proof -
  let ?h = "sorted_set (filter (\<lambda>slot. slot < run_end) slots)"
  have "sorted_wrt (<) ?h" by (simp add: strict_sorted_iff)
  then show "chain (missing_slots slots stored answered interval run_end empty_ranges)"
    unfolding missing_slots_def by (intro chain_filter slot_ends_chain assms)
  have "fst p \<in> set ?h" if "p \<in> set (slot_ends interval ?h)" for p
    using that by (metis image_eqI list.set_map slot_ends_fst)
  then show "\<forall>p \<in> set (missing_slots slots stored answered interval run_end empty_ranges). fst p < run_end"
    by (auto simp: missing_slots_def)
qed

lemma plan_asks_missing:
  assumes "0 < interval"
  shows "cover (plan_gaps slots stored answered interval run_end empty_ranges) = {t. t < run_end \<and> t \<in> cover (missing_slots slots stored answered interval run_end empty_ranges)} \<and>
    sorted_wrt (\<lambda>w v. snd w < fst v) (plan_gaps slots stored answered interval run_end empty_ranges) \<and> (\<forall>w \<in> set (plan_gaps slots stored answered interval run_end empty_ranges). fst w < snd w \<and> snd w \<le> run_end)"
proof (cases "missing_slots slots stored answered interval run_end empty_ranges")
  case Nil
  then show ?thesis by (simp add: plan_gaps_missing)
next
  case (Cons p rest)
  obtain s e where p: "p = (s, e)" by (cases p)
  note ok = missing_slots_chain [OF assms(1), of slots stored answered run_end empty_ranges]
  have "s < e" "s < run_end" "chain rest" "\<forall>q \<in> set rest. e \<le> fst q \<and> fst q < run_end"
    using ok unfolding Cons p by (auto simp: chain_Cons)
  from group_gaps_correct [OF this] show ?thesis
    unfolding plan_gaps_missing Cons p by auto
qed



text \<open>C9. Progress.  Once every slot the plan asked for is stored, planning again asks nothing: a
  completed fetch leaves an empty plan.\<close>

lemma completed_fetch_empty_plan:
  assumes "0 < interval" "set stored \<subseteq> set stored'"
    and done': "\<forall>slot \<in> set slots.
      slot \<in> cover (plan_gaps slots stored answered interval run_end empty_ranges) \<longrightarrow> slot \<in> set stored'"
  shows "plan_gaps slots stored' answered interval run_end empty_ranges = []"
proof -
  have "missing_slots slots stored' answered interval run_end empty_ranges = []"
  proof (rule ccontr)
    assume "missing_slots slots stored' answered interval run_end empty_ranges \<noteq> []"
    then obtain p where p: "p \<in> set (missing_slots slots stored' answered interval run_end empty_ranges)"
      by (metis list.set_intros(1) list.exhaust)
    obtain s e where se: "p = (s, e)" by (cases p)
    have miss: "slot_missing stored' answered empty_ranges (s, e)"
      and mem: "(s, e) \<in> set (slot_ends interval (sorted_set (filter (\<lambda>slot. slot < run_end) slots)))"
      using p by (auto simp: missing_slots_def se)
    then have "slot_missing stored answered empty_ranges (s, e)"
      using assms(2) by (auto simp: slot_missing_def)
    with mem have old: "(s, e) \<in> set (missing_slots slots stored answered interval run_end empty_ranges)"
      by (simp add: missing_slots_def)
    have "s \<in> set (sorted_set (filter (\<lambda>slot. slot < run_end) slots))"
      using mem by (metis fst_conv image_eqI list.set_map slot_ends_fst)
    then have "s \<in> set slots" by simp
    moreover have "s < run_end" "s < e"
      using missing_slots_chain [OF assms(1), of slots stored answered run_end empty_ranges] old
      by (auto simp: chain_def)
    then have "s \<in> cover (plan_gaps slots stored answered interval run_end empty_ranges)"
      using plan_asks_missing [OF assms(1)] old by (force simp: cover_def)
    ultimately have "s \<in> set stored'" using done' by blast
    with miss show False by (simp add: slot_missing_def)
  qed
  then show ?thesis by (simp add: plan_gaps_missing)
qed

lemma completed_fetch_empty_plan_witness:
  "plan_gaps [0, 5, 10] [5, 0, 10] (from_rows [] []) 5 12 [] = []"
  by (rule completed_fetch_empty_plan [of 5 "[5]"]) auto

end
