(* ===== verification/Daily_Rule.thy ===== *)
theory Daily_Rule
  imports Vendor_Kind Policy
begin

text \<open>
  The canonical daily rule d2-v5: \<open>src/intelligence/bars/daily_rule.py\<close> with the record types of
  \<open>src/intelligence/bars/derivation.py\<close>.

  Dates are sessions, prices are reals.  The America/New_York date of an instant is the parameter
  \<open>ny\<close> of \<open>raw_session_date\<close>, the only place that converts a stamp.  A split factor is a real, so
  \<open>math.isfinite\<close> always holds; dividing by a zero scale raises.  A flag's JSON detail is the
  datatype \<open>flag_detail\<close>.
\<close>

section \<open>Records\<close>

record observation =
  ob_request_id :: string
  ob_route :: string
  ob_date :: day
  ob_open :: real
  ob_high :: real
  ob_low :: real
  ob_close :: real
  ob_volume :: "int option"
  ob_fetched_at :: stamp
  ob_legacy :: bool
  ob_what_to_show :: string

record split_record =
  sp_effective_date :: day
  sp_recorded_at :: stamp
  sp_factor :: real
  sp_evidence :: "string list"
  sp_rescale_routes :: "string list"
  sp_calendar_adjusted_step :: real

record canonical_bar =
  cb_date :: day
  cb_open :: real
  cb_high :: real
  cb_low :: real
  cb_close :: real
  cb_volume :: "int option"
  cb_vendor :: string
  cb_kind :: string
  cb_request_ids :: "string list"
  cb_flags :: "string list"

record policy =
  po_timeframe :: string
  po_symbol :: "string option"
  po_valid_from :: day
  po_valid_to :: "day option"
  po_ingress_mode :: string
  po_primary :: string
  po_fallback :: "string option"

definition po_covers :: "policy \<Rightarrow> day \<Rightarrow> bool" where
  "po_covers p d \<longleftrightarrow> po_valid_from p \<le> d \<and> (case po_valid_to p of None \<Rightarrow> True | Some e \<Rightarrow> d < e)"

datatype flag_detail =
    VendorKindDetail string string
  | SeamDetail (sd_fallback: string) (sd_head_first: day) (sd_head_last: day) (sd_n_head_bars: nat)
      (sd_window_sessions: nat) (sd_n_common: nat) (sd_median: "real option") (sd_deviation_bp: "real option")

record derived_flag =
  fl_date :: day
  fl_rule :: string
  fl_fields :: "string list"
  fl_detail :: flag_detail

record daily_result =
  dr_bars :: "canonical_bar list"
  dr_flags :: "derived_flag list"
  dr_refused_interior :: "day list"
  dr_head :: "day list"
  dr_admitted_interior :: "day list"
  dr_stale_only :: "day list"
  dr_refused_head :: "day list"
  dr_restated :: "day list"
  dr_zero_volume :: "day list"
  dr_zero_volume_fallback :: "day list"
  dr_unserved_primary :: "day list"

section \<open>Constants\<close>

definition BP :: real where "BP = 10000"
definition TIMEFRAME :: string where "TIMEFRAME = ''1d''"
definition ROUTE_SMART :: string where "ROUTE_SMART = ''SMART''"
definition ROUTE_LEGACY :: string where "ROUTE_LEGACY = ''LEGACY_IMPORT''"
definition ROUTE_TRADIER :: string where "ROUTE_TRADIER = ''TRADIER''"
definition VENDOR_TRADIER :: string where "VENDOR_TRADIER = ''tradier''"
definition FLAG_FALLBACK_SEAM :: string where "FLAG_FALLBACK_SEAM = ''fallback_seam''"
definition FLAG_PRE_SPLIT :: string where "FLAG_PRE_SPLIT = ''pre_split_unrefetched''"
definition FLAG_NO_VOLUME :: string where "FLAG_NO_VOLUME = ''no_provider_volume''"

definition FLAG_FIELDS :: "(string \<times> string list) list" where
  "FLAG_FIELDS =
     [(FLAG_FALLBACK_SEAM, [''close'']),
      (FLAG_PRE_SPLIT, [''open'', ''high'', ''low'', ''close'']),
      (FLAG_NO_VOLUME, [''volume''])]"

definition PRIMARY_PAIR :: "(string \<times> vendor_kind) list" where
  "PRIMARY_PAIR =
     [(VENDOR_TRADIER, (''tradier'', ''consolidated'')),
      (VENDOR_IBKR, (''ibkr'', ''named'')),
      (VENDOR_ALPACA, (''alpaca'', ''sip_rth''))]"

definition FALLBACK_PAIR :: vendor_kind where "FALLBACK_PAIR = (''ibkr'', ''fallback'')"

definition FALLBACK_FOR :: "(string \<times> string) list" where
  "FALLBACK_FOR = [(VENDOR_TRADIER, VENDOR_IBKR), (VENDOR_ALPACA, VENDOR_IBKR)]"

definition RAW_DAILY_SERIES :: "vendor_kind list" where
  "RAW_DAILY_SERIES =
     [(VENDOR_TRADIER, ''consolidated''), (VENDOR_IBKR, ''smart_trades''), (VENDOR_ALPACA, ''sip_rth'')]"

definition RAW_DAILY_SESSION_ZONE :: "(vendor_kind \<times> string) list" where
  "RAW_DAILY_SESSION_ZONE =
     [((VENDOR_TRADIER, ''consolidated''), ''UTC''),
      ((VENDOR_IBKR, ''smart_trades''), ''UTC''),
      ((VENDOR_ALPACA, ''sip_rth''), ''America/New_York'')]"

definition ROUTE_VENDOR :: "(string \<times> string) list" where
  "ROUTE_VENDOR =
     [(ROUTE_TRADIER, VENDOR_TRADIER), (ROUTE_SMART, VENDOR_IBKR), (ROUTE_LEGACY, VENDOR_IBKR),
      (ROUTE_ALPACA, VENDOR_ALPACA)]"

definition VENDORS :: "string list" where "VENDORS = [VENDOR_TRADIER, VENDOR_IBKR, VENDOR_ALPACA]"

definition RESCALABLE_SERIES :: "(vendor_kind \<times> string list) list" where
  "RESCALABLE_SERIES =
     [((VENDOR_IBKR, ''smart_trades''), [ROUTE_SMART, ROUTE_LEGACY]),
      ((VENDOR_ALPACA, ''sip_rth''), [ROUTE_ALPACA])]"

lemmas daily_names = TIMEFRAME_def ROUTE_SMART_def ROUTE_LEGACY_def ROUTE_TRADIER_def VENDOR_TRADIER_def
  FLAG_FALLBACK_SEAM_def FLAG_PRE_SPLIT_def FLAG_NO_VOLUME_def FALLBACK_PAIR_def
  VENDOR_IBKR_def VENDOR_ALPACA_def ROUTE_ALPACA_def

section \<open>Raw rows and the policy\<close>

definition observation_from_raw ::
  "string option \<Rightarrow> string \<Rightarrow> string \<Rightarrow> day \<Rightarrow> real \<Rightarrow> real \<Rightarrow> real \<Rightarrow> real \<Rightarrow> int option \<Rightarrow> stamp option
   \<Rightarrow> bool \<Rightarrow> err + observation" where
  "observation_from_raw request_id vendor kind bar_date opn high low close volume served_at legacy =
     (case served_at of
        None \<Rightarrow> Inl ValueError
      | Some at_time \<Rightarrow>
          ebind (if (vendor, kind) = (VENDOR_TRADIER, ''consolidated'') then Inr ROUTE_TRADIER
                 else if (vendor, kind) = (VENDOR_IBKR, ''smart_trades'')
                 then Inr (if legacy then ROUTE_LEGACY else ROUTE_SMART)
                 else if (vendor, kind) = (VENDOR_ALPACA, ''sip_rth'') then Inr ROUTE_ALPACA
                 else Inl ValueError)
            (\<lambda>route. Inr
              \<lparr>ob_request_id = (case request_id of None \<Rightarrow> '''' | Some r \<Rightarrow> r), ob_route = route,
               ob_date = bar_date, ob_open = opn, ob_high = high, ob_low = low, ob_close = close,
               ob_volume = volume, ob_fetched_at = at_time, ob_legacy = (route = ROUTE_LEGACY),
               ob_what_to_show = ''TRADES''\<rparr>))"

definition raw_session_date :: "(stamp \<Rightarrow> day) \<Rightarrow> string \<Rightarrow> string \<Rightarrow> stamp \<Rightarrow> err + day" where
  "raw_session_date ny vendor kind t =
     (case map_of RAW_DAILY_SESSION_ZONE (vendor, kind) of
        None \<Rightarrow> Inl ValueError
      | Some zone \<Rightarrow> Inr (if zone = ''UTC'' then utc_day t else ny t))"

definition alpaca_era_start :: "policy list \<Rightarrow> day option" where
  "alpaca_era_start rows =
     (let starts = map po_valid_from (filter (\<lambda>r. po_timeframe r = TIMEFRAME \<and> po_symbol r = None
                     \<and> po_primary r = VENDOR_ALPACA) rows)
      in if starts = [] then None else Some (Min (set starts)))"

definition primary_pair :: "string \<Rightarrow> day \<Rightarrow> day option \<Rightarrow> err + vendor_kind" where
  "primary_pair vendor d era_start =
     (if vendor = VENDOR_IBKR \<and> (case era_start of None \<Rightarrow> False | Some s \<Rightarrow> s \<le> d) then Inr FALLBACK_PAIR
      else case map_of PRIMARY_PAIR vendor of None \<Rightarrow> Inl KeyError | Some p \<Rightarrow> Inr p)"

fun resolve_scopes :: "policy list \<Rightarrow> string option list \<Rightarrow> err + policy" where
  "resolve_scopes covering [] = Inl LookupError"
| "resolve_scopes covering (scope # scopes) =
     (let matched = filter (\<lambda>r. po_symbol r = scope) covering
      in if 1 < length matched then Inl LookupError
         else if matched \<noteq> [] then Inr (hd matched)
         else resolve_scopes covering scopes)"

definition resolve_policy :: "policy list \<Rightarrow> string \<Rightarrow> day \<Rightarrow> err + policy" where
  "resolve_policy rows symbol bar_date =
     resolve_scopes (filter (\<lambda>r. po_timeframe r = TIMEFRAME \<and> po_covers r bar_date) rows)
       [Some symbol, None]"

section \<open>Scale\<close>

definition stale_for :: "observation \<Rightarrow> split_record \<Rightarrow> bool" where
  "stale_for obs split \<longleftrightarrow>
     (if sp_rescale_routes split \<noteq> [] then False
      else if sp_effective_date split < ob_date obs then False
      else if ob_legacy obs then True
      else ob_fetched_at obs < sp_recorded_at split \<and> ob_request_id obs \<notin> set (sp_evidence split))"

definition is_current :: "observation \<Rightarrow> split_record list \<Rightarrow> bool" where
  "is_current obs splits \<longleftrightarrow> \<not> (\<exists>split \<in> set splits. stale_for obs split)"

text \<open>The loop of \<open>_restated_close\<close>: the product of the factors of the splits that stale the
  observation, \<open>None\<close> at the first factor that is not positive.\<close>

fun stale_scale :: "observation \<Rightarrow> split_record list \<Rightarrow> real \<Rightarrow> real option" where
  "stale_scale obs [] scale = Some scale"
| "stale_scale obs (split # splits) scale =
     (if stale_for obs split then
        (if 0 < sp_factor split then stale_scale obs splits (scale * sp_factor split) else None)
      else stale_scale obs splits scale)"

definition restated_close :: "observation \<Rightarrow> split_record list \<Rightarrow> real option" where
  "restated_close obs splits =
     (if ob_legacy obs then None
      else map_option (\<lambda>scale. ob_close obs / scale)
             (stale_scale obs (sort_key (\<lambda>s. (sp_effective_date s, sp_recorded_at s)) splits) 1))"

definition best_obs :: "observation list \<Rightarrow> observation" where
  "best_obs candidates = max_by (\<lambda>ob. (\<not> ob_legacy ob, ob_fetched_at ob, ob_request_id ob)) candidates"

record vendor_day =
  vd_current :: "observation option"
  vd_stale :: "observation option"

definition basis_close :: "vendor_day \<Rightarrow> split_record list \<Rightarrow> real option" where
  "basis_close d splits =
     (case vd_current d of
        Some ob \<Rightarrow> Some (ob_close ob)
      | None \<Rightarrow> (case vd_stale d of Some ob \<Rightarrow> restated_close ob splits | None \<Rightarrow> None))"

definition rescale_routes :: "string \<Rightarrow> string \<Rightarrow> err + string list" where
  "rescale_routes vendor kind =
     (case map_of RESCALABLE_SERIES (vendor, kind) of None \<Rightarrow> Inl ValueError | Some rs \<Rightarrow> Inr rs)"

definition rescale_factors :: "observation \<Rightarrow> split_record list \<Rightarrow> real list" where
  "rescale_factors obs splits =
     map sp_factor (filter (\<lambda>s. ob_route obs \<in> set (sp_rescale_routes s) \<and> ob_date obs \<le> sp_effective_date s)
       (sort_key sp_effective_date splits))"

definition split_scale :: "observation \<Rightarrow> split_record list \<Rightarrow> real" where
  "split_scale obs splits = foldl (*) 1 (rescale_factors obs splits)"

definition rescaled :: "observation \<Rightarrow> split_record list \<Rightarrow> err + observation" where
  "rescaled obs splits =
     (if rescale_factors obs splits = [] then Inr obs
      else let scale = split_scale obs splits;
               volume = map_option (\<lambda>v. \<lfloor>of_int v * scale + 1 / 2\<rfloor>) (ob_volume obs)
           in if scale = 0 then Inl ZeroDivisionError
              else Inr (obs\<lparr>ob_open := ob_open obs / scale, ob_high := ob_high obs / scale,
                        ob_low := ob_low obs / scale, ob_close := ob_close obs / scale,
                        ob_volume := volume\<rparr>))"

section \<open>Pools\<close>

type_synonym vendor_days = "(day \<times> vendor_day) list"

text \<open>One turn of the pooling loop: an observation that is not TRADES raises, one of an unknown
  route is skipped, any other is rescaled and filed under its vendor.\<close>

definition pool_one :: "split_record list \<Rightarrow> observation \<Rightarrow> err + (string \<times> observation) option" where
  "pool_one splits obs =
     (if ob_what_to_show obs \<noteq> ''TRADES'' then Inl ValueError
      else case map_of ROUTE_VENDOR (ob_route obs) of
        None \<Rightarrow> Inr None
      | Some vendor \<Rightarrow> ebind (rescaled obs splits) (\<lambda>ob. Inr (Some (vendor, ob))))"

definition best_of :: "observation list \<Rightarrow> observation option" where
  "best_of obs = (if obs = [] then None else Some (best_obs obs))"

definition vendor_day_of :: "split_record list \<Rightarrow> observation list \<Rightarrow> vendor_day" where
  "vendor_day_of splits obs =
     \<lparr>vd_current = best_of (filter (\<lambda>ob. is_current ob splits) obs),
      vd_stale = best_of (filter (\<lambda>ob. \<not> is_current ob splits) obs)\<rparr>"

definition vendor_pool :: "split_record list \<Rightarrow> (string \<times> observation) list \<Rightarrow> string \<Rightarrow> vendor_days" where
  "vendor_pool splits filed vendor =
     map (\<lambda>(d, obs). (d, vendor_day_of splits obs))
       (group_by ob_date (map snd (filter (\<lambda>(v, _). v = vendor) filed)))"

definition by_vendor_day ::
  "observation list \<Rightarrow> split_record list \<Rightarrow> err + (string \<times> vendor_days) list" where
  "by_vendor_day observations splits =
     ebind (emap (pool_one splits) observations) (\<lambda>filed.
       Inr (map (\<lambda>v. (v, vendor_pool splits (concat (map (\<lambda>f. case f of None \<Rightarrow> [] | Some x \<Rightarrow> [x]) filed)) v)) VENDORS))"

definition days_of :: "(string \<times> vendor_days) list \<Rightarrow> string \<Rightarrow> vendor_days" where
  "days_of pools vendor = (case map_of pools vendor of None \<Rightarrow> [] | Some ds \<Rightarrow> ds)"

definition current_close_dict :: "vendor_days \<Rightarrow> (day \<times> real) list" where
  "current_close_dict ds =
     concat (map (\<lambda>(d, v). case vd_current v of None \<Rightarrow> [] | Some ob \<Rightarrow> [(d, ob_close ob)]) ds)"

definition current_closes ::
  "observation list \<Rightarrow> split_record list \<Rightarrow> err + (day \<times> real) list \<times> (day \<times> real) list" where
  "current_closes observations splits =
     ebind (by_vendor_day (filter (\<lambda>ob. ob_route ob \<noteq> ROUTE_LEGACY) observations) splits) (\<lambda>days.
       Inr (current_close_dict (days_of days VENDOR_TRADIER), current_close_dict (days_of days VENDOR_IBKR)))"

definition basis_closes ::
  "observation list \<Rightarrow> split_record list \<Rightarrow> err + (day \<times> real) list \<times> (day \<times> real) list" where
  "basis_closes observations splits =
     ebind (by_vendor_day (filter (\<lambda>ob. ob_route ob \<noteq> ROUTE_LEGACY) observations) splits) (\<lambda>days.
       Inr (concat (map (\<lambda>(d, v). case basis_close v splits of None \<Rightarrow> [] | Some c \<Rightarrow> [(d, c)])
              (days_of days VENDOR_TRADIER)),
            current_close_dict (days_of days VENDOR_IBKR)))"

section \<open>The vendor basis\<close>

definition median_ratio :: "day list \<Rightarrow> (day \<times> real) list \<Rightarrow> real option" where
  "median_ratio dates ratios =
     (if dates = [] then None else Some (median (map (\<lambda>d. the (map_of ratios d)) dates)))"

definition bisect_left :: "int list \<Rightarrow> int \<Rightarrow> nat" where
  "bisect_left xs x = length (takeWhile (\<lambda>s. s < x) xs)"

text \<open>The two cursors of \<open>_nearest\<close>: the common sessions left of the hole, nearest first, and
  those right of it.\<close>

fun nearest_loop :: "int \<Rightarrow> nat \<Rightarrow> (int \<times> day) list \<Rightarrow> (int \<times> day) list \<Rightarrow> day list" where
  "nearest_loop hole 0 lefts rights = []"
| "nearest_loop hole (Suc n) [] [] = []"
| "nearest_loop hole (Suc n) (l # ls) [] = snd l # nearest_loop hole n ls []"
| "nearest_loop hole (Suc n) [] (r # rs) = snd r # nearest_loop hole n [] rs"
| "nearest_loop hole (Suc n) (l # ls) (r # rs) =
     (if hole - fst l \<le> fst r - hole then snd l # nearest_loop hole n ls (r # rs)
      else snd r # nearest_loop hole n (l # ls) rs)"

definition nearest :: "int \<Rightarrow> int list \<Rightarrow> day list \<Rightarrow> nat \<Rightarrow> day list" where
  "nearest hole_index common_index common_dates n =
     (let right = bisect_left common_index hole_index;
          common = zip common_index common_dates
      in nearest_loop hole_index n (rev (take right common)) (drop right common))"

definition bar_of :: "observation \<Rightarrow> vendor_kind \<Rightarrow> string list \<Rightarrow> canonical_bar" where
  "bar_of obs pair flags =
     \<lparr>cb_date = ob_date obs, cb_open = ob_open obs, cb_high = ob_high obs, cb_low = ob_low obs,
      cb_close = ob_close obs, cb_volume = ob_volume obs, cb_vendor = fst pair, cb_kind = snd pair,
      cb_request_ids = [ob_request_id obs],
      cb_flags = (if ob_volume obs = None then flags @ [FLAG_NO_VOLUME] else flags)\<rparr>"

definition check_policy :: "policy \<Rightarrow> err + unit" where
  "check_policy p =
     (if po_ingress_mode p \<noteq> ''observed'' then Inl ValueError
      else if po_primary p \<notin> set (map fst PRIMARY_PAIR) then Inl ValueError
      else if po_fallback p \<noteq> None \<and> map_of FALLBACK_FOR (po_primary p) \<noteq> po_fallback p
      then Inl ValueError
      else Inr ())"

definition is_trade :: "observation \<Rightarrow> bool" where
  "is_trade obs = (case ob_volume obs of None \<Rightarrow> False | Some v \<Rightarrow> 0 < v)"

definition basis_ratio_of :: "vendor_days \<Rightarrow> vendor_days \<Rightarrow> split_record list \<Rightarrow> day \<Rightarrow> real option" where
  "basis_ratio_of primary ibkr splits d =
     (case (map_of ibkr d, map_of primary d) of
        (Some i, Some p) \<Rightarrow>
          (case (vd_current i, basis_close p splits) of
             (Some ob, Some primary_close) \<Rightarrow>
               if 0 < primary_close then Some (ob_close ob / primary_close) else None
           | _ \<Rightarrow> None)
      | _ \<Rightarrow> None)"

definition basis_ratios :: "vendor_days \<Rightarrow> vendor_days \<Rightarrow> split_record list \<Rightarrow> (day \<times> real) list" where
  "basis_ratios primary ibkr splits =
     concat (map (\<lambda>d. case basis_ratio_of primary ibkr splits d of None \<Rightarrow> [] | Some r \<Rightarrow> [(d, r)])
       (sort (map fst primary)))"

definition within_bp :: "real option \<Rightarrow> real \<Rightarrow> bool" where
  "within_bp ratio tolerance_bp =
     (case ratio of None \<Rightarrow> False | Some r \<Rightarrow> \<bar>r - 1\<bar> * BP \<le> tolerance_bp)"

definition is_alpaca :: "observation \<Rightarrow> bool" where
  "is_alpaca obs \<longleftrightarrow> map_of ROUTE_VENDOR (ob_route obs) = Some VENDOR_ALPACA"

record screened =
  sn_days :: "(string \<times> vendor_days) list"
  sn_zero_volume :: "day list"

definition screen :: "observation list \<Rightarrow> split_record list \<Rightarrow> err + screened" where
  "screen observations splits =
     (let alpaca = filter is_alpaca observations;
          traded = map ob_date (filter is_trade alpaca);
          zero_volume = sorted_set (filter (\<lambda>d. d \<notin> set traded) (map ob_date alpaca))
      in ebind (by_vendor_day (filter (\<lambda>ob. \<not> is_alpaca ob \<or> is_trade ob) observations) splits) (\<lambda>days.
        Inr \<lparr>sn_days = days, sn_zero_volume = zero_volume\<rparr>))"

definition servable_primary_dates ::
  "observation list \<Rightarrow> split_record list \<Rightarrow> err + (string \<times> day list) list" where
  "servable_primary_dates observations splits =
     ebind (screen observations splits) (\<lambda>sn.
       Inr (map (\<lambda>(vendor, _). (vendor, map fst (filter (\<lambda>(d, v). vd_current v \<noteq> None) (days_of (sn_days sn) vendor))))
              FALLBACK_FOR))"

definition vendor_basis_closes ::
  "observation list \<Rightarrow> split_record list \<Rightarrow> err + (string \<times> (day \<times> real) list) list" where
  "vendor_basis_closes observations splits =
     ebind (screen observations splits) (\<lambda>sn.
       Inr (map (\<lambda>vendor. (vendor,
              concat (map (\<lambda>(d, v). case basis_close v splits of
                             None \<Rightarrow> [] | Some c \<Rightarrow> if c = 0 then [] else [(d, c)])
                (sort_key fst (days_of (sn_days sn) vendor))))) VENDORS))"

record basis_frame =
  bf_head :: "day option"
  bf_position :: "(day \<times> int) list"
  bf_ratios :: "(day \<times> real) list"
  bf_common_dates :: "day list"
  bf_common_index :: "int list"
  bf_head_admitted :: bool

definition min_date :: "vendor_days \<Rightarrow> day option" where
  "min_date ds = (if ds = [] then None else Some (Min (set (map fst ds))))"

definition frame_build :: "vendor_days \<Rightarrow> vendor_days \<Rightarrow> split_record list \<Rightarrow> nat \<Rightarrow> real \<Rightarrow> basis_frame" where
  "frame_build primary ibkr splits window_sessions tolerance_bp =
     (let head = min_date primary;
          axis = sorted_set (map fst primary @ map fst ibkr);
          position = zip axis (map int [0..<length axis]);
          ratios = basis_ratios primary ibkr splits;
          common_dates = sort (map fst ratios);
          seam = (case head of
                    None \<Rightarrow> []
                  | Some h \<Rightarrow> take window_sessions (filter (\<lambda>d. h \<le> d) common_dates))
      in \<lparr>bf_head = head, bf_position = position, bf_ratios = ratios, bf_common_dates = common_dates,
          bf_common_index = map (\<lambda>d. the (map_of position d)) common_dates,
          bf_head_admitted = within_bp (median_ratio seam ratios) tolerance_bp\<rparr>)"

definition within_tolerance :: "basis_frame \<Rightarrow> day \<Rightarrow> nat \<Rightarrow> real \<Rightarrow> err + bool" where
  "within_tolerance frame d window_sessions tolerance_bp =
     (case map_of (bf_position frame) d of
        None \<Rightarrow> Inl KeyError
      | Some i \<Rightarrow>
          let window = nearest i (bf_common_index frame) (bf_common_dates frame) window_sessions
          in Inr (within_bp (median_ratio window (bf_ratios frame)) tolerance_bp))"

section \<open>The rule\<close>

text \<open>What one turn of the loop of \<open>derive_daily\<close> does with a session: the branch it takes, with the
  canonical bar the branch appends when it appends one.\<close>

datatype day_outcome =
    Served canonical_bar
  | Restated canonical_bar
  | ServedStale canonical_bar
  | UnservedPrimary
  | StaleOnly
  | ZeroVolumeFallback
  | HeadWhole canonical_bar
  | HeadRefused
  | HeadAdmitted string canonical_bar
  | InteriorRefused
  | InteriorAdmitted canonical_bar

definition fallback_day :: "(string \<times> vendor_days) list \<Rightarrow> policy \<Rightarrow> day \<Rightarrow> vendor_day option" where
  "fallback_day days pol d =
     (case po_fallback pol of
        None \<Rightarrow> None
      | Some f \<Rightarrow> if f = '''' then None else map_of (days_of days f) d)"

definition decide_stale ::
  "(string \<times> basis_frame) list \<Rightarrow> policy \<Rightarrow> day option \<Rightarrow> nat \<Rightarrow> real \<Rightarrow> day \<Rightarrow> observation \<Rightarrow> vendor_day option
   \<Rightarrow> err + day_outcome" where
  "decide_stale frames pol era_start window tolerance d stale fallback =
     (let vendor = po_primary pol;
          as_stale = ebind (primary_pair vendor d era_start) (\<lambda>pair.
                       Inr (ServedStale (bar_of stale pair [FLAG_PRE_SPLIT])))
      in case (fallback, map_of frames vendor) of
           (Some fb, Some frame) \<Rightarrow>
             (case vd_current fb of
                None \<Rightarrow> as_stale
              | Some cur \<Rightarrow>
                  if vendor \<noteq> VENDOR_ALPACA \<or> is_trade cur then
                    ebind (within_tolerance frame d window tolerance) (\<lambda>ok.
                      if ok then Inr (Restated (bar_of cur FALLBACK_PAIR [])) else as_stale)
                  else as_stale)
         | _ \<Rightarrow> as_stale)"

definition decide_fallback ::
  "(string \<times> basis_frame) list \<Rightarrow> policy \<Rightarrow> nat \<Rightarrow> real \<Rightarrow> day \<Rightarrow> vendor_day option \<Rightarrow> err + day_outcome" where
  "decide_fallback frames pol window tolerance d fallback =
     (let vendor = po_primary pol
      in case (fallback, map_of frames vendor) of
           (Some fb, Some frame) \<Rightarrow>
             (case vd_current fb of
                None \<Rightarrow> Inr StaleOnly
              | Some cur \<Rightarrow>
                  if vendor = VENDOR_ALPACA \<and> \<not> is_trade cur then Inr ZeroVolumeFallback
                  else (case bf_head frame of
                          None \<Rightarrow> Inr (HeadWhole (bar_of cur FALLBACK_PAIR []))
                        | Some h \<Rightarrow>
                            if d < h then
                              (if \<not> bf_head_admitted frame then Inr HeadRefused
                               else Inr (HeadAdmitted vendor (bar_of cur FALLBACK_PAIR [])))
                            else
                              ebind (within_tolerance frame d window tolerance) (\<lambda>ok.
                                if ok then Inr (InteriorAdmitted (bar_of cur FALLBACK_PAIR []))
                                else Inr InteriorRefused)))
         | _ \<Rightarrow> Inr UnservedPrimary)"

definition decide_day ::
  "(string \<times> vendor_days) list \<Rightarrow> (string \<times> basis_frame) list \<Rightarrow> policy list \<Rightarrow> string \<Rightarrow> day option
   \<Rightarrow> nat \<Rightarrow> real \<Rightarrow> day \<Rightarrow> err + day_outcome" where
  "decide_day days frames policy_rows symbol era_start window tolerance d =
     ebind (resolve_policy policy_rows symbol d) (\<lambda>pol.
     ebind (check_policy pol) (\<lambda>_.
       let vendor = po_primary pol;
           primary = map_of (days_of days vendor) d;
           fallback = fallback_day days pol d
       in case primary of
            None \<Rightarrow> decide_fallback frames pol window tolerance d fallback
          | Some p \<Rightarrow>
              (case vd_current p of
                 Some cur \<Rightarrow> ebind (primary_pair vendor d era_start) (\<lambda>pair. Inr (Served (bar_of cur pair [])))
               | None \<Rightarrow>
                   (case vd_stale p of
                      Some stale \<Rightarrow> decide_stale frames pol era_start window tolerance d stale fallback
                    | None \<Rightarrow> decide_fallback frames pol window tolerance d fallback))))"

fun outcome_bar :: "day_outcome \<Rightarrow> canonical_bar option" where
  "outcome_bar (Served b) = Some b"
| "outcome_bar (Restated b) = Some b"
| "outcome_bar (ServedStale b) = Some b"
| "outcome_bar (HeadWhole b) = Some b"
| "outcome_bar (HeadAdmitted v b) = Some b"
| "outcome_bar (InteriorAdmitted b) = Some b"
| "outcome_bar _ = None"

definition days_where :: "(day_outcome \<Rightarrow> bool) \<Rightarrow> (day \<times> day_outcome) list \<Rightarrow> day list" where
  "days_where P decided = map fst (filter (\<lambda>(d, x). P x) decided)"

definition bars_of :: "(day \<times> day_outcome) list \<Rightarrow> canonical_bar list" where
  "bars_of decided = concat (map (\<lambda>(d, x). case outcome_bar x of None \<Rightarrow> [] | Some b \<Rightarrow> [b]) decided)"

fun find_index :: "('a \<Rightarrow> bool) \<Rightarrow> 'a list \<Rightarrow> nat option" where
  "find_index P [] = None"
| "find_index P (x # xs) = (if P x then Some 0 else map_option Suc (find_index P xs))"

definition seam_detail :: "day list \<Rightarrow> nat \<Rightarrow> day list \<Rightarrow> real option \<Rightarrow> flag_detail" where
  "seam_detail head window_sessions overlap med =
     SeamDetail VENDOR_IBKR (hd head) (last head) (length head) window_sessions (length overlap) med
       (map_option (\<lambda>m. \<bar>m - 1\<bar> * BP) med)"

definition with_seam ::
  "canonical_bar list \<times> derived_flag list \<Rightarrow> string \<Rightarrow> day list \<Rightarrow> basis_frame \<Rightarrow> nat
   \<Rightarrow> canonical_bar list \<times> derived_flag list" where
  "with_seam = (\<lambda>(bars, flags) vendor head frame window_sessions.
     case bf_head frame of
       None \<Rightarrow> (bars, flags)
     | Some primary_head \<Rightarrow>
         (case find_index (\<lambda>b. Some (cb_vendor b, cb_kind b) = map_of PRIMARY_PAIR vendor \<and> primary_head \<le> cb_date b) bars of
            None \<Rightarrow> (bars, flags)
          | Some first \<Rightarrow>
              let overlap = take window_sessions (filter (\<lambda>d. primary_head \<le> d) (bf_common_dates frame));
                  med = median_ratio overlap (bf_ratios frame);
                  seam_bar = bars ! first
              in (bars[first := seam_bar\<lparr>cb_flags := cb_flags seam_bar @ [FLAG_FALLBACK_SEAM]\<rparr>],
                  flags @ [\<lparr>fl_date = cb_date seam_bar, fl_rule = FLAG_FALLBACK_SEAM,
                            fl_fields = the (map_of FLAG_FIELDS FLAG_FALLBACK_SEAM),
                            fl_detail = seam_detail head window_sessions overlap med\<rparr>])))"

definition bar_flags :: "canonical_bar \<Rightarrow> derived_flag list" where
  "bar_flags b =
     map (\<lambda>rule. \<lparr>fl_date = cb_date b, fl_rule = rule, fl_fields = the (map_of FLAG_FIELDS rule),
                  fl_detail = VendorKindDetail (cb_vendor b) (cb_kind b)\<rparr>)
       (filter (\<lambda>rule. rule \<noteq> FLAG_FALLBACK_SEAM) (cb_flags b))"

text \<open>The loop over the session axis, then the seams of the admitted heads and the flags.\<close>

definition head_admitted_under :: "string \<Rightarrow> day_outcome \<Rightarrow> bool" where
  "head_admitted_under vendor x = (case x of HeadAdmitted v _ \<Rightarrow> v = vendor | _ \<Rightarrow> False)"

definition mark_seams ::
  "(string \<times> basis_frame) list \<Rightarrow> nat \<Rightarrow> (day \<times> day_outcome) list \<Rightarrow> canonical_bar list \<times> derived_flag list" where
  "mark_seams frames window decided =
     foldl (\<lambda>acc (vendor, _).
         let head = days_where (head_admitted_under vendor) decided
         in if head = [] then acc else with_seam acc vendor head (the (map_of frames vendor)) window)
       (bars_of decided, []) FALLBACK_FOR"

definition result_of ::
  "(string \<times> basis_frame) list \<Rightarrow> nat \<Rightarrow> day list \<Rightarrow> (day \<times> day_outcome) list \<Rightarrow> daily_result" where
  "result_of frames window zero_volume decided =
     (let (bars, seam_flags) = mark_seams frames window decided
      in \<lparr>dr_bars = bars,
          dr_flags = sort_key (\<lambda>f. (fl_date f, fl_rule f)) (seam_flags @ concat (map bar_flags bars)),
          dr_refused_interior = days_where (\<lambda>x. x = InteriorRefused) decided,
          dr_head = days_where (\<lambda>x. case x of HeadWhole _ \<Rightarrow> True | HeadAdmitted _ _ \<Rightarrow> True | _ \<Rightarrow> False) decided,
          dr_admitted_interior = days_where (\<lambda>x. case x of InteriorAdmitted _ \<Rightarrow> True | _ \<Rightarrow> False) decided,
          dr_stale_only = days_where (\<lambda>x. x = StaleOnly) decided,
          dr_refused_head = days_where (\<lambda>x. x = HeadRefused) decided,
          dr_restated = days_where (\<lambda>x. case x of Restated _ \<Rightarrow> True | _ \<Rightarrow> False) decided,
          dr_zero_volume = zero_volume,
          dr_zero_volume_fallback = days_where (\<lambda>x. x = ZeroVolumeFallback) decided,
          dr_unserved_primary = days_where (\<lambda>x. x = UnservedPrimary) decided\<rparr>)"

definition frames_of ::
  "(string \<times> vendor_days) list \<Rightarrow> split_record list \<Rightarrow> nat \<Rightarrow> real \<Rightarrow> (string \<times> basis_frame) list" where
  "frames_of days splits window tolerance =
     map (\<lambda>(vendor, _). (vendor,
            frame_build (days_of days vendor) (days_of days VENDOR_IBKR) splits window tolerance)) FALLBACK_FOR"

definition axis_of :: "(string \<times> vendor_days) list \<Rightarrow> day list" where
  "axis_of days = sorted_set (concat (map (\<lambda>vendor. map fst (days_of days vendor)) VENDORS))"

definition derive_daily ::
  "observation list \<Rightarrow> policy list \<Rightarrow> split_record list \<Rightarrow> string \<Rightarrow> int \<Rightarrow> real \<Rightarrow> err + daily_result" where
  "derive_daily observations policy_rows splits symbol basis_window_sessions tolerance =
     (if basis_window_sessions < 1 then Inl ValueError
      else ebind (screen observations splits) (\<lambda>sn.
        let window = nat basis_window_sessions;
            frames = frames_of (sn_days sn) splits window tolerance
        in ebind (emap (\<lambda>d. ebind (decide_day (sn_days sn) frames policy_rows symbol
                                       (alpaca_era_start policy_rows) window tolerance d)
                                (\<lambda>x. Inr (d, x))) (axis_of (sn_days sn))) (\<lambda>decided.
          Inr (result_of frames window (sn_zero_volume sn) decided))))"

end
