(* ===== verification/Daily_Correct.thy ===== *)
theory Daily_Correct
  imports Daily_Rule
begin

text \<open>
  Correctness of the daily rule (\<open>src/intelligence/bars/daily_rule.py\<close>): the policy lookup
  contract, the nearest common sessions, one decision per session, the source and identity of every
  canonical bar, and the tolerance behind every fallback bar.
\<close>

section \<open>The policy\<close>

interpretation daily: scoped_policy po_symbol
  "\<lambda>d p. po_timeframe p = TIMEFRAME \<and> po_covers p d" resolve_policy id LookupError
  by unfold_locales
    (auto simp: resolve_policy_def Let_def conj_commute conj_left_commute)

section \<open>The nearest common sessions\<close>

text \<open>All the sessions in the order the two cursors visit them; the loop takes the first \<open>n\<close>.\<close>

fun visit :: "int \<Rightarrow> (int \<times> day) list \<Rightarrow> (int \<times> day) list \<Rightarrow> (int \<times> day) list" where
  "visit hole [] rights = rights"
| "visit hole lefts [] = lefts"
| "visit hole (l # ls) (r # rs) =
     (if hole - fst l \<le> fst r - hole then l # visit hole ls (r # rs) else r # visit hole (l # ls) rs)"

lemma visit_Nil2 [simp]: "visit hole lefts [] = lefts"
  by (cases lefts) auto

lemma nearest_loop_visit: "nearest_loop hole n lefts rights = map snd (take n (visit hole lefts rights))"
  by (induction hole n lefts rights rule: nearest_loop.induct) auto

lemma visit_mset: "mset (visit hole lefts rights) = mset lefts + mset rights"
  by (induction hole lefts rights rule: visit.induct) auto

definition distance_key :: "int \<Rightarrow> int \<times> day \<Rightarrow> int \<times> int" where
  "distance_key hole p = (\<bar>fst p - hole\<bar>, fst p)"

lemma visit_sorted:
  assumes "sorted_wrt (\<lambda>p q. fst q < fst p) lefts" "\<forall>p \<in> set lefts. fst p < hole"
    "sorted_wrt (\<lambda>p q. fst p < fst q) rights" "\<forall>p \<in> set rights. hole \<le> fst p"
  shows "sorted (map (distance_key hole) (visit hole lefts rights))"
  using assms
proof (induction hole lefts rights rule: visit.induct)
  case (1 hole rights)
  then show ?case
    by (induction rights) (auto simp: distance_key_def less_eq_prod_def abs_if)
next
  case (2 hole l ls)
  then have "sorted_wrt (\<lambda>p q. distance_key hole p \<le> distance_key hole q) (l # ls)"
    by (intro sorted_wrt_mono_rel [OF _ 2(1)]) (auto simp: distance_key_def less_eq_prod_def abs_if)
  then show ?case by (simp add: sorted_map)
next
  case (3 hole l ls r rs)
  have rest: "set (visit hole ls (r # rs)) = set ls \<union> set (r # rs)"
    "set (visit hole (l # ls) rs) = set (l # ls) \<union> set rs"
    using visit_mset [of hole ls "r # rs"] visit_mset [of hole "l # ls" rs]
    by (metis set_mset_mset set_mset_union)+
  show ?case
  proof (cases "hole - fst l \<le> fst r - hole")
    case True
    have "distance_key hole l \<le> distance_key hole p" if "p \<in> set ls \<union> set (r # rs)" for p
      using that 3(3-6) True by (auto simp: distance_key_def less_eq_prod_def abs_if)
    with True 3 rest show ?thesis by simp
  next
    case False
    have "distance_key hole r \<le> distance_key hole p" if "p \<in> set (l # ls) \<union> set rs" for p
      using that 3(3-6) False by (auto simp: distance_key_def less_eq_prod_def abs_if)
    with False 3 rest show ?thesis by simp
  qed
qed

lemma bisect_left_split:
  assumes "sorted_wrt (<) xs"
  shows "\<forall>x \<in> set (take (bisect_left xs v) xs). x < v" "\<forall>x \<in> set (drop (bisect_left xs v) xs). v \<le> x"
proof -
  let ?k = "bisect_left xs v"
  have take: "take ?k xs = takeWhile (\<lambda>s. s < v) xs"
    by (simp add: bisect_left_def takeWhile_eq_take [symmetric])
  then show "\<forall>x \<in> set (take ?k xs). x < v" by (auto dest: set_takeWhileD)
  have drop: "drop ?k xs = dropWhile (\<lambda>s. s < v) xs"
    by (simp add: bisect_left_def dropWhile_eq_drop [symmetric])
  show "\<forall>x \<in> set (drop ?k xs). v \<le> x"
  proof (cases "dropWhile (\<lambda>s. s < v) xs")
    case (Cons y ys)
    then have "\<not> y < v" using hd_dropWhile [of "\<lambda>s. s < v" xs] by simp
    moreover have "sorted_wrt (<) (y # ys)"
      using assms drop Cons by (metis sorted_wrt_drop)
    ultimately show ?thesis unfolding drop Cons by auto
  next
    case Nil
    show ?thesis unfolding drop Nil by simp
  qed
qed

text \<open>The basis window.  For an interior hole the rule measures the vendor basis over the
  \<open>n\<close> common sessions nearest the hole by session distance, ties to the earlier session.\<close>

lemma nearest_is_nearest:
  assumes "sorted_wrt (<) common_index" "length common_dates = length common_index"
  shows "nearest hole common_index common_dates n =
    map snd (take n (sort_key (distance_key hole) (zip common_index common_dates)))"
proof -
  let ?common = "zip common_index common_dates" and ?k = "bisect_left common_index hole"
  have idx: "map fst ?common = common_index" using assms(2) by simp
  have sorted: "sorted_wrt (\<lambda>p q. fst p < fst q) ?common"
    using assms(1) idx by (metis sorted_wrt_map)
  have l: "fst p < hole" if "p \<in> set (take ?k ?common)" for p
  proof -
    have "fst p \<in> set (map fst (take ?k ?common))" using that by simp
    then have "fst p \<in> set (take ?k common_index)" unfolding take_map [symmetric] idx .
    with bisect_left_split(1) [OF assms(1), of hole] show ?thesis by blast
  qed
  have r: "hole \<le> fst p" if "p \<in> set (drop ?k ?common)" for p
  proof -
    have "fst p \<in> set (map fst (drop ?k ?common))" using that by simp
    then have "fst p \<in> set (drop ?k common_index)" unfolding drop_map [symmetric] idx .
    with bisect_left_split(2) [OF assms(1), of hole] show ?thesis by blast
  qed
  let ?v = "visit hole (rev (take ?k ?common)) (drop ?k ?common)"
  have "sorted (map (distance_key hole) ?v)"
    using sorted l r by (intro visit_sorted) (auto simp: sorted_wrt_rev sorted_wrt_take sorted_wrt_drop)
  moreover have "mset ?v = mset ?common"
    unfolding visit_mset mset_rev by (metis append_take_drop_id mset_append)
  moreover have "inj_on (distance_key hole) (set ?common)"
  proof (rule inj_onI)
    fix p q assume p: "p \<in> set ?common" and q: "q \<in> set ?common" and "distance_key hole p = distance_key hole q"
    then have "fst p = fst q" by (simp add: distance_key_def)
    moreover have "distinct (map fst ?common)" using assms(1) unfolding idx by (simp add: strict_sorted_iff)
    ultimately show "p = q" using p q by (metis eq_key_imp_eq_value prod.collapse)
  qed
  ultimately have "sort_key (distance_key hole) ?common = ?v"
    by (intro sort_key_inj_key_eq) auto
  then show ?thesis by (simp add: nearest_def nearest_loop_visit Let_def)
qed

lemma nearest_is_nearest_witness:
  "nearest 5 [1, 3, 6, 7, 20] [11, 13, 16, 17, 30] 3 = [16, 13, 17]"
proof -
  have "sort_key (distance_key 5) (zip [1, 3, 6, 7, 20] [11, 13, 16, 17, 30]) =
      [(6, 16), (3, 13), (7, 17), (1, 11), (20, 30)]"
    by code_simp
  then show ?thesis by (subst nearest_is_nearest) simp_all
qed

section \<open>Where a vendor's day comes from\<close>

lemma rescaled_keeps:
  "rescaled ob splits = Inr ob' \<Longrightarrow> ob_date ob' = ob_date ob \<and> ob_route ob' = ob_route ob"
  by (auto simp: rescaled_def Let_def split: if_splits)

definition filed_obs :: "(string \<times> observation) option list \<Rightarrow> (string \<times> observation) list" where
  "filed_obs filed = concat (map (\<lambda>f. case f of None \<Rightarrow> [] | Some x \<Rightarrow> [x]) filed)"

lemma filed_obs_set:
  assumes "emap (pool_one splits) obs = Inr filed"
  shows "(v, ob) \<in> set (filed_obs filed) \<longleftrightarrow>
    (\<exists>ob0 \<in> set obs. map_of ROUTE_VENDOR (ob_route ob0) = Some v \<and> rescaled ob0 splits = Inr ob)"
  using assms
proof (induction obs arbitrary: filed)
  case (Cons a obs)
  then obtain f fs where f: "pool_one splits a = Inr f" and fs: "emap (pool_one splits) obs = Inr fs"
    and filed: "filed = f # fs" by (auto simp: ebind_eq_Inr)
  have "(v, ob) \<in> set (case f of None \<Rightarrow> [] | Some x \<Rightarrow> [x]) \<longleftrightarrow>
      map_of ROUTE_VENDOR (ob_route a) = Some v \<and> rescaled a splits = Inr ob"
    using f by (auto simp: pool_one_def ebind_eq_Inr split: if_splits option.splits)
  with Cons.IH [OF fs] filed show ?case by (auto simp: filed_obs_def)
qed (simp add: filed_obs_def)

lemma map_of_map_self: "map_of (map (\<lambda>v. (v, f v)) vs) v = (if v \<in> set vs then Some (f v) else None)"
  by (induction vs) auto

lemma by_vendor_day_pool:
  assumes "by_vendor_day obs splits = Inr days"
  obtains filed where "emap (pool_one splits) obs = Inr filed"
    "\<And>v. days_of days v = (if v \<in> set VENDORS then vendor_pool splits (filed_obs filed) v else [])"
proof -
  from assms obtain filed where f: "emap (pool_one splits) obs = Inr filed"
    and d: "days = map (\<lambda>v. (v, vendor_pool splits (filed_obs filed) v)) VENDORS"
    by (auto simp: by_vendor_day_def ebind_eq_Inr filed_obs_def)
  have "days_of days v = (if v \<in> set VENDORS then vendor_pool splits (filed_obs filed) v else [])" for v
    unfolding days_of_def d map_of_map_self by simp
  with f show ?thesis using that by blast
qed

lemma vendor_pool_keys:
  "map fst (vendor_pool splits filed v) = map fst (group_by ob_date (map snd (filter (\<lambda>(w, _). w = v) filed)))"
  by (simp add: vendor_pool_def comp_def split_beta)

lemma vendor_pool_lookup:
  "map_of (vendor_pool splits filed v) d =
     map_option (vendor_day_of splits) (map_of (group_by ob_date (map snd (filter (\<lambda>(w, _). w = v) filed))) d)"
  by (simp add: vendor_pool_def map_of_map)

lemma best_of_Some:
  "best_of obs = Some ob \<Longrightarrow> ob \<in> set obs"
  by (auto simp: best_of_def best_obs_def max_by_in split: if_splits)

lemma vendor_day_source:
  assumes "by_vendor_day obs splits = Inr days" "map_of (days_of days v) d = Some vd"
    and "vd_current vd = Some ob \<or> vd_stale vd = Some ob"
  shows "\<exists>ob0 \<in> set obs. map_of ROUTE_VENDOR (ob_route ob0) = Some v \<and> rescaled ob0 splits = Inr ob \<and>
    ob_date ob0 = d \<and> ob_date ob = d"
proof -
  from assms(1) obtain filed where filed: "emap (pool_one splits) obs = Inr filed"
    and days: "days_of days v = (if v \<in> set VENDORS then vendor_pool splits (filed_obs filed) v else [])"
    by (rule by_vendor_day_pool) blast
  from assms(2) days have "map_of (vendor_pool splits (filed_obs filed) v) d = Some vd"
    by (auto split: if_splits)
  then obtain os where os: "map_of (group_by ob_date (map snd (filter (\<lambda>(w, _). w = v) (filed_obs filed)))) d = Some os"
    and vd: "vd = vendor_day_of splits os" by (auto simp: vendor_pool_lookup)
  from assms(3) vd have "ob \<in> set os"
    by (auto simp: vendor_day_of_def dest: best_of_Some)
  with os have "ob_date ob = d" "(v, ob) \<in> set (filed_obs filed)"
    by (auto simp: group_by_lookup split: if_splits)
  with filed_obs_set [OF filed, of v ob] show ?thesis using rescaled_keeps by metis
qed

lemma route_vendor_range: "map_of ROUTE_VENDOR r = Some v \<Longrightarrow> v \<in> set VENDORS"
  by (auto simp: ROUTE_VENDOR_def VENDORS_def split: if_splits)

lemma pool_rescales:
  "emap (pool_one splits) obs = Inr filed \<Longrightarrow> ob \<in> set obs \<Longrightarrow>
   map_of ROUTE_VENDOR (ob_route ob) = Some v \<Longrightarrow> \<exists>ob'. rescaled ob splits = Inr ob'"
proof (induction obs arbitrary: filed)
  case (Cons a obs)
  then show ?case
    by (auto simp: ebind_eq_Inr pool_one_def split: if_splits)
qed simp

lemma vendor_day_keys:
  assumes "by_vendor_day obs splits = Inr days"
  shows "fst ` set (days_of days v) = ob_date ` {ob \<in> set obs. map_of ROUTE_VENDOR (ob_route ob) = Some v}"
proof -
  from assms obtain filed where filed: "emap (pool_one splits) obs = Inr filed"
    and days: "days_of days v = (if v \<in> set VENDORS then vendor_pool splits (filed_obs filed) v else [])"
    by (rule by_vendor_day_pool) blast
  show ?thesis
  proof (cases "v \<in> set VENDORS")
    case True
    have "fst ` set (vendor_pool splits (filed_obs filed) v) = set (map fst (vendor_pool splits (filed_obs filed) v))"
      by simp
    also have "\<dots> = fst ` set (group_by ob_date (map snd (filter (\<lambda>(w, _). w = v) (filed_obs filed))))"
      unfolding vendor_pool_keys by simp
    also have "\<dots> = ob_date ` {ob. (v, ob) \<in> set (filed_obs filed)}"
      unfolding group_by_keys by force
    also have "\<dots> = ob_date ` {ob \<in> set obs. map_of ROUTE_VENDOR (ob_route ob) = Some v}"
    proof (intro set_eqI iffI)
      fix d assume "d \<in> ob_date ` {ob. (v, ob) \<in> set (filed_obs filed)}"
      then obtain ob where "d = ob_date ob" "(v, ob) \<in> set (filed_obs filed)" by blast
      with filed_obs_set [OF filed, of v ob] obtain ob0 where "ob0 \<in> set obs"
        "map_of ROUTE_VENDOR (ob_route ob0) = Some v" "ob_date ob0 = d"
        using rescaled_keeps by metis
      then show "d \<in> ob_date ` {ob \<in> set obs. map_of ROUTE_VENDOR (ob_route ob) = Some v}" by blast
    next
      fix d assume "d \<in> ob_date ` {ob \<in> set obs. map_of ROUTE_VENDOR (ob_route ob) = Some v}"
      then obtain ob where ob: "d = ob_date ob" "ob \<in> set obs" "map_of ROUTE_VENDOR (ob_route ob) = Some v" by blast
      with pool_rescales [OF filed] obtain ob' where "rescaled ob splits = Inr ob'" by blast
      with ob filed_obs_set [OF filed, of v ob'] rescaled_keeps [of ob splits ob']
      show "d \<in> ob_date ` {ob. (v, ob) \<in> set (filed_obs filed)}" by (metis (mono_tags, lifting) image_eqI mem_Collect_eq)
    qed
    finally show ?thesis using True days by simp
  qed (use days route_vendor_range in auto)
qed

section \<open>The decision of a session\<close>

text \<open>The identity a bar is served under: its source is the primary under the primary's pair, or the
  IBKR fallback under the fallback pair.\<close>

definition sourced ::
  "observation list \<Rightarrow> policy list \<Rightarrow> split_record list \<Rightarrow> string \<Rightarrow> canonical_bar \<Rightarrow> bool" where
  "sourced obs rows splits symbol b \<longleftrightarrow>
     (\<exists>pol ob0 ob. resolve_policy rows symbol (cb_date b) = Inr pol \<and> ob0 \<in> set obs \<and>
        rescaled ob0 splits = Inr ob \<and> ob_date ob0 = cb_date b \<and>
        cb_open b = ob_open ob \<and> cb_high b = ob_high ob \<and> cb_low b = ob_low ob \<and>
        cb_close b = ob_close ob \<and> cb_volume b = ob_volume ob \<and>
        (map_of ROUTE_VENDOR (ob_route ob0) = Some (po_primary pol) \<and>
           primary_pair (po_primary pol) (cb_date b) (alpaca_era_start rows) = Inr (cb_vendor b, cb_kind b) \<or>
         map_of ROUTE_VENDOR (ob_route ob0) = Some VENDOR_IBKR \<and> po_fallback pol = Some VENDOR_IBKR \<and>
           (cb_vendor b, cb_kind b) = FALLBACK_PAIR))"

lemma bar_of_simps [simp]:
  "cb_date (bar_of ob p fs) = ob_date ob" "cb_open (bar_of ob p fs) = ob_open ob"
  "cb_high (bar_of ob p fs) = ob_high ob" "cb_low (bar_of ob p fs) = ob_low ob"
  "cb_close (bar_of ob p fs) = ob_close ob" "cb_volume (bar_of ob p fs) = ob_volume ob"
  "cb_vendor (bar_of ob p fs) = fst p" "cb_kind (bar_of ob p fs) = snd p"
  by (simp_all add: bar_of_def)

lemma fallback_is_ibkr:
  "check_policy pol = Inr () \<Longrightarrow> po_fallback pol = Some f \<Longrightarrow> f = VENDOR_IBKR"
  by (auto simp: check_policy_def FALLBACK_FOR_def split: if_splits)

text \<open>Each branch appends the primary's current or stale observation under the primary's pair, or the
  fallback's current observation under the fallback pair.\<close>

lemma decide_fallback_bar:
  assumes "decide_fallback frames pol w tol d fb = Inr x" "outcome_bar x = Some b"
  shows "\<exists>vd ob. fb = Some vd \<and> vd_current vd = Some ob \<and> b = bar_of ob FALLBACK_PAIR []"
  using assms
  by (auto simp: decide_fallback_def Let_def ebind_eq_Inr split: option.splits if_splits)

lemma decide_stale_bar:
  assumes "decide_stale frames pol era w tol d stale fb = Inr x" "outcome_bar x = Some b"
  shows "(\<exists>vd ob. fb = Some vd \<and> vd_current vd = Some ob \<and> b = bar_of ob FALLBACK_PAIR []) \<or>
    (\<exists>pair. primary_pair (po_primary pol) d era = Inr pair \<and> b = bar_of stale pair [FLAG_PRE_SPLIT])"
  using assms
  by (auto simp: decide_stale_def Let_def ebind_eq_Inr split: option.splits if_splits)

lemma decide_day_bar:
  assumes "decide_day days frames rows symbol era w tol d = Inr x" "outcome_bar x = Some b"
  obtains pol vd ob pair fs where "resolve_policy rows symbol d = Inr pol" "check_policy pol = Inr ()"
    "b = bar_of ob pair fs"
    "map_of (days_of days (po_primary pol)) d = Some vd \<and> (vd_current vd = Some ob \<or> vd_stale vd = Some ob) \<and>
       primary_pair (po_primary pol) d era = Inr pair \<or>
     map_of (days_of days VENDOR_IBKR) d = Some vd \<and> vd_current vd = Some ob \<and>
       po_fallback pol = Some VENDOR_IBKR \<and> pair = FALLBACK_PAIR"
proof -
  from assms(1) obtain pol where pol: "resolve_policy rows symbol d = Inr pol" "check_policy pol = Inr ()"
    by (auto simp: decide_day_def ebind_eq_Inr)
  let ?primary = "map_of (days_of days (po_primary pol)) d"
  have fb: "\<exists>vd. map_of (days_of days VENDOR_IBKR) d = Some vd \<and> fallback_day days pol d = Some vd \<and>
      po_fallback pol = Some VENDOR_IBKR" if "fallback_day days pol d = Some vd" for vd
    using that fallback_is_ibkr [OF pol(2)]
    by (auto simp: fallback_day_def split: option.splits if_splits)
  consider (current) p cur pair where "?primary = Some p" "vd_current p = Some cur"
      "primary_pair (po_primary pol) d era = Inr pair" "x = Served (bar_of cur pair [])"
    | (stale) p stale where "?primary = Some p" "vd_stale p = Some stale"
      "decide_stale frames pol era w tol d stale (fallback_day days pol d) = Inr x"
    | (fallback) "decide_fallback frames pol w tol d (fallback_day days pol d) = Inr x"
    using assms(1) pol by (auto simp: decide_day_def ebind_eq_Inr Let_def split: option.splits)
  then show ?thesis
  proof cases
    case current
    with assms(2) pol that [of pol cur pair "[]" p] show ?thesis by simp
  next
    case stale
    from decide_stale_bar [OF stale(3) assms(2)] show ?thesis
    proof (elim disjE exE conjE)
      fix vd ob assume "fallback_day days pol d = Some vd" "vd_current vd = Some ob" "b = bar_of ob FALLBACK_PAIR []"
      with fb [of vd] pol that [of pol ob FALLBACK_PAIR "[]" vd] show ?thesis by auto
    next
      fix pair assume "primary_pair (po_primary pol) d era = Inr pair" "b = bar_of stale pair [FLAG_PRE_SPLIT]"
      with stale pol that [of pol stale pair "[FLAG_PRE_SPLIT]" p] show ?thesis by auto
    qed
  next
    case fallback
    from decide_fallback_bar [OF this assms(2)] obtain vd ob where
      "fallback_day days pol d = Some vd" "vd_current vd = Some ob" "b = bar_of ob FALLBACK_PAIR []" by blast
    with fb [of vd] pol that [of pol ob FALLBACK_PAIR "[]" vd] show ?thesis by auto
  qed
qed

lemma sourcedI:
  assumes "b = bar_of ob pair fs" "ob_date ob = d" "resolve_policy rows symbol d = Inr pol"
    "\<exists>ob0 \<in> set obs. map_of ROUTE_VENDOR (ob_route ob0) = Some v \<and> rescaled ob0 splits = Inr ob \<and> ob_date ob0 = d \<and> ob_date ob = d"
    "v = po_primary pol \<and> primary_pair (po_primary pol) d (alpaca_era_start rows) = Inr pair \<or>
     v = VENDOR_IBKR \<and> po_fallback pol = Some VENDOR_IBKR \<and> pair = FALLBACK_PAIR"
  shows "cb_date b = d \<and> sourced obs rows splits symbol b"
proof -
  from assms(4) obtain ob0 where "ob0 \<in> set obs" "map_of ROUTE_VENDOR (ob_route ob0) = Some v"
    "rescaled ob0 splits = Inr ob" "ob_date ob0 = d" by blast
  with assms show ?thesis unfolding sourced_def
    by (intro conjI exI [of _ pol] exI [of _ ob0] exI [of _ ob]) auto
qed

lemma decide_day_sourced:
  assumes "by_vendor_day obs splits = Inr days"
    and "decide_day days frames rows symbol (alpaca_era_start rows) w tol d = Inr x" "outcome_bar x = Some b"
  shows "cb_date b = d \<and> sourced obs rows splits symbol b"
proof -
  from assms(2,3) obtain pol vd ob pair fs where pol: "resolve_policy rows symbol d = Inr pol"
    and b: "b = bar_of ob pair fs"
    and src: "map_of (days_of days (po_primary pol)) d = Some vd \<and> (vd_current vd = Some ob \<or> vd_stale vd = Some ob) \<and>
         primary_pair (po_primary pol) d (alpaca_era_start rows) = Inr pair \<or>
       map_of (days_of days VENDOR_IBKR) d = Some vd \<and> vd_current vd = Some ob \<and>
         po_fallback pol = Some VENDOR_IBKR \<and> pair = FALLBACK_PAIR"
    by (rule decide_day_bar) blast
  obtain v where v: "map_of (days_of days v) d = Some vd" "vd_current vd = Some ob \<or> vd_stale vd = Some ob"
    and cond: "v = po_primary pol \<and> primary_pair (po_primary pol) d (alpaca_era_start rows) = Inr pair \<or>
       v = VENDOR_IBKR \<and> po_fallback pol = Some VENDOR_IBKR \<and> pair = FALLBACK_PAIR"
    using src by (elim disjE conjE) auto
  note ob = vendor_day_source [OF assms(1) v]
  then have "ob_date ob = d" by blast
  from sourcedI [OF b this pol ob cond] show ?thesis .
qed

section \<open>The result\<close>

abbreviation strip :: "canonical_bar \<Rightarrow> canonical_bar" where "strip b \<equiv> b\<lparr>cb_flags := []\<rparr>"

lemma find_index_less: "find_index P xs = Some i \<Longrightarrow> i < length xs \<and> P (xs ! i)"
  by (induction xs arbitrary: i) (auto split: if_splits)

lemma with_seam_strip: "map strip (fst (with_seam acc v head frame w)) = map strip (fst acc)"
proof -
  obtain bars flags where acc: "acc = (bars, flags)" by (cases acc)
  have "map strip (bars[i := (bars ! i)\<lparr>cb_flags := fs\<rparr>]) = map strip bars" if "i < length bars" for i fs
    using that by (simp add: map_update list_update_same_conv)
  then show ?thesis
    by (auto simp: with_seam_def acc Let_def split: option.split dest: find_index_less)
qed

lemma mark_seams_strip: "map strip (fst (mark_seams frames w decided)) = map strip (bars_of decided)"
proof -
  have "map strip (fst (foldl (\<lambda>acc (vendor, _). let head = days_where (head_admitted_under vendor) decided
      in if head = [] then acc else with_seam acc vendor head (the (map_of frames vendor)) w) acc vs)) =
    map strip (fst acc)" for acc and vs :: "(string \<times> string) list"
    by (induction vs arbitrary: acc) (auto simp: with_seam_strip Let_def)
  then show ?thesis by (simp add: mark_seams_def)
qed

lemma sourced_strip: "sourced obs rows splits symbol (strip b) = sourced obs rows splits symbol b"
  by (simp add: sourced_def)

lemma derive_daily_cases:
  assumes "derive_daily obs rows splits symbol w tol = Inr r"
  obtains sn decided where "screen obs splits = Inr sn"
    "emap (\<lambda>d. ebind (decide_day (sn_days sn) (frames_of (sn_days sn) splits (nat w) tol) rows symbol
        (alpaca_era_start rows) (nat w) tol d) (\<lambda>x. Inr (d, x))) (axis_of (sn_days sn)) = Inr decided"
    "r = result_of (frames_of (sn_days sn) splits (nat w) tol) (nat w) (sn_zero_volume sn) decided"
  using assms by (auto simp: derive_daily_def ebind_eq_Inr Let_def split: if_splits)

lemma decided_fst:
  assumes "emap (\<lambda>d. ebind (f d) (\<lambda>x. Inr (d, x))) ds = Inr decided"
  shows "map fst decided = ds" and "(d, x) \<in> set decided \<Longrightarrow> f d = Inr x"
  using assms by (induction ds arbitrary: decided) (auto simp: ebind_eq_Inr)

lemma result_bars_strip:
  "map strip (dr_bars (result_of frames w zv decided)) = map strip (bars_of decided)"
  by (simp add: result_of_def split_beta Let_def mark_seams_strip)

text \<open>The observations the rule reads: known routes, Alpaca bars without a trade dropped.\<close>

definition readable :: "observation list \<Rightarrow> observation set" where
  "readable obs = {ob \<in> set obs. map_of ROUTE_VENDOR (ob_route ob) \<noteq> None \<and> (\<not> is_alpaca ob \<or> is_trade ob)}"

lemma screen_days:
  assumes "screen obs splits = Inr sn"
  shows "by_vendor_day (filter (\<lambda>ob. \<not> is_alpaca ob \<or> is_trade ob) obs) splits = Inr (sn_days sn)"
  using assms by (auto simp: screen_def Let_def ebind_eq_Inr)

lemma axis_of_set:
  assumes "screen obs splits = Inr sn"
  shows "set (axis_of (sn_days sn)) = ob_date ` readable obs"
proof -
  have "set (axis_of (sn_days sn)) = (\<Union>v \<in> set VENDORS. fst ` set (days_of (sn_days sn) v))"
    by (auto simp: axis_of_def)
  also have "\<dots> = (\<Union>v \<in> set VENDORS. ob_date ` {ob \<in> set (filter (\<lambda>ob. \<not> is_alpaca ob \<or> is_trade ob) obs).
      map_of ROUTE_VENDOR (ob_route ob) = Some v})"
    using vendor_day_keys [OF screen_days [OF assms]] by simp
  also have "\<dots> = ob_date ` readable obs"
    using route_vendor_range by (fastforce simp: readable_def)
  finally show ?thesis .
qed

lemma bars_of_set: "b \<in> set (bars_of decided) \<longleftrightarrow> (\<exists>d x. (d, x) \<in> set decided \<and> outcome_bar x = Some b)"
  unfolding bars_of_def by force

lemma bars_sourced:
  assumes "derive_daily obs rows splits symbol w tol = Inr r" and "b \<in> set (dr_bars r)"
  shows "sourced obs rows splits symbol b"
proof -
  from assms(1) obtain sn decided where sn: "screen obs splits = Inr sn"
    and dec: "emap (\<lambda>d. ebind (decide_day (sn_days sn) (frames_of (sn_days sn) splits (nat w) tol) rows symbol
        (alpaca_era_start rows) (nat w) tol d) (\<lambda>x. Inr (d, x))) (axis_of (sn_days sn)) = Inr decided"
    and r: "r = result_of (frames_of (sn_days sn) splits (nat w) tol) (nat w) (sn_zero_volume sn) decided"
    by (rule derive_daily_cases) blast
  have "strip b \<in> set (map strip (dr_bars r))" using assms(2) by simp
  then have "strip b \<in> set (map strip (bars_of decided))" unfolding r result_bars_strip .
  then obtain b' where "b' \<in> set (bars_of decided)" "strip b = strip b'" by auto
  then obtain d x where "(d, x) \<in> set decided" "outcome_bar x = Some b'" "strip b = strip b'"
    by (auto simp: bars_of_set)
  with decide_day_sourced [OF screen_days [OF sn] decided_fst(2) [OF dec]]
  have "sourced (filter (\<lambda>ob. \<not> is_alpaca ob \<or> is_trade ob) obs) rows splits symbol (strip b)"
    by (metis sourced_strip)
  then have "sourced (filter (\<lambda>ob. \<not> is_alpaca ob \<or> is_trade ob) obs) rows splits symbol b"
    by (simp only: sourced_strip)
  then show ?thesis unfolding sourced_def by auto
qed

text \<open>C11. Provenance and policy conformance.  Every canonical daily bar carries the (rescaled)
  values of an observation of its own date, and its identity is what the policy in force that date
  allows: the primary vendor's observation under the primary's pair, or the IBKR fallback's under
  (ibkr, fallback).\<close>

lemma bars_sourced_by_policy:
  assumes "derive_daily obs rows splits symbol w tol = Inr r" and "b \<in> set (dr_bars r)"
  shows "sourced obs rows splits symbol b"
  using assms by (rule bars_sourced)

lemma days_where_Cons [simp]:
  "days_where P ((d, x) # ds) = (if P x then d # days_where P ds else days_where P ds)"
  by (simp add: days_where_def)

lemma days_where_Nil [simp]: "days_where P [] = []"
  by (simp add: days_where_def)

lemma decided_partition:
  "mset (map fst decided) =
     mset (days_where (\<lambda>x. outcome_bar x \<noteq> None) decided) + mset (days_where (\<lambda>x. x = InteriorRefused) decided) +
     mset (days_where (\<lambda>x. x = HeadRefused) decided) + mset (days_where (\<lambda>x. x = StaleOnly) decided) +
     mset (days_where (\<lambda>x. x = ZeroVolumeFallback) decided) + mset (days_where (\<lambda>x. x = UnservedPrimary) decided)"
proof (induction decided)
  case (Cons p decided)
  obtain d x where "p = (d, x)" by (cases p)
  with Cons show ?case by (cases x) auto
qed simp

lemma bar_dates:
  assumes "\<And>d x b. (d, x) \<in> set decided \<Longrightarrow> outcome_bar x = Some b \<Longrightarrow> cb_date b = d"
  shows "map cb_date (bars_of decided) = days_where (\<lambda>x. outcome_bar x \<noteq> None) decided"
  using assms
proof (induction decided)
  case (Cons p decided)
  obtain d x where p: "p = (d, x)" by (cases p)
  have "map cb_date (bars_of decided) = days_where (\<lambda>x. outcome_bar x \<noteq> None) decided"
    using Cons by (meson list.set_intros(2))
  moreover have "cb_date b = d" if "outcome_bar x = Some b" for b
    using Cons.prems [of d x b] that by (simp add: p)
  ultimately show ?case by (cases "outcome_bar x") (auto simp: p bars_of_def)
qed (simp add: bars_of_def)

lemma result_dates:
  assumes "screen obs splits = Inr sn"
    and "emap (\<lambda>d. ebind (decide_day (sn_days sn) frames rows symbol (alpaca_era_start rows) w tol d)
      (\<lambda>x. Inr (d, x))) ds = Inr decided"
  shows "map cb_date (dr_bars (result_of frames' w' zv decided)) = days_where (\<lambda>x. outcome_bar x \<noteq> None) decided"
proof -
  have "map cb_date (dr_bars (result_of frames' w' zv decided)) =
      map cb_date (map strip (dr_bars (result_of frames' w' zv decided)))" by simp
  also have "\<dots> = map cb_date (map strip (bars_of decided))" unfolding result_bars_strip ..
  also have "\<dots> = map cb_date (bars_of decided)" by simp
  also have "\<dots> = days_where (\<lambda>x. outcome_bar x \<noteq> None) decided"
    using decide_day_sourced [OF screen_days [OF assms(1)] decided_fst(2) [OF assms(2)]] by (intro bar_dates) blast
  finally show ?thesis .
qed

text \<open>C12. One decision per session.  The canonical bars are one per date, ascending, and together
  with the refused interior and head dates, the stale-only dates, the zero-volume fallback dates
  and the unserved dates they are exactly the dates the readable observations answered, each once.\<close>

lemma one_decision_per_session:
  assumes "derive_daily obs rows splits symbol w tol = Inr r"
  shows "sorted_wrt (<) (map cb_date (dr_bars r)) \<and>
    mset (map cb_date (dr_bars r)) + mset (dr_refused_interior r) + mset (dr_refused_head r) +
      mset (dr_stale_only r) + mset (dr_zero_volume_fallback r) + mset (dr_unserved_primary r) =
    mset_set (ob_date ` readable obs)"
proof -
  from assms(1) obtain sn decided where sn: "screen obs splits = Inr sn"
    and dec: "emap (\<lambda>d. ebind (decide_day (sn_days sn) (frames_of (sn_days sn) splits (nat w) tol) rows symbol
        (alpaca_era_start rows) (nat w) tol d) (\<lambda>x. Inr (d, x))) (axis_of (sn_days sn)) = Inr decided"
    and r: "r = result_of (frames_of (sn_days sn) splits (nat w) tol) (nat w) (sn_zero_volume sn) decided"
    by (rule derive_daily_cases) blast
  note axis = decided_fst(1) [OF dec]
  have dates: "map cb_date (dr_bars r) = days_where (\<lambda>x. outcome_bar x \<noteq> None) decided"
    unfolding r by (rule result_dates [OF sn dec])
  have "sorted_wrt (<) (map fst decided)" unfolding axis axis_of_def by (simp add: strict_sorted_iff)
  then have "sorted_wrt (<) (days_where P decided)" for P
    unfolding days_where_def sorted_wrt_map by (rule sorted_wrt_filter)
  then have "sorted_wrt (<) (map cb_date (dr_bars r))" unfolding dates .
  moreover have "mset (map fst decided) = mset_set (ob_date ` readable obs)"
    unfolding axis axis_of_set [OF sn, symmetric] axis_of_def mset_sorted_set set_sorted_set ..
  moreover have "dr_refused_interior r = days_where (\<lambda>x. x = InteriorRefused) decided"
    "dr_refused_head r = days_where (\<lambda>x. x = HeadRefused) decided"
    "dr_stale_only r = days_where (\<lambda>x. x = StaleOnly) decided"
    "dr_zero_volume_fallback r = days_where (\<lambda>x. x = ZeroVolumeFallback) decided"
    "dr_unserved_primary r = days_where (\<lambda>x. x = UnservedPrimary) decided"
    by (simp_all add: r result_of_def split_beta Let_def)
  ultimately show ?thesis using decided_partition [of decided] dates by simp
qed

text \<open>C13. One volume basis.  From the first date a default policy row names Alpaca primary, every
  canonical bar IBKR serves is an (ibkr, fallback) bar, whatever policy row served it.\<close>

lemma ibkr_is_fallback_in_era:
  assumes "derive_daily obs rows splits symbol w tol = Inr r" and "b \<in> set (dr_bars r)"
    and "alpaca_era_start rows = Some start" and "start \<le> cb_date b" and "cb_vendor b = VENDOR_IBKR"
  shows "cb_kind b = ''fallback''"
proof -
  have pair: "v = FALLBACK_PAIR"
    if "primary_pair p (cb_date b) (Some start) = Inr v" "fst v = VENDOR_IBKR" for p v
    using that assms(4)
    by (auto simp: primary_pair_def PRIMARY_PAIR_def daily_names split: if_splits option.splits)
  have "derive_daily obs rows splits symbol w tol = Inr r \<Longrightarrow> sourced obs rows splits symbol b"
    using bars_sourced [OF _ assms(2)] .
  with assms obtain p where "primary_pair p (cb_date b) (Some start) = Inr (cb_vendor b, cb_kind b) \<or>
      (cb_vendor b, cb_kind b) = FALLBACK_PAIR"
    by (auto simp: sourced_def)
  then have "(cb_vendor b, cb_kind b) = FALLBACK_PAIR"
    using pair [of p "(cb_vendor b, cb_kind b)"] assms(5) by auto
  then show ?thesis by (simp add: FALLBACK_PAIR_def)
qed

section \<open>A concrete name\<close>

definition ex_obs :: "string \<Rightarrow> day \<Rightarrow> real \<Rightarrow> int option \<Rightarrow> observation" where
  "ex_obs route d close volume =
     \<lparr>ob_request_id = ''r'', ob_route = route, ob_date = d, ob_open = close, ob_high = close, ob_low = close,
      ob_close = close, ob_volume = volume, ob_fetched_at = 0, ob_legacy = False, ob_what_to_show = ''TRADES''\<rparr>"

definition ex_daily_obs :: "observation list" where
  "ex_daily_obs =
     [ex_obs ''ALPACA'' 2 100 (Some 10), ex_obs ''ALPACA'' 4 100 (Some 10), ex_obs ''ALPACA'' 3 100 (Some 0),
      ex_obs ''SMART'' 1 100 (Some 5), ex_obs ''SMART'' 2 100 (Some 5), ex_obs ''SMART'' 3 100 (Some 5)]"

definition ex_daily_policy :: "policy list" where
  "ex_daily_policy = [\<lparr>po_timeframe = ''1d'', po_symbol = None, po_valid_from = 0, po_valid_to = None,
     po_ingress_mode = ''observed'', po_primary = ''alpaca'', po_fallback = Some ''ibkr''\<rparr>]"

definition ex_daily :: daily_result where
  "ex_daily = projr (derive_daily ex_daily_obs ex_daily_policy [] ''SPY'' 2 50)"

lemma ex_daily: "derive_daily ex_daily_obs ex_daily_policy [] ''SPY'' 2 50 = Inr ex_daily"
  unfolding ex_daily_def by code_simp

lemma ex_daily_dates: "map (\<lambda>b. (cb_date b, cb_vendor b)) (dr_bars ex_daily) =
    [(1, ''ibkr''), (2, ''alpaca''), (3, ''ibkr''), (4, ''alpaca'')]"
  by code_simp

lemma ex_daily_bar: "dr_bars ex_daily ! 0 \<in> set (dr_bars ex_daily) \<and> cb_date (dr_bars ex_daily ! 0) = 1 \<and>
    cb_vendor (dr_bars ex_daily ! 0) = ''ibkr''"
proof -
  have "length (map (\<lambda>b. (cb_date b, cb_vendor b)) (dr_bars ex_daily)) = 4" unfolding ex_daily_dates by simp
  then have "length (dr_bars ex_daily) = 4" by simp
  then show ?thesis using ex_daily_dates nth_map [of 0 "dr_bars ex_daily" "\<lambda>b. (cb_date b, cb_vendor b)"] by simp
qed

lemma bars_sourced_by_policy_witness:
  "sourced ex_daily_obs ex_daily_policy [] ''SPY'' (dr_bars ex_daily ! 0)"
  using bars_sourced_by_policy [OF ex_daily] ex_daily_bar by blast

lemma one_decision_per_session_witness:
  "sorted_wrt (<) (map cb_date (dr_bars ex_daily)) \<and>
    mset (map cb_date (dr_bars ex_daily)) + mset (dr_refused_interior ex_daily) + mset (dr_refused_head ex_daily) +
      mset (dr_stale_only ex_daily) + mset (dr_zero_volume_fallback ex_daily) + mset (dr_unserved_primary ex_daily) =
    mset_set (ob_date ` readable ex_daily_obs)"
  by (rule one_decision_per_session [OF ex_daily])

lemma ibkr_is_fallback_in_era_witness:
  "cb_kind (dr_bars ex_daily ! 0) = ''fallback''"
proof (rule ibkr_is_fallback_in_era [OF ex_daily])
  show "alpaca_era_start ex_daily_policy = Some 0" by code_simp
qed (use ex_daily_bar in \<open>auto simp: VENDOR_IBKR_def\<close>)

end
