(* ===== verification/Write_Contract.thy ===== *)
theory Write_Contract
  imports Prelude
begin

text \<open>
  The write contract's pure core, \<open>src/intelligence/bars/write_contract.py\<close>: incoming rows are
  classified against the stored rows by exact value.

  NaN matters here, so a float is the datatype \<open>pyfloat\<close>; \<open>py_eq\<close> is Python's equality of two
  optional floats that are different objects (a NaN equals nothing).  Dictionaries are association
  lists in insertion order.
\<close>

datatype pyfloat = Fin real | NaN

record bar_values =
  bv_open :: "pyfloat option"
  bv_high :: "pyfloat option"
  bv_low :: "pyfloat option"
  bv_close :: "pyfloat option"
  bv_volume :: "int option"
  bv_vendor :: string
  bv_kind :: string

record 'k write_delta =
  wd_new :: "('k \<times> bar_values) list"
  wd_changed :: "('k \<times> (bar_values \<times> bar_values)) list"
  wd_unchanged :: nat
  wd_removed :: "('k \<times> bar_values) list"

definition prices :: "bar_values \<Rightarrow> pyfloat option list" where
  "prices v = [bv_open v, bv_high v, bv_low v, bv_close v]"

definition has_nan :: "bar_values \<Rightarrow> bool" where
  "has_nan v \<longleftrightarrow> Some NaN \<in> set (prices v)"

definition py_eq :: "pyfloat option \<Rightarrow> pyfloat option \<Rightarrow> bool" where
  "py_eq a b \<longleftrightarrow> a = b \<and> a \<noteq> Some NaN"

definition values_eq :: "bar_values \<Rightarrow> bar_values \<Rightarrow> bool" where
  "values_eq v w \<longleftrightarrow>
     list_all2 py_eq (prices v) (prices w) \<and> bv_volume v = bv_volume w \<and>
     bv_vendor v = bv_vendor w \<and> bv_kind v = bv_kind w"

fun classify_loop ::
  "('k \<times> bar_values) list \<Rightarrow> ('k \<times> bar_values) list \<Rightarrow> 'k write_delta \<Rightarrow> err + 'k write_delta" where
  "classify_loop stored [] delta = Inr delta"
| "classify_loop stored ((key, v) # rest) delta =
     (case map_of stored key of
        None \<Rightarrow>
          if has_nan v then Inl ValueError
          else classify_loop stored rest (delta\<lparr>wd_new := wd_new delta @ [(key, v)]\<rparr>)
      | Some old \<Rightarrow>
          if values_eq v old then classify_loop stored rest (delta\<lparr>wd_unchanged := wd_unchanged delta + 1\<rparr>)
          else if has_nan v \<or> has_nan old then Inl ValueError
          else classify_loop stored rest (delta\<lparr>wd_changed := wd_changed delta @ [(key, (v, old))]\<rparr>))"

definition removed_rows ::
  "('k \<times> bar_values) list \<Rightarrow> ('k \<times> bar_values) list \<Rightarrow> 'k list option \<Rightarrow> ('k \<times> bar_values) list" where
  "removed_rows incoming stored removal_scope =
     (case removal_scope of
        None \<Rightarrow> []
      | Some scope \<Rightarrow> filter (\<lambda>(key, _). key \<in> set scope \<and> key \<notin> set (map fst incoming)) stored)"

definition classify ::
  "('k \<times> bar_values) list \<Rightarrow> ('k \<times> bar_values) list \<Rightarrow> 'k list option \<Rightarrow> err + 'k write_delta" where
  "classify incoming stored removal_scope =
     ebind (classify_loop stored incoming \<lparr>wd_new = [], wd_changed = [], wd_unchanged = 0, wd_removed = []\<rparr>)
       (\<lambda>delta. Inr (delta\<lparr>wd_removed := removed_rows incoming stored removal_scope\<rparr>))"

definition revision_ratio :: "'k write_delta \<Rightarrow> int \<Rightarrow> real" where
  "revision_ratio delta n_stored =
     (if n_stored \<le> 0 then 0
      else real (length (wd_changed delta) + length (wd_removed delta)) / of_int n_stored)"

definition revision_flagged :: "'k write_delta \<Rightarrow> int \<Rightarrow> real \<Rightarrow> int \<Rightarrow> bool" where
  "revision_flagged delta n_stored max_ratio min_stored \<longleftrightarrow>
     min_stored \<le> n_stored \<and> max_ratio < revision_ratio delta n_stored"

definition refuse_removal :: "'k write_delta \<Rightarrow> int \<Rightarrow> real \<Rightarrow> int \<Rightarrow> bool \<Rightarrow> bool" where
  "refuse_removal delta n_stored max_ratio min_stored waived \<longleftrightarrow>
     (if waived \<or> n_stored < min_stored \<or> n_stored \<le> 0 then False
      else max_ratio < real (length (wd_removed delta)) / of_int n_stored)"

section \<open>Lemmas\<close>

lemma values_eq_imp: "values_eq v w \<Longrightarrow> v = w"
  by (cases v; cases w) (auto simp: values_eq_def prices_def py_eq_def)

lemma values_eq_refl: "\<not> has_nan v \<Longrightarrow> values_eq v v"
  by (auto simp: values_eq_def prices_def py_eq_def has_nan_def)

text \<open>The loop splits the incoming rows, in order, by what is stored at their key.\<close>

definition is_new :: "('k \<times> bar_values) list \<Rightarrow> 'k \<times> bar_values \<Rightarrow> bool" where
  "is_new stored p \<longleftrightarrow> map_of stored (fst p) = None"

definition is_same :: "('k \<times> bar_values) list \<Rightarrow> 'k \<times> bar_values \<Rightarrow> bool" where
  "is_same stored p \<longleftrightarrow> (\<exists>old. map_of stored (fst p) = Some old \<and> values_eq (snd p) old)"

definition is_changed :: "('k \<times> bar_values) list \<Rightarrow> 'k \<times> bar_values \<Rightarrow> bool" where
  "is_changed stored p \<longleftrightarrow> (\<exists>old. map_of stored (fst p) = Some old \<and> \<not> values_eq (snd p) old)"

lemma classify_loop_split:
  "classify_loop stored incoming delta = Inr d \<Longrightarrow>
   wd_new d = wd_new delta @ filter (is_new stored) incoming \<and>
   wd_changed d = wd_changed delta @
     map (\<lambda>(k, v). (k, (v, the (map_of stored k)))) (filter (is_changed stored) incoming) \<and>
   wd_unchanged d = wd_unchanged delta + length (filter (is_same stored) incoming) \<and>
   wd_removed d = wd_removed delta"
proof (induction stored incoming delta rule: classify_loop.induct)
  case (2 stored key v rest delta)
  show ?case
  proof (cases "map_of stored key")
    case None
    then show ?thesis
      using 2 by (auto simp: is_new_def is_same_def is_changed_def split: if_splits)
  next
    case (Some old)
    then show ?thesis
      using 2 by (cases "values_eq v old") (auto simp: is_new_def is_same_def is_changed_def split: if_splits)
  qed
qed simp

lemma classify_split:
  assumes "classify incoming stored scope = Inr d"
  shows "wd_new d = filter (is_new stored) incoming"
    "wd_changed d = map (\<lambda>(k, v). (k, (v, the (map_of stored k)))) (filter (is_changed stored) incoming)"
    "wd_unchanged d = length (filter (is_same stored) incoming)"
    "wd_removed d = removed_rows incoming stored scope"
  using assms by (auto simp: classify_def ebind_eq_Inr dest!: classify_loop_split)

lemma classify_loop_no_nan:
  "classify_loop stored incoming delta = Inr d \<Longrightarrow> p \<in> set incoming \<Longrightarrow> \<not> is_same stored p \<Longrightarrow> \<not> has_nan (snd p)"
  by (induction stored incoming delta rule: classify_loop.induct)
    (auto simp: is_same_def split: option.splits if_splits)

text \<open>What a writer does with a delta, and what the revision log lets a reader undo.\<close>

definition apply_delta :: "('k \<rightharpoonup> bar_values) \<Rightarrow> 'k write_delta \<Rightarrow> ('k \<rightharpoonup> bar_values)" where
  "apply_delta table d =
     (\<lambda>k. if k \<in> fst ` set (wd_removed d) then None
          else case map_of (wd_changed d) k of
            Some (v, _) \<Rightarrow> Some v
          | None \<Rightarrow> (case map_of (wd_new d) k of Some v \<Rightarrow> Some v | None \<Rightarrow> table k))"

definition undo_delta :: "('k \<rightharpoonup> bar_values) \<Rightarrow> 'k write_delta \<Rightarrow> ('k \<rightharpoonup> bar_values)" where
  "undo_delta table d =
     (\<lambda>k. case map_of (wd_removed d) k of
            Some old \<Rightarrow> Some old
          | None \<Rightarrow> (case map_of (wd_changed d) k of
              Some (_, old) \<Rightarrow> Some old
            | None \<Rightarrow> if k \<in> fst ` set (wd_new d) then None else table k))"

lemma map_of_filter_key:
  "distinct (map fst xs) \<Longrightarrow>
   map_of (filter P xs) k = (case map_of xs k of None \<Rightarrow> None | Some v \<Rightarrow> if P (k, v) then Some v else None)"
  by (induction xs) (auto split: option.splits simp: map_of_eq_None_iff)

lemma map_of_map_key: "map_of (map (\<lambda>(k, v). (k, f k v)) xs) j = map_option (f j) (map_of xs j)"
  by (induction xs) auto

lemma lookup_parts:
  assumes "classify incoming stored scope = Inr d" "distinct (map fst incoming)" "distinct (map fst stored)"
  shows "map_of (wd_new d) k =
      (case map_of incoming k of None \<Rightarrow> None | Some v \<Rightarrow> if map_of stored k = None then Some v else None)"
    "map_of (wd_changed d) k =
      (case (map_of incoming k, map_of stored k) of
         (Some v, Some old) \<Rightarrow> if values_eq v old then None else Some (v, old) | _ \<Rightarrow> None)"
    "map_of (wd_removed d) k =
      (if (\<exists>sc. scope = Some sc \<and> k \<in> set sc) \<and> map_of incoming k = None then map_of stored k else None)"
proof -
  note parts = classify_split [OF assms(1)]
  show "map_of (wd_new d) k =
      (case map_of incoming k of None \<Rightarrow> None | Some v \<Rightarrow> if map_of stored k = None then Some v else None)"
    unfolding parts map_of_filter_key [OF assms(2)] by (simp add: is_new_def split: option.split)
  show "map_of (wd_changed d) k =
      (case (map_of incoming k, map_of stored k) of
         (Some v, Some old) \<Rightarrow> if values_eq v old then None else Some (v, old) | _ \<Rightarrow> None)"
    unfolding parts map_of_map_key [of "\<lambda>k v. (v, the (map_of stored k))"] map_of_filter_key [OF assms(2)]
    by (auto simp: is_changed_def split: option.split)
  have "j \<notin> set (map fst incoming) \<longleftrightarrow> map_of incoming j = None" for j
    by (simp add: map_of_eq_None_iff)
  then show "map_of (wd_removed d) k =
      (if (\<exists>sc. scope = Some sc \<and> k \<in> set sc) \<and> map_of incoming k = None then map_of stored k else None)"
    unfolding parts removed_rows_def
    by (simp add: map_of_filter_key [OF assms(3)] split: option.split)
qed

lemma removed_keys: "k \<in> fst ` set (wd_removed d) \<longleftrightarrow> map_of (wd_removed d) k \<noteq> None"
  by (metis map_of_eq_None_iff)

lemma new_keys: "k \<in> fst ` set (wd_new d) \<longleftrightarrow> map_of (wd_new d) k \<noteq> None"
  by (metis map_of_eq_None_iff)

lemma apply_lookup:
  assumes "classify incoming stored scope = Inr d" "distinct (map fst incoming)" "distinct (map fst stored)"
  shows "apply_delta (map_of stored) d k =
    (case map_of incoming k of
       Some v \<Rightarrow> Some v
     | None \<Rightarrow> if \<exists>sc. scope = Some sc \<and> k \<in> set sc then None else map_of stored k)"
  unfolding apply_delta_def removed_keys lookup_parts [OF assms]
  by (auto split: option.splits dest: values_eq_imp)

text \<open>C14. The write.  Applying the delta to the stored table leaves exactly the incoming rows at
  their keys, no row at a key of the removal scope that incoming lacks, and every other stored row
  untouched.\<close>

lemma write_applies_incoming:
  assumes "classify incoming stored scope = Inr d" and "distinct (map fst incoming)" and "distinct (map fst stored)"
  shows "apply_delta (map_of stored) d =
    (\<lambda>k. case map_of incoming k of
       Some v \<Rightarrow> Some v
     | None \<Rightarrow> if \<exists>sc. scope = Some sc \<and> k \<in> set sc then None else map_of stored k)"
  by (rule ext) (rule apply_lookup [OF assms])

text \<open>C15. Recoverability.  The delta's old values undo the write: from the written table and the
  delta the stored table is restored, so every overwrite and removal is recoverable.\<close>

lemma write_recoverable:
  assumes "classify incoming stored scope = Inr d" and "distinct (map fst incoming)" and "distinct (map fst stored)"
  shows "undo_delta (apply_delta (map_of stored) d) d = map_of stored"
proof
  fix k
  show "undo_delta (apply_delta (map_of stored) d) d k = map_of stored k"
    unfolding undo_delta_def apply_lookup [OF assms] new_keys lookup_parts [OF assms]
    by (auto split: option.splits dest: values_eq_imp)
qed

text \<open>Idempotence.  Writing the same answer again, over a table the first write produced, finds
  every row unchanged: nothing new, nothing changed, nothing removed.\<close>

lemma rewrite_is_unchanged:
  assumes "classify incoming stored scope = Inr d" and "distinct (map fst incoming)" and "distinct (map fst stored)"
    and "map_of table = apply_delta (map_of stored) d" and "distinct (map fst table)"
  shows "classify incoming table scope =
    Inr \<lparr>wd_new = [], wd_changed = [], wd_unchanged = length incoming, wd_removed = []\<rparr>"
proof -
  have look: "map_of table k = (case map_of incoming k of Some v \<Rightarrow> Some v
      | None \<Rightarrow> if \<exists>sc. scope = Some sc \<and> k \<in> set sc then None else map_of stored k)" for k
    unfolding assms(4) by (rule apply_lookup [OF assms(1-3)])
  have no_nan: "\<not> has_nan v" if "(k, v) \<in> set incoming" for k v
  proof (cases "is_same stored (k, v)")
    case True
    then show ?thesis by (auto simp: is_same_def values_eq_def prices_def py_eq_def has_nan_def)
  next
    case False
    with that assms(1) show ?thesis by (auto simp: classify_def ebind_eq_Inr dest: classify_loop_no_nan)
  qed
  have loop: "classify_loop table inc delta = Inr (delta\<lparr>wd_unchanged := wd_unchanged delta + length inc\<rparr>)"
    if "\<forall>(k, v) \<in> set inc. map_of table k = Some v \<and> \<not> has_nan v" for inc delta
    using that by (induction inc arbitrary: delta) (auto simp: values_eq_refl)
  have "\<forall>(k, v) \<in> set incoming. map_of table k = Some v \<and> \<not> has_nan v"
    using assms(2) no_nan by (auto simp: look)
  note l = loop [OF this]
  have "removed_rows incoming table scope = []"
  proof (cases scope)
    case (Some sc)
    have "k \<notin> set sc \<or> map_of incoming k \<noteq> None" if "(k, v) \<in> set table" for k v
    proof -
      have "map_of table k = Some v" using that assms(5) by simp
      with Some show ?thesis by (auto simp: look split: option.splits if_splits)
    qed
    with Some show ?thesis
      by (fastforce simp: removed_rows_def filter_empty_conv map_of_eq_None_iff)
  qed (simp add: removed_rows_def)
  with l show ?thesis by (simp add: classify_def)
qed

definition ex_row :: "real \<Rightarrow> bar_values" where
  "ex_row c = \<lparr>bv_open = Some (Fin c), bv_high = Some (Fin c), bv_low = Some (Fin c), bv_close = Some (Fin c),
     bv_volume = Some 1, bv_vendor = ''ibkr'', bv_kind = ''named''\<rparr>"

definition ex_incoming :: "(int \<times> bar_values) list" where
  "ex_incoming = [(1, ex_row 10), (2, ex_row 11), (3, ex_row 12)]"

definition ex_stored :: "(int \<times> bar_values) list" where
  "ex_stored = [(1, ex_row 10), (2, ex_row 10), (4, ex_row 9)]"

lemma ex_classify:
  "classify ex_incoming ex_stored (Some [1, 2, 3, 4]) =
     Inr \<lparr>wd_new = [(3, ex_row 12)], wd_changed = [(2, (ex_row 11, ex_row 10))], wd_unchanged = 1,
          wd_removed = [(4, ex_row 9)]\<rparr>"
  by (simp add: classify_def ex_incoming_def ex_stored_def values_eq_def prices_def py_eq_def has_nan_def
      ex_row_def removed_rows_def)

lemma ex_keys: "distinct (map fst ex_incoming)" "distinct (map fst ex_stored)"
  by (simp_all add: ex_incoming_def ex_stored_def)

lemma write_applies_incoming_witness:
  "apply_delta (map_of ex_stored) \<lparr>wd_new = [(3, ex_row 12)], wd_changed = [(2, (ex_row 11, ex_row 10))],
     wd_unchanged = 1, wd_removed = [(4, ex_row 9)]\<rparr> 2 = Some (ex_row 11)"
  using write_applies_incoming [OF ex_classify ex_keys] by (simp add: ex_incoming_def)

lemma write_recoverable_witness:
  "undo_delta (apply_delta (map_of ex_stored) \<lparr>wd_new = [(3, ex_row 12)], wd_changed = [(2, (ex_row 11, ex_row 10))],
     wd_unchanged = 1, wd_removed = [(4, ex_row 9)]\<rparr>) \<lparr>wd_new = [(3, ex_row 12)],
     wd_changed = [(2, (ex_row 11, ex_row 10))], wd_unchanged = 1, wd_removed = [(4, ex_row 9)]\<rparr> = map_of ex_stored"
  by (rule write_recoverable [OF ex_classify ex_keys])

lemma rewrite_is_unchanged_witness:
  "classify ex_incoming ex_incoming (Some [1, 2, 3, 4]) =
    Inr \<lparr>wd_new = [], wd_changed = [], wd_unchanged = length ex_incoming, wd_removed = []\<rparr>"
proof (rule rewrite_is_unchanged [OF ex_classify ex_keys])
  show "map_of ex_incoming = apply_delta (map_of ex_stored) \<lparr>wd_new = [(3, ex_row 12)],
      wd_changed = [(2, (ex_row 11, ex_row 10))], wd_unchanged = 1, wd_removed = [(4, ex_row 9)]\<rparr>"
    by (rule ext) (simp add: apply_delta_def ex_incoming_def ex_stored_def)
qed (rule ex_keys)

end
