(* ===== verification/Transition.thy ===== *)
theory Transition
  imports Prelude
begin

text \<open>
  State machines: the states reachable from an initial state by labelled steps, and the contract of
  an inductive invariant.  Every stateful component proves the two obligations of the locale for
  its own step relation and takes its reachability facts from here.
\<close>

inductive run :: "('s \<Rightarrow> 'e \<Rightarrow> 's \<Rightarrow> bool) \<Rightarrow> 's \<Rightarrow> 'e list \<Rightarrow> 's \<Rightarrow> bool"
  for step :: "'s \<Rightarrow> 'e \<Rightarrow> 's \<Rightarrow> bool" where
  run_Nil: "run step s [] s"
| run_Cons: "step s e s' \<Longrightarrow> run step s' es s'' \<Longrightarrow> run step s (e # es) s''"

inductive_cases run_NilE: "run step s [] s'"
inductive_cases run_ConsE: "run step s (e # es) s'"
inductive_simps run_Cons_iff: "run step s (e # es) s''"
inductive_simps run_Nil_iff: "run step s [] s'"

definition reachable :: "('s \<Rightarrow> bool) \<Rightarrow> ('s \<Rightarrow> 'e \<Rightarrow> 's \<Rightarrow> bool) \<Rightarrow> 's \<Rightarrow> bool" where
  "reachable init step s \<longleftrightarrow> (\<exists>s0 es. init s0 \<and> run step s0 es s)"

lemma run_append: "run step s es s' \<Longrightarrow> run step s' fs s'' \<Longrightarrow> run step s (es @ fs) s''"
  by (induction rule: run.induct) (auto intro: run.intros)

lemma run_append_iff: "run step s (es @ fs) s'' \<longleftrightarrow> (\<exists>s'. run step s es s' \<and> run step s' fs s'')"
  by (induction es arbitrary: s) (auto simp: run_Cons_iff run_Nil_iff)

lemma reachable_init: "init s \<Longrightarrow> reachable init step s"
  unfolding reachable_def by (blast intro: run_Nil)

lemma reachable_step: "reachable init step s \<Longrightarrow> step s e s' \<Longrightarrow> reachable init step s'"
  unfolding reachable_def by (meson run_append run_Cons run_Nil)

locale invariant =
  fixes init :: "'s \<Rightarrow> bool"
    and step :: "'s \<Rightarrow> 'e \<Rightarrow> 's \<Rightarrow> bool"
    and inv :: "'s \<Rightarrow> bool"
  assumes init_inv: "init s \<Longrightarrow> inv s"
    and step_inv: "inv s \<Longrightarrow> step s e s' \<Longrightarrow> inv s'"
begin

lemma run_inv: "run step s es s' \<Longrightarrow> inv s \<Longrightarrow> inv s'"
  by (induction rule: run.induct) (auto intro: step_inv)

lemma reachable_inv: "reachable init step s \<Longrightarrow> inv s"
  unfolding reachable_def using init_inv run_inv by blast

end

section \<open>Compare and set\<close>

text \<open>The contract of a store whose values move only by compare-and-set requests: a request names a
  key, the value it expects there and the value it writes, and may be forbidden by a guard that the
  moves do not influence.  \<open>attempt_all\<close> runs requests in order and counts those that took effect.\<close>

fun attempt_all :: "('s \<Rightarrow> 'r \<Rightarrow> 's \<times> bool) \<Rightarrow> 's \<Rightarrow> 'r list \<Rightarrow> 's \<times> nat" where
  "attempt_all attempt s [] = (s, 0)"
| "attempt_all attempt s (r # rs) =
     (let (s', hit) = attempt s r; (s'', n) = attempt_all attempt s' rs
      in (s'', (if hit then 1 else 0) + n))"

locale cas_store =
  fixes ok :: "'s \<Rightarrow> bool"
    and get :: "'s \<Rightarrow> 'k \<Rightarrow> 'v option"
    and key_of :: "'r \<Rightarrow> 'k" and from_of :: "'r \<Rightarrow> 'v" and to_of :: "'r \<Rightarrow> 'v"
    and allowed :: "'s \<Rightarrow> 'r \<Rightarrow> bool"
    and attempt :: "'s \<Rightarrow> 'r \<Rightarrow> 's \<times> bool"
  assumes attempt_ok: "ok s \<Longrightarrow> ok (fst (attempt s r))"
    and attempt_hit: "ok s \<Longrightarrow> allowed s r \<Longrightarrow> get s (key_of r) = Some (from_of r) \<Longrightarrow>
      snd (attempt s r) \<and> get (fst (attempt s r)) = (get s)(key_of r \<mapsto> to_of r)"
    and attempt_miss: "ok s \<Longrightarrow> \<not> (allowed s r \<and> get s (key_of r) = Some (from_of r)) \<Longrightarrow>
      attempt s r = (s, False)"
    and allowed_stable: "ok s \<Longrightarrow> allowed (fst (attempt s r)) r' = allowed s r'"
begin

lemma one_winner:
  assumes "ok s" "snd (attempt s r)" "from_of r \<noteq> to_of r"
    "key_of r' = key_of r" "from_of r' = from_of r"
  shows "attempt (fst (attempt s r)) r' = (fst (attempt s r), False)"
proof -
  have "allowed s r" "get s (key_of r) = Some (from_of r)"
    using assms attempt_miss [of s r] by (metis snd_conv)+
  then have "get (fst (attempt s r)) (key_of r) = Some (to_of r)" using attempt_hit assms(1) by simp
  with assms show ?thesis by (intro attempt_miss attempt_ok) auto
qed

lemma batch_applied:
  assumes "ok s" "distinct (map key_of rs)"
    "\<And>r. r \<in> set rs \<Longrightarrow> allowed s r \<and> get s (key_of r) = Some (from_of r)"
  shows "snd (attempt_all attempt s rs) = length rs \<and>
    get (fst (attempt_all attempt s rs)) = get s ++ map_of (map (\<lambda>r. (key_of r, to_of r)) rs)"
  using assms
proof (induction rs arbitrary: s)
  case (Cons r rs)
  let ?s = "fst (attempt s r)"
  have hit: "snd (attempt s r)" "get ?s = (get s)(key_of r \<mapsto> to_of r)"
    using attempt_hit [of s r] Cons.prems by simp_all
  have "get ?s (key_of r') = get s (key_of r')" if "r' \<in> set rs" for r'
    using hit(2) Cons.prems(2) that imageI [OF that, of key_of] by (auto simp del: image_eqI)
  then have "snd (attempt_all attempt ?s rs) = length rs \<and>
      get (fst (attempt_all attempt ?s rs)) = get ?s ++ map_of (map (\<lambda>r. (key_of r, to_of r)) rs)"
    using Cons.prems allowed_stable [OF Cons.prems(1)] by (intro Cons.IH) (auto intro: attempt_ok)
  moreover have "key_of r \<notin> dom (map_of (map (\<lambda>r. (key_of r, to_of r)) rs))"
    using Cons.prems(2) by (auto simp: dom_map_of_conv_image_fst)
  then have "(get s)(key_of r \<mapsto> to_of r) ++ map_of (map (\<lambda>r. (key_of r, to_of r)) rs) =
      (get s ++ map_of (map (\<lambda>r. (key_of r, to_of r)) rs))(key_of r \<mapsto> to_of r)"
    by (simp add: map_add_upd_left)
  ultimately show ?case using hit by (simp add: Let_def case_prod_beta) (simp add: map_add_def fun_eq_iff)
qed simp

lemma batch_change:
  assumes "ok s" "distinct (map key_of rs)"
  shows "get (fst (attempt_all attempt s rs)) k = get s k \<or>
    (\<exists>r \<in> set rs. key_of r = k \<and> get s k = Some (from_of r) \<and>
       get (fst (attempt_all attempt s rs)) k = Some (to_of r))"
  using assms
proof (induction rs arbitrary: s)
  case (Cons r rs)
  let ?s = "fst (attempt s r)" and ?t = "fst (attempt_all attempt (fst (attempt s r)) rs)"
  have t: "fst (attempt_all attempt s (r # rs)) = ?t" by (simp add: Let_def case_prod_beta)
  have IH: "get ?t k = get ?s k \<or>
      (\<exists>r \<in> set rs. key_of r = k \<and> get ?s k = Some (from_of r) \<and> get ?t k = Some (to_of r))"
    using Cons.prems by (intro Cons.IH) (auto intro: attempt_ok)
  show ?case
  proof (cases "allowed s r \<and> get s (key_of r) = Some (from_of r)")
    case True
    then have hit: "get ?s = (get s)(key_of r \<mapsto> to_of r)" using attempt_hit Cons.prems(1) by blast
    show ?thesis
    proof (cases "key_of r = k")
      case True': True
      then have "\<not> (\<exists>r \<in> set rs. key_of r = k)" using Cons.prems(2) True' by (simp, metis image_eqI)
      with IH hit True True' show ?thesis unfolding t by auto
    next
      case False
      with hit have "get ?s k = get s k" by simp
      with IH show ?thesis unfolding t by auto
    qed
  next
    case False
    then have "?s = s" using attempt_miss [OF Cons.prems(1)] by simp
    with IH show ?thesis unfolding t by auto
  qed
qed simp

end

end
