(* ===== verification/Circuit_Breaker.thy ===== *)
theory Circuit_Breaker
  imports Transition
begin

text \<open>
  The plugin circuit breaker, \<open>src/core/plugin_circuit_breaker.py\<close>: per-plugin state CLOSED, OPEN
  or HALF_OPEN, with automatic fallback.

  Time is an argument of every operation (\<open>now\<close>, one reading of the clock per operation), and so is
  what the wrapped coroutine and the fallback do: a plugin call returns, times out or raises.  The
  state manager is the optional store \<open>cm_store\<close> of the last saved state per plugin; its calls do
  not raise.  Metrics and logs are not modelled.  A \<open>defaultdict\<close> is a map whose missing entries
  read as the default; reading one creates it.
\<close>

datatype circuit = CLOSED | OPEN | HALF_OPEN

record cb_config =
  cf_failure_threshold :: int
  cf_recovery_timeout :: int
  cf_success_threshold :: int
  cf_max_half_open_calls :: int
  cf_failure_window :: int

definition default_config :: cb_config where
  "default_config = \<lparr>cf_failure_threshold = 3, cf_recovery_timeout = 300, cf_success_threshold = 2,
     cf_max_half_open_calls = 5, cf_failure_window = 60\<rparr>"

record failure_record =
  fr_timestamp :: stamp
  fr_error_type :: string
  fr_error_message :: string
  fr_execution_ms :: real

record plugin_state =
  ps_state :: circuit
  ps_failure_count :: int
  ps_success_count :: int
  ps_last_failure :: "stamp option"
  ps_last_success :: "stamp option"
  ps_half_open_calls :: int
  ps_total_calls :: int
  ps_recent_failures :: "failure_record list"

definition fresh_state :: plugin_state where
  "fresh_state = \<lparr>ps_state = CLOSED, ps_failure_count = 0, ps_success_count = 0, ps_last_failure = None,
     ps_last_success = None, ps_half_open_calls = 0, ps_total_calls = 0, ps_recent_failures = []\<rparr>"

text \<open>The persisted form: the state by its name, the other fields as they are.\<close>

record snapshot =
  ss_state :: string
  ss_failure_count :: int
  ss_success_count :: int
  ss_last_failure :: "stamp option"
  ss_last_success :: "stamp option"
  ss_half_open_calls :: int
  ss_total_calls :: int
  ss_recent_failures :: "failure_record list"

fun circuit_name :: "circuit \<Rightarrow> string" where
  "circuit_name CLOSED = ''CLOSED''"
| "circuit_name OPEN = ''OPEN''"
| "circuit_name HALF_OPEN = ''HALF_OPEN''"

definition circuit_of_name :: "string \<Rightarrow> circuit option" where
  "circuit_of_name n =
     (if n = ''CLOSED'' then Some CLOSED else if n = ''OPEN'' then Some OPEN
      else if n = ''HALF_OPEN'' then Some HALF_OPEN else None)"

record breaker =
  cm_config :: cb_config
  cm_plugins :: "string \<rightharpoonup> plugin_state"
  cm_executions :: int
  cm_fallbacks :: int
  cm_failures :: int
  cm_performance :: "string \<Rightarrow> real list"
  cm_store :: "(string \<rightharpoonup> snapshot) option"

definition new_breaker :: "cb_config \<Rightarrow> (string \<rightharpoonup> snapshot) option \<Rightarrow> breaker" where
  "new_breaker config manager = \<lparr>cm_config = config, cm_plugins = Map.empty, cm_executions = 0,
     cm_fallbacks = 0, cm_failures = 0, cm_performance = (\<lambda>_. []), cm_store = manager\<rparr>"

text \<open>\<open>deque(maxlen=n).append\<close> drops from the left when full.\<close>

definition push_bounded :: "nat \<Rightarrow> 'a list \<Rightarrow> 'a \<Rightarrow> 'a list" where
  "push_bounded n xs x = (let ys = xs @ [x] in drop (length ys - n) ys)"

definition serialize_plugin_state :: "plugin_state \<Rightarrow> snapshot" where
  "serialize_plugin_state s = \<lparr>ss_state = circuit_name (ps_state s), ss_failure_count = ps_failure_count s,
     ss_success_count = ps_success_count s, ss_last_failure = ps_last_failure s,
     ss_last_success = ps_last_success s, ss_half_open_calls = ps_half_open_calls s,
     ss_total_calls = ps_total_calls s, ss_recent_failures = ps_recent_failures s\<rparr>"

definition deserialize :: "snapshot \<Rightarrow> plugin_state option" where
  "deserialize d = map_option (\<lambda>c. \<lparr>ps_state = c, ps_failure_count = ss_failure_count d,
     ps_success_count = ss_success_count d, ps_last_failure = ss_last_failure d,
     ps_last_success = ss_last_success d, ps_half_open_calls = ss_half_open_calls d,
     ps_total_calls = ss_total_calls d,
     ps_recent_failures = foldl (push_bounded 10) [] (ss_recent_failures d)\<rparr>) (circuit_of_name (ss_state d))"

definition plugin_of :: "breaker \<Rightarrow> string \<Rightarrow> plugin_state" where
  "plugin_of b name = (case cm_plugins b name of None \<Rightarrow> fresh_state | Some s \<Rightarrow> s)"

definition set_plugin :: "breaker \<Rightarrow> string \<Rightarrow> plugin_state \<Rightarrow> breaker" where
  "set_plugin b name s = b\<lparr>cm_plugins := (cm_plugins b)(name \<mapsto> s)\<rparr>"

definition save_state :: "breaker \<Rightarrow> string \<Rightarrow> breaker" where
  "save_state b name =
     (case cm_store b of
        None \<Rightarrow> b
      | Some store \<Rightarrow> b\<lparr>cm_store := Some (store(name \<mapsto> serialize_plugin_state (plugin_of b name)))\<rparr>)"

section \<open>Operations\<close>

definition guard_state :: "cb_config \<Rightarrow> stamp \<Rightarrow> plugin_state \<Rightarrow> plugin_state \<times> bool" where
  "guard_state cf now s =
     (case ps_state s of
        CLOSED \<Rightarrow> (s, False)
      | OPEN \<Rightarrow>
          (case ps_last_failure s of
             Some t \<Rightarrow>
               if cf_recovery_timeout cf * second < now - t
               then (s\<lparr>ps_state := HALF_OPEN, ps_half_open_calls := 0\<rparr>, False)
               else (s, True)
           | None \<Rightarrow> (s, True))
      | HALF_OPEN \<Rightarrow>
          if ps_half_open_calls s < cf_max_half_open_calls cf
          then (s\<lparr>ps_half_open_calls := ps_half_open_calls s + 1\<rparr>, False)
          else (s\<lparr>ps_state := OPEN, ps_last_failure := Some now\<rparr>, True))"

definition should_use_fallback :: "breaker \<Rightarrow> string \<Rightarrow> stamp \<Rightarrow> breaker \<times> bool" where
  "should_use_fallback b name now =
     (let (s, use) = guard_state (cm_config b) now (plugin_of b name) in (set_plugin b name s, use))"

definition success_state :: "cb_config \<Rightarrow> stamp \<Rightarrow> plugin_state \<Rightarrow> plugin_state" where
  "success_state cf now s0 =
     (let s = s0\<lparr>ps_last_success := Some now, ps_success_count := ps_success_count s0 + 1\<rparr>
      in case ps_state s of
           HALF_OPEN \<Rightarrow>
             if cf_success_threshold cf \<le> ps_success_count s
             then s\<lparr>ps_state := CLOSED, ps_failure_count := 0, ps_success_count := 0, ps_half_open_calls := 0\<rparr>
             else s
         | CLOSED \<Rightarrow> s\<lparr>ps_failure_count := max 0 (ps_failure_count s - 1)\<rparr>
         | OPEN \<Rightarrow> s)"

definition record_success :: "breaker \<Rightarrow> string \<Rightarrow> stamp \<Rightarrow> real \<Rightarrow> breaker" where
  "record_success b name now ms =
     (let b1 = set_plugin b name (success_state (cm_config b) now (plugin_of b name));
          b2 = b1\<lparr>cm_performance := (cm_performance b1)(name := push_bounded 100 (cm_performance b1 name) ms)\<rparr>
      in save_state b2 name)"

definition count_recent_failures :: "cb_config \<Rightarrow> stamp \<Rightarrow> plugin_state \<Rightarrow> int" where
  "count_recent_failures cf now s =
     int (length (filter (\<lambda>f. now - cf_failure_window cf * second < fr_timestamp f) (ps_recent_failures s)))"

definition failure_state :: "cb_config \<Rightarrow> stamp \<Rightarrow> failure_record \<Rightarrow> plugin_state \<Rightarrow> plugin_state" where
  "failure_state cf now f s0 =
     (let s = s0\<lparr>ps_recent_failures := push_bounded 10 (ps_recent_failures s0) f,
                 ps_failure_count := ps_failure_count s0 + 1, ps_last_failure := Some now\<rparr>
      in if cf_failure_threshold cf \<le> count_recent_failures cf now s \<and> ps_state s = CLOSED
         then s\<lparr>ps_state := OPEN\<rparr>
         else if ps_state s = HALF_OPEN then s\<lparr>ps_state := OPEN, ps_success_count := 0\<rparr>
         else s)"

definition record_failure :: "breaker \<Rightarrow> string \<Rightarrow> stamp \<Rightarrow> string \<Rightarrow> string \<Rightarrow> real \<Rightarrow> breaker" where
  "record_failure b name now error_type error_message ms =
     (let f = \<lparr>fr_timestamp = now, fr_error_type = error_type, fr_error_message = error_message,
               fr_execution_ms = ms\<rparr>;
          b1 = set_plugin b name (failure_state (cm_config b) now f (plugin_of b name))
      in save_state (b1\<lparr>cm_failures := cm_failures b1 + 1\<rparr>) name)"

datatype 'r call =
    Returned 'r
  | TimedOut
  | Raised string string

definition execute_fallback :: "breaker \<Rightarrow> 'r call \<Rightarrow> breaker \<times> 'r call" where
  "execute_fallback b fallback = (b\<lparr>cm_fallbacks := cm_fallbacks b + 1\<rparr>, fallback)"

text \<open>The call is awaited between the guard and the record of its outcome, so the operation is two
  atomic parts, between which other operations may run.\<close>

definition begin_call :: "breaker \<Rightarrow> string \<Rightarrow> stamp \<Rightarrow> breaker \<times> bool" where
  "begin_call b name now =
     (let s = plugin_of b name;
          b1 = (set_plugin b name (s\<lparr>ps_total_calls := ps_total_calls s + 1\<rparr>))
                 \<lparr>cm_executions := cm_executions b + 1\<rparr>
      in should_use_fallback b1 name now)"

definition finish_call ::
  "breaker \<Rightarrow> string \<Rightarrow> 'r call \<Rightarrow> stamp \<Rightarrow> real \<Rightarrow> 'r call \<Rightarrow> breaker \<times> 'r call" where
  "finish_call b name plugin now ms fallback =
     (case plugin of
        Returned r \<Rightarrow> (record_success b name now ms, Returned r)
      | TimedOut \<Rightarrow> execute_fallback (record_failure b name now ''timeout'' '''' ms) fallback
      | Raised ty msg \<Rightarrow> execute_fallback (record_failure b name now ty msg ms) fallback)"

definition execute_with_fallback ::
  "breaker \<Rightarrow> string \<Rightarrow> stamp \<Rightarrow> 'r call \<Rightarrow> stamp \<Rightarrow> real \<Rightarrow> 'r call \<Rightarrow> breaker \<times> 'r call" where
  "execute_with_fallback b name now plugin now' ms fallback =
     (let (b1, use) = begin_call b name now
      in if use then execute_fallback b1 fallback else finish_call b1 name plugin now' ms fallback)"

definition execute_workflow_with_monitoring ::
  "breaker \<Rightarrow> string \<Rightarrow> 'r call \<Rightarrow> stamp \<Rightarrow> real \<Rightarrow> breaker \<times> 'r call" where
  "execute_workflow_with_monitoring b name workflow now' ms =
     (case workflow of
        Returned r \<Rightarrow> (record_success b name now' ms, Returned r)
      | TimedOut \<Rightarrow> (record_failure b name now' ''TimeoutError'' '''' ms, TimedOut)
      | Raised ty msg \<Rightarrow> (record_failure b name now' ty msg ms, Raised ty msg))"

definition execute_langgraph_workflow_with_fallback ::
  "breaker \<Rightarrow> string \<Rightarrow> stamp \<Rightarrow> 'r call \<Rightarrow> stamp \<Rightarrow> real \<Rightarrow> 'r call option \<Rightarrow> breaker \<times> 'r call" where
  "execute_langgraph_workflow_with_fallback b name now workflow now' ms fallback =
     (case fallback of
        None \<Rightarrow> execute_workflow_with_monitoring b name workflow now' ms
      | Some f \<Rightarrow> execute_with_fallback b name now workflow now' ms f)"

text \<open>An unknown state name raises \<open>KeyError\<close>, which the method turns into \<open>False\<close>.\<close>

definition restore_plugin_state :: "breaker \<Rightarrow> string \<Rightarrow> breaker \<times> bool" where
  "restore_plugin_state b name =
     (case cm_store b of
        None \<Rightarrow> (b, False)
      | Some store \<Rightarrow>
          (case store name of
             None \<Rightarrow> (b, False)
           | Some d \<Rightarrow>
               (case deserialize d of
                  None \<Rightarrow> (b, False)
                | Some s \<Rightarrow> (set_plugin b name s, True))))"

definition force_reset_plugin :: "breaker \<Rightarrow> string \<Rightarrow> breaker \<times> bool" where
  "force_reset_plugin b name =
     (if name \<in> dom (cm_plugins b) then
        (let b1 = set_plugin b name fresh_state
         in (case cm_store b1 of
               None \<Rightarrow> b1
             | Some store \<Rightarrow> b1\<lparr>cm_store := Some (store(name := None))\<rparr>, True))
      else (b, False))"

section \<open>The machine\<close>

text \<open>A configuration is the breaker and the plugin names whose admitted calls are still awaited.\<close>

datatype event =
    Begin string stamp
  | Finish string "unit call" stamp real
  | Workflow string "unit call" stamp real
  | Restore string
  | Reset string

inductive cb_step :: "breaker \<times> string list \<Rightarrow> event \<Rightarrow> breaker \<times> string list \<Rightarrow> bool" where
  refused: "begin_call b name now = (b', True) \<Longrightarrow>
     cb_step (b, p) (Begin name now) (fst (execute_fallback b' (TimedOut :: unit call)), p)"
| admitted: "begin_call b name now = (b', False) \<Longrightarrow> cb_step (b, p) (Begin name now) (b', name # p)"
| finished: "name \<in> set p \<Longrightarrow>
     cb_step (b, p) (Finish name outcome now ms) (fst (finish_call b name outcome now ms TimedOut), remove1 name p)"
| workflow: "cb_step (b, p) (Workflow name outcome now ms)
     (fst (execute_workflow_with_monitoring b name outcome now ms), p)"
| restored: "cb_step (b, p) (Restore name) (fst (restore_plugin_state b name), p)"
| reset: "cb_step (b, p) (Reset name) (fst (force_reset_plugin b name), p)"

inductive_simps cb_step_begin: "cb_step (b, p) (Begin name now) m'"
inductive_simps cb_step_finish: "cb_step (b, p) (Finish name outcome now ms) m'"

definition cb_init :: "breaker \<times> string list \<Rightarrow> bool" where
  "cb_init m \<longleftrightarrow> (\<exists>config manager. m = (new_breaker config manager, []) \<and> 0 \<le> cf_max_half_open_calls config \<and>
     (manager = None \<or> manager = Some Map.empty))"

section \<open>Persistence\<close>

lemma push_bounded_length: "length (push_bounded n xs x) \<le> n"
  by (simp add: push_bounded_def Let_def)

lemma push_bounded_short: "length xs < n \<Longrightarrow> push_bounded n xs x = xs @ [x]"
  by (simp add: push_bounded_def Let_def)

lemma refill_short: "length acc + length xs \<le> n \<Longrightarrow> foldl (push_bounded n) acc xs = acc @ xs"
  by (induction xs arbitrary: acc) (auto simp: push_bounded_short)

lemma circuit_of_name [simp]: "circuit_of_name (circuit_name c) = Some c"
  by (cases c) (auto simp: circuit_of_name_def)

lemma deserialize_serialize:
  "length (ps_recent_failures s) \<le> 10 \<Longrightarrow> deserialize (serialize_plugin_state s) = Some s"
  by (simp add: deserialize_def serialize_plugin_state_def refill_short)

section \<open>The invariant\<close>

definition plugin_ok :: "cb_config \<Rightarrow> plugin_state \<Rightarrow> bool" where
  "plugin_ok cf s \<longleftrightarrow>
     (ps_state s = OPEN \<longrightarrow> ps_last_failure s \<noteq> None) \<and>
     0 \<le> ps_half_open_calls s \<and> ps_half_open_calls s \<le> cf_max_half_open_calls cf \<and>
     length (ps_recent_failures s) \<le> 10 \<and> 0 \<le> ps_failure_count s \<and>
     (10 < cf_failure_threshold cf \<longrightarrow> ps_state s = CLOSED)"

definition breaker_ok :: "breaker \<Rightarrow> bool" where
  "breaker_ok b \<longleftrightarrow>
     0 \<le> cf_max_half_open_calls (cm_config b) \<and>
     (\<forall>name s. cm_plugins b name = Some s \<longrightarrow> plugin_ok (cm_config b) s) \<and>
     (\<forall>store name d s. cm_store b = Some store \<longrightarrow> store name = Some d \<longrightarrow> deserialize d = Some s \<longrightarrow>
        plugin_ok (cm_config b) s)"

definition machine_ok :: "breaker \<times> string list \<Rightarrow> bool" where
  "machine_ok m \<longleftrightarrow> breaker_ok (fst m) \<and> 0 \<le> cm_fallbacks (fst m) \<and>
     cm_fallbacks (fst m) + int (length (snd m)) \<le> cm_executions (fst m)"

lemma fresh_ok: "0 \<le> cf_max_half_open_calls cf \<Longrightarrow> plugin_ok cf fresh_state"
  by (simp add: plugin_ok_def fresh_state_def)

lemma guard_ok:
  "0 \<le> cf_max_half_open_calls cf \<Longrightarrow> plugin_ok cf s \<Longrightarrow> plugin_ok cf (fst (guard_state cf now s))"
  by (auto simp: plugin_ok_def guard_state_def split: circuit.split option.split)

lemma success_ok:
  "0 \<le> cf_max_half_open_calls cf \<Longrightarrow> plugin_ok cf s \<Longrightarrow> plugin_ok cf (success_state cf now s)"
  by (auto simp: plugin_ok_def success_state_def Let_def split: circuit.split)

lemma recent_count_le: "count_recent_failures cf now s \<le> int (length (ps_recent_failures s))"
  by (simp add: count_recent_failures_def)

lemma failure_ok:
  assumes "plugin_ok cf s"
  shows "plugin_ok cf (failure_state cf now f s)"
proof -
  let ?s = "s\<lparr>ps_recent_failures := push_bounded 10 (ps_recent_failures s) f,
      ps_failure_count := ps_failure_count s + 1, ps_last_failure := Some now\<rparr>"
  have "count_recent_failures cf now ?s \<le> 10"
    using recent_count_le [of cf now ?s] push_bounded_length [of 10 "ps_recent_failures s" f] by simp
  with assms push_bounded_length [of 10 "ps_recent_failures s" f] show ?thesis
    by (auto simp: plugin_ok_def failure_state_def Let_def)
qed

lemma plugin_of_ok: "breaker_ok b \<Longrightarrow> plugin_ok (cm_config b) (plugin_of b name)"
  by (auto simp: breaker_ok_def plugin_of_def fresh_ok split: option.split)

lemma set_plugin_ok: "breaker_ok b \<Longrightarrow> plugin_ok (cm_config b) s \<Longrightarrow> breaker_ok (set_plugin b name s)"
  by (auto simp: breaker_ok_def set_plugin_def)

lemma set_plugin_frame [simp, frame_simps]:
  "cm_config (set_plugin b name s) = cm_config b" "cm_fallbacks (set_plugin b name s) = cm_fallbacks b"
  "cm_executions (set_plugin b name s) = cm_executions b" "cm_failures (set_plugin b name s) = cm_failures b"
  "plugin_of (set_plugin b name s) name = s" "cm_store (set_plugin b name s) = cm_store b"
  by (simp_all add: set_plugin_def plugin_of_def)

lemma save_state_frame [simp, frame_simps]:
  "cm_config (save_state b name) = cm_config b" "cm_fallbacks (save_state b name) = cm_fallbacks b"
  "cm_executions (save_state b name) = cm_executions b" "plugin_of (save_state b name) n = plugin_of b n"
  by (simp_all add: save_state_def plugin_of_def split: option.split)

lemma save_state_ok: "breaker_ok b \<Longrightarrow> breaker_ok (save_state b name)"
proof -
  assume ok: "breaker_ok b"
  then have "plugin_ok (cm_config b) (plugin_of b name)" by (rule plugin_of_ok)
  moreover from this have "deserialize (serialize_plugin_state (plugin_of b name)) = Some (plugin_of b name)"
    by (intro deserialize_serialize) (simp add: plugin_ok_def)
  ultimately show ?thesis using ok
    by (auto simp: breaker_ok_def save_state_def split: option.splits if_splits)
qed

lemma record_ok:
  assumes "breaker_ok b"
  shows "breaker_ok (record_success b name now ms)" "breaker_ok (record_failure b name now ty msg ms)"
proof -
  note p = plugin_of_ok [OF assms, of name]
  have cap: "0 \<le> cf_max_half_open_calls (cm_config b)" using assms by (simp add: breaker_ok_def)
  have perf: "breaker_ok (b'\<lparr>cm_performance := p\<rparr>)" "breaker_ok (b'\<lparr>cm_failures := n\<rparr>)" if "breaker_ok b'" for b' p n
    using that by (auto simp: breaker_ok_def)
  show "breaker_ok (record_success b name now ms)"
    unfolding record_success_def Let_def
    by (intro save_state_ok perf(1) set_plugin_ok assms success_ok cap p)
  show "breaker_ok (record_failure b name now ty msg ms)"
    unfolding record_failure_def Let_def
    by (intro save_state_ok perf(2) set_plugin_ok assms failure_ok p)
qed

lemma record_frame [simp, frame_simps]:
  "cm_config (record_success b name now ms) = cm_config b"
  "cm_config (record_failure b name now ty msg ms) = cm_config b"
  "cm_fallbacks (record_success b name now ms) = cm_fallbacks b"
  "cm_fallbacks (record_failure b name now ty msg ms) = cm_fallbacks b"
  "cm_executions (record_success b name now ms) = cm_executions b"
  "cm_executions (record_failure b name now ty msg ms) = cm_executions b"
  by (simp_all add: record_success_def record_failure_def Let_def)

lemma plugin_of_frame [simp, frame_simps]:
  "plugin_of (b\<lparr>cm_executions := n\<rparr>) m = plugin_of b m" "plugin_of (b\<lparr>cm_fallbacks := n\<rparr>) m = plugin_of b m"
  "plugin_of (b\<lparr>cm_failures := n\<rparr>) m = plugin_of b m" "plugin_of (b\<lparr>cm_performance := q\<rparr>) m = plugin_of b m"
  by (simp_all add: plugin_of_def)

lemma counters_ok:
  "breaker_ok b \<Longrightarrow> breaker_ok (b\<lparr>cm_fallbacks := n\<rparr>)" "breaker_ok b \<Longrightarrow> breaker_ok (b\<lparr>cm_executions := n\<rparr>)"
  by (auto simp: breaker_ok_def)

lemma begin_ok:
  assumes "breaker_ok b" "begin_call b name now = (b', use)"
  shows "breaker_ok b'" "cm_fallbacks b' = cm_fallbacks b" "cm_executions b' = cm_executions b + 1"
    "cm_config b' = cm_config b"
proof -
  let ?s = "plugin_of b name"
  let ?b1 = "(set_plugin b name (?s\<lparr>ps_total_calls := ps_total_calls ?s + 1\<rparr>))\<lparr>cm_executions := cm_executions b + 1\<rparr>"
  have b': "b' = set_plugin ?b1 name (fst (guard_state (cm_config ?b1) now (plugin_of ?b1 name)))"
    using assms(2) by (simp add: begin_call_def should_use_fallback_def Let_def case_prod_beta)
  have "plugin_ok (cm_config b) (?s\<lparr>ps_total_calls := ps_total_calls ?s + 1\<rparr>)"
    using plugin_of_ok [OF assms(1), of name] by (simp add: plugin_ok_def)
  then have "breaker_ok ?b1" by (intro counters_ok set_plugin_ok assms(1))
  then show "breaker_ok b'" unfolding b'
    by (intro set_plugin_ok guard_ok plugin_of_ok) (simp_all add: breaker_ok_def)
  show "cm_fallbacks b' = cm_fallbacks b" "cm_executions b' = cm_executions b + 1" "cm_config b' = cm_config b"
    by (simp_all add: b')
qed

lemma finish_ok:
  assumes "breaker_ok b"
  shows "breaker_ok (fst (finish_call b name outcome now ms fallback))"
    "cm_fallbacks b \<le> cm_fallbacks (fst (finish_call b name outcome now ms fallback))"
    "cm_fallbacks (fst (finish_call b name outcome now ms fallback)) \<le> cm_fallbacks b + 1"
    "cm_executions (fst (finish_call b name outcome now ms fallback)) = cm_executions b"
  using assms by (auto simp: finish_call_def execute_fallback_def record_ok counters_ok split: call.split)

lemma workflow_ok:
  assumes "breaker_ok b"
  shows "breaker_ok (fst (execute_workflow_with_monitoring b name outcome now ms))"
  using assms by (auto simp: execute_workflow_with_monitoring_def record_ok split: call.split)

lemma restore_ok:
  "breaker_ok b \<Longrightarrow> breaker_ok (fst (restore_plugin_state b name))"
  by (auto simp: restore_plugin_state_def split: option.split intro!: set_plugin_ok) (auto simp: breaker_ok_def)

lemma reset_ok:
  assumes "breaker_ok b"
  shows "breaker_ok (fst (force_reset_plugin b name))"
proof -
  have "breaker_ok (set_plugin b name fresh_state)"
    using assms by (intro set_plugin_ok fresh_ok) (simp_all add: breaker_ok_def)
  then show ?thesis using assms
    by (auto simp: force_reset_plugin_def breaker_ok_def Let_def split: option.splits if_splits)
qed

lemma side_counters [simp, frame_simps]:
  "cm_fallbacks (fst (restore_plugin_state b name)) = cm_fallbacks b"
  "cm_executions (fst (restore_plugin_state b name)) = cm_executions b"
  "cm_fallbacks (fst (force_reset_plugin b name)) = cm_fallbacks b"
  "cm_executions (fst (force_reset_plugin b name)) = cm_executions b"
  "cm_fallbacks (fst (execute_workflow_with_monitoring b name outcome now ms)) = cm_fallbacks b"
  "cm_executions (fst (execute_workflow_with_monitoring b name outcome now ms)) = cm_executions b"
  by (auto simp: restore_plugin_state_def force_reset_plugin_def execute_workflow_with_monitoring_def Let_def
      split: option.split call.split)

lemma machine_step: "cb_step m e m' \<Longrightarrow> machine_ok m \<Longrightarrow> machine_ok m'"
proof (induction rule: cb_step.induct)
  case (refused b name now b' p)
  then have "breaker_ok b" by (simp add: machine_ok_def)
  from begin_ok [OF this refused.hyps] refused.prems show ?case
    by (simp add: machine_ok_def execute_fallback_def counters_ok)
next
  case (admitted b name now b' p)
  then have "breaker_ok b" by (simp add: machine_ok_def)
  from begin_ok [OF this admitted.hyps] admitted.prems show ?case by (simp add: machine_ok_def)
next
  case (finished name p b outcome now ms)
  then have "breaker_ok b" by (simp add: machine_ok_def)
  note fin = finish_ok [OF this, of name outcome now ms TimedOut]
  have "0 < length p" using finished.hyps by (cases p) auto
  then have "int (length (remove1 name p)) = int (length p) - 1"
    using finished.hyps by (simp add: length_remove1 of_nat_diff Suc_leI)
  with fin finished.prems show ?case by (simp add: machine_ok_def)
qed (simp_all add: machine_ok_def workflow_ok restore_ok reset_ok)

interpretation cb: invariant cb_init cb_step machine_ok
proof unfold_locales
  show "machine_ok m" if "cb_init m" for m
    using that by (auto simp: cb_init_def machine_ok_def breaker_ok_def new_breaker_def)
qed (rule machine_step)


section \<open>What the breaker promises\<close>

text \<open>C17. In every reachable configuration, whatever the interleaving of calls: an OPEN circuit has a
  last failure time (so it can recover), the half-open call counter stays between zero and its limit,
  at most ten recent failures are kept, and no more fallbacks were taken than calls made, even
  counting the calls still awaited.\<close>

theorem breaker_reachable:
  assumes "reachable cb_init cb_step (b, p)"
  shows "(ps_state (plugin_of b name) = OPEN \<longrightarrow> ps_last_failure (plugin_of b name) \<noteq> None) \<and>
    0 \<le> ps_half_open_calls (plugin_of b name) \<and>
    ps_half_open_calls (plugin_of b name) \<le> cf_max_half_open_calls (cm_config b) \<and>
    length (ps_recent_failures (plugin_of b name)) \<le> 10 \<and>
    0 \<le> cm_fallbacks b \<and> cm_fallbacks b + int (length p) \<le> cm_executions b"
proof -
  have "machine_ok (b, p)" using assms by (rule cb.reachable_inv)
  then show ?thesis using plugin_of_ok [of b name] by (simp add: machine_ok_def plugin_ok_def)
qed

definition ex_new :: breaker where
  "ex_new = new_breaker default_config (Some Map.empty)"

definition ex_begun :: breaker where
  "ex_begun = fst (begin_call ex_new ''rsi'' 1000)"

lemma ex_begun_reachable: "reachable cb_init cb_step (ex_begun, [''rsi''])"
proof (rule reachable_step)
  show "reachable cb_init cb_step (ex_new, [])"
    by (rule reachable_init) (unfold cb_init_def ex_new_def,
        rule exI [of _ default_config], rule exI [of _ "Some Map.empty"], simp add: default_config_def)
  have "begin_call ex_new ''rsi'' 1000 = (ex_begun, False)"
    by (simp add: ex_begun_def ex_new_def begin_call_def should_use_fallback_def guard_state_def
        plugin_of_def set_plugin_def new_breaker_def fresh_state_def)
  then show "cb_step (ex_new, []) (Begin ''rsi'' 1000) (ex_begun, [''rsi''])" by (rule admitted)
qed

lemma breaker_reachable_witness: "cm_fallbacks ex_begun + 1 \<le> cm_executions ex_begun"
  using breaker_reachable [OF ex_begun_reachable, of "''rsi''"] by simp

text \<open>While a circuit is OPEN and its recovery timeout has not passed, the breaker fails fast: the
  fallback's outcome is returned, the plugin's behaviour and the time it would take are irrelevant, the
  circuit stays OPEN with the same failure time, and no failure is counted.\<close>

theorem open_fails_fast:
  assumes "ps_state (plugin_of b name) = OPEN" "ps_last_failure (plugin_of b name) = Some t"
    "now - t \<le> cf_recovery_timeout (cm_config b) * second"
  shows "snd (execute_with_fallback b name now plugin now' ms fallback) = fallback \<and>
    fst (execute_with_fallback b name now plugin now' ms fallback) =
      fst (execute_with_fallback b name now plugin2 now2 ms2 fallback2) \<and>
    (let b' = fst (execute_with_fallback b name now plugin now' ms fallback)
     in ps_state (plugin_of b' name) = OPEN \<and> ps_last_failure (plugin_of b' name) = Some t \<and>
        cm_failures b' = cm_failures b \<and> cm_fallbacks b' = cm_fallbacks b + 1)"
  using assms
  by (simp add: execute_with_fallback_def begin_call_def should_use_fallback_def guard_state_def
      execute_fallback_def Let_def set_plugin_def plugin_of_def)

definition ex_open :: breaker where
  "ex_open = set_plugin ex_new ''rsi'' (fresh_state\<lparr>ps_state := OPEN, ps_last_failure := Some 0, ps_success_count := 7\<rparr>)"

lemma ex_open_simps:
  "ps_state (plugin_of ex_open ''rsi'') = OPEN" "ps_last_failure (plugin_of ex_open ''rsi'') = Some 0"
  "ps_success_count (plugin_of ex_open ''rsi'') = 7" "cf_recovery_timeout (cm_config ex_open) = 300"
  "cf_success_threshold (cm_config ex_open) = 2"
  by (simp_all add: ex_open_def ex_new_def new_breaker_def default_config_def fresh_state_def)

lemma open_fails_fast_witness:
  "snd (execute_with_fallback ex_open ''rsi'' 300000000 (Returned 1) 300000001 5 (Returned (2 :: int))) = Returned 2"
  using conjunct1 [OF open_fails_fast [of ex_open "''rsi''" 0 300000000 "Returned 1" 300000001 5 "Returned (2 :: int)"]]
  by (simp add: ex_open_simps second_def)

text \<open>Once the recovery timeout has passed, the next call on an OPEN circuit is a real test of the
  plugin.  A result is returned to the caller and leaves the circuit HALF_OPEN, or closes it when the
  success counter reaches the threshold; a failure opens it again as of the time of the failure, resets
  the success counter, and the caller gets the fallback.\<close>

theorem open_recovers:
  assumes "ps_state (plugin_of b name) = OPEN" "ps_last_failure (plugin_of b name) = Some t"
    "cf_recovery_timeout (cm_config b) * second < now - t"
  shows "snd (execute_with_fallback b name now (Returned r) now' ms fallback) = Returned r \<and>
    ps_state (plugin_of (fst (execute_with_fallback b name now (Returned r) now' ms fallback)) name) =
      (if cf_success_threshold (cm_config b) \<le> ps_success_count (plugin_of b name) + 1
       then CLOSED else HALF_OPEN) \<and>
    snd (execute_with_fallback b name now (Raised ty msg) now' ms fallback) = fallback \<and>
    (let s' = plugin_of (fst (execute_with_fallback b name now (Raised ty msg) now' ms fallback)) name
     in ps_state s' = OPEN \<and> ps_last_failure s' = Some now' \<and> ps_success_count s' = 0)"
proof -
  let ?s = "(plugin_of b name)\<lparr>ps_total_calls := ps_total_calls (plugin_of b name) + 1\<rparr>"
  let ?h = "?s\<lparr>ps_state := HALF_OPEN, ps_half_open_calls := 0\<rparr>"
  obtain b1 where b1: "begin_call b name now = (b1, False)" "plugin_of b1 name = ?h" "cm_config b1 = cm_config b"
    using assms by (simp add: begin_call_def should_use_fallback_def guard_state_def Let_def)
  have h: "plugin_of (record_success b1 name now' ms) name = success_state (cm_config b) now' ?h"
    "plugin_of (record_failure b1 name now' ty msg ms) name =
       failure_state (cm_config b) now' \<lparr>fr_timestamp = now', fr_error_type = ty, fr_error_message = msg,
         fr_execution_ms = ms\<rparr> ?h"
    using b1 by (simp_all add: record_success_def record_failure_def Let_def)
  show ?thesis
    using b1(1) by (simp add: execute_with_fallback_def finish_call_def execute_fallback_def Let_def h)
      (simp add: success_state_def failure_state_def)
qed

lemma open_recovers_witness:
  "ps_state (plugin_of (fst (execute_with_fallback ex_open ''rsi'' 300000001 (Returned 1) 300000002 5
     (Returned (2 :: int)))) ''rsi'') = CLOSED"
  using open_recovers [of ex_open "''rsi''" 0 300000001 1 300000002 5 "Returned (2 :: int)"]
  by (simp add: ex_open_simps second_def)

text \<open>Persistence: in a reachable configuration with a state manager, recording an outcome saves
  the plugin's state, and restoring it later, whatever the in-memory state has become, brings back
  exactly that state.\<close>

theorem saved_state_restored:
  assumes "reachable cb_init cb_step (b, p)" "cm_store b \<noteq> None"
    "b' = record_success b name now ms \<or> b' = record_failure b name now ty msg ms"
  shows "snd (restore_plugin_state (set_plugin b' name s) name) = True \<and>
    plugin_of (fst (restore_plugin_state (set_plugin b' name s) name)) name = plugin_of b' name"
proof -
  have "machine_ok (b, p)" using assms(1) by (rule cb.reachable_inv)
  then have "breaker_ok b'" using assms(3) by (auto simp: machine_ok_def record_ok)
  then have "length (ps_recent_failures (plugin_of b' name)) \<le> 10"
    using plugin_of_ok [of b' name] by (simp add: plugin_ok_def)
  then have "deserialize (serialize_plugin_state (plugin_of b' name)) = Some (plugin_of b' name)"
    by (rule deserialize_serialize)
  moreover obtain st where "cm_store b' = Some st" "st name = Some (serialize_plugin_state (plugin_of b' name))"
  proof -
    obtain b2 st0 where "b' = save_state b2 name" "cm_store b2 = Some st0"
      using assms(2,3) by (auto simp: record_success_def record_failure_def Let_def)
    then show ?thesis using that [of "st0(name \<mapsto> serialize_plugin_state (plugin_of b2 name))"]
      by (simp add: save_state_frame(4)) (simp add: save_state_def)
  qed
  ultimately show ?thesis by (simp add: restore_plugin_state_def)
qed

lemma saved_state_restored_witness:
  "snd (restore_plugin_state (set_plugin (record_failure ex_begun ''rsi'' 2000 ''ValueError'' ''bad'' 1)
     ''rsi'' fresh_state) ''rsi'')"
proof -
  have "cm_store ex_begun \<noteq> None"
    by (simp add: ex_begun_def ex_new_def begin_call_def should_use_fallback_def guard_state_def
        plugin_of_def set_plugin_def new_breaker_def fresh_state_def)
  from saved_state_restored [OF ex_begun_reachable this disjI2 [OF refl]] show ?thesis by simp
qed

text \<open>The failure history holds ten entries, so a failure threshold above ten disables the breaker:
  no reachable configuration has a circuit that is not CLOSED, and every call is admitted to the
  plugin, however often it has failed.\<close>

theorem high_threshold_never_opens:
  assumes "reachable cb_init cb_step (b, p)" "10 < cf_failure_threshold (cm_config b)"
  shows "ps_state (plugin_of b name) = CLOSED \<and> snd (begin_call b name now) = False"
proof -
  have "machine_ok (b, p)" using assms(1) by (rule cb.reachable_inv)
  then have "ps_state (plugin_of b name) = CLOSED"
    using assms(2) plugin_of_ok [of b name] by (simp add: machine_ok_def plugin_ok_def)
  then show ?thesis by (simp add: begin_call_def should_use_fallback_def guard_state_def Let_def)
qed

definition ex_high :: breaker where
  "ex_high = new_breaker (default_config\<lparr>cf_failure_threshold := 11\<rparr>) None"

lemma high_threshold_never_opens_witness: "snd (begin_call ex_high ''rsi'' 5) = False"
proof -
  have "reachable cb_init cb_step (ex_high, [])"
    by (rule reachable_init) (unfold cb_init_def ex_high_def,
        rule exI [of _ "default_config\<lparr>cf_failure_threshold := 11\<rparr>"], rule exI [of _ None],
        simp add: default_config_def)
  from high_threshold_never_opens [OF this] show ?thesis
    by (simp add: ex_high_def new_breaker_def default_config_def)
qed

text \<open>Opening a CLOSED circuit keeps its success counter, which every earlier success incremented: after
  a history of successes the first successful test call closes the circuit, whatever the success
  threshold asks for.\<close>

lemma opening_keeps_successes:
  assumes "ps_state s = CLOSED" "cf_failure_threshold cf \<le> count_recent_failures cf now
    (s\<lparr>ps_recent_failures := push_bounded 10 (ps_recent_failures s) f,
       ps_failure_count := ps_failure_count s + 1, ps_last_failure := Some now\<rparr>)"
  shows "ps_state (failure_state cf now f s) = OPEN"
    "ps_success_count (failure_state cf now f s) = ps_success_count s"
  using assms by (simp_all add: failure_state_def Let_def)

lemma stale_successes_close:
  assumes "ps_state s = HALF_OPEN" "cf_success_threshold cf - 1 \<le> ps_success_count s"
  shows "ps_state (success_state cf now s) = CLOSED"
  using assms by (simp add: success_state_def)

end
