(* ===== verification/Feature_Quality.thy ===== *)
theory Feature_Quality
  imports Prelude
begin

text \<open>
  The data quality of a feature, \<open>src/intelligence/statistics/feature_coverage.py\<close>: per timeframe,
  how many symbols carry the feature, and the verdict over all timeframes.
\<close>

record symbol_counts =
  sc_symbol :: string
  sc_n_rows :: int
  sc_n_non_null :: int
  sc_n_non_finite :: int

record tf_quality =
  tq_feature :: string
  tq_tf :: string
  tq_symbols_with_rows :: int
  tq_symbols_populated :: int
  tq_symbol_coverage :: "real option"
  tq_non_null_share :: "real option"
  tq_n_rows :: int
  tq_n_non_finite :: int

record verdict =
  vt_passed :: bool
  vt_failures :: "string list"
  vt_statistic :: "real option"
  vt_per_tf :: "(string \<times> string) list"

definition feature_tf_quality :: "string \<Rightarrow> string \<Rightarrow> symbol_counts list \<Rightarrow> tf_quality" where
  "feature_tf_quality feature tf counts =
     (let with_rows = filter (\<lambda>c. 0 < sc_n_rows c) counts;
          n_rows = sum_list (map sc_n_rows with_rows);
          n_populated = int (length (filter (\<lambda>c. 0 < sc_n_non_null c) with_rows))
      in \<lparr>tq_feature = feature, tq_tf = tf, tq_symbols_with_rows = int (length with_rows),
          tq_symbols_populated = n_populated,
          tq_symbol_coverage =
            (if with_rows = [] then None else Some (of_int n_populated / real (length with_rows))),
          tq_non_null_share =
            (if n_rows = 0 then None else Some (of_int (sum_list (map sc_n_non_null with_rows)) / of_int n_rows)),
          tq_n_rows = n_rows, tq_n_non_finite = sum_list (map sc_n_non_finite with_rows)\<rparr>)"

definition is_populated :: "tf_quality \<Rightarrow> bool" where
  "is_populated q = (case tq_symbol_coverage q of None \<Rightarrow> False | Some c \<Rightarrow> 0 < c)"

definition tf_code :: "real \<Rightarrow> tf_quality list \<Rightarrow> tf_quality \<Rightarrow> string" where
  "tf_code coverage_floor populated q =
     (if q \<notin> set populated then ''not_emitted_at_tf''
      else if 0 < tq_n_non_finite q then ''non_finite''
      else case tq_symbol_coverage q of
             None \<Rightarrow> ''ok''
           | Some c \<Rightarrow> if c < coverage_floor then ''coverage'' else ''ok'')"

definition feature_quality_verdict :: "tf_quality list \<Rightarrow> real \<Rightarrow> verdict" where
  "feature_quality_verdict per_tf coverage_floor =
     (let populated = filter is_populated per_tf
      in if populated = [] then
           \<lparr>vt_passed = False, vt_failures = [''not_computed''], vt_statistic = None,
            vt_per_tf = dict_of (map (\<lambda>q. (tq_tf q, ''not_emitted_at_tf'')) per_tf)\<rparr>
         else
           let codes = dict_of (map (\<lambda>q. (tq_tf q, tf_code coverage_floor populated q)) per_tf);
               failures = filter (\<lambda>f. f \<in> set (map snd codes)) [''non_finite'', ''coverage''];
               statistic = Min (set (concat (map (\<lambda>q. case tq_symbol_coverage q of None \<Rightarrow> [] | Some c \<Rightarrow> [c]) populated)))
           in \<lparr>vt_passed = (failures = []), vt_failures = failures, vt_statistic = Some statistic,
               vt_per_tf = codes\<rparr>)"

section \<open>Lemmas\<close>

lemma coverage_unit:
  assumes "tq_symbol_coverage (feature_tf_quality f tf counts) = Some c"
  shows "0 \<le> c \<and> c \<le> 1"
proof -
  let ?w = "filter (\<lambda>c. 0 < sc_n_rows c) counts"
  have "length (filter (\<lambda>c. 0 < sc_n_non_null c) ?w) \<le> length ?w" by (rule length_filter_le)
  then show ?thesis using assms
    by (auto simp: feature_tf_quality_def Let_def divide_le_eq split: if_splits)
qed

lemma quality_permuted:
  assumes "mset counts = mset counts'"
  shows "feature_tf_quality f tf counts = feature_tf_quality f tf counts'"
proof -
  let ?w = "filter (\<lambda>c. 0 < sc_n_rows c)"
  have w: "mset (?w counts) = mset (?w counts')" using assms by simp
  have len: "length (?w counts) = length (?w counts')" using arg_cong [OF w, of size] by (simp only: size_mset)
  have "mset (filter (\<lambda>c. 0 < sc_n_non_null c) (?w counts)) = mset (filter (\<lambda>c. 0 < sc_n_non_null c) (?w counts'))"
    using assms by simp
  then have pop: "length (filter (\<lambda>c. 0 < sc_n_non_null c) (?w counts)) =
      length (filter (\<lambda>c. 0 < sc_n_non_null c) (?w counts'))"
    by (metis size_mset)
  have sums: "sum_list (map g (?w counts)) = sum_list (map g (?w counts'))" for g :: "symbol_counts \<Rightarrow> int"
    using arg_cong [OF w, of "\<lambda>m. sum_mset (image_mset g m)"] by (simp flip: sum_mset_sum_list)
  have nil: "?w counts = [] \<longleftrightarrow> ?w counts' = []" using len by (simp flip: length_0_conv)
  show ?thesis unfolding feature_tf_quality_def Let_def len pop sums nil ..
qed

lemma codes_lookup:
  assumes "distinct (map tq_tf per_tf)" "q \<in> set per_tf"
  shows "map_of (dict_of (map (\<lambda>q. (tq_tf q, g q)) per_tf)) (tq_tf q) = Some (g q)"
proof -
  have "distinct (map fst (rev (map (\<lambda>q. (tq_tf q, g q)) per_tf)))"
    using assms(1) by (simp add: rev_map [symmetric] comp_def)
  moreover have "(tq_tf q, g q) \<in> set (rev (map (\<lambda>q. (tq_tf q, g q)) per_tf))"
    using assms(2) by auto
  ultimately show ?thesis unfolding dict_of_lookup by (rule map_of_is_SomeI)
qed

lemma codes_values:
  assumes "distinct (map tq_tf per_tf)"
  shows "set (map snd (dict_of (map (\<lambda>q. (tq_tf q, g q)) per_tf))) = g ` set per_tf"
proof -
  let ?d = "dict_of (map (\<lambda>q. (tq_tf q, g q)) per_tf)"
  have "v \<in> snd ` set ?d \<longleftrightarrow> v \<in> g ` set per_tf" for v
  proof
    assume "v \<in> snd ` set ?d"
    then obtain k where k: "(k, v) \<in> set ?d" by auto
    then have "k \<in> fst ` set ?d" by (metis fst_conv image_eqI)
    then obtain q where q: "q \<in> set per_tf" "k = tq_tf q" by auto
    have "map_of ?d k = Some v" using k by simp
    with codes_lookup [OF assms q(1), of g] q show "v \<in> g ` set per_tf" by (metis image_eqI option.inject)
  next
    assume "v \<in> g ` set per_tf"
    then obtain q where "q \<in> set per_tf" "v = g q" by auto
    with codes_lookup [OF assms] show "v \<in> snd ` set ?d" by (metis image_eqI map_of_SomeD snd_conv)
  qed
  then show ?thesis by auto
qed

text \<open>What a timeframe must satisfy for the feature to pass.\<close>

definition tf_ok :: "real \<Rightarrow> tf_quality \<Rightarrow> bool" where
  "tf_ok coverage_floor q \<longleftrightarrow>
     tq_n_non_finite q \<le> 0 \<and> (\<forall>c. tq_symbol_coverage q = Some c \<longrightarrow> coverage_floor \<le> c)"

lemma tf_code_fails:
  "(tf_code fl populated q = ''non_finite'' \<or> tf_code fl populated q = ''coverage'') \<longleftrightarrow>
     q \<in> set populated \<and> \<not> tf_ok fl q"
  by (auto simp: tf_code_def tf_ok_def split: option.splits)

text \<open>The verdict of a feature over its timeframes.  It passes exactly when some timeframe carries a
  value of the feature and every timeframe that does is free of non-finite values and reaches the
  coverage floor; a timeframe the feature is not emitted at never fails it.  The statistic is the
  least coverage of the timeframes that carry the feature.\<close>

theorem verdict_passes_iff:
  assumes "distinct (map tq_tf per_tf)"
  shows "(vt_passed (feature_quality_verdict per_tf coverage_floor) \<longleftrightarrow>
      (\<exists>q \<in> set per_tf. is_populated q) \<and> (\<forall>q \<in> set per_tf. is_populated q \<longrightarrow> tf_ok coverage_floor q)) \<and>
    (vt_statistic (feature_quality_verdict per_tf coverage_floor) =
      (if \<exists>q \<in> set per_tf. is_populated q
       then Some (Min {c. \<exists>q \<in> set per_tf. is_populated q \<and> tq_symbol_coverage q = Some c}) else None))"
proof (cases "filter is_populated per_tf = []")
  case True
  then have "\<not> (\<exists>q \<in> set per_tf. is_populated q)" by (simp add: filter_empty_conv)
  with True show ?thesis by (simp add: feature_quality_verdict_def Let_def)
next
  case False
  let ?p = "filter is_populated per_tf"
  have ex: "\<exists>q \<in> set per_tf. is_populated q" using False by (auto simp: filter_empty_conv)
  note codes = codes_values [OF assms, of "tf_code coverage_floor ?p"]
  have "vt_passed (feature_quality_verdict per_tf coverage_floor) \<longleftrightarrow>
      ''non_finite'' \<notin> tf_code coverage_floor ?p ` set per_tf \<and> ''coverage'' \<notin> tf_code coverage_floor ?p ` set per_tf"
    unfolding codes [symmetric] using False by (simp add: feature_quality_verdict_def Let_def del: set_map)
  then have passed: "vt_passed (feature_quality_verdict per_tf coverage_floor) \<longleftrightarrow>
      (\<forall>q \<in> set per_tf. \<not> (tf_code coverage_floor ?p q = ''non_finite'' \<or> tf_code coverage_floor ?p q = ''coverage''))"
    by (auto simp: image_iff)
  have covs: "set (concat (map (\<lambda>q. case tq_symbol_coverage q of None \<Rightarrow> [] | Some c \<Rightarrow> [c]) ?p)) =
      {c. \<exists>q \<in> set per_tf. is_populated q \<and> tq_symbol_coverage q = Some c}"
    by (auto split: option.splits)
  have "vt_statistic (feature_quality_verdict per_tf coverage_floor) =
      Some (Min (set (concat (map (\<lambda>q. case tq_symbol_coverage q of None \<Rightarrow> [] | Some c \<Rightarrow> [c]) ?p))))"
    using False by (simp add: feature_quality_verdict_def Let_def)
  with ex show ?thesis
    unfolding passed covs using tf_code_fails [of coverage_floor ?p] by auto
qed

definition ex_quality :: "string \<Rightarrow> int \<Rightarrow> int \<Rightarrow> tf_quality" where
  "ex_quality tf populated bad = feature_tf_quality ''rsi'' tf
     [\<lparr>sc_symbol = ''A'', sc_n_rows = 10, sc_n_non_null = populated, sc_n_non_finite = bad\<rparr>,
      \<lparr>sc_symbol = ''B'', sc_n_rows = 10, sc_n_non_null = 10 * populated, sc_n_non_finite = 0\<rparr>]"

lemma verdict_passes_iff_witness:
  "vt_passed (feature_quality_verdict [ex_quality ''1d'' 9 0, ex_quality ''1h'' 0 0] (95 / 100)) = True \<and>
   vt_passed (feature_quality_verdict [ex_quality ''1d'' 9 1, ex_quality ''1h'' 0 0] (95 / 100)) = False"
  using verdict_passes_iff [of "[ex_quality ''1d'' 9 0, ex_quality ''1h'' 0 0]" "95 / 100"]
    verdict_passes_iff [of "[ex_quality ''1d'' 9 1, ex_quality ''1h'' 0 0]" "95 / 100"]
  by (simp add: ex_quality_def feature_tf_quality_def is_populated_def tf_ok_def)

end
