(* ===== verification/Concept_Registry.thy ===== *)
theory Concept_Registry
  imports Transition
begin

text \<open>
  The concept registry's writer, \<open>src/intelligence/concept_registry_service.py\<close>: ideas are logged as
  candidates, and a status moves only through \<open>record_transition\<close>, a compare-and-set on the row with
  a log entry in the same transaction.

  The three tables are \<open>rg_rows\<close> (concept_registry), \<open>rg_gates\<close> (concept_gate: the FDR requirement of
  the concepts that have a gate) and \<open>rg_log\<close> (concept_transition_log).  A statement of the service is
  a function on them; the id of a new row and the log's timestamp, which the database supplies, are
  arguments.  Rows are unique in their id and in (domain, name), as the table's keys have it.
\<close>

definition AUTOMATED_REASONS :: "string list" where
  "AUTOMATED_REASONS = [''promotion'', ''demotion_performance'', ''data_quality_fail'', ''data_quality_restored'']"

definition VALID_TRANSITION_REASONS :: "string list" where
  "VALID_TRANSITION_REASONS =
     [''promotion'', ''demotion_performance'', ''demotion_decay'', ''demotion_redundancy'',
      ''operator_override'', ''parent_cascade'', ''candidate_timeout'', ''implementation_change'',
      ''genesis_seed'', ''data_quality_fail'', ''data_quality_restored'']"

definition TYPED_DOMAINS :: "string list" where
  "TYPED_DOMAINS =
     [''feature'', ''family'', ''member'', ''combiner'', ''construction_rule'', ''book'', ''method'']"

definition IDEA_DOMAINS :: "string list" where
  "IDEA_DOMAINS = filter (\<lambda>d. d \<noteq> ''feature'') TYPED_DOMAINS"

datatype transition_result = APPLIED | LOCK_MISS | FDR_BLOCKED

datatype meta = MText string | MList "string list" | MStamp stamp

record concept =
  cn_id :: int
  cn_domain :: string
  cn_name :: string
  cn_description :: string
  cn_status :: string
  cn_enabled :: bool
  cn_metadata :: "(string \<times> meta) list"

record log_row =
  lg_concept :: int
  lg_domain :: string
  lg_name :: string
  lg_from :: string
  lg_to :: string
  lg_reason :: string
  lg_corpus_build_ref :: "string option"
  lg_gate_metric :: "real option"
  lg_gate_n :: "real option"
  lg_ci_lower :: "real option"
  lg_notes :: "string option"
  lg_triggered_at :: stamp

record registry =
  rg_rows :: "concept list"
  rg_gates :: "int \<rightharpoonup> bool"
  rg_log :: "log_row list"

record request =
  rq_domain :: string
  rq_name :: string
  rq_from :: string
  rq_to :: string
  rq_reason :: string
  rq_gate_metric :: "real option"
  rq_gate_n :: "real option"
  rq_ci_lower :: "real option"
  rq_corpus_build_ref :: "string option"
  rq_fdr_passed :: "bool option"
  rq_notes :: "string option"

text \<open>\<open>not s.strip()\<close>: every character is whitespace (of the Latin-1 range).\<close>

definition py_space :: "char \<Rightarrow> bool" where
  "py_space c = ((of_char c :: int) \<in> {9, 10, 11, 12, 13, 28, 29, 30, 31, 32, 133, 160})"

definition blank :: "string \<Rightarrow> bool" where
  "blank s = list_all py_space s"

definition idea_metadata :: "(string \<times> meta) list \<Rightarrow> string \<Rightarrow> string list \<Rightarrow> string \<Rightarrow> stamp \<Rightarrow> (string \<times> meta) list" where
  "idea_metadata extra description srcs author now =
     dict_of (extra @ [(''description'', MText description), (''sources'', MList srcs),
       (''author'', MText author), (''logged_at'', MStamp now)])"

definition find_concept :: "concept list \<Rightarrow> string \<Rightarrow> string \<Rightarrow> concept option" where
  "find_concept rows domain name = find (\<lambda>c. cn_domain c = domain \<and> cn_name c = name) rows"

definition register_idea ::
  "registry \<Rightarrow> string \<Rightarrow> string \<Rightarrow> string \<Rightarrow> string list \<Rightarrow> string \<Rightarrow> (string \<times> meta) list \<Rightarrow> stamp \<Rightarrow> int
   \<Rightarrow> registry \<times> (err + int)" where
  "register_idea rg domain name description srcs author extra now new_id =
     (if domain \<notin> set IDEA_DOMAINS then (rg, Inl ValueError)
      else if blank name \<or> blank description then (rg, Inl ValueError)
      else case find_concept (rg_rows rg) domain name of
             Some _ \<Rightarrow> (rg, Inl ConceptExistsError)
           | None \<Rightarrow>
               (rg\<lparr>rg_rows := rg_rows rg @ [\<lparr>cn_id = new_id, cn_domain = domain, cn_name = name,
                    cn_description = description, cn_status = ''candidate'', cn_enabled = False,
                    cn_metadata = idea_metadata extra description srcs author now\<rparr>]\<rparr>, Inr new_id))"

text \<open>\<open>_LOAD_TRANSITION_TARGET_SQL\<close>: the concept's id with its gate's requirement.\<close>

definition load_target :: "registry \<Rightarrow> string \<Rightarrow> string \<Rightarrow> (int \<times> bool) option" where
  "load_target rg domain name =
     (case find_concept (rg_rows rg) domain name of
        None \<Rightarrow> None
      | Some c \<Rightarrow> map_option (\<lambda>fdr_required. (cn_id c, fdr_required)) (rg_gates rg (cn_id c)))"

text \<open>\<open>_CAS_TRANSITION_SQL\<close>: the rows after the update, and how many it matched.\<close>

definition cas_hits :: "int \<Rightarrow> string \<Rightarrow> string \<Rightarrow> concept \<Rightarrow> bool" where
  "cas_hits cid domain from_status c \<longleftrightarrow> cn_id c = cid \<and> cn_domain c = domain \<and> cn_status c = from_status"

definition cas_transition :: "concept list \<Rightarrow> string \<Rightarrow> int \<Rightarrow> string \<Rightarrow> string \<Rightarrow> concept list \<times> nat" where
  "cas_transition rows to_status cid domain from_status =
     (map (\<lambda>c. if cas_hits cid domain from_status c
               then c\<lparr>cn_status := to_status, cn_enabled := (to_status = ''active'')\<rparr> else c) rows,
      length (filter (cas_hits cid domain from_status) rows))"

definition log_of :: "request \<Rightarrow> int \<Rightarrow> stamp \<Rightarrow> log_row" where
  "log_of rq cid now =
     \<lparr>lg_concept = cid, lg_domain = rq_domain rq, lg_name = rq_name rq, lg_from = rq_from rq,
      lg_to = rq_to rq, lg_reason = rq_reason rq, lg_corpus_build_ref = rq_corpus_build_ref rq,
      lg_gate_metric = rq_gate_metric rq, lg_gate_n = rq_gate_n rq, lg_ci_lower = rq_ci_lower rq,
      lg_notes = rq_notes rq, lg_triggered_at = now\<rparr>"

definition fdr_blocked :: "request \<Rightarrow> bool \<Rightarrow> bool" where
  "fdr_blocked rq fdr_required \<longleftrightarrow>
     rq_to rq = ''active'' \<and> \<not> (rq_reason rq = ''data_quality_restored'' \<and> rq_domain rq = ''feature'') \<and>
     fdr_required \<and> rq_fdr_passed rq \<noteq> Some True"

definition record_transition :: "registry \<Rightarrow> request \<Rightarrow> stamp \<Rightarrow> registry \<times> (err + transition_result)" where
  "record_transition rg rq now =
     (if rq_to rq = ''deprecated'' \<and> rq_reason rq \<in> set AUTOMATED_REASONS then (rg, Inl ValueError)
      else if rq_reason rq \<notin> set VALID_TRANSITION_REASONS then (rg, Inl ValueError)
      else case load_target rg (rq_domain rq) (rq_name rq) of
             None \<Rightarrow> (rg, Inl ConceptNotFoundError)
           | Some (cid, fdr_required) \<Rightarrow>
               if fdr_blocked rq fdr_required then (rg, Inr FDR_BLOCKED)
               else
                 let (rows, updated) = cas_transition (rg_rows rg) (rq_to rq) cid (rq_domain rq) (rq_from rq)
                 in if updated = 0 then (rg, Inr LOCK_MISS)
                    else (rg\<lparr>rg_rows := rows, rg_log := rg_log rg @ [log_of rq cid now]\<rparr>, Inr APPLIED))"

section \<open>The machine\<close>

datatype reg_event =
    Idea string string string "string list" string "(string \<times> meta) list" stamp int
  | Move request stamp

inductive reg_step :: "registry \<Rightarrow> reg_event \<Rightarrow> registry \<Rightarrow> bool" where
  idea: "new_id \<notin> cn_id ` set (rg_rows rg) \<Longrightarrow>
     reg_step rg (Idea domain name description srcs author extra now new_id)
       (fst (register_idea rg domain name description srcs author extra now new_id))"
| moved: "reg_step rg (Move rq now) (fst (record_transition rg rq now))"

inductive_simps reg_step_move: "reg_step rg (Move rq now) rg'"

definition keys_ok :: "concept list \<Rightarrow> bool" where
  "keys_ok rows \<longleftrightarrow> distinct (map cn_id rows) \<and> distinct (map (\<lambda>c. (cn_domain c, cn_name c)) rows)"

definition enabled_ok :: "concept \<Rightarrow> bool" where
  "enabled_ok c \<longleftrightarrow> cn_enabled c = (cn_status c = ''active'')"

definition reg_init :: "registry \<Rightarrow> bool" where
  "reg_init rg \<longleftrightarrow> rg_log rg = [] \<and> keys_ok (rg_rows rg) \<and> (\<forall>c \<in> set (rg_rows rg). enabled_ok c)"

definition history :: "log_row list \<Rightarrow> int \<Rightarrow> log_row list" where
  "history lgs cid = filter (\<lambda>l. lg_concept l = cid) lgs"

fun chained :: "log_row list \<Rightarrow> bool" where
  "chained (l # m # ls) = (lg_to l = lg_from m \<and> chained (m # ls))"
| "chained _ = True"

definition history_ok :: "log_row list \<Rightarrow> concept \<Rightarrow> bool" where
  "history_ok lgs c \<longleftrightarrow> chained (history lgs (cn_id c)) \<and>
     (history lgs (cn_id c) \<noteq> [] \<longrightarrow> lg_to (last (history lgs (cn_id c))) = cn_status c)"

definition log_ok :: "concept list \<Rightarrow> log_row \<Rightarrow> bool" where
  "log_ok rows l \<longleftrightarrow> lg_concept l \<in> cn_id ` set rows \<and> lg_reason l \<in> set VALID_TRANSITION_REASONS \<and>
     (lg_to l = ''deprecated'' \<longrightarrow> lg_reason l \<notin> set AUTOMATED_REASONS)"

definition registry_ok :: "registry \<Rightarrow> bool" where
  "registry_ok rg \<longleftrightarrow> keys_ok (rg_rows rg) \<and>
     (\<forall>c \<in> set (rg_rows rg). enabled_ok c \<and> history_ok (rg_log rg) c) \<and>
     (\<forall>l \<in> set (rg_log rg). log_ok (rg_rows rg) l)"

section \<open>Transitions\<close>

lemma find_concept_Some:
  "find_concept rows domain name = Some c \<Longrightarrow> c \<in> set rows \<and> cn_domain c = domain \<and> cn_name c = name"
  unfolding find_concept_def by (auto dest: find_Some_iff2)

lemma find_concept_iff:
  assumes "keys_ok rows"
  shows "find_concept rows domain name = Some c \<longleftrightarrow> c \<in> set rows \<and> cn_domain c = domain \<and> cn_name c = name"
proof
  assume c: "c \<in> set rows \<and> cn_domain c = domain \<and> cn_name c = name"
  then obtain d where d: "find_concept rows domain name = Some d"
    unfolding find_concept_def by (metis (mono_tags, lifting) find_None_iff not_Some_eq)
  with c find_concept_Some [OF d] assms have "d = c" by (auto simp: keys_ok_def distinct_map inj_on_def)
  with d show "find_concept rows domain name = Some c" by simp
qed (rule find_concept_Some)

text \<open>The write of an applied transition, on the one row it matched.\<close>

definition moved_row :: "string \<Rightarrow> concept \<Rightarrow> concept" where
  "moved_row to_status c = c\<lparr>cn_status := to_status, cn_enabled := (to_status = ''active'')\<rparr>"

lemma moved_row_frame [simp, frame_simps]:
  "cn_id (moved_row s c) = cn_id c" "cn_domain (moved_row s c) = cn_domain c"
  "cn_name (moved_row s c) = cn_name c" "cn_status (moved_row s c) = s"
  "cn_description (moved_row s c) = cn_description c" "cn_metadata (moved_row s c) = cn_metadata c"
  "enabled_ok (moved_row s c)"
  by (simp_all add: moved_row_def enabled_ok_def)

definition target :: "registry \<Rightarrow> request \<Rightarrow> concept \<Rightarrow> bool" where
  "target rg rq c \<longleftrightarrow> c \<in> set (rg_rows rg) \<and> cn_domain c = rq_domain rq \<and> cn_name c = rq_name rq \<and>
     rg_gates rg (cn_id c) \<noteq> None"

definition permitted :: "registry \<Rightarrow> request \<Rightarrow> concept \<Rightarrow> bool" where
  "permitted rg rq c \<longleftrightarrow> \<not> (rq_to rq = ''deprecated'' \<and> rq_reason rq \<in> set AUTOMATED_REASONS) \<and>
     rq_reason rq \<in> set VALID_TRANSITION_REASONS \<and> target rg rq c \<and>
     \<not> fdr_blocked rq (the (rg_gates rg (cn_id c)))"

definition apply_move :: "registry \<Rightarrow> request \<Rightarrow> stamp \<Rightarrow> concept \<Rightarrow> registry" where
  "apply_move rg rq now c =
     rg\<lparr>rg_rows := map (\<lambda>d. if cn_id d = cn_id c then moved_row (rq_to rq) d else d) (rg_rows rg),
        rg_log := rg_log rg @ [log_of rq (cn_id c) now]\<rparr>"

lemma cas_on_target:
  assumes "keys_ok rows" "c \<in> set rows"
  shows "cas_transition rows to_status (cn_id c) (cn_domain c) from_status =
    (if cn_status c = from_status
     then (map (\<lambda>d. if cn_id d = cn_id c then moved_row to_status d else d) rows, 1) else (rows, 0))"
proof -
  have same: "d = c" if "d \<in> set rows" "cn_id d = cn_id c" for d
    using assms that by (auto simp: keys_ok_def distinct_map inj_on_def)
  have hit: "cas_hits (cn_id c) (cn_domain c) from_status d \<longleftrightarrow> d = c \<and> cn_status c = from_status"
    if "d \<in> set rows" for d
    using same [OF that] by (auto simp: cas_hits_def)
  have rows: "map (\<lambda>d. if cas_hits (cn_id c) (cn_domain c) from_status d
        then d\<lparr>cn_status := to_status, cn_enabled := (to_status = ''active'')\<rparr> else d) rows =
      map (\<lambda>d. if cn_id d = cn_id c \<and> cn_status c = from_status then moved_row to_status d else d) rows"
    using hit same by (intro map_cong refl) (auto simp: moved_row_def)
  have "filter (cas_hits (cn_id c) (cn_domain c) from_status) rows =
      filter (\<lambda>d. d = c \<and> cn_status c = from_status) rows"
    using hit by (intro filter_cong refl)
  moreover have "distinct rows" using assms(1) by (simp add: keys_ok_def distinct_map)
  then have "length (filter (\<lambda>d. d = c) rows) = 1"
    using assms(2) by (simp add: distinct_length_filter Int_absorb1 Collect_conv_if)
  ultimately show ?thesis unfolding cas_transition_def rows by (simp add: map_idI)
qed

lemma record_transition_cases:
  assumes "keys_ok (rg_rows rg)"
  shows "record_transition rg rq now =
    (if rq_to rq = ''deprecated'' \<and> rq_reason rq \<in> set AUTOMATED_REASONS \<or>
        rq_reason rq \<notin> set VALID_TRANSITION_REASONS then (rg, Inl ValueError)
     else case find (target rg rq) (rg_rows rg) of
            None \<Rightarrow> (rg, Inl ConceptNotFoundError)
          | Some c \<Rightarrow>
              if fdr_blocked rq (the (rg_gates rg (cn_id c))) then (rg, Inr FDR_BLOCKED)
              else if cn_status c = rq_from rq then (apply_move rg rq now c, Inr APPLIED)
              else (rg, Inr LOCK_MISS))"
proof (cases "find_concept (rg_rows rg) (rq_domain rq) (rq_name rq)")
  case None
  then have "find (target rg rq) (rg_rows rg) = None"
    unfolding find_concept_def find_None_iff target_def by blast
  with None show ?thesis by (simp add: record_transition_def load_target_def)
next
  case (Some c)
  note c = find_concept_Some [OF Some]
  have only: "target rg rq d \<Longrightarrow> d = c" for d
    using Some find_concept_iff [OF assms, of "rq_domain rq" "rq_name rq" d] by (simp add: target_def)
  note cas = cas_on_target [OF assms conjunct1 [OF c], of "rq_to rq" "rq_from rq"]
  show ?thesis
  proof (cases "rg_gates rg (cn_id c)")
    case None
    then have "\<not> target rg rq c" by (simp add: target_def)
    then have "\<not> target rg rq d" for d using only [of d] by blast
    then have "find (target rg rq) (rg_rows rg) = None" by (simp add: find_None_iff)
    with None Some show ?thesis by (simp add: record_transition_def load_target_def)
  next
    case gate: (Some fdr)
    then have "target rg rq c" using c by (simp add: target_def)
    then have "find (target rg rq) (rg_rows rg) \<noteq> None" using c by (auto simp: find_None_iff)
    then have "find (target rg rq) (rg_rows rg) = Some c" using only find_Some_iff2 by (metis option.exhaust)
    with gate Some c cas show ?thesis
      by (simp add: record_transition_def load_target_def apply_move_def)
  qed
qed

lemma applied_iff:
  assumes "keys_ok (rg_rows rg)"
  shows "record_transition rg rq now = (rg', Inr APPLIED) \<longleftrightarrow>
    (\<exists>c. permitted rg rq c \<and> cn_status c = rq_from rq \<and> rg' = apply_move rg rq now c)"
proof -
  have "target rg rq d \<longleftrightarrow> find (target rg rq) (rg_rows rg) = Some d" for d
  proof
    assume t: "target rg rq d"
    then have "find (target rg rq) (rg_rows rg) \<noteq> None" by (auto simp: find_None_iff target_def)
    then obtain e where e: "find (target rg rq) (rg_rows rg) = Some e" by blast
    then have "target rg rq e" by (rule conjunct2 [OF find_Some_iff2])
    with t assms have "e = d" by (auto simp: target_def keys_ok_def distinct_map inj_on_def)
    with e show "find (target rg rq) (rg_rows rg) = Some d" by simp
  qed (rule conjunct2 [OF find_Some_iff2])
  then show ?thesis unfolding record_transition_cases [OF assms] permitted_def
    by (auto split: option.split)
qed

lemma not_applied: "snd (record_transition rg rq now) \<noteq> Inr APPLIED \<Longrightarrow> fst (record_transition rg rq now) = rg"
  by (auto simp: record_transition_def Let_def split: option.splits prod.splits if_splits)

section \<open>The invariant\<close>

lemma chained_snoc: "chained (ls @ [l]) \<longleftrightarrow> chained ls \<and> (ls \<noteq> [] \<longrightarrow> lg_to (last ls) = lg_from l)"
  by (induction ls rule: chained.induct) auto

lemma history_snoc:
  "history (lgs @ [l]) cid = (if lg_concept l = cid then history lgs cid @ [l] else history lgs cid)"
  by (simp add: history_def)

lemma log_of_sel [simp]:
  "lg_concept (log_of rq cid now) = cid" "lg_from (log_of rq cid now) = rq_from rq"
  "lg_to (log_of rq cid now) = rq_to rq" "lg_reason (log_of rq cid now) = rq_reason rq"
  "lg_triggered_at (log_of rq cid now) = now"
  by (simp_all add: log_of_def)

lemma keys_moved:
  "keys_ok rows \<Longrightarrow> keys_ok (map (\<lambda>d. if cn_id d = cid then moved_row s d else d) rows)"
proof -
  assume "keys_ok rows"
  moreover have "map cn_id (map (\<lambda>d. if cn_id d = cid then moved_row s d else d) rows) = map cn_id rows"
    "map (\<lambda>c. (cn_domain c, cn_name c)) (map (\<lambda>d. if cn_id d = cid then moved_row s d else d) rows) =
     map (\<lambda>c. (cn_domain c, cn_name c)) rows"
    by simp_all
  ultimately show ?thesis unfolding keys_ok_def by metis
qed

lemma apply_move_frame [simp, frame_simps]:
  "rg_log (apply_move rg rq now c) = rg_log rg @ [log_of rq (cn_id c) now]"
  "rg_gates (apply_move rg rq now c) = rg_gates rg"
  by (simp_all add: apply_move_def)

lemma move_ids: "map cn_id (rg_rows (apply_move rg rq now c)) = map cn_id (rg_rows rg)"
  by (simp add: apply_move_def)

lemma apply_move_ok:
  assumes ok: "registry_ok rg" and p: "permitted rg rq c" and st: "cn_status c = rq_from rq"
  shows "registry_ok (apply_move rg rq now c)"
proof -
  let ?rg = "apply_move rg rq now c" and ?l = "log_of rq (cn_id c) now"
  have c: "c \<in> set (rg_rows rg)" using p by (simp add: permitted_def target_def)
  have keys: "keys_ok (rg_rows rg)" using ok by (simp add: registry_ok_def)
  have ids: "cn_id ` set (rg_rows ?rg) = cn_id ` set (rg_rows rg)"
    using arg_cong [where f = set, OF move_ids [of rg rq now c]] by simp
  have rows: "enabled_ok d \<and> history_ok (rg_log ?rg) d" if "d \<in> set (rg_rows ?rg)" for d
  proof -
    from that obtain d0 where d0: "d0 \<in> set (rg_rows rg)"
      "d = (if cn_id d0 = cn_id c then moved_row (rq_to rq) d0 else d0)"
      by (auto simp: apply_move_def)
    have old: "enabled_ok d0" "history_ok (rg_log rg) d0" using ok d0 by (auto simp: registry_ok_def)
    have "d0 = c" if "cn_id d0 = cn_id c"
      using keys c d0 that by (auto simp: keys_ok_def distinct_map inj_on_def)
    with old d0(2) st show ?thesis
      by (auto simp: history_ok_def history_snoc chained_snoc)
  qed
  have "log_ok (rg_rows ?rg) l" if "l \<in> set (rg_log ?rg)" for l
    using that ok p c by (auto simp: log_ok_def ids registry_ok_def permitted_def)
  with rows keys keys_moved [OF keys] show ?thesis by (simp add: registry_ok_def apply_move_def)
qed

lemma transition_ok: "registry_ok rg \<Longrightarrow> registry_ok (fst (record_transition rg rq now))"
proof -
  assume ok: "registry_ok rg"
  then have keys: "keys_ok (rg_rows rg)" by (simp add: registry_ok_def)
  show ?thesis
  proof (cases "snd (record_transition rg rq now) = Inr APPLIED")
    case True
    then have "record_transition rg rq now = (fst (record_transition rg rq now), Inr APPLIED)"
      by (metis prod.collapse)
    with ok apply_move_ok show ?thesis unfolding applied_iff [OF keys] by metis
  qed (use ok not_applied in simp)
qed

lemma idea_ok:
  assumes ok: "registry_ok rg" and fresh: "new_id \<notin> cn_id ` set (rg_rows rg)"
  shows "registry_ok (fst (register_idea rg domain name description srcs author extra now new_id))"
proof -
  have no_hist: "history (rg_log rg) new_id = []"
    using ok fresh by (auto simp: registry_ok_def log_ok_def history_def filter_empty_conv)
  have keys: "keys_ok (rg_rows rg)" using ok by (simp add: registry_ok_def)
  have "find_concept (rg_rows rg) domain name = None \<Longrightarrow> c \<in> set (rg_rows rg) \<Longrightarrow>
      (cn_domain c, cn_name c) \<noteq> (domain, name)" for c
    using find_concept_iff [OF keys, of domain name c] by auto
  with ok fresh no_hist show ?thesis
    by (fastforce simp: register_idea_def registry_ok_def keys_ok_def enabled_ok_def history_ok_def log_ok_def
        split: option.splits)
qed

interpretation reg: invariant reg_init reg_step registry_ok
proof unfold_locales
  show "registry_ok rg" if "reg_init rg" for rg
    using that by (simp add: reg_init_def registry_ok_def history_ok_def history_def)
  show "registry_ok rg'" if "registry_ok rg" "reg_step rg e rg'" for rg e rg'
    using that(2,1) by (cases rule: reg_step.cases) (auto intro: idea_ok transition_ok)
qed

section \<open>Compare and set\<close>

definition status_of :: "registry \<Rightarrow> string \<times> string \<Rightarrow> string option" where
  "status_of rg k = map_option cn_status (find_concept (rg_rows rg) (fst k) (snd k))"

definition move_allowed :: "registry \<Rightarrow> request \<times> stamp \<Rightarrow> bool" where
  "move_allowed rg r \<longleftrightarrow> (\<exists>c \<in> set (rg_rows rg). permitted rg (fst r) c)"

definition try_move :: "registry \<Rightarrow> request \<times> stamp \<Rightarrow> registry \<times> bool" where
  "try_move rg r = (let (rg', res) = record_transition rg (fst r) (snd r) in (rg', res = Inr APPLIED))"

lemma status_of_iff:
  "keys_ok (rg_rows rg) \<Longrightarrow>
   status_of rg k = Some s \<longleftrightarrow> (\<exists>c \<in> set (rg_rows rg). (cn_domain c, cn_name c) = k \<and> cn_status c = s)"
  by (cases k) (auto simp: status_of_def find_concept_iff)

lemma try_move_applied:
  assumes "keys_ok (rg_rows rg)" "permitted rg (fst r) c" "cn_status c = rq_from (fst r)"
  shows "try_move rg r = (apply_move rg (fst r) (snd r) c, True)"
proof -
  have "record_transition rg (fst r) (snd r) = (apply_move rg (fst r) (snd r) c, Inr APPLIED)"
    unfolding applied_iff [OF assms(1)] using assms(2,3) by blast
  then show ?thesis by (simp add: try_move_def)
qed

lemma try_move_missed:
  assumes "keys_ok (rg_rows rg)" "\<not> (\<exists>c. permitted rg (fst r) c \<and> cn_status c = rq_from (fst r))"
  shows "try_move rg r = (rg, False)"
proof -
  have "snd (record_transition rg (fst r) (snd r)) \<noteq> Inr APPLIED"
    using assms applied_iff [OF assms(1), of "fst r" "snd r"] by (metis prod.collapse)
  with not_applied [OF this] show ?thesis by (simp add: try_move_def case_prod_beta)
qed

lemma permitted_key: "permitted rg rq c \<Longrightarrow> c \<in> set (rg_rows rg) \<and> (cn_domain c, cn_name c) = (rq_domain rq, rq_name rq)"
  by (simp add: permitted_def target_def)

lemma permitted_status:
  assumes "keys_ok (rg_rows rg)"
  shows "(\<exists>c. permitted rg rq c \<and> cn_status c = s) \<longleftrightarrow>
    (\<exists>c \<in> set (rg_rows rg). permitted rg rq c) \<and> status_of rg (rq_domain rq, rq_name rq) = Some s"
proof -
  have "d = c" if "permitted rg rq c" "d \<in> set (rg_rows rg)" "(cn_domain d, cn_name d) = (rq_domain rq, rq_name rq)" for c d
    using permitted_key [OF that(1)] that(2,3) assms by (auto simp: keys_ok_def distinct_map inj_on_def)
  then show ?thesis unfolding status_of_iff [OF assms] by (metis permitted_key)
qed

lemma allowed_moved: "move_allowed (apply_move rg rq now c) r \<longleftrightarrow> move_allowed rg r"
proof -
  let ?f = "\<lambda>d. if cn_id d = cn_id c then moved_row (rq_to rq) d else d"
  have "set (rg_rows (apply_move rg rq now c)) = ?f ` set (rg_rows rg)" by (simp add: apply_move_def)
  moreover have "permitted (apply_move rg rq now c) (fst r) (?f d) \<longleftrightarrow> permitted rg (fst r) d"
    if "d \<in> set (rg_rows rg)" for d
    using that by (auto simp: permitted_def target_def apply_move_def)
  ultimately show ?thesis unfolding move_allowed_def by (simp only: bex_simps) blast
qed

lemma status_moved:
  assumes "keys_ok (rg_rows rg)" "c \<in> set (rg_rows rg)"
  shows "status_of (apply_move rg rq now c) = (status_of rg)((cn_domain c, cn_name c) \<mapsto> rq_to rq)"
proof
  fix k
  have same: "d = c" if "d \<in> set (rg_rows rg)" "cn_id d = cn_id c \<or> (cn_domain d, cn_name d) = (cn_domain c, cn_name c)" for d
    using assms that by (auto simp: keys_ok_def distinct_map inj_on_def)
  have keys: "keys_ok (rg_rows (apply_move rg rq now c))"
    using keys_moved [OF assms(1)] by (simp add: apply_move_def)
  let ?f = "\<lambda>d. if cn_id d = cn_id c then moved_row (rq_to rq) d else d"
  have "status_of (apply_move rg rq now c) k = Some s \<longleftrightarrow>
      (\<exists>d \<in> set (rg_rows rg). (cn_domain d, cn_name d) = k \<and> cn_status (?f d) = s)" for s
  proof -
    have "set (rg_rows (apply_move rg rq now c)) = ?f ` set (rg_rows rg)" by (simp add: apply_move_def)
    moreover have "cn_domain (?f d) = cn_domain d" "cn_name (?f d) = cn_name d" for d by simp_all
    ultimately show ?thesis by (simp only: status_of_iff [OF keys] bex_simps)
  qed
  moreover have "(\<exists>d \<in> set (rg_rows rg). (cn_domain d, cn_name d) = k \<and> cn_status (?f d) = s) \<longleftrightarrow>
      (if k = (cn_domain c, cn_name c) then s = rq_to rq else status_of rg k = Some s)" for s
  proof (cases "k = (cn_domain c, cn_name c)")
    case True
    then have "d \<in> set (rg_rows rg) \<and> (cn_domain d, cn_name d) = k \<longleftrightarrow> d = c" for d
      using same [of d] assms(2) by blast
    then have "d = c" if "d \<in> set (rg_rows rg)" "(cn_domain d, cn_name d) = k" for d using that by blast
    moreover have "c \<in> set (rg_rows rg)" "(cn_domain c, cn_name c) = k" using True assms(2) by simp_all
    ultimately have "(\<exists>d \<in> set (rg_rows rg). (cn_domain d, cn_name d) = k \<and> cn_status (?f d) = s) \<longleftrightarrow>
        cn_status (?f c) = s" by blast
    with True show ?thesis by auto
  next
    case False
    then have "cn_id d \<noteq> cn_id c" if "d \<in> set (rg_rows rg)" "(cn_domain d, cn_name d) = k" for d
      using same [of d] that by blast
    with False show ?thesis unfolding status_of_iff [OF assms(1)] by auto
  qed
  ultimately have "status_of (apply_move rg rq now c) k = Some s \<longleftrightarrow>
      ((status_of rg)((cn_domain c, cn_name c) \<mapsto> rq_to rq)) k = Some s" for s by auto
  then show "status_of (apply_move rg rq now c) k = ((status_of rg)((cn_domain c, cn_name c) \<mapsto> rq_to rq)) k"
    by (metis not_None_eq)
qed

interpretation reg_cas: cas_store "\<lambda>rg. keys_ok (rg_rows rg)" status_of
  "\<lambda>r. (rq_domain (fst r), rq_name (fst r))" "\<lambda>r. rq_from (fst r)" "\<lambda>r. rq_to (fst r)" move_allowed try_move
proof unfold_locales
  fix rg :: registry and r r' :: "request \<times> stamp"
  assume ok: "keys_ok (rg_rows rg)"
  note status = permitted_status [OF ok, of "fst r" "rq_from (fst r)"]
  show "keys_ok (rg_rows (fst (try_move rg r)))" "move_allowed (fst (try_move rg r)) r' = move_allowed rg r'"
  proof -
    consider c where "permitted rg (fst r) c" "cn_status c = rq_from (fst r)"
      | "\<not> (\<exists>c. permitted rg (fst r) c \<and> cn_status c = rq_from (fst r))" by blast
    then have "keys_ok (rg_rows (fst (try_move rg r))) \<and> move_allowed (fst (try_move rg r)) r' = move_allowed rg r'"
      using keys_moved [OF ok]
      by cases (simp_all add: try_move_applied try_move_missed ok allowed_moved, simp add: apply_move_def)
    then show "keys_ok (rg_rows (fst (try_move rg r)))" "move_allowed (fst (try_move rg r)) r' = move_allowed rg r'"
      by blast+
  qed
  show "snd (try_move rg r) \<and>
      status_of (fst (try_move rg r)) = (status_of rg)((rq_domain (fst r), rq_name (fst r)) \<mapsto> rq_to (fst r))"
    if "move_allowed rg r" "status_of rg (rq_domain (fst r), rq_name (fst r)) = Some (rq_from (fst r))"
  proof -
    from that status obtain c where "permitted rg (fst r) c" "cn_status c = rq_from (fst r)"
      unfolding move_allowed_def by blast
    with try_move_applied [OF ok this] status_moved [OF ok] permitted_key show ?thesis by fastforce
  qed
  show "try_move rg r = (rg, False)"
    if "\<not> (move_allowed rg r \<and> status_of rg (rq_domain (fst r), rq_name (fst r)) = Some (rq_from (fst r)))"
    using that status try_move_missed [OF ok] unfolding move_allowed_def by blast
qed

section \<open>What the registry promises\<close>


definition ex_concept :: "int \<Rightarrow> string \<Rightarrow> string \<Rightarrow> concept" where
  "ex_concept i name status = \<lparr>cn_id = i, cn_domain = ''feature'', cn_name = name, cn_description = '''',
     cn_status = status, cn_enabled = (status = ''active''), cn_metadata = []\<rparr>"

definition ex_registry :: registry where
  "ex_registry = \<lparr>rg_rows = [ex_concept 1 ''rsi'' ''active'', ex_concept 2 ''atr'' ''shadow_only''],
     rg_gates = [1 \<mapsto> True, 2 \<mapsto> True], rg_log = []\<rparr>"

definition ex_request :: "string \<Rightarrow> string \<Rightarrow> string \<Rightarrow> string \<Rightarrow> request" where
  "ex_request name from_status to_status reason = \<lparr>rq_domain = ''feature'', rq_name = name, rq_from = from_status,
     rq_to = to_status, rq_reason = reason, rq_gate_metric = None, rq_gate_n = None, rq_ci_lower = None,
     rq_corpus_build_ref = None, rq_fdr_passed = None, rq_notes = None\<rparr>"

definition ex_demotion :: request where
  "ex_demotion = ex_request ''rsi'' ''active'' ''shadow_only'' ''data_quality_fail''"

definition ex_demoted :: registry where
  "ex_demoted = fst (record_transition ex_registry ex_demotion 7)"

lemma ex_registry_keys: "keys_ok (rg_rows ex_registry)"
  by (simp add: keys_ok_def ex_registry_def ex_concept_def)

lemma ex_demoted_reachable: "reachable reg_init reg_step ex_demoted"
proof (rule reachable_step)
  show "reachable reg_init reg_step ex_registry"
    by (rule reachable_init) (simp add: reg_init_def ex_registry_keys, simp add: ex_registry_def enabled_ok_def ex_concept_def)
  show "reg_step ex_registry (Move ex_demotion 7) ex_demoted"
    unfolding ex_demoted_def by (rule moved)
qed

lemma ex_demoted_rows:
  "rg_rows ex_demoted = [ex_concept 1 ''rsi'' ''shadow_only'', ex_concept 2 ''atr'' ''shadow_only'']"
  "rg_log ex_demoted = [log_of ex_demotion 1 7]"
  by (simp_all add: ex_demoted_def ex_registry_def record_transition_def load_target_def find_concept_def
      ex_demotion_def ex_request_def ex_concept_def fdr_blocked_def cas_transition_def cas_hits_def
      AUTOMATED_REASONS_def VALID_TRANSITION_REASONS_def)


lemma permitted_iff:
  "permitted rg rq c \<longleftrightarrow> rq_reason rq \<in> set VALID_TRANSITION_REASONS \<and>
     \<not> (rq_to rq = ''deprecated'' \<and> rq_reason rq \<in> set AUTOMATED_REASONS) \<and>
     c \<in> set (rg_rows rg) \<and> cn_domain c = rq_domain rq \<and> cn_name c = rq_name rq \<and>
     (\<exists>fdr_required. rg_gates rg (cn_id c) = Some fdr_required \<and>
       (rq_to rq \<noteq> ''active'' \<or> \<not> fdr_required \<or> rq_fdr_passed rq = Some True \<or>
        rq_reason rq = ''data_quality_restored'' \<and> rq_domain rq = ''feature''))"
  by (cases "rg_gates rg (cn_id c)") (auto simp: permitted_def target_def fdr_blocked_def)

text \<open>What one transition does.  It is applied exactly when the reason is in the vocabulary, an
  automated reason does not target \<open>deprecated\<close>, the concept exists with a gate and has the expected
  status, and an activation of a concept whose gate requires FDR control comes with the attestation
  (or is a feature's data-quality restoration).  Applied, it moves that one row and adds one log entry;
  otherwise, whatever it answers, nothing changes.\<close>

theorem transition_effect:
  assumes "keys_ok (rg_rows rg)"
  shows "(snd (record_transition rg rq now) = Inr APPLIED \<longleftrightarrow>
      rq_reason rq \<in> set VALID_TRANSITION_REASONS \<and>
      \<not> (rq_to rq = ''deprecated'' \<and> rq_reason rq \<in> set AUTOMATED_REASONS) \<and>
      (\<exists>c fdr_required. find_concept (rg_rows rg) (rq_domain rq) (rq_name rq) = Some c \<and>
         rg_gates rg (cn_id c) = Some fdr_required \<and> cn_status c = rq_from rq \<and>
         (rq_to rq \<noteq> ''active'' \<or> \<not> fdr_required \<or> rq_fdr_passed rq = Some True \<or>
          rq_reason rq = ''data_quality_restored'' \<and> rq_domain rq = ''feature''))) \<and>
    (if snd (record_transition rg rq now) = Inr APPLIED
     then \<exists>c. find_concept (rg_rows rg) (rq_domain rq) (rq_name rq) = Some c \<and>
       rg_rows (fst (record_transition rg rq now)) =
         map (\<lambda>d. if d = c then c\<lparr>cn_status := rq_to rq, cn_enabled := (rq_to rq = ''active'')\<rparr> else d) (rg_rows rg) \<and>
       rg_log (fst (record_transition rg rq now)) = rg_log rg @ [log_of rq (cn_id c) now]
     else fst (record_transition rg rq now) = rg)"
proof (intro conjI)
  have app: "snd (record_transition rg rq now) = Inr APPLIED \<longleftrightarrow>
      (\<exists>c. permitted rg rq c \<and> cn_status c = rq_from rq)"
    using applied_iff [OF assms, of rq now] by (metis prod.collapse snd_conv)
  show "snd (record_transition rg rq now) = Inr APPLIED \<longleftrightarrow>
      rq_reason rq \<in> set VALID_TRANSITION_REASONS \<and>
      \<not> (rq_to rq = ''deprecated'' \<and> rq_reason rq \<in> set AUTOMATED_REASONS) \<and>
      (\<exists>c fdr_required. find_concept (rg_rows rg) (rq_domain rq) (rq_name rq) = Some c \<and>
         rg_gates rg (cn_id c) = Some fdr_required \<and> cn_status c = rq_from rq \<and>
         (rq_to rq \<noteq> ''active'' \<or> \<not> fdr_required \<or> rq_fdr_passed rq = Some True \<or>
          rq_reason rq = ''data_quality_restored'' \<and> rq_domain rq = ''feature''))"
    unfolding app permitted_iff find_concept_iff [OF assms] by blast
  show "if snd (record_transition rg rq now) = Inr APPLIED
     then \<exists>c. find_concept (rg_rows rg) (rq_domain rq) (rq_name rq) = Some c \<and>
       rg_rows (fst (record_transition rg rq now)) =
         map (\<lambda>d. if d = c then c\<lparr>cn_status := rq_to rq, cn_enabled := (rq_to rq = ''active'')\<rparr> else d) (rg_rows rg) \<and>
       rg_log (fst (record_transition rg rq now)) = rg_log rg @ [log_of rq (cn_id c) now]
     else fst (record_transition rg rq now) = rg"
  proof (cases "snd (record_transition rg rq now) = Inr APPLIED")
    case True
    then obtain c where c: "permitted rg rq c" "fst (record_transition rg rq now) = apply_move rg rq now c"
      using applied_iff [OF assms, of rq now] by (metis prod.collapse)
    then have found: "find_concept (rg_rows rg) (rq_domain rq) (rq_name rq) = Some c"
      unfolding find_concept_iff [OF assms] by (simp add: permitted_def target_def)
    have "d = c" if "d \<in> set (rg_rows rg)" "cn_id d = cn_id c" for d
      using that assms find_concept_Some [OF found] by (auto simp: keys_ok_def distinct_map inj_on_def)
    then have "rg_rows (apply_move rg rq now c) =
        map (\<lambda>d. if d = c then c\<lparr>cn_status := rq_to rq, cn_enabled := (rq_to rq = ''active'')\<rparr> else d) (rg_rows rg)"
      unfolding apply_move_def by (auto simp: moved_row_def)
    with True c found show ?thesis by simp
  qed (simp add: not_applied)
qed

lemma transition_effect_witness:
  "snd (record_transition ex_registry ex_demotion 7) = Inr APPLIED"
  by (rule iffD2 [OF conjunct1 [OF transition_effect [OF ex_registry_keys]]])
    (simp add: ex_registry_def ex_demotion_def ex_request_def ex_concept_def find_concept_def
      AUTOMATED_REASONS_def VALID_TRANSITION_REASONS_def, blast)

text \<open>C25. Racing writers: once a transition out of a status has been applied, no other request that
  expects the old status of the same concept is applied, and it changes nothing.\<close>

theorem one_transition_wins:
  assumes "keys_ok (rg_rows rg)" "snd (record_transition rg rq now) = Inr APPLIED" "rq_from rq \<noteq> rq_to rq"
    "rq_domain rq' = rq_domain rq" "rq_name rq' = rq_name rq" "rq_from rq' = rq_from rq"
  shows "fst (record_transition (fst (record_transition rg rq now)) rq' now') = fst (record_transition rg rq now) \<and>
    snd (record_transition (fst (record_transition rg rq now)) rq' now') \<noteq> Inr APPLIED"
proof -
  have "try_move (fst (try_move rg (rq, now))) (rq', now') = (fst (try_move rg (rq, now)), False)"
    using assms by (intro reg_cas.one_winner) (simp_all add: try_move_def case_prod_beta)
  then show ?thesis by (simp add: try_move_def case_prod_beta)
qed

lemma one_transition_wins_witness:
  "snd (record_transition ex_demoted (ex_demotion\<lparr>rq_to := ''deprecated'', rq_reason := ''operator_override''\<rparr>) 8)
     \<noteq> Inr APPLIED"
proof -
  have "snd (record_transition ex_registry ex_demotion 7) = Inr APPLIED"
    by (simp add: ex_registry_def record_transition_def load_target_def find_concept_def
      ex_demotion_def ex_request_def ex_concept_def fdr_blocked_def cas_transition_def cas_hits_def
      AUTOMATED_REASONS_def VALID_TRANSITION_REASONS_def)
  from one_transition_wins [OF ex_registry_keys this, of "ex_demotion\<lparr>rq_to := ''deprecated'', rq_reason := ''operator_override''\<rparr>" 8]
  show ?thesis by (simp add: ex_demotion_def ex_request_def ex_demoted_def)
qed

end
