(* ===== verification/Feature_Lifecycle.thy ===== *)
theory Feature_Lifecycle
  imports Feature_Quality Concept_Registry
begin

text \<open>
  The feature lifecycle batch, \<open>services/feature_lifecycle.py\<close>: measure every governed feature over a
  window, write one ledger row per feature, derive status transitions from the ledger and apply them
  through the registry.

  The SQL statements of the file are functions on the tables: \<open>vector\<close> rows (feature_vectors),
  \<open>eval_row\<close> (concept_evaluation) and the registry.  \<open>digest\<close> is the hash of the canonical JSON of an
  evidence payload.  The clock readings are arguments.  Metrics, logs, the connection pool and the
  concurrency of the per-timeframe queries, which return in the order asked, are not modelled.
\<close>

definition FEATURE_DOMAIN :: string where "FEATURE_DOMAIN = ''feature''"
definition GOVERNED_STATUSES :: "string list" where "GOVERNED_STATUSES = [''active'', ''shadow_only'']"
definition MAX_FEATURES_PER_QUERY :: nat where "MAX_FEATURES_PER_QUERY = 800"
definition FLOAT_TYPES :: "string list" where "FLOAT_TYPES = [''real'', ''double precision'']"
definition EVIDENCE_KIND :: string where "EVIDENCE_KIND = ''data_quality''"

record lifecycle_config =
  lc_coverage_floor :: real
  lc_lookback_days :: int
  lc_demotion_min_consecutive :: int
  lc_recovery_min_passes :: int

text \<open>\<open>rule_fingerprint\<close> names the decision-rule fields, which are the four fields above; the infra knob
  \<open>max_concurrent_tfs\<close> is not among them.\<close>

type_synonym rule = "real \<times> int \<times> int \<times> int"

definition rule_fingerprint :: "lifecycle_config \<Rightarrow> rule" where
  "rule_fingerprint cf =
     (lc_coverage_floor cf, lc_lookback_days cf, lc_demotion_min_consecutive cf, lc_recovery_min_passes cf)"

section \<open>Evidence\<close>

record evidence_row =
  er_tf :: string
  er_symbols_with_rows :: int
  er_symbols_populated :: int
  er_symbol_coverage :: "real option"
  er_non_null_share :: "real option"
  er_n_rows :: int
  er_n_non_finite :: int
  er_check :: "string option"

type_synonym detail = "string list \<times> evidence_row list"

definition feature_evidence :: "tf_quality list \<Rightarrow> verdict \<Rightarrow> evidence_row list \<times> detail" where
  "feature_evidence per_tf vt =
     (let rows = map (\<lambda>q. \<lparr>er_tf = tq_tf q, er_symbols_with_rows = tq_symbols_with_rows q,
            er_symbols_populated = tq_symbols_populated q, er_symbol_coverage = tq_symbol_coverage q,
            er_non_null_share = tq_non_null_share q, er_n_rows = tq_n_rows q,
            er_n_non_finite = tq_n_non_finite q, er_check = map_of (vt_per_tf vt) (tq_tf q)\<rparr>)
          (sort_key tq_tf per_tf)
      in (rows, (vt_failures vt, rows)))"

type_synonym payload = "string \<times> rule \<times> evidence_row list"

definition evidence_key :: "(payload \<Rightarrow> string) \<Rightarrow> string \<Rightarrow> rule \<Rightarrow> evidence_row list \<Rightarrow> string" where
  "evidence_key digest status rl rows = digest (status, rl, rows)"

section \<open>Derivation\<close>

record evaluation =
  el_window_end :: stamp
  el_status :: string
  el_passed :: bool
  el_n_observations :: int
  el_at :: stamp
  el_statistic :: "real option"
  el_detail :: "detail option"

record transition =
  tr_to :: string
  tr_reason :: string
  tr_evidence :: evaluation
  tr_n_windows :: int

definition keep_latest :: "(stamp \<times> evaluation) list \<Rightarrow> evaluation \<Rightarrow> (stamp \<times> evaluation) list" where
  "keep_latest latest e =
     (case map_of latest (el_window_end e) of
        None \<Rightarrow> AList.update (el_window_end e) e latest
      | Some kept \<Rightarrow> if el_at kept < el_at e then AList.update (el_window_end e) e latest else latest)"

definition latest_per_window :: "evaluation list \<Rightarrow> evaluation list" where
  "latest_per_window evaluations =
     (let latest = foldl keep_latest [] evaluations
      in map (\<lambda>w. the (map_of latest w)) (sort (map fst latest)))"

definition trailing_run :: "evaluation list \<Rightarrow> bool \<Rightarrow> int" where
  "trailing_run windows passed = int (length (takeWhile (\<lambda>e. el_passed e = passed) (rev windows)))"

definition relevant :: "string \<Rightarrow> stamp option \<Rightarrow> evaluation \<Rightarrow> bool" where
  "relevant current_status status_since e \<longleftrightarrow>
     el_status e = current_status \<and> (case status_since of None \<Rightarrow> True | Some s \<Rightarrow> s \<le> el_at e)"

definition derive_feature_transition ::
  "string \<Rightarrow> stamp option \<Rightarrow> evaluation list \<Rightarrow> lifecycle_config \<Rightarrow> string option \<Rightarrow> transition option" where
  "derive_feature_transition current_status status_since evaluations cf last_transition_reason =
     (if current_status \<notin> set GOVERNED_STATUSES then None
      else
        let windows = latest_per_window (filter (relevant current_status status_since) evaluations)
        in if windows = [] then None
           else if current_status = ''active'' then
             let fails = trailing_run windows False
             in if lc_demotion_min_consecutive cf \<le> fails
                then Some \<lparr>tr_to = ''shadow_only'', tr_reason = ''data_quality_fail'',
                           tr_evidence = last windows, tr_n_windows = fails\<rparr>
                else None
           else if last_transition_reason \<noteq> Some ''data_quality_fail'' then None
           else
             let passes = trailing_run windows True
             in if lc_recovery_min_passes cf \<le> passes
                then Some \<lparr>tr_to = ''active'', tr_reason = ''data_quality_restored'',
                           tr_evidence = last windows, tr_n_windows = passes\<rparr>
                else None)"

section \<open>Measurement\<close>

text \<open>A cell of feature_vectors that is not NULL: a finite float, NaN or an infinity, or a value of
  another type.\<close>

datatype cell = Finite real | NonFinite | OtherValue

record vector =
  fv_symbol :: "string option"
  fv_tf :: "string option"
  fv_bar_ts :: stamp
  fv_cells :: "string \<rightharpoonup> cell"

type_synonym columns = "string \<rightharpoonup> string"

definition rows_in :: "vector list \<Rightarrow> string \<Rightarrow> stamp \<Rightarrow> stamp \<Rightarrow> vector list" where
  "rows_in vectors tf s e =
     filter (\<lambda>v. fv_tf v = Some tf \<and> s \<le> fv_bar_ts v \<and> fv_bar_ts v < e \<and> fv_symbol v \<noteq> None) vectors"

definition n_populated :: "vector list \<Rightarrow> string \<Rightarrow> int" where
  "n_populated rows col = int (length (filter (\<lambda>v. fv_cells v col \<noteq> None) rows))"

definition n_bad :: "columns \<Rightarrow> vector list \<Rightarrow> string \<Rightarrow> int" where
  "n_bad known rows col =
     (if the (known col) \<notin> set FLOAT_TYPES then 0
      else int (length (filter (\<lambda>v. fv_cells v col = Some NonFinite) rows)))"

text \<open>\<open>build_tf_query\<close> run over one timeframe: one row per symbol with its row count and, per column, the
  populated and the non-finite count.  A name that is not a column raises.\<close>

definition tf_aggregates ::
  "vector list \<Rightarrow> columns \<Rightarrow> string list \<Rightarrow> string \<Rightarrow> stamp \<Rightarrow> stamp
   \<Rightarrow> err + (string \<times> int \<times> (int \<times> int) list) list" where
  "tf_aggregates vectors known cols tf s e =
     (if \<not> list_all (\<lambda>c. known c \<noteq> None) cols then Inl ValueError
      else Inr (map (\<lambda>(symbol, rows). (symbol, int (length rows),
                   map (\<lambda>c. (n_populated rows c, n_bad known rows c)) cols))
                 (group_by (\<lambda>v. the (fv_symbol v)) (rows_in vectors tf s e))))"

type_synonym count_dict = "(string \<times> symbol_counts list) list"

definition add_row :: "string list \<Rightarrow> count_dict \<Rightarrow> string \<times> int \<times> (int \<times> int) list \<Rightarrow> count_dict" where
  "add_row chunk counts row =
     (case row of (symbol, n_rows, pairs) \<Rightarrow>
        foldl (\<lambda>d (name, c, x). push name \<lparr>sc_symbol = symbol, sc_n_rows = n_rows, sc_n_non_null = c,
                                       sc_n_non_finite = x\<rparr> d) counts (zip chunk pairs))"

fun measure_chunks ::
  "vector list \<Rightarrow> columns \<Rightarrow> string \<Rightarrow> stamp \<Rightarrow> stamp \<Rightarrow> string list list \<Rightarrow> count_dict \<Rightarrow> err + count_dict" where
  "measure_chunks vectors known tf s e [] counts = Inr counts"
| "measure_chunks vectors known tf s e (chunk # rest) counts =
     ebind (tf_aggregates vectors known chunk tf s e) (\<lambda>rows.
       measure_chunks vectors known tf s e rest (foldl (add_row chunk) counts rows))"

definition counts_of :: "count_dict \<Rightarrow> string \<Rightarrow> symbol_counts list" where
  "counts_of counts name = (case map_of counts name of None \<Rightarrow> [] | Some cs \<Rightarrow> cs)"

definition measure_tf ::
  "vector list \<Rightarrow> columns \<Rightarrow> string list \<Rightarrow> string \<Rightarrow> stamp \<Rightarrow> stamp \<Rightarrow> err + (string \<times> tf_quality) list" where
  "measure_tf vectors known computable tf s e =
     ebind (measure_chunks vectors known tf s e (chunks MAX_FEATURES_PER_QUERY computable) []) (\<lambda>counts.
       Inr (map (\<lambda>name. (name, feature_tf_quality name tf (counts_of counts name))) computable))"

section \<open>The ledger\<close>

record eval_row =
  ev_concept :: int
  ev_domain :: string
  ev_window_end :: stamp
  ev_key :: string
  ev_status :: string
  ev_passed :: bool
  ev_statistic :: "real option"
  ev_n_cells :: int
  ev_n_observations :: int
  ev_kind :: string
  ev_detail :: "detail option"
  ev_at :: stamp
  ev_run_ref :: string

definition same_evidence :: "eval_row \<Rightarrow> eval_row \<Rightarrow> bool" where
  "same_evidence r s \<longleftrightarrow> ev_concept r = ev_concept s \<and> ev_window_end r = ev_window_end s \<and> ev_key r = ev_key s"

definition upsert_evaluation :: "eval_row list \<Rightarrow> eval_row \<Rightarrow> eval_row list" where
  "upsert_evaluation table r =
     (if list_ex (same_evidence r) table
      then map (\<lambda>s. if same_evidence r s then s\<lparr>ev_at := ev_at r, ev_run_ref := ev_run_ref r\<rparr> else s) table
      else table @ [r])"

definition evaluation_from_row :: "eval_row \<Rightarrow> evaluation" where
  "evaluation_from_row r = \<lparr>el_window_end = ev_window_end r, el_status = ev_status r, el_passed = ev_passed r,
     el_n_observations = ev_n_observations r, el_at = ev_at r, el_statistic = ev_statistic r, el_detail = None\<rparr>"

definition load_concept_history :: "eval_row list \<Rightarrow> int \<Rightarrow> evaluation list" where
  "load_concept_history table cid =
     map evaluation_from_row
       (filter (\<lambda>r. ev_domain r = FEATURE_DOMAIN \<and> ev_concept r = cid \<and> ev_kind r = EVIDENCE_KIND) table)"

text \<open>\<open>_LOAD_EVALUATIONS_SQL\<close>: the relevant evaluations, the latest of each window, the newest \<open>limit\<close>
  windows.\<close>

definition newest_windows :: "nat \<Rightarrow> string \<Rightarrow> stamp option \<Rightarrow> evaluation list \<Rightarrow> evaluation list" where
  "newest_windows limit status since evaluations =
     take limit (rev (latest_per_window (filter (relevant status since) evaluations)))"

record concept_info =
  ci_id :: int
  ci_name :: string
  ci_status :: string
  ci_since :: "stamp option"
  ci_last_reason :: "string option"

definition window_limit :: "lifecycle_config \<Rightarrow> nat" where
  "window_limit cf = nat (max (lc_demotion_min_consecutive cf) (lc_recovery_min_passes cf))"

definition load_evaluations :: "eval_row list \<Rightarrow> concept_info \<Rightarrow> lifecycle_config \<Rightarrow> evaluation list" where
  "load_evaluations table c cf =
     newest_windows (window_limit cf) (ci_status c) (ci_since c) (load_concept_history table (ci_id c))"

text \<open>\<open>_CONCEPTS_SQL\<close>: the feature concepts that have a gate, with when they entered their status and the
  reason of their latest log entry.\<close>

definition status_since :: "log_row list \<Rightarrow> concept \<Rightarrow> stamp option" where
  "status_since lgs c =
     (let ts = map lg_triggered_at (filter (\<lambda>l. lg_to l = cn_status c) (history lgs (cn_id c)))
      in if ts = [] then None else Some (Max (set ts)))"

definition last_reason :: "log_row list \<Rightarrow> concept \<Rightarrow> string option" where
  "last_reason lgs c =
     (let h = sort_key lg_triggered_at (history lgs (cn_id c))
      in if h = [] then None else Some (lg_reason (last h)))"

definition load_concepts :: "registry \<Rightarrow> concept_info list" where
  "load_concepts rg =
     map (\<lambda>c. \<lparr>ci_id = cn_id c, ci_name = cn_name c, ci_status = cn_status c,
               ci_since = status_since (rg_log rg) c, ci_last_reason = last_reason (rg_log rg) c\<rparr>)
       (filter (\<lambda>c. cn_domain c = FEATURE_DOMAIN \<and> rg_gates rg (cn_id c) \<noteq> None) (rg_rows rg))"

section \<open>The plan\<close>

record ledger_row =
  lr_concept :: int
  lr_name :: string
  lr_key :: string
  lr_evaluation :: evaluation
  lr_n_cells :: int
  lr_per_tf :: "tf_quality list"
  lr_verdict :: verdict

record planned =
  pt_name :: string
  pt_from :: string
  pt_transition :: transition

record plan =
  wp_n_tfs :: nat
  wp_rows :: "ledger_row list"
  wp_transitions :: "planned list"

definition governed :: "concept_info list \<Rightarrow> concept_info list" where
  "governed concepts = sort_key ci_name (filter (\<lambda>c. ci_status c \<in> set GOVERNED_STATUSES) concepts)"

definition plan_row ::
  "(payload \<Rightarrow> string) \<Rightarrow> lifecycle_config \<Rightarrow> stamp \<Rightarrow> stamp \<Rightarrow> concept_info \<Rightarrow> tf_quality list \<Rightarrow> ledger_row" where
  "plan_row digest cf window now c per_tf =
     (let vt = feature_quality_verdict per_tf (lc_coverage_floor cf);
          (rows, det) = feature_evidence per_tf vt
      in \<lparr>lr_concept = ci_id c, lr_name = ci_name c,
          lr_key = evidence_key digest (ci_status c) (rule_fingerprint cf) rows,
          lr_evaluation = \<lparr>el_window_end = window, el_status = ci_status c, el_passed = vt_passed vt,
             el_n_observations = sum_list (map tq_n_rows per_tf), el_at = now,
             el_statistic = vt_statistic vt, el_detail = Some det\<rparr>,
          lr_n_cells = int (length per_tf), lr_per_tf = per_tf, lr_verdict = vt\<rparr>)"

definition per_feature :: "(string \<times> tf_quality) list list \<Rightarrow> string list \<Rightarrow> string \<Rightarrow> tf_quality list" where
  "per_feature qualities computable name =
     (if name \<in> set computable then map (\<lambda>q. the (map_of q name)) qualities else [])"

definition rows_of :: "ledger_row list \<Rightarrow> int \<Rightarrow> evaluation list" where
  "rows_of rows cid = map lr_evaluation (filter (\<lambda>r. lr_concept r = cid) rows)"

text \<open>One concept of \<open>_transitions\<close>: derive over the newest windows, and again over the whole history when
  the streak may reach past them.\<close>

definition windowed_transition ::
  "evaluation list \<Rightarrow> evaluation list \<Rightarrow> concept_info \<Rightarrow> evaluation list \<Rightarrow> lifecycle_config \<Rightarrow> transition option" where
  "windowed_transition loaded whole c rows cf =
     (let first = derive_feature_transition (ci_status c) (ci_since c) (loaded @ rows) cf (ci_last_reason c)
      in case first of
           None \<Rightarrow> None
         | Some t \<Rightarrow>
             if max (lc_demotion_min_consecutive cf) (lc_recovery_min_passes cf) \<le> tr_n_windows t
             then derive_feature_transition (ci_status c) (ci_since c) (whole @ rows) cf (ci_last_reason c)
             else first)"

definition plan_transitions ::
  "eval_row list \<Rightarrow> lifecycle_config \<Rightarrow> ledger_row list \<Rightarrow> concept_info list \<Rightarrow> planned list" where
  "plan_transitions table cf rows chosen =
     concat (map (\<lambda>c. case windowed_transition (load_evaluations table c cf) (load_concept_history table (ci_id c))
                             c (rows_of rows (ci_id c)) cf of
                        None \<Rightarrow> []
                      | Some t \<Rightarrow> [\<lparr>pt_name = ci_name c, pt_from = ci_status c, pt_transition = t\<rparr>]) chosen)"

definition tfs_of :: "vector list \<Rightarrow> stamp \<Rightarrow> stamp \<Rightarrow> string list" where
  "tfs_of vectors s e =
     sorted_set (map (\<lambda>v. the (fv_tf v)) (filter (\<lambda>v. s \<le> fv_bar_ts v \<and> fv_bar_ts v < e \<and> fv_tf v \<noteq> None) vectors))"

definition plan_window ::
  "(payload \<Rightarrow> string) \<Rightarrow> registry \<Rightarrow> eval_row list \<Rightarrow> vector list \<Rightarrow> columns \<Rightarrow> lifecycle_config \<Rightarrow> stamp \<Rightarrow> stamp
   \<Rightarrow> err + plan option" where
  "plan_window digest rg table vectors known cf window now =
     (let start = window - lc_lookback_days cf * one_day;
          tfs = tfs_of vectors start window
      in if tfs = [] then Inr None
         else
           let chosen = governed (load_concepts rg);
               computable = filter (\<lambda>n. known n \<noteq> None) (map ci_name chosen)
           in ebind (emap (\<lambda>tf. measure_tf vectors known computable tf start window) tfs) (\<lambda>qualities.
                let rows = map (\<lambda>c. plan_row digest cf window now c
                                       (per_feature qualities computable (ci_name c))) chosen
                in Inr (Some \<lparr>wp_n_tfs = length tfs, wp_rows = rows,
                              wp_transitions = plan_transitions table cf rows chosen\<rparr>)))"

section \<open>Applying a plan\<close>

definition failing_tfs :: "ledger_row \<Rightarrow> (string option \<times> real option \<times> string) list" where
  "failing_tfs r =
     (if ''not_computed'' \<in> set (vt_failures (lr_verdict r)) then [(None, Some 0, ''not_computed'')]
      else map (\<lambda>q. (Some (tq_tf q), tq_symbol_coverage q, the (map_of (vt_per_tf (lr_verdict r)) (tq_tf q))))
             (filter (\<lambda>q. map_of (vt_per_tf (lr_verdict r)) (tq_tf q) \<in> {Some ''coverage'', Some ''non_finite''})
               (lr_per_tf r)))"

definition plan_failures :: "plan \<Rightarrow> (ledger_row \<times> (string option \<times> real option \<times> string) list) list" where
  "plan_failures p = map (\<lambda>r. (r, failing_tfs r)) (filter (\<lambda>r. \<not> vt_passed (lr_verdict r)) (wp_rows p))"

definition quality_fact ::
  "ledger_row \<Rightarrow> string option \<Rightarrow> real option \<Rightarrow> string \<Rightarrow> real \<Rightarrow> string \<times> real option \<times> real" where
  "quality_fact r tf coverage check coverage_floor =
     (if check = ''non_finite'' then
        (''n_non_finite'',
         Some (of_int (sum_list (map tq_n_non_finite (filter (\<lambda>q. Some (tq_tf q) = tf) (lr_per_tf r))))), 0)
      else (''symbol_coverage'', coverage, coverage_floor))"

record fact =
  ft_subject :: "string option"
  ft_metric :: string
  ft_value :: "real option"
  ft_threshold :: real
  ft_passed :: bool
  ft_window :: stamp

definition fact_subject :: "string \<Rightarrow> string option \<Rightarrow> string" where
  "fact_subject name tf = (case tf of None \<Rightarrow> name | Some t \<Rightarrow> name @ ''|tf='' @ t)"

definition plan_facts :: "plan \<Rightarrow> lifecycle_config \<Rightarrow> stamp \<Rightarrow> fact list" where
  "plan_facts p cf window =
     concat (map (\<lambda>(r, failing). map (\<lambda>(tf, coverage, check).
         let (metric, value, threshold) = quality_fact r tf coverage check (lc_coverage_floor cf)
         in \<lparr>ft_subject = Some (fact_subject (lr_name r) tf), ft_metric = metric, ft_value = value,
             ft_threshold = threshold, ft_passed = False, ft_window = window\<rparr>) failing) (plan_failures p))
     @ [\<lparr>ft_subject = None, ft_metric = ''n_features_failed'',
         ft_value = Some (real (length (plan_failures p))), ft_threshold = 0,
         ft_passed = (plan_failures p = []), ft_window = window\<rparr>]"

text \<open>The text renderings the run writes: the hash of an evidence payload, a timestamp, and the note of a
  transition.\<close>

record texts =
  tx_digest :: "payload \<Rightarrow> string"
  tx_iso :: "stamp \<Rightarrow> string"
  tx_note :: "int \<Rightarrow> string"

definition eval_row_of :: "string \<Rightarrow> ledger_row \<Rightarrow> eval_row" where
  "eval_row_of run_ref r =
     (let e = lr_evaluation r
      in \<lparr>ev_concept = lr_concept r, ev_domain = FEATURE_DOMAIN, ev_window_end = el_window_end e,
          ev_key = lr_key r, ev_status = el_status e, ev_passed = el_passed e, ev_statistic = el_statistic e,
          ev_n_cells = lr_n_cells r, ev_n_observations = el_n_observations e, ev_kind = EVIDENCE_KIND,
          ev_detail = el_detail e, ev_at = el_at e, ev_run_ref = run_ref\<rparr>)"

definition request_of :: "texts \<Rightarrow> planned \<Rightarrow> request" where
  "request_of tx p =
     (let t = pt_transition p
      in \<lparr>rq_domain = FEATURE_DOMAIN, rq_name = pt_name p, rq_from = pt_from p, rq_to = tr_to t,
          rq_reason = tr_reason t, rq_gate_metric = el_statistic (tr_evidence t),
          rq_gate_n = Some (of_int (el_n_observations (tr_evidence t))), rq_ci_lower = None,
          rq_corpus_build_ref = Some (tx_iso tx (el_window_end (tr_evidence t))), rq_fdr_passed = None,
          rq_notes = Some (tx_note tx (tr_n_windows t))\<rparr>)"

fun apply_transitions :: "registry \<Rightarrow> (request \<times> stamp) list \<Rightarrow> registry \<times> (err + int)" where
  "apply_transitions rg [] = (rg, Inr 0)"
| "apply_transitions rg ((rq, now) # rest) =
     (case record_transition rg rq now of
        (rg', Inl e) \<Rightarrow> (rg', Inl e)
      | (rg', Inr res) \<Rightarrow>
          let (rg'', n) = apply_transitions rg' rest
          in (rg'', ebind n (\<lambda>k. Inr (k + (if res = APPLIED then 1 else 0)))))"

record lifecycle_state =
  ls_registry :: registry
  ls_ledger :: "eval_row list"
  ls_facts :: "fact list"

definition apply_plan ::
  "texts \<Rightarrow> lifecycle_state \<Rightarrow> plan \<Rightarrow> lifecycle_config \<Rightarrow> stamp \<Rightarrow> stamp \<Rightarrow> (nat \<Rightarrow> stamp)
   \<Rightarrow> lifecycle_state \<times> (err + int)" where
  "apply_plan tx st p cf window now clock =
     (let run_ref = ''feature_lifecycle:'' @ tx_iso tx now;
          ledger = foldl upsert_evaluation (ls_ledger st) (map (eval_row_of run_ref) (wp_rows p));
          ts = map (request_of tx) (wp_transitions p);
          (rg, n) = apply_transitions (ls_registry st) (zip ts (map clock [0..<length ts]))
      in (\<lparr>ls_registry = rg, ls_ledger = ledger, ls_facts = ls_facts st @ plan_facts p cf window\<rparr>, n))"

definition execute ::
  "texts \<Rightarrow> lifecycle_state \<Rightarrow> vector list \<Rightarrow> columns \<Rightarrow> lifecycle_config \<Rightarrow> stamp \<Rightarrow> bool \<Rightarrow> stamp \<Rightarrow> stamp \<Rightarrow> (nat \<Rightarrow> stamp)
   \<Rightarrow> lifecycle_state \<times> (err + (plan \<times> int) option)" where
  "execute tx st vectors known cf window dry_run now now' clock =
     (case plan_window (tx_digest tx) (ls_registry st) (ls_ledger st) vectors known cf window now of
        Inl e \<Rightarrow> (st, Inl e)
      | Inr None \<Rightarrow> (st, Inr None)
      | Inr (Some p) \<Rightarrow>
          if dry_run then (st, Inr (Some (p, int (length (wp_transitions p)))))
          else let (st', n) = apply_plan tx st p cf window now' clock
               in (st', ebind n (\<lambda>k. Inr (Some (p, k)))))"

end
