(* ===== verification/Lifecycle_Correct.thy ===== *)
theory Lifecycle_Correct
  imports Feature_Lifecycle
begin

text \<open>
  What the feature lifecycle promises: the measurement is independent of the query chunking, the
  windowed ledger read decides as the whole ledger would, and a run moves only what it may.
\<close>

section \<open>The latest evaluation of each window\<close>

definition newer :: "evaluation option \<Rightarrow> evaluation \<Rightarrow> evaluation option" where
  "newer acc e = (case acc of None \<Rightarrow> Some e | Some k \<Rightarrow> if el_at k < el_at e then Some e else Some k)"

definition newest :: "evaluation list \<Rightarrow> stamp \<Rightarrow> evaluation option" where
  "newest es w = foldl newer None (filter (\<lambda>e. el_window_end e = w) es)"

lemma keep_latest_lookup:
  "map_of (keep_latest d e) w = (if el_window_end e = w then newer (map_of d w) e else map_of d w)"
  by (auto simp: keep_latest_def newer_def update_conv' split: option.splits)

lemma keep_latest_keys: "fst ` set (keep_latest d e) = insert (el_window_end e) (fst ` set d)"
  by (auto simp: keep_latest_def dom_update split: option.splits dest: map_of_SomeD)
    (force dest: map_of_SomeD)+

lemma keep_latest_distinct: "distinct (map fst d) \<Longrightarrow> distinct (map fst (keep_latest d e))"
  by (auto simp: keep_latest_def distinct_update split: option.splits)

lemma latest_loop:
  assumes "distinct (map fst d)"
  shows "map_of (foldl keep_latest d es) w =
      foldl newer (map_of d w) (filter (\<lambda>e. el_window_end e = w) es) \<and>
    set (map fst (foldl keep_latest d es)) = set (map fst d) \<union> el_window_end ` set es \<and>
    distinct (map fst (foldl keep_latest d es))"
  using assms
proof (induction es arbitrary: d)
  case (Cons e es)
  from Cons.IH [OF keep_latest_distinct [OF Cons.prems, of e]] show ?case
    by (auto simp: keep_latest_lookup keep_latest_keys)
qed simp

lemma latest_per_window_eq:
  "latest_per_window es = map (\<lambda>w. the (newest es w)) (sorted_set (map el_window_end es))"
proof -
  note loop = latest_loop [of "[]", simplified]
  have "sort (map fst (foldl keep_latest [] es)) = sorted_set (map el_window_end es)"
    using loop by (intro sorted_distinct_set_unique) auto
  then show ?thesis by (simp add: latest_per_window_def Let_def loop newest_def)
qed

lemma newest_snoc: "newest (es @ [e]) w = (if el_window_end e = w then newer (newest es w) e else newest es w)"
  by (simp add: newest_def)

lemma newest_exists: "e \<in> set es \<Longrightarrow> el_window_end e = w \<Longrightarrow> newest es w \<noteq> None"
proof (induction es rule: rev_induct)
  case (snoc x xs)
  then show ?case by (auto simp: newest_snoc newer_def split: option.splits)
qed simp

lemma newest_Some:
  "newest es w = Some e \<Longrightarrow> e \<in> set es \<and> el_window_end e = w \<and> (\<forall>e' \<in> set es. el_window_end e' = w \<longrightarrow> el_at e' \<le> el_at e)"
proof (induction es arbitrary: e rule: rev_induct)
  case (snoc x xs)
  show ?case
  proof (cases "newest xs w")
    case None
    then have "\<not> (\<exists>e \<in> set xs. el_window_end e = w)" using newest_exists by blast
    with snoc.prems None show ?thesis by (auto simp: newest_snoc newer_def split: if_splits)
  next
    case (Some k)
    with snoc.IH [OF Some] snoc.prems show ?thesis
      by (auto simp: newest_snoc newer_def split: if_splits)
  qed
qed (simp add: newest_def)

lemma latest_windows: "map el_window_end (latest_per_window es) = sorted_set (map el_window_end es)"
proof -
  have "el_window_end (the (newest es w)) = w" if "w \<in> set (sorted_set (map el_window_end es))" for w
    using that newest_exists newest_Some by fastforce
  then show ?thesis unfolding latest_per_window_eq by (auto intro!: map_idI)
qed

text \<open>Inserting one newest evaluation into the windows, newest window first.\<close>

fun ins :: "evaluation \<Rightarrow> evaluation list \<Rightarrow> evaluation list" where
  "ins r [] = [r]"
| "ins r (a # as) =
     (if el_window_end r < el_window_end a then a # ins r as
      else r # (if el_window_end a = el_window_end r then as else a # as))"

definition descending :: "evaluation list \<Rightarrow> bool" where
  "descending as \<longleftrightarrow> sorted_wrt (\<lambda>a b. el_window_end b < el_window_end a) as"

lemma latest_descending: "descending (rev (latest_per_window es))"
proof -
  have "sorted_wrt (<) (map el_window_end (latest_per_window es))"
    unfolding latest_windows by (simp add: strict_sorted_iff)
  then show ?thesis by (simp add: descending_def sorted_wrt_rev sorted_wrt_map)
qed

lemma descending_sorted: "descending xs \<Longrightarrow> sorted_wrt (<) (map el_window_end (rev xs))"
  by (simp add: descending_def rev_map [symmetric] sorted_wrt_rev sorted_wrt_map)

lemma descending_inj: "descending xs \<Longrightarrow> inj_on el_window_end (set xs)"
  using descending_sorted [of xs] by (simp add: strict_sorted_iff distinct_map)

lemma descending_unique:
  assumes "descending as" "descending bs" "set as = set bs"
  shows "as = bs"
proof -
  have "map el_window_end (rev as) = map el_window_end (rev bs)"
    using descending_sorted [OF assms(1)] descending_sorted [OF assms(2)] assms(3)
    by (intro sorted_distinct_set_unique) (auto simp: strict_sorted_iff)
  then have "rev as = rev bs"
    using descending_inj [OF assms(1)] assms(3) by (intro map_inj_on [of el_window_end]) auto
  then show ?thesis by simp
qed

lemma ins_descending: "descending as \<Longrightarrow> descending (ins r as)"
proof -
  have sub: "el_window_end ` set (ins r as) \<subseteq> insert (el_window_end r) (el_window_end ` set as)" for as
    by (induction as) auto
  show "descending as \<Longrightarrow> descending (ins r as)"
  proof (induction as)
    case (Cons a as)
    then show ?case using sub [of as] by (fastforce simp: descending_def)
  qed (simp add: descending_def)
qed

lemma ins_set: "descending as \<Longrightarrow> set (ins r as) = insert r {a \<in> set as. el_window_end a \<noteq> el_window_end r}"
  by (induction as) (auto simp: descending_def)

lemma latest_set: "set (latest_per_window es) = {e. newest es (el_window_end e) = Some e}"
proof -
  have "e \<in> set (latest_per_window es) \<longleftrightarrow> newest es (el_window_end e) = Some e" for e
  proof
    assume "e \<in> set (latest_per_window es)"
    then obtain w where w: "w \<in> el_window_end ` set es" "e = the (newest es w)"
      by (auto simp: latest_per_window_eq)
    then obtain f where "newest es w = Some f" using newest_exists by fastforce
    with w newest_Some show "newest es (el_window_end e) = Some e" by (metis option.sel)
  next
    assume n: "newest es (el_window_end e) = Some e"
    with newest_Some have "e \<in> set es" by blast
    with n show "e \<in> set (latest_per_window es)"
      unfolding latest_per_window_eq by (auto intro!: image_eqI [of _ _ "el_window_end e"])
  qed
  then show ?thesis by blast
qed

lemma latest_snoc:
  assumes "\<And>e. e \<in> set es \<Longrightarrow> el_at e < el_at r"
  shows "rev (latest_per_window (es @ [r])) = ins r (rev (latest_per_window es))"
proof (rule descending_unique)
  have r: "newest (es @ [r]) (el_window_end r) = Some r"
  proof (cases "newest es (el_window_end r)")
    case (Some k)
    then have "el_at k < el_at r" using newest_Some [OF Some] assms by blast
    with Some show ?thesis by (simp add: newest_snoc newer_def)
  qed (simp add: newest_snoc newer_def)
  have top: "newest (es @ [r]) (el_window_end e) = Some e \<longleftrightarrow>
      e = r \<or> newest es (el_window_end e) = Some e \<and> el_window_end e \<noteq> el_window_end r" for e
  proof (cases "el_window_end e = el_window_end r")
    case True
    with r show ?thesis by auto
  next
    case False
    then show ?thesis by (auto simp: newest_snoc)
  qed
  show "set (rev (latest_per_window (es @ [r]))) = set (ins r (rev (latest_per_window es)))"
    unfolding ins_set [OF latest_descending] set_rev latest_set top by blast
qed (rule latest_descending, intro ins_descending latest_descending)

lemma latest_of_windows:
  assumes "descending as"
  shows "rev (latest_per_window as) = as"
proof (rule descending_unique)
  have inj: "a = b" if "a \<in> set as" "b \<in> set as" "el_window_end a = el_window_end b" for a b
    using descending_inj [OF assms] that by (simp add: inj_on_def)
  have "newest as (el_window_end e) = Some e \<longleftrightarrow> e \<in> set as" for e
  proof
    assume e: "e \<in> set as"
    then obtain f where f: "newest as (el_window_end e) = Some f" using newest_exists by fastforce
    have "f = e" using inj [of f e] newest_Some [OF f] e by simp
    with f show "newest as (el_window_end e) = Some e" by simp
  next
    assume "newest as (el_window_end e) = Some e"
    from newest_Some [OF this] show "e \<in> set as" by simp
  qed
  then show "set (rev (latest_per_window as)) = set as" by (simp add: latest_set)
qed (rule latest_descending, rule assms)

lemma take_ins: "take k (ins r (take k as)) = take k (ins r as)"
proof (induction as arbitrary: k)
  case (Cons a as)
  show ?case
  proof (cases k)
    case (Suc n)
    have "take n (a # take n as) = take n (a # as)" by (cases n) (auto simp: take_Cons')
    with Cons Suc show ?thesis by simp
  qed simp
qed simp

lemma descending_take: "descending as \<Longrightarrow> descending (take k as)"
  unfolding descending_def by (metis append_take_drop_id sorted_wrt_append)

section \<open>The windowed read\<close>

definition run_length :: "bool \<Rightarrow> evaluation list \<Rightarrow> nat" where
  "run_length p as = length (takeWhile (\<lambda>e. el_passed e = p) as)"

lemma run_length_take: "run_length p (take k as) = min k (run_length p as)"
  by (induction as arbitrary: k) (auto simp: run_length_def take_Cons' min_def)

lemma run_length_agree:
  assumes "take k as = take k bs"
  shows "run_length p as < k \<Longrightarrow> run_length p bs = run_length p as" "k \<le> run_length p as \<Longrightarrow> k \<le> run_length p bs"
  using arg_cong [OF assms, of "run_length p"] by (auto simp: run_length_take)

lemma trailing_run_rev: "trailing_run windows p = int (run_length p (rev windows))"
  by (simp add: trailing_run_def run_length_def)

text \<open>The derivation as a function of the windows, newest first.\<close>

definition decide :: "string \<Rightarrow> evaluation list \<Rightarrow> lifecycle_config \<Rightarrow> string option \<Rightarrow> transition option" where
  "decide status as cf reason =
     (if as = [] then None
      else if status = ''active'' then
        if lc_demotion_min_consecutive cf \<le> int (run_length False as)
        then Some \<lparr>tr_to = ''shadow_only'', tr_reason = ''data_quality_fail'', tr_evidence = hd as,
                   tr_n_windows = int (run_length False as)\<rparr> else None
      else if status \<noteq> ''shadow_only'' \<or> reason \<noteq> Some ''data_quality_fail'' then None
      else if lc_recovery_min_passes cf \<le> int (run_length True as)
        then Some \<lparr>tr_to = ''active'', tr_reason = ''data_quality_restored'', tr_evidence = hd as,
                   tr_n_windows = int (run_length True as)\<rparr> else None)"

lemma derive_decide:
  "derive_feature_transition status since es cf reason =
     decide status (rev (latest_per_window (filter (relevant status since) es))) cf reason"
  by (auto simp: derive_feature_transition_def decide_def trailing_run_rev GOVERNED_STATUSES_def Let_def hd_rev)

lemma decide_agree:
  fixes cf :: lifecycle_config
  defines "k \<equiv> nat (max (lc_demotion_min_consecutive cf) (lc_recovery_min_passes cf))"
  assumes "take k as = take k bs" "as \<noteq> []" "bs \<noteq> []"
  shows "decide status as cf reason = None \<Longrightarrow> decide status bs cf reason = None"
    and "decide status as cf reason = Some t \<Longrightarrow> tr_n_windows t < int k \<Longrightarrow> decide status bs cf reason = Some t"
proof -
  have hd: "hd as = hd bs" if "0 < k" using arg_cong [OF assms(2), of hd] that assms(3,4) by simp
  note agree = run_length_agree [OF assms(2)]
  have bound: "lc_demotion_min_consecutive cf \<le> int k" "lc_recovery_min_passes cf \<le> int k" by (auto simp: k_def max_def)
  have lt: "int (run_length p bs) < n" if "int (run_length p as) < n" "n \<le> int k" for p n
    using agree(1) [of p] that by (cases "run_length p as < k") auto
  show "decide status bs cf reason = None" if "decide status as cf reason = None"
    using that lt [OF _ bound(1), of False] lt [OF _ bound(2), of True] assms(3,4)
    by (auto simp: decide_def not_le split: if_splits)
  show "decide status bs cf reason = Some t" if "decide status as cf reason = Some t" "tr_n_windows t < int k"
    using that agree(1) assms(3,4) hd by (auto simp: decide_def split: if_splits)
qed

lemma relevant_windows:
  assumes "\<And>e. e \<in> set es \<Longrightarrow> el_at e < el_at r" "relevant status since r"
  shows "rev (latest_per_window (filter (relevant status since) (es @ [r]))) =
    ins r (rev (latest_per_window (filter (relevant status since) es)))"
  using assms latest_snoc [of "filter (relevant status since) es" r] by simp

lemma newest_windows_relevant: "e \<in> set (newest_windows k status since es) \<Longrightarrow> e \<in> set es \<and> relevant status since e"
proof -
  assume "e \<in> set (newest_windows k status since es)"
  then have "e \<in> set (latest_per_window (filter (relevant status since) es))"
    unfolding newest_windows_def by (metis in_set_takeD set_rev)
  then show ?thesis using newest_Some unfolding latest_set by fastforce
qed

lemma windowed_is_whole:
  assumes "relevant (ci_status c) (ci_since c) r" "\<And>e. e \<in> set whole \<Longrightarrow> el_at e < el_at r"
  shows "windowed_transition (newest_windows (window_limit cf) (ci_status c) (ci_since c) whole) whole c [r] cf =
    derive_feature_transition (ci_status c) (ci_since c) (whole @ [r]) cf (ci_last_reason c)"
proof -
  let ?rel = "relevant (ci_status c) (ci_since c)"
  let ?A = "rev (latest_per_window (filter ?rel whole))" and ?k = "window_limit cf"
  let ?loaded = "newest_windows ?k (ci_status c) (ci_since c) whole"
  have loaded: "?loaded = take ?k ?A" by (simp add: newest_windows_def)
  have "filter ?rel ?loaded = ?loaded" using newest_windows_relevant by (simp add: filter_id_conv)
  then have "rev (latest_per_window (filter ?rel ?loaded)) = take ?k ?A"
    unfolding loaded by (simp add: latest_of_windows descending_take latest_descending)
  moreover have "\<And>e. e \<in> set ?loaded \<Longrightarrow> el_at e < el_at r"
    using newest_windows_relevant assms(2) by blast
  ultimately have first: "rev (latest_per_window (filter ?rel (?loaded @ [r]))) = ins r (take ?k ?A)"
    using relevant_windows [OF _ assms(1), of ?loaded] by simp
  have whole: "rev (latest_per_window (filter ?rel (whole @ [r]))) = ins r ?A"
    using relevant_windows [OF _ assms(1)] assms(2) by blast
  have ne: "ins r as \<noteq> []" for as by (cases as) auto
  have k: "?k = nat (max (lc_demotion_min_consecutive cf) (lc_recovery_min_passes cf))"
    by (simp add: window_limit_def)
  note agree = decide_agree [of cf "ins r (take ?k ?A)" "ins r ?A", folded k, OF take_ins ne ne]
  have d1: "derive_feature_transition (ci_status c) (ci_since c) (?loaded @ [r]) cf (ci_last_reason c) =
      decide (ci_status c) (ins r (take ?k ?A)) cf (ci_last_reason c)"
    unfolding derive_decide first ..
  have d2: "derive_feature_transition (ci_status c) (ci_since c) (whole @ [r]) cf (ci_last_reason c) =
      decide (ci_status c) (ins r ?A) cf (ci_last_reason c)"
    unfolding derive_decide whole ..
  show ?thesis
  proof (cases "decide (ci_status c) (ins r (take ?k ?A)) cf (ci_last_reason c)")
    case None
    then show ?thesis unfolding windowed_transition_def Let_def d1 d2 using agree(1) by simp
  next
    case (Some t)
    show ?thesis
    proof (cases "max (lc_demotion_min_consecutive cf) (lc_recovery_min_passes cf) \<le> tr_n_windows t")
      case True
      with Some show ?thesis unfolding windowed_transition_def Let_def d1 d2 by simp
    next
      case False
      then have "tr_n_windows t < int ?k" unfolding k by (auto simp: max_def split: if_splits)
      with Some False agree(2) [OF Some] show ?thesis unfolding windowed_transition_def Let_def d1 d2 by simp
    qed
  qed
qed

section \<open>The plan's transitions\<close>

lemma load_concepts_ids:
  "keys_ok (rg_rows rg) \<Longrightarrow> distinct (map ci_id (load_concepts rg)) \<and> distinct (map ci_name (load_concepts rg))"
  by (auto simp: keys_ok_def load_concepts_def comp_def distinct_map inj_on_def)

lemma governed_ids:
  assumes "keys_ok (rg_rows rg)"
  shows "distinct (map ci_id (governed (load_concepts rg)))" "distinct (map ci_name (governed (load_concepts rg)))"
proof -
  have "mset (map g (governed cs)) = mset (map g (filter (\<lambda>c. ci_status c \<in> set GOVERNED_STATUSES) cs))" for g :: "concept_info \<Rightarrow> 'x" and cs
    unfolding governed_def mset_map mset_sort ..
  then have "distinct (map g (governed cs))" if "distinct (map g cs)" for g :: "concept_info \<Rightarrow> 'x" and cs
    using that distinct_map_filter [of g cs] by (metis mset_eq_imp_distinct_iff)
  then show "distinct (map ci_id (governed (load_concepts rg)))" "distinct (map ci_name (governed (load_concepts rg)))"
    using load_concepts_ids [OF assms] by blast+
qed

lemma governed_in: "c \<in> set (governed cs) \<longleftrightarrow> c \<in> set cs \<and> ci_status c \<in> set GOVERNED_STATUSES"
  by (auto simp: governed_def)

lemma rows_of_planned:
  assumes "distinct (map ci_id chosen)" "c \<in> set chosen"
  shows "rows_of (map (\<lambda>c. plan_row digest cf window now c (q c)) chosen) (ci_id c) =
    [lr_evaluation (plan_row digest cf window now c (q c))]"
proof -
  have "filter (\<lambda>d. ci_id d = ci_id c) chosen = [c]"
    using assms
  proof (induction chosen)
    case (Cons d ds)
    show ?case
    proof (cases "d = c")
      case True
      have "ci_id e \<noteq> ci_id c" if "e \<in> set ds" for e
        using Cons.prems(1) True imageI [OF that, of ci_id] by auto
      with True show ?thesis by (simp add: filter_empty_conv)
    next
      case False
      with Cons.prems have "c \<in> set ds" "ci_id d \<noteq> ci_id c" by auto
      with Cons show ?thesis by simp
    qed
  qed simp
  then show ?thesis
    by (simp add: rows_of_def filter_map comp_def plan_row_def Let_def case_prod_beta)
qed

lemma status_since_logged: "status_since lgs c = Some s \<Longrightarrow> s \<in> lg_triggered_at ` set lgs"
proof -
  let ?ts = "map lg_triggered_at (filter (\<lambda>l. lg_to l = cn_status c) (history lgs (cn_id c)))"
  assume "status_since lgs c = Some s"
  then have "?ts \<noteq> []" "s = Max (set ?ts)" by (auto simp: status_since_def Let_def split: if_splits)
  then have "s \<in> set ?ts" using Max_in [of "set ?ts"] by (simp del: set_map)
  then show ?thesis by (auto simp: history_def)
qed

lemma load_since:
  assumes "c \<in> set (load_concepts rg)" "\<And>l. l \<in> set (rg_log rg) \<Longrightarrow> lg_triggered_at l \<le> now"
  shows "case ci_since c of None \<Rightarrow> True | Some s \<Rightarrow> s \<le> now"
  using assms status_since_logged by (fastforce simp: load_concepts_def split: option.split)

text \<open>C26. The ledger read that \<open>_transitions\<close> limits to the newest windows of each concept, with the
  whole history read again only for the streaks that may reach past them, plans exactly the
  transitions that derivation over the whole ledger and this window's rows calls for.\<close>

theorem windowed_plan_is_whole_ledger:
  assumes "keys_ok (rg_rows rg)" "chosen = governed (load_concepts rg)"
    "\<And>r. r \<in> set table \<Longrightarrow> ev_at r < now" "\<And>l. l \<in> set (rg_log rg) \<Longrightarrow> lg_triggered_at l \<le> now"
    "rows = map (\<lambda>c. plan_row digest cf window now c (q c)) chosen"
  shows "plan_transitions table cf rows chosen =
    concat (map (\<lambda>c. case derive_feature_transition (ci_status c) (ci_since c)
                            (load_concept_history table (ci_id c) @ rows_of rows (ci_id c)) cf (ci_last_reason c) of
                       None \<Rightarrow> []
                     | Some t \<Rightarrow> [\<lparr>pt_name = ci_name c, pt_from = ci_status c, pt_transition = t\<rparr>]) chosen)"
proof -
  have "windowed_transition (load_evaluations table c cf) (load_concept_history table (ci_id c)) c
      (rows_of rows (ci_id c)) cf =
    derive_feature_transition (ci_status c) (ci_since c)
      (load_concept_history table (ci_id c) @ rows_of rows (ci_id c)) cf (ci_last_reason c)" if c: "c \<in> set chosen" for c
  proof -
    let ?r = "lr_evaluation (plan_row digest cf window now c (q c))"
    have r: "el_at ?r = now" "el_status ?r = ci_status c"
      by (simp_all add: plan_row_def Let_def case_prod_beta)
    have "c \<in> set (load_concepts rg)" using c assms(2) by (simp add: governed_in)
    from load_since [OF this assms(4)] have "relevant (ci_status c) (ci_since c) ?r"
      unfolding relevant_def r by simp
    moreover have "el_at e < el_at ?r" if "e \<in> set (load_concept_history table (ci_id c))" for e
      using that assms(3) r by (auto simp: load_concept_history_def evaluation_from_row_def)
    ultimately show ?thesis
      unfolding assms(5) load_evaluations_def using governed_ids(1) [OF assms(1)] assms(2) c
      by (simp add: rows_of_planned windowed_is_whole)
  qed
  then show ?thesis unfolding plan_transitions_def by (intro arg_cong [of _ _ concat] map_cong) auto
qed

definition ex_lifecycle :: lifecycle_config where
  "ex_lifecycle = \<lparr>lc_coverage_floor = 95 / 100, lc_lookback_days = 90, lc_demotion_min_consecutive = 2,
     lc_recovery_min_passes = 1\<rparr>"

definition ex_failed :: "stamp \<Rightarrow> eval_row" where
  "ex_failed t = \<lparr>ev_concept = 1, ev_domain = ''feature'', ev_window_end = t, ev_key = ''k'', ev_status = ''active'',
     ev_passed = False, ev_statistic = None, ev_n_cells = 0, ev_n_observations = 0, ev_kind = ''data_quality'',
     ev_detail = None, ev_at = t, ev_run_ref = ''''\<rparr>"

definition ex_chosen :: "concept_info list" where
  "ex_chosen = governed (load_concepts ex_registry)"

definition ex_ledger_rows :: "ledger_row list" where
  "ex_ledger_rows = map (\<lambda>c. plan_row (\<lambda>_. ''k'') ex_lifecycle 30 31 c []) ex_chosen"

lemma windowed_plan_is_whole_ledger_witness:
  "map pt_name (plan_transitions (map ex_failed [10, 20]) ex_lifecycle ex_ledger_rows ex_chosen) = [''rsi'']"
proof -
  have "ev_at r < 31" if "r \<in> set (map ex_failed [10, 20])" for r
    using that by (auto simp: ex_failed_def)
  moreover have "lg_triggered_at l \<le> 31" if "l \<in> set (rg_log ex_registry)" for l
    using that by (simp add: ex_registry_def)
  ultimately have eq: "plan_transitions (map ex_failed [10, 20]) ex_lifecycle ex_ledger_rows ex_chosen =
      concat (map (\<lambda>c. case derive_feature_transition (ci_status c) (ci_since c)
                            (load_concept_history (map ex_failed [10, 20]) (ci_id c) @ rows_of ex_ledger_rows (ci_id c))
                            ex_lifecycle (ci_last_reason c) of
                       None \<Rightarrow> []
                     | Some t \<Rightarrow> [\<lparr>pt_name = ci_name c, pt_from = ci_status c, pt_transition = t\<rparr>]) ex_chosen)"
    by (rule windowed_plan_is_whole_ledger [OF ex_registry_keys ex_chosen_def _ _ ex_ledger_rows_def])
  show ?thesis unfolding eq by code_simp
qed

section \<open>Measurement\<close>

lemma counts_of_push: "counts_of (push k v d) j = (if j = k then counts_of d k @ [v] else counts_of d j)"
  by (auto simp: counts_of_def push_lookup split: option.split)

lemma add_row_counts:
  assumes "distinct chunk"
  shows "counts_of (add_row chunk counts (symbol, n, map f chunk)) name =
    counts_of counts name @ (if name \<in> set chunk then [\<lparr>sc_symbol = symbol, sc_n_rows = n,
      sc_n_non_null = fst (f name), sc_n_non_finite = snd (f name)\<rparr>] else [])"
  using assms
proof (induction chunk arbitrary: counts)
  case (Cons c cs)
  obtain a b where "f c = (a, b)" by (cases "f c")
  with Cons.IH [of "push c \<lparr>sc_symbol = symbol, sc_n_rows = n, sc_n_non_null = a, sc_n_non_finite = b\<rparr> counts"] Cons.prems
  show ?case by (auto simp: add_row_def counts_of_push)
qed (simp add: add_row_def)

definition symbol_count :: "columns \<Rightarrow> string \<Rightarrow> string \<times> vector list \<Rightarrow> symbol_counts" where
  "symbol_count known name g = \<lparr>sc_symbol = fst g, sc_n_rows = int (length (snd g)),
     sc_n_non_null = n_populated (snd g) name, sc_n_non_finite = n_bad known (snd g) name\<rparr>"

lemma add_rows_counts:
  assumes "distinct chunk"
  shows "counts_of (foldl (add_row chunk) counts (map (\<lambda>(symbol, rows). (symbol, int (length rows),
      map (\<lambda>c. (n_populated rows c, n_bad known rows c)) chunk)) gs)) name =
    counts_of counts name @ (if name \<in> set chunk then map (symbol_count known name) gs else [])"
  by (induction gs arbitrary: counts) (auto simp: add_row_counts [OF assms] symbol_count_def)

lemma measure_chunks_counts:
  assumes "distinct (concat css)" "\<And>c. c \<in> set (concat css) \<Longrightarrow> known c \<noteq> None"
  shows "\<exists>counts'. measure_chunks vectors known tf s e css counts = Inr counts' \<and>
    (\<forall>name. counts_of counts' name = counts_of counts name @
      (if name \<in> set (concat css)
       then map (symbol_count known name) (group_by (\<lambda>v. the (fv_symbol v)) (rows_in vectors tf s e)) else []))"
  using assms
proof (induction css arbitrary: counts)
  case (Cons cs css)
  let ?gs = "group_by (\<lambda>v. the (fv_symbol v)) (rows_in vectors tf s e)"
  have agg: "tf_aggregates vectors known cs tf s e =
      Inr (map (\<lambda>(symbol, rows). (symbol, int (length rows), map (\<lambda>c. (n_populated rows c, n_bad known rows c)) cs)) ?gs)"
    using Cons.prems by (auto simp: tf_aggregates_def list_all_iff)
  have "distinct cs" "distinct (concat css)" "set cs \<inter> set (concat css) = {}"
    using Cons.prems by (auto dest: distinct_append [THEN iffD1])
  with Cons.IH [of "foldl (add_row cs) counts (map (\<lambda>(symbol, rows). (symbol, int (length rows),
      map (\<lambda>c. (n_populated rows c, n_bad known rows c)) cs)) ?gs)"] Cons.prems
  show ?case by (fastforce simp: agg add_rows_counts)
qed simp

text \<open>C27. However many columns there are, and so however many queries they are split over, a timeframe is
  measured in full: each computable feature's quality is taken over one count per symbol with rows in
  the span, of the rows, the non-NULL values and (for a float column) the non-finite values.\<close>

theorem measurement_chunk_independent:
  assumes "distinct computable" "list_all (\<lambda>c. known c \<noteq> None) computable"
  shows "measure_tf vectors known computable tf s e =
    Inr (map (\<lambda>name. (name, feature_tf_quality name tf
      (map (\<lambda>(symbol, rows). \<lparr>sc_symbol = symbol, sc_n_rows = int (length rows),
              sc_n_non_null = n_populated rows name, sc_n_non_finite = n_bad known rows name\<rparr>)
        (group_by (\<lambda>v. the (fv_symbol v)) (rows_in vectors tf s e))))) computable)"
proof -
  have all: "concat (chunks MAX_FEATURES_PER_QUERY computable) = computable"
    by (simp add: concat_chunks MAX_FEATURES_PER_QUERY_def)
  obtain counts where counts: "measure_chunks vectors known tf s e (chunks MAX_FEATURES_PER_QUERY computable) [] = Inr counts"
    "\<And>name. name \<in> set computable \<Longrightarrow> counts_of counts name =
      map (symbol_count known name) (group_by (\<lambda>v. the (fv_symbol v)) (rows_in vectors tf s e))"
    using measure_chunks_counts [of "chunks MAX_FEATURES_PER_QUERY computable" known vectors tf s e "[]"] assms
    unfolding all by (auto simp: counts_of_def list_all_iff)
  have "symbol_count known name = (\<lambda>(symbol, rows). \<lparr>sc_symbol = symbol, sc_n_rows = int (length rows),
      sc_n_non_null = n_populated rows name, sc_n_non_finite = n_bad known rows name\<rparr>)" for name
    by (auto simp: symbol_count_def)
  with counts show ?thesis by (simp add: measure_tf_def)
qed

definition ex_vectors :: "vector list" where
  "ex_vectors = map (\<lambda>(sy, t, c). \<lparr>fv_symbol = Some sy, fv_tf = Some ''1d'', fv_bar_ts = t, fv_cells = [''rsi'' \<mapsto> c]\<rparr>)
     [(''A'', 1, Finite 5), (''B'', 2, Finite 6), (''A'', 3, NonFinite)]"

lemma measurement_chunk_independent_witness:
  "\<exists>q. measure_tf ex_vectors [''rsi'' \<mapsto> ''real''] [''rsi''] ''1d'' 0 9 = Inr [(''rsi'', q)] \<and>
     tq_symbols_with_rows q = 2 \<and> tq_n_non_finite q = 1"
proof -
  let ?q = "feature_tf_quality ''rsi'' ''1d''
      (map (\<lambda>(symbol, rows). \<lparr>sc_symbol = symbol, sc_n_rows = int (length rows),
              sc_n_non_null = n_populated rows ''rsi'', sc_n_non_finite = n_bad [''rsi'' \<mapsto> ''real''] rows ''rsi''\<rparr>)
        (group_by (\<lambda>v. the (fv_symbol v)) (rows_in ex_vectors ''1d'' 0 9)))"
  have "measure_tf ex_vectors [''rsi'' \<mapsto> ''real''] [''rsi''] ''1d'' 0 9 = Inr [(''rsi'', ?q)]"
    using measurement_chunk_independent [of "[''rsi'']" "[''rsi'' \<mapsto> ''real'']" ex_vectors "''1d''" 0 9] by simp
  moreover have "tq_symbols_with_rows ?q = 2 \<and> tq_n_non_finite ?q = 1"
    by (simp add: ex_vectors_def rows_in_def group_by_def feature_tf_quality_def Let_def n_populated_def
        n_bad_def FLOAT_TYPES_def)
  ultimately show ?thesis by blast
qed

section \<open>What a run changes\<close>

lemma apply_transitions_attempts:
  "\<exists>pre post. ts = pre @ post \<and> fst (apply_transitions rg ts) = fst (attempt_all try_move rg pre) \<and>
     (\<forall>n. snd (apply_transitions rg ts) = Inr n \<longrightarrow> post = [] \<and> n = int (snd (attempt_all try_move rg pre)))"
proof (induction ts arbitrary: rg)
  case (Cons t ts)
  obtain rq now where t: "t = (rq, now)" by (cases t)
  obtain rg' res where res: "record_transition rg rq now = (rg', res)" by (cases "record_transition rg rq now")
  show ?case
  proof (cases res)
    case (Inl e)
    then have "snd (record_transition rg rq now) \<noteq> Inr APPLIED" using res by simp
    from not_applied [OF this] have "rg' = rg" using res by simp
    with Inl res t show ?thesis by (intro exI [of _ "[]"] exI [of _ "(rq, now) # ts"]) simp
  next
    case (Inr r)
    obtain pre post where IH: "ts = pre @ post" "fst (apply_transitions rg' ts) = fst (attempt_all try_move rg' pre)"
      "\<And>n. snd (apply_transitions rg' ts) = Inr n \<Longrightarrow> post = [] \<and> n = int (snd (attempt_all try_move rg' pre))"
      using Cons.IH [of rg'] by blast
    have step: "try_move rg t = (rg', r = APPLIED)" using res Inr t by (simp add: try_move_def)
    show ?thesis
      using IH step res Inr t
      by (intro exI [of _ "t # pre"] exI [of _ post])
        (auto simp: Let_def case_prod_beta ebind_eq_Inr)
  qed
qed simp

lemma derive_transition:
  assumes "derive_feature_transition status since es cf reason = Some t"
  shows "(status = ''active'' \<and> tr_to t = ''shadow_only'' \<and> tr_reason t = ''data_quality_fail'') \<or>
    (status = ''shadow_only'' \<and> tr_to t = ''active'' \<and> tr_reason t = ''data_quality_restored'' \<and>
     reason = Some ''data_quality_fail'')"
  using assms by (auto simp: derive_decide decide_def split: if_splits)

lemma windowed_transition_derived:
  "windowed_transition loaded whole c rows cf = Some t \<Longrightarrow>
   \<exists>es. derive_feature_transition (ci_status c) (ci_since c) es cf (ci_last_reason c) = Some t"
  by (auto simp: windowed_transition_def Let_def split: option.splits if_splits)

text \<open>The concept a planned transition comes from.\<close>

definition planned_for :: "registry \<Rightarrow> planned \<Rightarrow> concept \<Rightarrow> bool" where
  "planned_for rg p c \<longleftrightarrow> c \<in> set (rg_rows rg) \<and> cn_domain c = FEATURE_DOMAIN \<and> rg_gates rg (cn_id c) \<noteq> None \<and>
     cn_name c = pt_name p \<and> cn_status c = pt_from p \<and>
     (cn_status c = ''active'' \<and> tr_to (pt_transition p) = ''shadow_only'' \<and> tr_reason (pt_transition p) = ''data_quality_fail'' \<or>
      cn_status c = ''shadow_only'' \<and> tr_to (pt_transition p) = ''active'' \<and>
      tr_reason (pt_transition p) = ''data_quality_restored'' \<and> last_reason (rg_log rg) c = Some ''data_quality_fail'')"

lemma plan_transitions_for:
  assumes "p \<in> set (plan_transitions table cf rows (governed (load_concepts rg)))"
  shows "\<exists>c. planned_for rg p c"
proof -
  obtain ci t where ci: "ci \<in> set (load_concepts rg)" and
    t: "windowed_transition (load_evaluations table ci cf) (load_concept_history table (ci_id ci)) ci (rows_of rows (ci_id ci)) cf = Some t" and
    p: "p = \<lparr>pt_name = ci_name ci, pt_from = ci_status ci, pt_transition = t\<rparr>"
    using assms by (auto simp: plan_transitions_def governed_in split: option.splits)
  from ci obtain c where c: "c \<in> set (rg_rows rg)" "cn_domain c = FEATURE_DOMAIN" "rg_gates rg (cn_id c) \<noteq> None"
    and ci_eq: "ci = \<lparr>ci_id = cn_id c, ci_name = cn_name c, ci_status = cn_status c,
               ci_since = status_since (rg_log rg) c, ci_last_reason = last_reason (rg_log rg) c\<rparr>"
    by (auto simp: load_concepts_def)
  from windowed_transition_derived [OF t] obtain es
    where "derive_feature_transition (ci_status ci) (ci_since ci) es cf (ci_last_reason ci) = Some t" by blast
  from derive_transition [OF this] c show ?thesis by (auto simp: planned_for_def p ci_eq)
qed

lemma plan_transitions_names:
  assumes "keys_ok (rg_rows rg)"
  shows "distinct (map pt_name (plan_transitions table cf rows (governed (load_concepts rg))))"
proof -
  have gen: "distinct (map pt_name (concat (map (\<lambda>c. case f c of None \<Rightarrow> [] | Some t \<Rightarrow>
      [\<lparr>pt_name = ci_name c, pt_from = ci_status c, pt_transition = t\<rparr>]) cs)))" if "distinct (map ci_name cs)" for f cs
    using that by (induction cs) (fastforce split: option.splits)+
  show ?thesis unfolding plan_transitions_def by (rule gen [OF governed_ids(2) [OF assms]])
qed

lemma plan_window_transitions:
  assumes "plan_window digest rg table vectors known cf window now = Inr (Some p)"
  shows "\<exists>rows. wp_transitions p = plan_transitions table cf rows (governed (load_concepts rg))"
  using assms by (auto simp: plan_window_def Let_def ebind_eq_Inr split: if_splits)

lemma planned_key [simp]:
  "rq_domain (request_of tx p) = FEATURE_DOMAIN" "rq_name (request_of tx p) = pt_name p"
  "rq_from (request_of tx p) = pt_from p" "rq_to (request_of tx p) = tr_to (pt_transition p)"
  "rq_reason (request_of tx p) = tr_reason (pt_transition p)"
  by (simp_all add: request_of_def Let_def)

lemma request_keys:
  "length ns = length ps \<Longrightarrow>
   map (\<lambda>r. (rq_domain (fst r), rq_name (fst r))) (zip (map (request_of tx) ps) ns) = map (\<lambda>p. (FEATURE_DOMAIN, pt_name p)) ps"
proof (induction ps arbitrary: ns)
  case (Cons p ps)
  then show ?case by (cases ns) auto
qed simp

lemma requests_from: "r \<in> set (zip (map (request_of tx) ps) ns) \<Longrightarrow> \<exists>q \<in> set ps. fst r = request_of tx q"
  by (cases r) (metis fst_conv imageE set_map set_zip_leftD)

lemma execute_registry:
  assumes "execute tx st vectors known cf window dry_run now now' clock = (st', out)"
  shows "ls_registry st' = ls_registry st \<or>
    (\<not> dry_run \<and> (\<exists>p. plan_window (tx_digest tx) (ls_registry st) (ls_ledger st) vectors known cf window now = Inr (Some p) \<and>
       ls_registry st' = fst (apply_transitions (ls_registry st)
         (zip (map (request_of tx) (wp_transitions p)) (map clock [0..<length (wp_transitions p)])))))"
  using assms
  by (auto simp: execute_def apply_plan_def Let_def case_prod_beta split: sum.splits option.splits if_splits)

text \<open>C28. What a run may change.  Whatever the data and the configuration, a run moves only features that
  have a gate, only between \<open>active\<close> and \<open>shadow_only\<close>, and it activates a feature only when that
  feature's latest log entry is this batch's own demotion; a dry run moves nothing.  A feature that is
  shadow-only for another reason, a candidate and a deprecated concept are never touched.\<close>

theorem run_moves_governed_only:
  assumes "keys_ok (rg_rows (ls_registry st))" "c \<in> set (rg_rows (ls_registry st))"
    "execute tx st vectors known cf window dry_run now now' clock = (st', out)"
    "status_of (ls_registry st') (cn_domain c, cn_name c) = Some s" "s \<noteq> cn_status c"
  shows "\<not> dry_run \<and> cn_domain c = ''feature'' \<and> rg_gates (ls_registry st) (cn_id c) \<noteq> None \<and>
    (cn_status c = ''active'' \<and> s = ''shadow_only'' \<or>
     cn_status c = ''shadow_only'' \<and> s = ''active'' \<and>
       last_reason (rg_log (ls_registry st)) c = Some ''data_quality_fail'')"
proof -
  let ?rg = "ls_registry st" and ?k = "(cn_domain c, cn_name c)"
  have old: "status_of ?rg ?k = Some (cn_status c)"
    using assms(2) unfolding status_of_iff [OF assms(1)] by blast
  with execute_registry [OF assms(3)] assms(4,5) obtain p where
    run: "\<not> dry_run" "plan_window (tx_digest tx) ?rg (ls_ledger st) vectors known cf window now = Inr (Some p)"
    and st': "ls_registry st' = fst (apply_transitions ?rg
         (zip (map (request_of tx) (wp_transitions p)) (map clock [0..<length (wp_transitions p)])))"
    by auto
  let ?ts = "zip (map (request_of tx) (wp_transitions p)) (map clock [0..<length (wp_transitions p)])"
  obtain rows where ts: "wp_transitions p = plan_transitions (ls_ledger st) cf rows (governed (load_concepts ?rg))"
    using plan_window_transitions [OF run(2)] by blast
  obtain pre post where pre: "?ts = pre @ post" "ls_registry st' = fst (attempt_all try_move ?rg pre)"
    using apply_transitions_attempts [of ?ts ?rg] unfolding st' by blast
  have "map (\<lambda>r. (rq_domain (fst r), rq_name (fst r))) ?ts = map (\<lambda>p. (FEATURE_DOMAIN, pt_name p)) (wp_transitions p)"
    by (rule request_keys) simp
  moreover have "distinct (map (\<lambda>p. (FEATURE_DOMAIN, pt_name p)) (wp_transitions p))"
    using plan_transitions_names [OF assms(1)] unfolding ts by (simp add: distinct_map inj_on_def)
  ultimately have "distinct (map (\<lambda>r. (rq_domain (fst r), rq_name (fst r))) ?ts)" by (simp only:)
  then have "distinct (map (\<lambda>r. (rq_domain (fst r), rq_name (fst r))) pre)"
    unfolding pre(1) map_append distinct_append by blast
  note change = reg_cas.batch_change [OF assms(1) this, of ?k]
  have "status_of (fst (attempt_all try_move ?rg pre)) ?k \<noteq> status_of ?rg ?k"
    using old assms(4,5) pre(2) by simp
  with change obtain r where r: "r \<in> set pre" "(rq_domain (fst r), rq_name (fst r)) = ?k"
    "status_of ?rg ?k = Some (rq_from (fst r))" "status_of (fst (attempt_all try_move ?rg pre)) ?k = Some (rq_to (fst r))"
    by (auto simp only:)
  then have ends: "rq_from (fst r) = cn_status c" "rq_to (fst r) = s" using old assms(4) pre(2) by simp_all
  have "r \<in> set ?ts" using pre(1) r(1) by simp
  then obtain q where q: "q \<in> set (wp_transitions p)" "fst r = request_of tx q"
    using requests_from by blast
  then obtain d where d: "planned_for ?rg q d" using plan_transitions_for ts by metis
  then have "d = c" using assms(1,2) r(2) q(2) by (auto simp: planned_for_def keys_ok_def distinct_map inj_on_def)
  with d ends q(2) run(1) show ?thesis by (auto simp: planned_for_def FEATURE_DOMAIN_def)
qed

definition ex_state :: lifecycle_state where
  "ex_state = \<lparr>ls_registry = ex_registry, ls_ledger = [ex_failed 10], ls_facts = []\<rparr>"

definition ex_texts :: texts where
  "ex_texts = \<lparr>tx_digest = (\<lambda>_. ''k''), tx_iso = (\<lambda>_. ''t''), tx_note = (\<lambda>_. ''n'')\<rparr>"

definition ex_run :: "lifecycle_state \<times> (err + (plan \<times> int) option)" where
  "ex_run = execute ex_texts ex_state ex_vectors Map.empty ex_lifecycle 30 False 31 32 (\<lambda>_. 33)"

lemma ex_run_status: "status_of (ls_registry (fst ex_run)) (''feature'', ''rsi'') = Some ''shadow_only''"
  by code_simp

lemma run_moves_governed_only_witness:
  "cn_status (ex_concept 1 ''rsi'' ''active'') = ''active'' \<and> rg_gates (ls_registry ex_state) 1 \<noteq> None"
proof -
  have "keys_ok (rg_rows (ls_registry ex_state))" by (simp add: ex_state_def ex_registry_keys)
  moreover have "ex_concept 1 ''rsi'' ''active'' \<in> set (rg_rows (ls_registry ex_state))"
    by (simp add: ex_state_def ex_registry_def)
  moreover have "execute ex_texts ex_state ex_vectors Map.empty ex_lifecycle 30 False 31 32 (\<lambda>_. 33) = (fst ex_run, snd ex_run)"
    by (simp add: ex_run_def)
  ultimately show ?thesis
    using run_moves_governed_only [of ex_state "ex_concept 1 ''rsi'' ''active''" ex_texts ex_vectors Map.empty
        ex_lifecycle 30 False 31 32 "\<lambda>_. 33" "fst ex_run" "snd ex_run" "''shadow_only''"] ex_run_status
    by (simp add: ex_concept_def)
qed

lemma apply_transitions_returns:
  "keys_ok (rg_rows rg) \<Longrightarrow> (\<And>r. r \<in> set ts \<Longrightarrow> move_allowed rg r) \<Longrightarrow> \<exists>n. snd (apply_transitions rg ts) = Inr n"
proof (induction ts arbitrary: rg)
  case (Cons t ts)
  obtain rq tm where t: "t = (rq, tm)" by (cases t)
  obtain c where c: "permitted rg rq c" using Cons.prems(2) [of t] t by (auto simp: move_allowed_def)
  then have "\<exists>res. snd (record_transition rg rq tm) = Inr res"
    using find_concept_iff [OF Cons.prems(1), of "rq_domain rq" "rq_name rq" c]
    by (auto simp: record_transition_def load_target_def permitted_def target_def Let_def case_prod_beta)
  then obtain res where res: "snd (record_transition rg rq tm) = Inr res" by blast
  have "fst (record_transition rg rq tm) = fst (try_move rg t)" by (simp add: t try_move_def case_prod_beta)
  then have "\<exists>n. snd (apply_transitions (fst (record_transition rg rq tm)) ts) = Inr n"
    using Cons.prems reg_cas.attempt_ok reg_cas.allowed_stable [OF Cons.prems(1)] by (intro Cons.IH) auto
  with res show ?case by (cases "record_transition rg rq tm") (auto simp: t Let_def case_prod_beta)
qed simp

text \<open>C29. A run carries out its plan: when nothing else writes in between, every planned transition is
  applied, whatever the FDR requirement of the gates, and the count reported is the number planned.\<close>

theorem planned_transitions_applied:
  assumes "keys_ok (rg_rows (ls_registry st))"
    "plan_window (tx_digest tx) (ls_registry st) (ls_ledger st) vectors known cf window now = Inr (Some p)"
    "execute tx st vectors known cf window False now now' clock = (st', out)"
  shows "out = Inr (Some (p, int (length (wp_transitions p)))) \<and>
    (\<forall>q \<in> set (wp_transitions p). status_of (ls_registry st') (''feature'', pt_name q) = Some (tr_to (pt_transition q)))"
proof -
  let ?rg = "ls_registry st" and ?key = "\<lambda>r. (rq_domain (fst r), rq_name (fst r))"
  let ?ts = "zip (map (request_of tx) (wp_transitions p)) (map clock [0..<length (wp_transitions p)])"
  obtain rows where ts: "wp_transitions p = plan_transitions (ls_ledger st) cf rows (governed (load_concepts ?rg))"
    using plan_window_transitions [OF assms(2)] by blast
  have keys: "map ?key ?ts = map (\<lambda>p. (FEATURE_DOMAIN, pt_name p)) (wp_transitions p)"
    by (rule request_keys) simp
  have dist: "distinct (map ?key ?ts)" unfolding keys
    using plan_transitions_names [OF assms(1)] unfolding ts by (simp add: distinct_map inj_on_def)
  have ready: "move_allowed ?rg r \<and> status_of ?rg (?key r) = Some (rq_from (fst r))" if "r \<in> set ?ts" for r
  proof -
    from that obtain q where q: "q \<in> set (wp_transitions p)" "fst r = request_of tx q"
      using requests_from by blast
    then obtain c where c: "planned_for ?rg q c" using plan_transitions_for ts by metis
    then have "permitted ?rg (fst r) c"
      using q(2) by (auto simp: permitted_iff planned_for_def FEATURE_DOMAIN_def VALID_TRANSITION_REASONS_def)
    with c q(2) show ?thesis
      unfolding move_allowed_def status_of_iff [OF assms(1)] by (auto simp: planned_for_def)
  qed
  note batch = reg_cas.batch_applied [OF assms(1) dist ready]
  obtain n where n: "snd (apply_transitions ?rg ?ts) = Inr n"
    using apply_transitions_returns [of ?rg ?ts] assms(1) ready by blast
  then have ran: "n = int (length (wp_transitions p))" "fst (apply_transitions ?rg ?ts) = fst (attempt_all try_move ?rg ?ts)"
    using apply_transitions_attempts [of ?ts ?rg] batch by auto
  have st': "ls_registry st' = fst (apply_transitions ?rg ?ts)" "out = Inr (Some (p, n))"
    using assms(2,3) n by (auto simp: execute_def apply_plan_def Let_def case_prod_beta)
  have "status_of (ls_registry st') (''feature'', pt_name q) = Some (tr_to (pt_transition q))"
    if "q \<in> set (wp_transitions p)" for q
  proof -
    from that obtain r where r: "r \<in> set ?ts" "fst r = request_of tx q" by (force simp: in_set_zip in_set_conv_nth)
    have "map_of (map (\<lambda>r. (?key r, rq_to (fst r))) ?ts) (?key r) = Some (rq_to (fst r))"
      using dist r(1) by (intro map_of_is_SomeI) (auto simp: comp_def)
    with batch r st'(1) ran(2) show ?thesis by (simp add: FEATURE_DOMAIN_def)
  qed
  with st' ran show ?thesis by blast
qed

lemma planned_transitions_applied_witness:
  "\<exists>p. snd ex_run = Inr (Some (p, 1)) \<and> length (wp_transitions p) = 1"
proof -
  let ?plan = "plan_window (tx_digest ex_texts) (ls_registry ex_state) (ls_ledger ex_state) ex_vectors Map.empty ex_lifecycle 30 31"
  have "(case ?plan of Inr (Some p) \<Rightarrow> length (wp_transitions p) = 1 | _ \<Rightarrow> False)"
    by code_simp
  then obtain p where p: "?plan = Inr (Some p)" "length (wp_transitions p) = 1"
    by (auto split: sum.splits option.splits)
  have "keys_ok (rg_rows (ls_registry ex_state))" by (simp add: ex_state_def ex_registry_keys)
  moreover have "execute ex_texts ex_state ex_vectors Map.empty ex_lifecycle 30 False 31 32 (\<lambda>_. 33) = (fst ex_run, snd ex_run)"
    by (simp add: ex_run_def)
  ultimately show ?thesis using planned_transitions_applied [OF _ p(1)] p(2) by fastforce
qed

end
