(* ===== verification/Fetch_Queue.thy ===== *)
theory Fetch_Queue
  imports Prelude
begin

text \<open>
  The history fetcher's priority queue, \<open>scripts/infrastructure/backfill/_fetch_queue.py\<close>, and the claim
  loop of \<open>ohlcv_history_fetcher.py\<close> that drains it.

  A \<open>ledger\<close> holds the tables the queue reads; a query is a function on them.  \<open>conv\<close> is Python's
  conversion of the configured text (\<open>int\<close>, \<open>float\<close>, \<open>json.loads\<close>), which may raise \<open>ValueError\<close>, and
  \<open>hash64\<close> is the first eight bytes of the SHA-256 of a string.  Datetimes are UTC instants.
\<close>

definition DAILY_TF :: string where "DAILY_TF = ''1d''"
definition DERIVED_SOURCE :: string where "DERIVED_SOURCE = ''derived''"
definition CANONICAL_LOOKBACK_DAYS :: int where "CANONICAL_LOOKBACK_DAYS = 14"
definition DAILY_NOT_COVERAGE_KINDS :: "string list" where "DAILY_NOT_COVERAGE_KINDS = [''smart_adjusted'']"
definition REVERIFY_DAYS_KEY :: string where
  "REVERIFY_DAYS_KEY = ''infra.backfill.empty_history_reverify_days''"
definition KEY_CONFIRMATION_CHUNKS :: string where
  "KEY_CONFIRMATION_CHUNKS = ''infra.ibkr.no_data_confirmation_chunks''"

section \<open>Configuration\<close>

record conv =
  cv_int :: "string \<Rightarrow> err + int"
  cv_float :: "string \<Rightarrow> err + real"
  cv_strings :: "string \<Rightarrow> err + string list"
  cv_scopes :: "string \<Rightarrow> err + (string \<times> string list) list"

record fetch_request =
  rq_symbol :: string
  rq_source :: string
  rq_timeframe :: string
  rq_route :: string
  rq_what_to_show :: string
  rq_outcome :: string
  rq_caller :: string
  rq_answered_at :: "stamp option"
  rq_window_end :: "stamp option"

definition IBKR_DAILY_ANSWER_FILTER :: "fetch_request \<Rightarrow> bool" where
  "IBKR_DAILY_ANSWER_FILTER r = (rq_route r = ''SMART'' \<and> rq_what_to_show r = ''TRADES'')"

record provider_plan =
  pp_name :: string
  pp_request_timeout :: real
  pp_request_retries :: int
  pp_rate_limit_window :: real
  pp_confirmation_chunks :: int
  pp_inter_item_pause :: real
  pp_answers_1d :: bool
  pp_daily_answer_filter :: "fetch_request \<Rightarrow> bool"
  pp_depth_overrides :: "(string \<times> int) list"

definition default_provider :: string where "default_provider = ''ibkr''"

definition series_key :: "string list \<Rightarrow> err + string \<times> string \<times> string" where
  "series_key key =
     (case key of
        [symbol, timeframe] \<Rightarrow> Inr (default_provider, symbol, timeframe)
      | [provider, symbol, timeframe] \<Rightarrow> Inr (provider, symbol, timeframe)
      | _ \<Rightarrow> Inl ValueError)"

definition provider_key :: "string \<Rightarrow> string \<Rightarrow> string" where
  "provider_key provider suffix = ''infra.'' @ provider @ ''.'' @ suffix"

definition require_key :: "(string \<Rightarrow> string option) \<Rightarrow> string \<Rightarrow> string \<Rightarrow> err + string" where
  "require_key get provider suffix =
     (case get (provider_key provider suffix) of None \<Rightarrow> Inl RuntimeError | Some v \<Rightarrow> Inr v)"

fun depth_overrides_of ::
  "conv \<Rightarrow> (string \<Rightarrow> string option) \<Rightarrow> string \<Rightarrow> string list \<Rightarrow> err + (string \<times> int) list" where
  "depth_overrides_of cv get provider [] = Inr []"
| "depth_overrides_of cv get provider (tf # tfs) =
     (case get (provider_key provider (''depth_days.'' @ tf)) of
        None \<Rightarrow> depth_overrides_of cv get provider tfs
      | Some v \<Rightarrow> ebind (cv_int cv v) (\<lambda>n.
                  ebind (depth_overrides_of cv get provider tfs) (\<lambda>rest. Inr ((tf, n) # rest))))"

definition load_provider_plan ::
  "conv \<Rightarrow> string \<Rightarrow> (string \<Rightarrow> string option) \<Rightarrow> bool \<Rightarrow> (fetch_request \<Rightarrow> bool) \<Rightarrow> string list \<Rightarrow> err + provider_plan" where
  "load_provider_plan cv provider get answers_1d answer_filter depth_tfs =
     ebind (require_key get provider ''history_request_timeout'') (\<lambda>t.
     ebind (cv_float cv t) (\<lambda>timeout.
     ebind (case get (provider_key provider ''rate_limit_window_sec'') of
              None \<Rightarrow> Inr 600 | Some w \<Rightarrow> cv_float cv w) (\<lambda>window.
     if timeout \<le> window then Inl ValueError
     else
       ebind (depth_overrides_of cv get provider depth_tfs) (\<lambda>overrides.
       ebind (require_key get provider ''history_request_retries'') (\<lambda>r.
       ebind (cv_int cv r) (\<lambda>retries.
       ebind (require_key get provider ''no_data_confirmation_chunks'') (\<lambda>c.
       ebind (cv_int cv c) (\<lambda>chunks.
       ebind (require_key get provider ''inter_item_pause_s'') (\<lambda>p.
       ebind (cv_float cv p) (\<lambda>pause.
         Inr \<lparr>pp_name = provider, pp_request_timeout = timeout, pp_request_retries = retries,
              pp_rate_limit_window = window, pp_confirmation_chunks = chunks, pp_inter_item_pause = pause,
              pp_answers_1d = answers_1d, pp_daily_answer_filter = answer_filter,
              pp_depth_overrides = overrides\<rparr>))))))))))"

record queue_config =
  qc_max_failures :: int
  qc_sla_days :: int
  qc_priority_tfs :: "string list"
  qc_depth_days :: "(string \<times> int) list"
  qc_request_timeout :: real
  qc_request_retries :: int
  qc_run_budget :: int
  qc_default_scopes :: "(string \<times> string list) list"
  qc_fetch_concurrency :: int

definition FALLBACKS :: "(string \<times> string) list" where
  "FALLBACKS =
     [(''infra.backfill.max_consecutive_failures'', ''5''),
      (''infra.backfill.max_staleness_days_before_preempt'', ''3''),
      (''infra.backfill.priority_tf_order'', ''[\"15m\", \"1h\"]''),
      (''infra.backfill.default_scopes'',
       ''{\"compute\": [\"1d\", \"1h\", \"15m\", \"5m\"], \"compute_1d\": [\"1d\"], \"backfill\": [\"1h\", \"15m\"]}''),
      (''infra.backfill.run_budget_minutes'', ''240''),
      (''infra.backfill.fetch_concurrency'', ''1'')]"

definition DEPTH_FALLBACKS :: "(string \<times> int) list" where
  "DEPTH_FALLBACKS = [(''1d'', 7300), (''1h'', 7300), (''15m'', 7300), (''5m'', 7300), (''1m'', 90)]"

definition DEPTH_PREFIX :: string where "DEPTH_PREFIX = ''infra.backfill.depth_days.''"

definition PROVIDER_PLAN_KEYS :: "string list" where
  "PROVIDER_PLAN_KEYS = map (provider_key ''ibkr'')
     [''history_request_timeout'', ''history_request_retries'', ''rate_limit_window_sec'',
      ''no_data_confirmation_chunks'', ''inter_item_pause_s'']"

text \<open>The rows the config query returns (\<open>config_key = ANY\<close> of the listed keys, or \<open>LIKE\<close> the depth prefix,
  whose underscore matches any character), then the depth map over its fallbacks.\<close>

fun like_prefix :: "string \<Rightarrow> string \<Rightarrow> bool" where
  "like_prefix [] s = True"
| "like_prefix (p # ps) [] = False"
| "like_prefix (p # ps) (c # cs) = ((p = CHR ''_'' \<or> p = c) \<and> like_prefix ps cs)"

definition config_rows :: "(string \<times> string) list \<Rightarrow> (string \<times> string) list" where
  "config_rows table =
     filter (\<lambda>(k, _). k \<in> set (map fst FALLBACKS @ PROVIDER_PLAN_KEYS) \<or> like_prefix DEPTH_PREFIX k) table"

fun depth_days_of :: "conv \<Rightarrow> (string \<times> string) list \<Rightarrow> (string \<times> int) list \<Rightarrow> err + (string \<times> int) list" where
  "depth_days_of cv [] depths = Inr depths"
| "depth_days_of cv ((key, v) # rest) depths =
     (if take (length DEPTH_PREFIX) key = DEPTH_PREFIX
      then ebind (cv_int cv v) (\<lambda>n. depth_days_of cv rest (AList.update (drop (length DEPTH_PREFIX) key) n depths))
      else depth_days_of cv rest depths)"

definition config_value :: "(string \<times> string) list \<Rightarrow> string \<Rightarrow> string" where
  "config_value values key =
     (case map_of values key of Some v \<Rightarrow> v | None \<Rightarrow> the (map_of FALLBACKS key))"

definition load_queue_config :: "conv \<Rightarrow> (string \<times> string) list \<Rightarrow> err + queue_config" where
  "load_queue_config cv table =
     (let values = dict_of (config_rows table); get = config_value values
      in ebind (depth_days_of cv values DEPTH_FALLBACKS) (\<lambda>depths.
         ebind (load_provider_plan cv ''ibkr'' (map_of values) True IBKR_DAILY_ANSWER_FILTER (map fst DEPTH_FALLBACKS)) (\<lambda>plan.
         ebind (cv_scopes cv (get ''infra.backfill.default_scopes'')) (\<lambda>scopes.
         ebind (cv_int cv (get ''infra.backfill.max_consecutive_failures'')) (\<lambda>failures.
         ebind (cv_int cv (get ''infra.backfill.max_staleness_days_before_preempt'')) (\<lambda>sla.
         ebind (cv_strings cv (get ''infra.backfill.priority_tf_order'')) (\<lambda>tfs.
         ebind (cv_int cv (get ''infra.backfill.run_budget_minutes'')) (\<lambda>budget.
         ebind (cv_int cv (get ''infra.backfill.fetch_concurrency'')) (\<lambda>concurrency.
           Inr \<lparr>qc_max_failures = failures, qc_sla_days = sla, qc_priority_tfs = tfs, qc_depth_days = depths,
                qc_request_timeout = pp_request_timeout plan, qc_request_retries = pp_request_retries plan,
                qc_run_budget = budget, qc_default_scopes = scopes, qc_fetch_concurrency = concurrency\<rparr>)))))))))"

record lane_config =
  ln_reconcile_interval :: int
  ln_overlap_sessions_1d :: int
  ln_overlap_days_5m :: int
  ln_gap_fill_interval :: int
  ln_parity_names :: int
  ln_basis_tolerance_bp :: real

definition LANE_KEYS :: "string list" where
  "LANE_KEYS =
     [''infra.backfill.ibkr_1d_reconcile_interval_days'', ''infra.backfill.update_overlap_sessions_1d'',
      ''infra.backfill.update_overlap_days_5m'', ''infra.backfill.gap_fill_interval_days'',
      ''infra.backfill.grid_parity_sample_names_per_week'',
      ''threshold.bar_integrity.fallback_basis_tolerance_bp'']"

definition load_lane_config :: "conv \<Rightarrow> (string \<times> string) list \<Rightarrow> err + lane_config" where
  "load_lane_config cv table =
     (let values = dict_of (filter (\<lambda>(k, _). k \<in> set LANE_KEYS) table);
          get = (\<lambda>i. the (map_of values (LANE_KEYS ! i)))
      in if \<exists>k \<in> set LANE_KEYS. map_of values k = None then Inl RuntimeError
         else
           ebind (cv_int cv (get 0)) (\<lambda>a. ebind (cv_int cv (get 1)) (\<lambda>b.
           ebind (cv_int cv (get 2)) (\<lambda>c. ebind (cv_int cv (get 3)) (\<lambda>d.
           ebind (cv_int cv (get 4)) (\<lambda>e. ebind (cv_float cv (get 5)) (\<lambda>f.
             Inr \<lparr>ln_reconcile_interval = a, ln_overlap_sessions_1d = b, ln_overlap_days_5m = c,
                  ln_gap_fill_interval = d, ln_parity_names = e, ln_basis_tolerance_bp = f\<rparr>)))))))"

section \<open>Lanes\<close>

record daily_answer =
  da_answered_at :: "stamp option"
  da_covered_window_end :: "stamp option"

record daily_rule =
  du_last_close :: stamp
  du_reconcile_after :: stamp

definition reconcile_after :: "stamp list \<Rightarrow> int \<Rightarrow> err + stamp" where
  "reconcile_after closes interval_sessions =
     (if interval_sessions < 1 \<or> int (length closes) < interval_sessions then Inl ValueError
      else Inr (sort closes ! (length closes - nat interval_sessions)))"

definition daily_due_reason :: "stamp option \<Rightarrow> day option \<Rightarrow> daily_rule \<Rightarrow> stamp option \<Rightarrow> string option" where
  "daily_due_reason latest_answered latest_canonical rule covered_window_end =
     (case latest_answered of
        None \<Rightarrow> Some ''never_asked''
      | Some answered \<Rightarrow>
          if answered < du_reconcile_after rule then Some ''reconcile_due''
          else
            let stale = (case latest_canonical of None \<Rightarrow> True | Some d \<Rightarrow> d < utc_day (du_last_close rule))
            in if stale \<and> answered < du_last_close rule then Some ''not_current''
               else if stale \<and> (case covered_window_end of None \<Rightarrow> False | Some w \<Rightarrow> w < du_last_close rule)
               then Some ''not_current''
               else None)"

text \<open>\<open>_stable_int\<close>: the hash of the parts joined by the unit separator.\<close>

definition stable_int :: "(string \<Rightarrow> int) \<Rightarrow> string list \<Rightarrow> int" where
  "stable_int hash64 parts = hash64 (concat (map (\<lambda>(i, p). (if i = (0::nat) then [] else [CHR 0x1F]) @ p) (enumerate 0 parts)))"

definition WEEKDAY_ORIGIN :: day where "WEEKDAY_ORIGIN = 730122"

definition weekday_index :: "day \<Rightarrow> int" where
  "weekday_index d = (let days = d - WEEKDAY_ORIGIN in (days div 7) * 5 + min (days mod 7) 5)"

definition gap_fill_due :: "(string \<Rightarrow> int) \<Rightarrow> string \<Rightarrow> string \<Rightarrow> day \<Rightarrow> int \<Rightarrow> bool" where
  "gap_fill_due hash64 symbol timeframe session_day interval_sessions =
     (if interval_sessions \<le> 1 then True
      else (weekday_index session_day + stable_int hash64 [symbol, timeframe]) mod interval_sessions = 0)"

text \<open>The year and week of \<open>date.isocalendar\<close>: those of the Thursday of the date's week.\<close>

definition iso_year_week :: "day \<Rightarrow> int \<times> int" where
  "iso_year_week d =
     (let thursday = d - weekday d + 3; y = year_of thursday in (y, (thursday - jan1 y) div 7 + 1))"

definition parity_week_start :: "day \<Rightarrow> stamp" where
  "parity_week_start d = (d - weekday d - 719163) * one_day"

fun dec :: "nat \<Rightarrow> string" where
  "dec n = (if n < 10 then [char_of (48 + n)] else dec (n div 10) @ [char_of (48 + n mod 10)])"

declare dec.simps [simp del]

definition parity_sample :: "(string \<Rightarrow> int) \<Rightarrow> string list \<Rightarrow> day \<Rightarrow> int \<Rightarrow> string list" where
  "parity_sample hash64 eligible d n =
     (if n \<le> 0 then []
      else
        let (year, week) = iso_year_week d
        in take (nat n) (sort_key (\<lambda>s. (stable_int hash64 [dec (nat year), dec (nat week), s], s))
             (sorted_set eligible)))"

record overlap_verdict =
  ov_n_pairs :: nat
  ov_median_ratio :: "real option"
  ov_n_restated :: nat
  ov_escalate :: bool
  ov_reason :: "string option"

definition judge_overlap :: "(real \<times> real) list \<Rightarrow> real \<Rightarrow> bool \<Rightarrow> overlap_verdict" where
  "judge_overlap pairs tolerance_bp escalate_on_restated =
     (let usable = filter (\<lambda>(s, f). f \<noteq> 0) pairs
      in if usable = [] then
           \<lparr>ov_n_pairs = 0, ov_median_ratio = None, ov_n_restated = 0, ov_escalate = False, ov_reason = None\<rparr>
         else
           let ratio = median (map (\<lambda>(s, f). s / f) usable);
               n_restated = length (filter (\<lambda>(s, f). s \<noteq> f) usable);
               reason = (if tolerance_bp < \<bar>ratio - 1\<bar> * 10000 then Some ''ratio_outside_tolerance''
                         else if escalate_on_restated \<and> n_restated \<noteq> 0 then Some ''restated_row'' else None)
           in \<lparr>ov_n_pairs = length usable, ov_median_ratio = Some ratio, ov_n_restated = n_restated,
               ov_escalate = (reason \<noteq> None), ov_reason = reason\<rparr>)"

section \<open>Ranking\<close>

record coverage_row =
  cv_symbol :: string
  cv_timeframe :: string
  cv_earliest :: "stamp option"
  cv_latest :: "stamp option"
  cv_last_fetch_status :: "string option"
  cv_consecutive_failures :: int
  cv_floor :: "stamp option"
  cv_last_fetched_at :: "stamp option"
  cv_provider :: string

definition SETTLED_STATUSES :: "string list" where "SETTLED_STATUSES = [''ok'', ''no_data'']"

definition is_current_row :: "coverage_row \<Rightarrow> stamp option \<Rightarrow> bool" where
  "is_current_row row current_after =
     (case (current_after, cv_last_fetched_at row, cv_last_fetch_status row) of
        (Some after, Some fetched, Some status) \<Rightarrow> status \<in> set SETTLED_STATUSES \<and> after \<le> fetched
      | _ \<Rightarrow> False)"

text \<open>The rank tuple: excluded, not 1d, not in the preempt band, timeframe class, negated gap, negated
  staleness, symbol, timeframe, provider; compared lexicographically.\<close>

datatype rank =
  Rank (rk_excluded: bool) (rk_not_daily: bool) (rk_no_breach: bool) (rk_class: int) (rk_gap: int)
    (rk_stale: int) (rk_symbol: string) (rk_timeframe: string) (rk_provider: string)

definition rank_tuple ::
  "rank \<Rightarrow> bool \<times> bool \<times> bool \<times> int \<times> int \<times> int \<times> string \<times> string \<times> string" where
  "rank_tuple r = (rk_excluded r, rk_not_daily r, rk_no_breach r, rk_class r, rk_gap r, rk_stale r,
     rk_symbol r, rk_timeframe r, rk_provider r)"

lemma rank_tuple_inj: "rank_tuple r = rank_tuple s \<longleftrightarrow> r = s"
  by (cases r; cases s) (simp add: rank_tuple_def)

instantiation rank :: linorder
begin

definition less_eq_rank :: "rank \<Rightarrow> rank \<Rightarrow> bool" where
  "less_eq_rank r s \<longleftrightarrow> rank_tuple r \<le> rank_tuple s"

definition less_rank :: "rank \<Rightarrow> rank \<Rightarrow> bool" where
  "less_rank r s \<longleftrightarrow> rank_tuple r < rank_tuple s"

instance
  by standard (auto simp: less_eq_rank_def less_rank_def rank_tuple_inj [symmetric] less_le_not_le)

end

record ranked_item =
  ri_row :: coverage_row
  ri_rank :: rank
  ri_sla_breach :: bool
  ri_tf_class :: int
  ri_gap_days :: int
  ri_staleness_days :: "int option"

definition days_since :: "stamp \<Rightarrow> day \<Rightarrow> int" where
  "days_since ts today = today - utc_day ts"

definition staleness_days :: "coverage_row \<Rightarrow> day \<Rightarrow> int option" where
  "staleness_days row today = map_option (\<lambda>ts. days_since ts today) (cv_latest row)"

definition coverage_gap_days :: "coverage_row \<Rightarrow> int option \<Rightarrow> int \<Rightarrow> day \<Rightarrow> int" where
  "coverage_gap_days row proven_days target_days today =
     (let actual = (case cv_earliest row of None \<Rightarrow> 0 | Some ts \<Rightarrow> days_since ts today);
          ceiling = (case proven_days of None \<Rightarrow> target_days | Some p \<Rightarrow> min target_days p);
          ceiling = (case cv_floor row of None \<Rightarrow> ceiling | Some ts \<Rightarrow> min ceiling (days_since ts today))
      in max 0 (ceiling - actual))"

definition prove_depth :: "day \<Rightarrow> (string \<times> int) list \<Rightarrow> coverage_row \<Rightarrow> (string \<times> int) list" where
  "prove_depth today proven row =
     (case cv_earliest row of
        None \<Rightarrow> proven
      | Some ts \<Rightarrow>
          let depth = days_since ts today;
              known = (case map_of proven (cv_symbol row) of None \<Rightarrow> -1 | Some k \<Rightarrow> k)
          in if known < depth then AList.update (cv_symbol row) depth proven else proven)"

definition proven_days_by_symbol :: "coverage_row list \<Rightarrow> day \<Rightarrow> (string \<times> int) list" where
  "proven_days_by_symbol rows today = foldl (prove_depth today) [] rows"

definition target_depth :: "coverage_row \<Rightarrow> queue_config \<Rightarrow> provider_plan option \<Rightarrow> int" where
  "target_depth row config plan =
     (let neutral = (case map_of (qc_depth_days config) (cv_timeframe row) of None \<Rightarrow> 0 | Some d \<Rightarrow> d)
      in case plan of
           None \<Rightarrow> neutral
         | Some p \<Rightarrow>
             if pp_name p \<noteq> cv_provider row then neutral
             else case map_of (pp_depth_overrides p) (cv_timeframe row) of None \<Rightarrow> neutral | Some d \<Rightarrow> d)"

definition components ::
  "coverage_row \<Rightarrow> int option \<Rightarrow> queue_config \<Rightarrow> day \<Rightarrow> provider_plan option \<Rightarrow> ranked_item" where
  "components row proven_days config today plan =
     (let stale = staleness_days row today;
          sla_breach = (case stale of None \<Rightarrow> False | Some s \<Rightarrow> qc_sla_days config < s);
          tf_class = (if cv_timeframe row \<in> set (qc_priority_tfs config) then -1 else 0);
          target = target_depth row config plan;
          gap = coverage_gap_days row proven_days target today;
          effective_stale = (case stale of None \<Rightarrow> target | Some s \<Rightarrow> s)
      in \<lparr>ri_row = row,
          ri_rank = Rank (qc_max_failures config < cv_consecutive_failures row) (cv_timeframe row \<noteq> DAILY_TF)
            (\<not> sla_breach) tf_class (- gap) (- effective_stale) (cv_symbol row) (cv_timeframe row) (cv_provider row),
          ri_sla_breach = sla_breach, ri_tf_class = tf_class, ri_gap_days = gap, ri_staleness_days = stale\<rparr>)"

definition queue_items ::
  "coverage_row list \<Rightarrow> queue_config \<Rightarrow> day \<Rightarrow> (string \<times> int) list \<Rightarrow> provider_plan option \<Rightarrow> ranked_item list" where
  "queue_items rows config today proven plan =
     sort_key ri_rank (filter (\<lambda>i. \<not> rk_excluded (ri_rank i))
       (map (\<lambda>r. components r (map_of proven (cv_symbol r)) config today plan) rows))"

definition order_queue ::
  "coverage_row list \<Rightarrow> queue_config \<Rightarrow> day \<Rightarrow> (string \<times> int) list \<Rightarrow> provider_plan option \<Rightarrow> coverage_row list" where
  "order_queue rows config today proven plan = map ri_row (queue_items rows config today proven plan)"

section \<open>The ledger\<close>

record head_row =
  hd_provider :: string
  hd_symbol :: string
  hd_timeframe :: "string option"
  hd_head_ts :: "stamp option"
  hd_verified_at :: stamp

record empty_row =
  em_provider :: string
  em_symbol :: string
  em_timeframe :: string
  em_empty_through :: "stamp option"
  em_verified_at :: stamp
  em_n_confirming :: int

record source_policy =
  sp_timeframe :: string
  sp_symbol :: "string option"
  sp_primary :: string
  sp_fallback :: "string option"
  sp_valid_from :: day
  sp_valid_to :: "day option"

record raw_row =
  rw_symbol :: string
  rw_timeframe :: string
  rw_vendor :: string
  rw_kind :: string
  rw_timestamp :: stamp

record ledger =
  ld_config :: "(string \<times> string) list"
  ld_coverage :: "coverage_row list"
  ld_heads :: "head_row list"
  ld_empties :: "empty_row list"
  ld_policy :: "source_policy list"
  ld_requests :: "fetch_request list"
  ld_raw :: "raw_row list"

definition policy_authorizes :: "source_policy list \<Rightarrow> string \<Rightarrow> string \<Rightarrow> day \<Rightarrow> string \<Rightarrow> bool" where
  "policy_authorizes rows symbol timeframe d provider =
     (let applicable = filter (\<lambda>r. sp_timeframe r = timeframe \<and> sp_valid_from r \<le> d \<and>
            (case sp_valid_to r of None \<Rightarrow> True | Some v \<Rightarrow> d < v)) rows;
          row = (case find (\<lambda>r. sp_symbol r = Some symbol) applicable of
                   Some r \<Rightarrow> Some r | None \<Rightarrow> find (\<lambda>r. sp_symbol r = None) applicable)
      in case row of
           None \<Rightarrow> provider = default_provider
         | Some r \<Rightarrow>
             if sp_primary r = DERIVED_SOURCE then provider = default_provider
             else provider = sp_primary r \<or> sp_fallback r = Some provider)"

section \<open>The queue\<close>

type_synonym key = "string \<times> string \<times> string"
type_synonym daily_inputs = "(string \<times> daily_answer) list \<times> (string \<times> day) list"

record pqueue =
  pq_config :: queue_config
  pq_candidates :: "key list"
  pq_today :: day
  pq_current_after :: "stamp option"
  pq_daily :: "daily_rule option"
  pq_holds :: "(string list \<times> stamp) list"
  pq_provider :: string
  pq_plan :: "provider_plan option"
  pq_items :: "ranked_item list"
  pq_held :: "(ranked_item \<times> string) list"
  pq_daily_inputs :: "daily_inputs option"
  pq_due_reasons :: "(key \<times> string) list"

definition new_queue ::
  "queue_config \<Rightarrow> string list list \<Rightarrow> day \<Rightarrow> stamp option \<Rightarrow> daily_rule option \<Rightarrow> (string list \<times> stamp) list
   \<Rightarrow> string \<Rightarrow> provider_plan option \<Rightarrow> err + pqueue" where
  "new_queue config candidates today current_after daily holds provider plan =
     ebind (emap series_key candidates) (\<lambda>keys.
       Inr \<lparr>pq_config = config, pq_candidates = keys, pq_today = today, pq_current_after = current_after,
            pq_daily = daily, pq_holds = holds, pq_provider = provider, pq_plan = plan, pq_items = [],
            pq_held = [], pq_daily_inputs = None, pq_due_reasons = []\<rparr>)"

definition plane :: "pqueue \<Rightarrow> string" where
  "plane q = (case pq_plan q of None \<Rightarrow> pq_provider q | Some p \<Rightarrow> pp_name p)"

definition answers_1d :: "pqueue \<Rightarrow> bool" where
  "answers_1d q = (case pq_plan q of None \<Rightarrow> True | Some p \<Rightarrow> pp_answers_1d p)"

definition hold_after :: "pqueue \<Rightarrow> key \<Rightarrow> stamp option" where
  "hold_after q = (\<lambda>(provider, symbol, timeframe).
     case map_of (pq_holds q) [provider, symbol, timeframe] of
       Some t \<Rightarrow> Some t
     | None \<Rightarrow> map_of (pq_holds q) [symbol, timeframe])"

definition in_scope :: "pqueue \<Rightarrow> key \<Rightarrow> bool" where
  "in_scope q = (\<lambda>(_, _, timeframe). \<not> (\<not> answers_1d q \<and> timeframe = DAILY_TF))"

definition row_key :: "coverage_row \<Rightarrow> key" where
  "row_key r = (cv_provider r, cv_symbol r, cv_timeframe r)"

definition load_thresholds :: "conv \<Rightarrow> pqueue \<Rightarrow> ledger \<Rightarrow> err + int \<times> int" where
  "load_thresholds cv q ld =
     (case map_of (rev (ld_config ld)) REVERIFY_DAYS_KEY of
        None \<Rightarrow> Inl RuntimeError
      | Some days \<Rightarrow>
          (case pq_plan q of
             Some p \<Rightarrow> ebind (cv_int cv days) (\<lambda>n. Inr (n, pp_confirmation_chunks p))
           | None \<Rightarrow>
               (case map_of (rev (ld_config ld)) KEY_CONFIRMATION_CHUNKS of
                  None \<Rightarrow> Inl RuntimeError
                | Some found \<Rightarrow> ebind (cv_int cv days) (\<lambda>n. ebind (cv_int cv found) (\<lambda>m. Inr (n, m))))))"

definition floor_of ::
  "(key \<times> stamp option) list \<Rightarrow> (key \<times> stamp option) list \<Rightarrow> string \<Rightarrow> string \<Rightarrow> string \<Rightarrow> stamp option" where
  "floor_of heads empties provider symbol timeframe =
     (let direct = (case map_of heads (provider, symbol, timeframe) of None \<Rightarrow> None | Some t \<Rightarrow> t);
          head = (if direct = None \<and> timeframe \<noteq> DAILY_TF
                  then (case map_of heads (provider, symbol, DAILY_TF) of None \<Rightarrow> None | Some t \<Rightarrow> t) else direct);
          empty = (case map_of empties (provider, symbol, timeframe) of None \<Rightarrow> None | Some t \<Rightarrow> t)
      in case (head, empty) of
           (Some h, Some e) \<Rightarrow> Some (max h e)
         | (Some h, None) \<Rightarrow> Some h
         | (None, e) \<Rightarrow> e)"

definition floors :: "ledger \<Rightarrow> string \<Rightarrow> string list \<Rightarrow> stamp \<Rightarrow> int \<Rightarrow> int \<Rightarrow> string \<Rightarrow> string \<Rightarrow> stamp option" where
  "floors ld provider symbols now reverify_days min_confirmations =
     (let heads = dict_of (map (\<lambda>h. ((provider, hd_symbol h,
                case hd_timeframe h of None \<Rightarrow> DAILY_TF | Some t \<Rightarrow> if t = '''' then DAILY_TF else t), hd_head_ts h))
              (filter (\<lambda>h. hd_provider h = provider \<and> hd_symbol h \<in> set symbols \<and>
                 now - reverify_days * one_day < hd_verified_at h) (ld_heads ld)));
          empties = dict_of (map (\<lambda>e. ((provider, em_symbol e, em_timeframe e), em_empty_through e))
              (filter (\<lambda>e. em_provider e = provider \<and> em_symbol e \<in> set symbols \<and>
                 now - reverify_days * one_day < em_verified_at e \<and> min_confirmations \<le> em_n_confirming e) (ld_empties ld)))
      in floor_of heads empties provider)"

definition max_opt :: "int list \<Rightarrow> int option" where
  "max_opt xs = (if xs = [] then None else Some (Max (set xs)))"

definition present :: "'a option list \<Rightarrow> 'a list" where
  "present xs = concat (map (\<lambda>x. case x of None \<Rightarrow> [] | Some y \<Rightarrow> [y]) xs)"

definition test_caller :: "string \<Rightarrow> bool" where
  "test_caller caller = (take 5 caller = ''test-'')"

definition daily_answers :: "ledger \<Rightarrow> (fetch_request \<Rightarrow> bool) \<Rightarrow> string \<Rightarrow> string list \<Rightarrow> stamp \<Rightarrow> (string \<times> daily_answer) list" where
  "daily_answers ld answer_filter provider symbols last_close =
     map (\<lambda>(symbol, rs). (symbol,
            \<lparr>da_answered_at = max_opt (present (map rq_answered_at rs)),
             da_covered_window_end = max_opt (present (map rq_window_end
               (filter (\<lambda>r. case rq_answered_at r of None \<Rightarrow> False | Some t \<Rightarrow> last_close \<le> t) rs)))\<rparr>))
       (group_by rq_symbol (filter (\<lambda>r. rq_source r = provider \<and> rq_timeframe r = DAILY_TF \<and> answer_filter r \<and>
          rq_outcome r \<in> {''bars'', ''no_data''} \<and> \<not> test_caller (rq_caller r) \<and> rq_symbol r \<in> set symbols)
          (ld_requests ld)))"

definition latest_own_1d :: "ledger \<Rightarrow> string \<Rightarrow> string list \<Rightarrow> stamp \<Rightarrow> (string \<times> day) list" where
  "latest_own_1d ld provider symbols since =
     map (\<lambda>(symbol, rs). (symbol, utc_day (Max (set (map rw_timestamp rs)))))
       (group_by rw_symbol (filter (\<lambda>r. rw_timeframe r = DAILY_TF \<and> rw_vendor r = provider \<and>
          rw_symbol r \<in> set symbols \<and> since \<le> rw_timestamp r \<and> rw_kind r \<notin> set DAILY_NOT_COVERAGE_KINDS)
          (ld_raw ld)))"

definition load_daily_inputs :: "pqueue \<Rightarrow> ledger \<Rightarrow> string list \<Rightarrow> daily_inputs" where
  "load_daily_inputs q ld symbols =
     (case pq_daily q of
        None \<Rightarrow> ([], [])
      | Some rule \<Rightarrow>
          if symbols = [] \<or> \<not> answers_1d q then ([], [])
          else
            let flt = (case pq_plan q of None \<Rightarrow> IBKR_DAILY_ANSWER_FILTER | Some p \<Rightarrow> pp_daily_answer_filter p)
            in (daily_answers ld flt (plane q) symbols (du_last_close rule),
                latest_own_1d ld (plane q) symbols (du_last_close rule - CANONICAL_LOOKBACK_DAYS * one_day)))"

text \<open>Whether a series is due, with the reason the daily rule records.\<close>

definition is_due :: "pqueue \<Rightarrow> daily_inputs option \<Rightarrow> coverage_row \<Rightarrow> bool \<times> string option" where
  "is_due q inputs row =
     (case (cv_timeframe row = DAILY_TF, pq_daily q, inputs) of
        (True, Some rule, Some (answers, canonical)) \<Rightarrow>
          if cv_last_fetch_status row = Some ''error'' then (True, Some ''error'')
          else
            let answer = map_of answers (cv_symbol row);
                reason = daily_due_reason (case answer of None \<Rightarrow> None | Some a \<Rightarrow> da_answered_at a)
                           (map_of canonical (cv_symbol row)) rule
                           (case answer of None \<Rightarrow> None | Some a \<Rightarrow> da_covered_window_end a)
            in (reason \<noteq> None, reason)
      | _ \<Rightarrow>
          (\<not> is_current_row row (case hold_after q (row_key row) of None \<Rightarrow> pq_current_after q | Some t \<Rightarrow> Some t), None))"

definition candidate_row :: "(key \<times> coverage_row) list \<Rightarrow> (string \<Rightarrow> string \<Rightarrow> stamp option) \<Rightarrow> key \<Rightarrow> coverage_row" where
  "candidate_row all_rows fl c =
     (case map_of all_rows c of
        Some r \<Rightarrow> r
      | None \<Rightarrow> case c of (provider, symbol, timeframe) \<Rightarrow>
          \<lparr>cv_symbol = symbol, cv_timeframe = timeframe, cv_earliest = None, cv_latest = None,
           cv_last_fetch_status = None, cv_consecutive_failures = 0, cv_floor = fl symbol timeframe,
           cv_last_fetched_at = None, cv_provider = provider\<rparr>)"

definition first_seen :: "'a list \<Rightarrow> 'a list" where
  "first_seen xs = rev (remdups (rev xs))"

definition held_reason :: "bool \<Rightarrow> ranked_item \<Rightarrow> string" where
  "held_reason allowed i = (if \<not> allowed then ''policy'' else if rk_excluded (ri_rank i) then ''excluded'' else ''current'')"

text \<open>\<open>load\<close>: the rows of the candidates over what the ledger holds of their symbols, then the split into
  the order and the series held back.\<close>

definition queue_symbols :: "pqueue \<Rightarrow> string list" where
  "queue_symbols q = sorted_set (map (\<lambda>(_, s, _). s) (pq_candidates q))"

definition scoped_candidates :: "pqueue \<Rightarrow> key list" where
  "scoped_candidates q = filter (in_scope q) (first_seen (pq_candidates q))"

definition ledger_rows :: "pqueue \<Rightarrow> ledger \<Rightarrow> (string \<Rightarrow> string \<Rightarrow> stamp option) \<Rightarrow> (key \<times> coverage_row) list" where
  "ledger_rows q ld fl =
     dict_of (map (\<lambda>r. (row_key r, r\<lparr>cv_floor := fl (cv_symbol r) (cv_timeframe r)\<rparr>))
       (filter (\<lambda>r. cv_symbol r \<in> set (queue_symbols q) \<and> cv_provider r = plane q) (ld_coverage ld)))"

definition authorized :: "pqueue \<Rightarrow> ledger \<Rightarrow> coverage_row \<Rightarrow> bool" where
  "authorized q ld r =
     policy_authorizes
       (filter (\<lambda>p. case sp_symbol p of None \<Rightarrow> True | Some s \<Rightarrow> s \<in> set (queue_symbols q)) (ld_policy ld))
       (cv_symbol r) (cv_timeframe r) (pq_today q) (cv_provider r)"

definition inputs_for :: "pqueue \<Rightarrow> ledger \<Rightarrow> daily_inputs option" where
  "inputs_for q ld =
     (if pq_daily q \<noteq> None \<and> pq_daily_inputs q = None
      then Some (load_daily_inputs q ld
             (sorted_set (map (\<lambda>(_, s, _). s) (filter (\<lambda>(_, _, tf). tf = DAILY_TF) (scoped_candidates q)))))
      else pq_daily_inputs q)"

definition split_rows ::
  "pqueue \<Rightarrow> ledger \<Rightarrow> daily_inputs option \<Rightarrow> (string \<times> int) list \<Rightarrow> coverage_row list \<Rightarrow> pqueue" where
  "split_rows q ld inputs proven rows =
     (let item = (\<lambda>r. components r (map_of proven (cv_symbol r)) (pq_config q) (pq_today q) (pq_plan q));
          reasons = concat (map (\<lambda>r. case snd (is_due q inputs r) of None \<Rightarrow> [] | Some why \<Rightarrow> [(row_key r, why)])
                      (filter (authorized q ld) rows));
          items = queue_items (filter (\<lambda>r. authorized q ld r \<and> fst (is_due q inputs r)) rows)
                    (pq_config q) (pq_today q) proven (pq_plan q);
          held = filter (\<lambda>r. row_key r \<notin> set (map (\<lambda>i. row_key (ri_row i)) items)) rows
      in q\<lparr>pq_items := items,
           pq_held := sort_key (\<lambda>p. ri_rank (fst p)) (map (\<lambda>r. (item r, held_reason (authorized q ld r) (item r))) held),
           pq_daily_inputs := inputs, pq_due_reasons := dict_of reasons\<rparr>)"

definition load_queue :: "conv \<Rightarrow> pqueue \<Rightarrow> ledger \<Rightarrow> stamp \<Rightarrow> err + pqueue" where
  "load_queue cv q ld now =
     ebind (load_thresholds cv q ld) (\<lambda>(reverify_days, min_confirmations).
       let fl = floors ld (plane q) (queue_symbols q) now reverify_days min_confirmations;
           all_rows = ledger_rows q ld fl
       in Inr (split_rows q ld (inputs_for q ld) (proven_days_by_symbol (map snd all_rows) (pq_today q))
                 (map (candidate_row all_rows fl) (scoped_candidates q))))"

definition due_reason :: "pqueue \<Rightarrow> string \<Rightarrow> string \<Rightarrow> string option \<Rightarrow> string" where
  "due_reason q symbol timeframe provider =
     (let key = (case provider of None \<Rightarrow> (default_provider, symbol, timeframe)
                 | Some p \<Rightarrow> if p = '''' then (default_provider, symbol, timeframe) else (p, symbol, timeframe))
      in case map_of (pq_due_reasons q) key of None \<Rightarrow> '''' | Some why \<Rightarrow> why)"

text \<open>\<open>next\<close>: reload, then the first item that the run has not visited.\<close>

definition next_item :: "conv \<Rightarrow> pqueue \<Rightarrow> ledger \<Rightarrow> stamp \<Rightarrow> key list \<Rightarrow> err + pqueue \<times> coverage_row option" where
  "next_item cv q ld now visited =
     ebind (load_queue cv q ld now) (\<lambda>q'.
       Inr (q', map_option ri_row (find (\<lambda>i. row_key (ri_row i) \<notin> set visited) (pq_items q'))))"

end
