(* ===== verification/Fetch_Queue_Correct.thy ===== *)
theory Fetch_Queue_Correct
  imports Fetch_Queue
begin

text \<open>
  What the fetch queue promises: every candidate is either queued or held with a reason, the order is
  total and independent of the input order, a run ends and asks each series once, and the configured
  budgets are consistent.
\<close>

section \<open>Keys\<close>

lemma components_sel [simp]:
  "ri_row (components r p config today plan) = r"
  "rk_excluded (ri_rank (components r p config today plan)) = (qc_max_failures config < cv_consecutive_failures r)"
  "rk_not_daily (ri_rank (components r p config today plan)) = (cv_timeframe r \<noteq> DAILY_TF)"
  "rk_no_breach (ri_rank (components r p config today plan)) = (\<not> ri_sla_breach (components r p config today plan))"
  "rk_symbol (ri_rank (components r p config today plan)) = cv_symbol r"
  "rk_timeframe (ri_rank (components r p config today plan)) = cv_timeframe r"
  "rk_provider (ri_rank (components r p config today plan)) = cv_provider r"
  by (simp_all add: components_def Let_def)

lemma rank_key: "ri_rank (components r p config today plan) = ri_rank (components r' p' config today plan) \<Longrightarrow> row_key r = row_key r'"
  by (metis components_sel(5-7) row_key_def)

lemma row_key_floor [simp]: "row_key (r\<lparr>cv_floor := f\<rparr>) = row_key r"
  by (simp add: row_key_def)

lemma candidate_row_key: "row_key (candidate_row (ledger_rows q ld fl) fl' c) = c"
proof (cases "map_of (ledger_rows q ld fl) c")
  case None
  then show ?thesis by (cases c) (simp add: candidate_row_def row_key_def)
next
  case (Some r)
  from map_of_SomeD [OF Some [unfolded ledger_rows_def dict_of_lookup]] have "row_key r = c" by auto
  with Some show ?thesis by (simp add: candidate_row_def)
qed

lemma set_first_seen [simp]: "set (first_seen xs) = set xs"
  by (simp add: first_seen_def)

lemma distinct_first_seen [simp]: "distinct (first_seen xs)"
  by (simp add: first_seen_def)

section \<open>One load\<close>

definition item_key :: "ranked_item \<Rightarrow> key" where
  "item_key i = row_key (ri_row i)"

lemma queue_items_rows:
  "mset (map ri_row (queue_items rows config today proven plan)) =
     mset (filter (\<lambda>r. \<not> qc_max_failures config < cv_consecutive_failures r) rows)"
proof -
  have "mset (map ri_row (queue_items rows config today proven plan)) =
      mset (map ri_row (filter (\<lambda>i. \<not> rk_excluded (ri_rank i))
        (map (\<lambda>r. components r (map_of proven (cv_symbol r)) config today plan) rows)))"
    unfolding queue_items_def mset_map mset_sort ..
  also have "map ri_row (filter (\<lambda>i. \<not> rk_excluded (ri_rank i))
        (map (\<lambda>r. components r (map_of proven (cv_symbol r)) config today plan) rows)) =
      filter (\<lambda>r. \<not> qc_max_failures config < cv_consecutive_failures r) rows"
    by (simp add: filter_map comp_def)
  finally show ?thesis .
qed

lemma queue_items_built:
  "i \<in> set (queue_items rows config today proven plan) \<Longrightarrow>
   \<exists>r \<in> set rows. i = components r (map_of proven (cv_symbol r)) config today plan"
  by (auto simp: queue_items_def)

lemma queue_items_ranks:
  assumes "distinct (map row_key rows)"
  shows "sorted_wrt (<) (map ri_rank (queue_items rows config today proven plan))"
proof -
  let ?is = "queue_items rows config today proven plan"
  have "mset (map item_key ?is) = mset (map row_key (filter (\<lambda>r. \<not> qc_max_failures config < cv_consecutive_failures r) rows))"
    using arg_cong [OF queue_items_rows [of rows config today proven plan], of "image_mset row_key"]
    by (simp add: item_key_def [abs_def] comp_def multiset.map_comp)
  moreover have "distinct (map row_key (filter (\<lambda>r. \<not> qc_max_failures config < cv_consecutive_failures r) rows))"
    using assms by (rule distinct_map_filter)
  ultimately have keys: "distinct (map item_key ?is)" by (metis mset_eq_imp_distinct_iff)
  have "ri_rank i \<noteq> ri_rank j" if "i \<in> set ?is" "j \<in> set ?is" "i \<noteq> j" for i j
  proof
    assume "ri_rank i = ri_rank j"
    with queue_items_built [OF that(1)] queue_items_built [OF that(2)] rank_key
    have "item_key i = item_key j" by (metis components_sel(1) item_key_def)
    with keys that show False by (auto simp: distinct_map inj_on_def)
  qed
  moreover have "distinct ?is" using keys by (simp add: distinct_map)
  ultimately have "distinct (map ri_rank ?is)" by (auto simp: distinct_map inj_on_def)
  moreover have "sorted (map ri_rank ?is)" by (simp add: queue_items_def)
  ultimately show ?thesis by (simp add: strict_sorted_iff)
qed

lemma scoped_distinct [simp]: "distinct (scoped_candidates q)"
  by (simp add: scoped_candidates_def)

lemma set_scoped: "set (scoped_candidates q) = {c \<in> set (pq_candidates q). in_scope q c}"
  by (auto simp: scoped_candidates_def)

lemma load_queue_split:
  assumes "load_queue cv q ld now = Inr q'"
  shows "\<exists>proven rows. q' = split_rows q ld (inputs_for q ld) proven rows \<and> map row_key rows = scoped_candidates q"
  using assms by (force simp: load_queue_def ebind_eq_Inr Let_def comp_def candidate_row_key)

lemma split_items:
  "pq_items (split_rows q ld inputs proven rows) =
     queue_items (filter (\<lambda>r. authorized q ld r \<and> fst (is_due q inputs r)) rows) (pq_config q) (pq_today q) proven (pq_plan q)"
  by (simp add: split_rows_def Let_def)

lemma split_frame [simp, frame_simps]:
  "pq_candidates (split_rows q ld inputs proven rows) = pq_candidates q"
  "pq_config (split_rows q ld inputs proven rows) = pq_config q"
  "pq_plan (split_rows q ld inputs proven rows) = pq_plan q"
  "pq_daily_inputs (split_rows q ld inputs proven rows) = inputs"
  by (simp_all add: split_rows_def Let_def)

definition queued_row :: "pqueue \<Rightarrow> ledger \<Rightarrow> daily_inputs option \<Rightarrow> coverage_row \<Rightarrow> bool" where
  "queued_row q ld inputs r \<longleftrightarrow> authorized q ld r \<and> fst (is_due q inputs r) \<and>
     \<not> qc_max_failures (pq_config q) < cv_consecutive_failures r"

lemma split_item_rows:
  "mset (map ri_row (pq_items (split_rows q ld inputs proven rows))) = mset (filter (queued_row q ld inputs) rows)"
  unfolding split_items queue_items_rows
  by (simp add: queued_row_def [abs_def] conj_assoc)

lemma key_determines:
  assumes "distinct (map row_key rows)" "r \<in> set rows"
  shows "row_key r \<in> row_key ` set (filter P rows) \<longleftrightarrow> P r"
  using assms by (auto simp: distinct_map inj_on_def)

lemma split_held_rows:
  assumes "distinct (map row_key rows)"
  shows "mset (map (\<lambda>p. ri_row (fst p)) (pq_held (split_rows q ld inputs proven rows))) =
      mset (filter (\<lambda>r. \<not> queued_row q ld inputs r) rows)"
    and "(i, why) \<in> set (pq_held (split_rows q ld inputs proven rows)) \<Longrightarrow>
      \<not> queued_row q ld inputs (ri_row i) \<and> ri_row i \<in> set rows \<and>
      why = (if \<not> authorized q ld (ri_row i) then ''policy''
             else if qc_max_failures (pq_config q) < cv_consecutive_failures (ri_row i) then ''excluded'' else ''current'')"
proof -
  let ?item = "\<lambda>r. components r (map_of proven (cv_symbol r)) (pq_config q) (pq_today q) (pq_plan q)"
  let ?q' = "split_rows q ld inputs proven rows"
  have "set (map (\<lambda>i. row_key (ri_row i)) (pq_items ?q')) = row_key ` set (filter (queued_row q ld inputs) rows)"
    using arg_cong [OF split_item_rows [of q ld inputs proven rows], of "\<lambda>m. row_key ` set_mset m"]
    by (simp add: image_image)
  then have keys: "row_key r \<in> set (map (\<lambda>i. row_key (ri_row i)) (pq_items ?q')) \<longleftrightarrow> queued_row q ld inputs r"
    if "r \<in> set rows" for r
    using key_determines [OF assms that] by blast
  have "pq_held ?q' = sort_key (\<lambda>p. ri_rank (fst p)) (map (\<lambda>r. (?item r, held_reason (authorized q ld r) (?item r)))
      (filter (\<lambda>r. row_key r \<notin> set (map (\<lambda>i. row_key (ri_row i)) (pq_items ?q'))) rows))"
    by (simp add: split_rows_def Let_def)
  also have "filter (\<lambda>r. row_key r \<notin> set (map (\<lambda>i. row_key (ri_row i)) (pq_items ?q'))) rows =
      filter (\<lambda>r. \<not> queued_row q ld inputs r) rows"
    using keys by (intro filter_cong refl) blast
  finally have held: "pq_held ?q' = sort_key (\<lambda>p. ri_rank (fst p))
      (map (\<lambda>r. (?item r, held_reason (authorized q ld r) (?item r))) (filter (\<lambda>r. \<not> queued_row q ld inputs r) rows))" .
  show "mset (map (\<lambda>p. ri_row (fst p)) (pq_held ?q')) = mset (filter (\<lambda>r. \<not> queued_row q ld inputs r) rows)"
    unfolding held mset_map mset_sort by (simp add: comp_def multiset.map_comp)
  show "(i, why) \<in> set (pq_held ?q') \<Longrightarrow> \<not> queued_row q ld inputs (ri_row i) \<and> ri_row i \<in> set rows \<and>
      why = (if \<not> authorized q ld (ri_row i) then ''policy''
             else if qc_max_failures (pq_config q) < cv_consecutive_failures (ri_row i) then ''excluded'' else ''current'')"
    unfolding held by (auto simp: held_reason_def)
qed

lemma split_partition:
  assumes "distinct (map row_key rows)"
  shows "mset (map item_key (pq_items (split_rows q ld inputs proven rows)) @
           map (\<lambda>p. item_key (fst p)) (pq_held (split_rows q ld inputs proven rows))) = mset (map row_key rows)"
proof -
  have "mset (map item_key (pq_items (split_rows q ld inputs proven rows))) =
      image_mset row_key (mset (filter (queued_row q ld inputs) rows))"
    using arg_cong [OF split_item_rows [of q ld inputs proven rows], of "image_mset row_key"]
    by (simp add: item_key_def [abs_def] comp_def multiset.map_comp)
  moreover have "mset (map (\<lambda>p. item_key (fst p)) (pq_held (split_rows q ld inputs proven rows))) =
      image_mset row_key (mset (filter (\<lambda>r. \<not> queued_row q ld inputs r) rows))"
    using arg_cong [OF split_held_rows(1) [OF assms, of q ld inputs proven], of "image_mset row_key"]
    by (simp add: item_key_def [abs_def] comp_def multiset.map_comp)
  ultimately show ?thesis
    by (simp add: image_mset_union [symmetric] flip: multiset_partition)
qed

text \<open>C30. A load loses and duplicates no series: every candidate the provider's scope admits stands exactly
  once, in the fetch order or among the series held back.  What is queued is authorized by the source policy,
  due, and has not failed too often; what is held back carries the first of the three reasons that applies.\<close>

theorem queue_partition:
  assumes "load_queue cv q ld now = Inr q'"
  shows "distinct (map item_key (pq_items q') @ map (\<lambda>p. item_key (fst p)) (pq_held q')) \<and>
    set (map item_key (pq_items q') @ map (\<lambda>p. item_key (fst p)) (pq_held q')) =
      {c \<in> set (pq_candidates q). in_scope q c} \<and>
    (\<forall>i \<in> set (pq_items q'). authorized q ld (ri_row i) \<and> fst (is_due q (pq_daily_inputs q') (ri_row i)) \<and>
       cv_consecutive_failures (ri_row i) \<le> qc_max_failures (pq_config q)) \<and>
    (\<forall>(i, why) \<in> set (pq_held q').
       if \<not> authorized q ld (ri_row i) then why = ''policy''
       else if qc_max_failures (pq_config q) < cv_consecutive_failures (ri_row i) then why = ''excluded''
       else why = ''current'' \<and> \<not> fst (is_due q (pq_daily_inputs q') (ri_row i)))"
proof -
  from load_queue_split [OF assms] obtain proven rows
    where q': "q' = split_rows q ld (inputs_for q ld) proven rows" and keys: "map row_key rows = scoped_candidates q"
    by blast
  let ?inputs = "inputs_for q ld"
  have dis: "distinct (map row_key rows)" by (simp add: keys)
  note part = split_partition [OF dis, of q ld ?inputs proven, unfolded keys, folded q']
  have "queued_row q ld ?inputs (ri_row i)" if "i \<in> set (pq_items q')" for i
  proof -
    have "ri_row i \<in># mset (map ri_row (pq_items q'))" using that by simp
    then show ?thesis unfolding q' split_item_rows by simp
  qed
  moreover have "pq_daily_inputs q' = ?inputs" by (simp add: q')
  moreover note split_held_rows(2) [OF dis, of _ _ q ld ?inputs proven, folded q']
  moreover have "distinct (map item_key (pq_items q') @ map (\<lambda>p. item_key (fst p)) (pq_held q'))"
    using part mset_eq_imp_distinct_iff scoped_distinct by blast
  moreover have "set (map item_key (pq_items q') @ map (\<lambda>p. item_key (fst p)) (pq_held q')) =
      {c \<in> set (pq_candidates q). in_scope q c}"
    using mset_eq_setD [OF part] by (simp only: set_scoped)
  ultimately show ?thesis by (fastforce simp: queued_row_def)
qed

lemma queue_items_permuted:
  assumes dis: "distinct (map row_key rows)" and perm: "mset rows = mset rows'"
  shows "queue_items rows config today proven plan = queue_items rows' config today proven plan"
proof -
  let ?q = "queue_items rows config today proven plan" and ?q' = "queue_items rows' config today proven plan"
  have dis': "distinct (map row_key rows')"
    using dis arg_cong [OF perm, of "image_mset row_key"] by (metis mset_eq_imp_distinct_iff mset_map)
  have m: "mset ?q = mset ?q'" by (simp add: queue_items_def perm)
  have "map ri_rank ?q = map ri_rank ?q'"
    using queue_items_ranks [OF dis, of config today proven plan] queue_items_ranks [OF dis', of config today proven plan]
      mset_eq_setD [OF m]
    by (intro sorted_distinct_set_unique) (simp_all add: strict_sorted_iff)
  moreover have "inj_on ri_rank (set ?q \<union> set ?q')"
    using queue_items_ranks [OF dis, of config today proven plan] mset_eq_setD [OF m]
    by (simp add: strict_sorted_iff distinct_map)
  ultimately show ?thesis by (rule map_inj_on)
qed

lemma rank_less_class:
  assumes "r < s"
  shows "rk_not_daily r \<Longrightarrow> \<not> rk_excluded r \<Longrightarrow> \<not> rk_excluded s \<Longrightarrow> rk_not_daily s"
    and "\<not> rk_excluded r \<Longrightarrow> \<not> rk_excluded s \<Longrightarrow> rk_not_daily r = rk_not_daily s \<Longrightarrow> rk_no_breach r \<Longrightarrow> rk_no_breach s"
  using assms by (auto simp: less_rank_def rank_tuple_def)

lemma queue_items_not_excluded: "i \<in> set (queue_items rows config today proven plan) \<Longrightarrow> \<not> rk_excluded (ri_rank i)"
  by (auto simp: queue_items_def)

text \<open>The fetch order does not depend on the order the rows come in, the ranks ascend strictly, every daily series
  stands before every other series, and within each of the two groups a series whose newest bar is older than the
  preempt threshold stands before one that is not.\<close>

theorem queue_order:
  assumes "distinct (map row_key rows)" and "mset rows = mset rows'"
    and "i < j" and "j < length (queue_items rows config today proven plan)"
  shows "queue_items rows' config today proven plan = queue_items rows config today proven plan \<and>
    (let a = queue_items rows config today proven plan ! i; b = queue_items rows config today proven plan ! j
     in ri_rank a < ri_rank b \<and>
        (cv_timeframe (ri_row b) = DAILY_TF \<longrightarrow> cv_timeframe (ri_row a) = DAILY_TF) \<and>
        ((cv_timeframe (ri_row a) = DAILY_TF) = (cv_timeframe (ri_row b) = DAILY_TF) \<longrightarrow>
          ri_sla_breach b \<longrightarrow> ri_sla_breach a))"
proof -
  let ?q = "queue_items rows config today proven plan"
  have mem: "?q ! i \<in> set ?q" "?q ! j \<in> set ?q" using assms(3,4) by simp_all
  have less: "ri_rank (?q ! i) < ri_rank (?q ! j)"
    using queue_items_ranks [OF assms(1), of config today proven plan] assms(3,4)
    by (simp add: sorted_wrt_iff_nth_less)
  have built: "rk_not_daily (ri_rank a) = (cv_timeframe (ri_row a) \<noteq> DAILY_TF) \<and> rk_no_breach (ri_rank a) = (\<not> ri_sla_breach a)"
    if "a \<in> set ?q" for a
    using queue_items_built [OF that] by auto
  from rank_less_class [OF less] built [OF mem(1)] built [OF mem(2)]
    queue_items_not_excluded [OF mem(1)] queue_items_not_excluded [OF mem(2)] less
    queue_items_permuted [OF assms(1,2), of config today proven plan]
  show ?thesis by (auto simp: Let_def)
qed

section \<open>The claim loop\<close>

lemma next_item_candidate:
  assumes "next_item cv q ld now visited = Inr (q', Some r)"
  shows "row_key r \<in> set (scoped_candidates q)" "row_key r \<notin> set visited"
    and "pq_candidates q' = pq_candidates q"
proof -
  from assms obtain i where load: "load_queue cv q ld now = Inr q'"
    and i: "find (\<lambda>i. row_key (ri_row i) \<notin> set visited) (pq_items q') = Some i" "r = ri_row i"
    by (auto simp: next_item_def ebind_eq_Inr)
  from load_queue_split [OF load] obtain proven rows
    where q': "q' = split_rows q ld (inputs_for q ld) proven rows" and keys: "map row_key rows = scoped_candidates q"
    by blast
  from find_Some_iff2 [OF i(1)] have "i \<in> set (pq_items q')" and new: "row_key r \<notin> set visited"
    using i by simp_all
  then have "r \<in># mset (map ri_row (pq_items q'))" using i by simp
  then have "r \<in> set rows" unfolding q' split_item_rows by simp
  then show "row_key r \<in> set (scoped_candidates q)" by (metis keys image_eqI list.set_map)
  show "row_key r \<notin> set visited" by (rule new)
  show "pq_candidates q' = pq_candidates q" by (simp add: q')
qed

text \<open>The claim loop of the workers in \<open>_loop\<close>: the claims form one sequence, because \<open>next\<close> and the mark of
  the claimed item run under one lock.  \<open>world n\<close> is what the n-th claim finds, the tables and the clock.\<close>

function drain :: "conv \<Rightarrow> (nat \<Rightarrow> ledger \<times> stamp) \<Rightarrow> nat \<Rightarrow> pqueue \<Rightarrow> key list \<Rightarrow> err + key list" where
  "drain cv world n q visited =
     ebind (next_item cv q (fst (world n)) (snd (world n)) visited) (\<lambda>r.
       case snd r of
         None \<Rightarrow> Inr visited
       | Some row \<Rightarrow>
           if row_key row \<in> set visited then Inr visited
           else drain cv world (Suc n) (fst r) (visited @ [row_key row]))"
  by pat_completeness auto
termination
proof (relation "measure (\<lambda>(cv, world, n, q, visited). card (set (pq_candidates q) - set visited))", goal_cases)
  case (2 cv world n q visited r row)
  then have "next_item cv q (fst (world n)) (snd (world n)) visited = Inr (fst r, Some row)"
    by (cases r) simp
  note cand = next_item_candidate [OF this]
  then have "card (set (pq_candidates q) - insert (row_key row) (set visited)) <
      card (set (pq_candidates q) - set visited)"
    by (intro psubset_card_mono) (auto simp: set_scoped)
  with cand show ?case by simp
qed simp

declare drain.simps [simp del]

lemma drain_frame [simp]: "in_scope (split_rows q ld inputs proven rows) = in_scope q"
  by (simp add: in_scope_def answers_1d_def fun_eq_iff)

lemma next_item_scoped:
  "next_item cv q ld now visited = Inr (q', row) \<Longrightarrow> scoped_candidates q' = scoped_candidates q"
  by (auto simp: next_item_def ebind_eq_Inr scoped_candidates_def dest!: load_queue_split)

text \<open>One induction for the facts about a drain: the claims extend what was visited, without a repetition, by series of
  the scope, and the last claim found everything in the queue visited.\<close>

lemma drain_claims:
  assumes "drain cv world n q visited = Inr keys" and "distinct visited"
  shows "(\<exists>new. keys = visited @ new \<and> distinct keys \<and> set new \<subseteq> set (scoped_candidates q)) \<and>
    (\<exists>m \<ge> n. \<exists>q' q''. load_queue cv q' (fst (world m)) (snd (world m)) = Inr q'' \<and> scoped_candidates q' = scoped_candidates q \<and>
      set (map item_key (pq_items q'')) \<subseteq> set keys)"
  using assms
proof (induction cv world n q visited rule: drain.induct)
  case (1 cv world n q visited)
  from "1.prems"(1) obtain q' row where
    nxt: "next_item cv q (fst (world n)) (snd (world n)) visited = Inr (q', row)"
    by (auto simp: drain.simps [of cv world n q] ebind_eq_Inr)
  show ?case
  proof (cases row)
    case None
    with nxt have load: "load_queue cv q (fst (world n)) (snd (world n)) = Inr q'"
      and all: "find (\<lambda>i. row_key (ri_row i) \<notin> set visited) (pq_items q') = None"
      by (auto simp: next_item_def ebind_eq_Inr)
    have "keys = visited" using "1.prems"(1) nxt None by (simp add: drain.simps [of cv world n q])
    moreover have "set (map item_key (pq_items q')) \<subseteq> set visited"
      using all by (auto simp: find_None_iff item_key_def)
    ultimately show ?thesis using load "1.prems"(2) by auto
  next
    case (Some r)
    note cand = next_item_candidate [OF nxt [unfolded Some]]
    have rest: "drain cv world (Suc n) (fst (q', row)) (visited @ [row_key r]) = Inr keys"
      using "1.prems"(1) nxt Some cand by (simp add: drain.simps [of cv world n q])
    have fresh: "distinct (visited @ [row_key r])" "snd (q', row) = Some r"
      using Some cand "1.prems"(2) by simp_all
    from "1.IH" [OF nxt fresh(2) cand(2) rest fresh(1)]
    have IH: "(\<exists>new. keys = (visited @ [row_key r]) @ new \<and> distinct keys \<and> set new \<subseteq> set (scoped_candidates q')) \<and>
      (\<exists>m \<ge> Suc n. \<exists>p p'. load_queue cv p (fst (world m)) (snd (world m)) = Inr p' \<and> scoped_candidates p = scoped_candidates q' \<and>
        set (map item_key (pq_items p')) \<subseteq> set keys)"
      by simp
    with cand next_item_scoped [OF nxt] show ?thesis by (fastforce dest: Suc_leD)
  qed
qed

lemma load_queue_total:
  "load_thresholds cv q ld = Inr t \<Longrightarrow> \<exists>q'. load_queue cv q ld now = Inr q'"
  by (cases t) (simp add: load_queue_def Let_def)

lemma load_queue_plan: "load_queue cv q ld now = Inr q' \<Longrightarrow> pq_plan q' = pq_plan q"
  by (auto dest!: load_queue_split)

lemma load_thresholds_cong: "pq_plan q = pq_plan q' \<Longrightarrow> load_thresholds cv q ld = load_thresholds cv q' ld"
  unfolding load_thresholds_def by (simp only:)

lemma drain_total:
  assumes "\<And>m. \<exists>t. load_thresholds cv q (fst (world m)) = Inr t"
  shows "\<exists>keys. drain cv world n q visited = Inr keys"
  using assms
proof (induction cv world n q visited rule: drain.induct)
  case (1 cv world n q visited)
  from "1.prems" [of n] load_queue_total obtain q' where load: "load_queue cv q (fst (world n)) (snd (world n)) = Inr q'"
    by blast
  then obtain row where nxt: "next_item cv q (fst (world n)) (snd (world n)) visited = Inr (q', row)"
    by (simp add: next_item_def)
  show ?case
  proof (cases row)
    case None
    with nxt show ?thesis by (simp add: drain.simps [of cv world n q])
  next
    case (Some r)
    note cand = next_item_candidate [OF nxt [unfolded Some]]
    have "\<exists>t. load_thresholds cv (fst (q', row)) (fst (world m)) = Inr t" for m
      using "1.prems" [of m] load_thresholds_cong [of q' q] load_queue_plan [OF load] by simp
    from "1.IH" [OF nxt _ cand(2) this] Some
    obtain keys where "drain cv world (Suc n) q' (visited @ [row_key r]) = Inr keys" by auto
    with nxt Some cand show ?thesis by (simp add: drain.simps [of cv world n q])
  qed
qed


text \<open>With a ledger that does not change, a reload gives the same queue.\<close>

lemma split_fields [simp]:
  "pq_today (split_rows q ld inputs proven rows) = pq_today q"
  "pq_daily (split_rows q ld inputs proven rows) = pq_daily q"
  "pq_current_after (split_rows q ld inputs proven rows) = pq_current_after q"
  "pq_holds (split_rows q ld inputs proven rows) = pq_holds q"
  "pq_provider (split_rows q ld inputs proven rows) = pq_provider q"
  by (simp_all add: split_rows_def Let_def)

lemma split_reads [simp]:
  "hold_after (split_rows q ld inputs proven rows) = hold_after q"
  "plane (split_rows q ld inputs proven rows) = plane q"
  "queue_symbols (split_rows q ld inputs proven rows) = queue_symbols q"
  unfolding hold_after_def plane_def queue_symbols_def split_fields split_frame by (rule refl)+

lemma split_authorized [simp]: "authorized (split_rows q ld inputs proven rows) = authorized q"
  unfolding authorized_def fun_eq_iff split_fields split_reads by (intro allI refl)

lemma is_due_split [simp]: "is_due (split_rows q ld inputs proven rows) = is_due q"
  unfolding is_due_def fun_eq_iff split_fields split_reads by (intro allI refl)

lemma split_again: "split_rows (split_rows q ld inputs proven rows) ld inputs proven rows = split_rows q ld inputs proven rows"
  unfolding split_rows_def [of "split_rows q ld inputs proven rows"] split_authorized is_due_split split_fields
    split_frame Let_def
  by (simp add: split_rows_def Let_def)

lemma load_queue_again:
  assumes "load_queue cv q ld now = Inr q'"
  shows "load_queue cv q' ld now = Inr q'"
proof -
  obtain days confirmations where t: "load_thresholds cv q ld = Inr (days, confirmations)"
    using assms by (auto simp: load_queue_def ebind_eq_Inr)
  let ?fl = "floors ld (plane q) (queue_symbols q) now days confirmations"
  let ?all = "ledger_rows q ld ?fl"
  let ?proven = "proven_days_by_symbol (map snd ?all) (pq_today q)"
  let ?rows = "map (candidate_row ?all ?fl) (scoped_candidates q)"
  have q': "q' = split_rows q ld (inputs_for q ld) ?proven ?rows"
    using assms t by (simp add: load_queue_def Let_def)
  have same: "ledger_rows q' ld = ledger_rows q ld" "scoped_candidates q' = scoped_candidates q"
    "load_thresholds cv q' ld = load_thresholds cv q ld"
    by (simp_all add: q' ledger_rows_def scoped_candidates_def fun_eq_iff cong: load_thresholds_cong)
  have inputs: "inputs_for q' ld = inputs_for q ld"
    by (auto simp: q' inputs_for_def)
  have "load_queue cv q' ld now = Inr (split_rows q' ld (inputs_for q ld) ?proven ?rows)"
    using t by (simp add: load_queue_def [of cv q'] same inputs Let_def) (simp add: q')
  also have "split_rows q' ld (inputs_for q ld) ?proven ?rows = q'"
    unfolding q' by (rule split_again)
  finally show ?thesis .
qed

lemma find_next_new:
  assumes "distinct (map f xs)" and "k < length xs"
  shows "find (\<lambda>x. f x \<notin> set (take k (map f xs))) xs = Some (xs ! k)"
proof -
  have in_take: "f (xs ! j) \<in> set (take k (map f xs)) \<longleftrightarrow> j < k" if "j < length xs" for j
  proof -
    have "f (xs ! j) \<in> set (take k (map f xs)) \<longleftrightarrow> (\<exists>m < k. map f xs ! m = map f xs ! j)"
      using that assms(2) by (auto simp: in_set_conv_nth)
    also have "\<dots> \<longleftrightarrow> (\<exists>m < k. m = j)"
      using assms that by (auto simp: nth_eq_iff_index_eq simp del: nth_map)
    finally show ?thesis by simp
  qed
  with assms(2) show ?thesis by (auto simp: find_Some_iff)
qed

lemma load_queue_distinct:
  assumes "load_queue cv q ld now = Inr q'"
  shows "distinct (map item_key (pq_items q'))"
proof -
  from load_queue_split [OF assms] obtain proven rows
    where q': "q' = split_rows q ld (inputs_for q ld) proven rows" and keys: "map row_key rows = scoped_candidates q"
    by blast
  have "distinct (map item_key (pq_items q') @ map (\<lambda>p. item_key (fst p)) (pq_held q'))"
    using split_partition [of rows q ld "inputs_for q ld" proven, folded q'] keys
    by (metis mset_eq_imp_distinct_iff scoped_distinct)
  then show ?thesis by simp
qed

lemma drain_rest:
  assumes "load_queue cv q ld now = Inr q'" and "k \<le> length (pq_items q')"
  shows "drain cv (\<lambda>_. (ld, now)) n q (take k (map item_key (pq_items q'))) = Inr (map item_key (pq_items q'))"
  using assms
proof (induction "length (pq_items q') - k" arbitrary: k n q)
  case 0
  then have "k = length (pq_items q')" by simp
  moreover have "find (\<lambda>i. row_key (ri_row i) \<notin> set (map item_key (pq_items q'))) (pq_items q') = None"
    by (auto simp: find_None_iff item_key_def)
  ultimately show ?case using 0(2) by (simp add: drain.simps [of cv _ n q] next_item_def)
next
  case (Suc d)
  let ?keys = "map item_key (pq_items q')"
  have k: "k < length (pq_items q')" using Suc(2) by simp
  have "find (\<lambda>i. row_key (ri_row i) \<notin> set (take k ?keys)) (pq_items q') = Some (pq_items q' ! k)"
    using find_next_new [OF load_queue_distinct [OF Suc(3)] k] by (simp add: item_key_def)
  then have nxt: "next_item cv q ld now (take k ?keys) = Inr (q', Some (ri_row (pq_items q' ! k)))"
    using Suc(3) by (simp add: next_item_def)
  have "take (Suc k) ?keys = take k ?keys @ [row_key (ri_row (pq_items q' ! k))]"
    using k by (simp add: take_Suc_conv_app_nth item_key_def)
  moreover have "drain cv (\<lambda>_. (ld, now)) (Suc n) q' (take (Suc k) ?keys) = Inr ?keys"
    using Suc(2) k by (intro Suc(1) load_queue_again [OF Suc(3)]) simp_all
  ultimately show ?case
    using nxt next_item_candidate(2) [OF nxt] by (simp add: drain.simps [of cv _ n q])
qed

text \<open>With tables that do not change during the run, a run claims exactly the series the first load queued, every
  one of them, in the order of their ranks.\<close>

theorem drain_in_order:
  assumes "load_queue cv q ld now = Inr q'"
  shows "drain cv (\<lambda>_. (ld, now)) 0 q [] = Inr (map item_key (pq_items q')) \<and>
    sorted_wrt (<) (map ri_rank (pq_items q'))"
proof
  show "drain cv (\<lambda>_. (ld, now)) 0 q [] = Inr (map item_key (pq_items q'))"
    using drain_rest [OF assms, of 0 0] by simp
  from load_queue_split [OF assms] obtain proven rows
    where q': "q' = split_rows q ld (inputs_for q ld) proven rows" and keys: "map row_key rows = scoped_candidates q"
    by blast
  have "distinct (map row_key rows)" by (simp add: keys)
  then show "sorted_wrt (<) (map ri_rank (pq_items q'))"
    unfolding q' split_items by (intro queue_items_ranks distinct_map_filter)
qed

section \<open>Configuration\<close>

lemma load_provider_plan_steps:
  assumes "load_provider_plan cv provider get answers flt tfs = Inr plan"
  shows "pp_rate_limit_window plan < pp_request_timeout plan" and "pp_name plan = provider"
    and "\<And>suffix. suffix \<in> {''history_request_timeout'', ''history_request_retries'', ''no_data_confirmation_chunks'',
      ''inter_item_pause_s''} \<Longrightarrow> get (provider_key provider suffix) \<noteq> None"
  using assms
  by (auto simp: load_provider_plan_def ebind_eq_Inr require_key_def split: option.splits if_splits)

lemma load_provider_plan_window:
  "load_provider_plan cv provider get answers flt tfs = Inr plan \<Longrightarrow>
   case get (provider_key provider ''rate_limit_window_sec'') of
     None \<Rightarrow> pp_rate_limit_window plan = 600 | Some w \<Rightarrow> cv_float cv w = Inr (pp_rate_limit_window plan)"
  by (auto simp: load_provider_plan_def ebind_eq_Inr split: if_splits option.splits)

lemma load_provider_plan_missing:
  assumes "\<exists>suffix \<in> {''history_request_timeout'', ''history_request_retries'', ''no_data_confirmation_chunks'',
      ''inter_item_pause_s''}. get (provider_key provider suffix) = None"
  shows "\<exists>e. load_provider_plan cv provider get answers flt tfs = Inl e"
  using assms load_provider_plan_steps(3) [of cv provider get answers flt tfs]
  by (cases "load_provider_plan cv provider get answers flt tfs") blast+

lemma load_queue_config_plan:
  assumes "load_queue_config cv table = Inr cfg"
  shows "\<exists>plan. load_provider_plan cv ''ibkr'' (map_of (dict_of (config_rows table))) True IBKR_DAILY_ANSWER_FILTER
      (map fst DEPTH_FALLBACKS) = Inr plan \<and>
    qc_request_timeout cfg = pp_request_timeout plan \<and> qc_request_retries cfg = pp_request_retries plan"
  using assms unfolding load_queue_config_def Let_def ebind_eq_Inr by force

text \<open>The queue's configuration loads only from a complete and consistent provider configuration: when one of the four
  required keys of the provider is missing, loading raises; a configuration that loads has a request timeout that exceeds
  the rate-limit window, which is 600 s unless configured.\<close>

theorem queue_config_checked:
  "((\<exists>suffix \<in> {''history_request_timeout'', ''history_request_retries'', ''no_data_confirmation_chunks'',
        ''inter_item_pause_s''}. map_of (dict_of (config_rows table)) (provider_key ''ibkr'' suffix) = None) \<longrightarrow>
      (\<exists>e. load_queue_config cv table = Inl e)) \<and>
   (\<forall>cfg. load_queue_config cv table = Inr cfg \<longrightarrow>
      (\<exists>window. window < qc_request_timeout cfg \<and>
        (case map_of (dict_of (config_rows table)) (provider_key ''ibkr'' ''rate_limit_window_sec'') of
           None \<Rightarrow> window = 600 | Some w \<Rightarrow> cv_float cv w = Inr window)))"
  (is "(?missing \<longrightarrow> ?raises) \<and> ?window")
proof
  let ?load = "load_provider_plan cv ''ibkr'' (map_of (dict_of (config_rows table))) True IBKR_DAILY_ANSWER_FILTER
      (map fst DEPTH_FALLBACKS)"
  show "?missing \<longrightarrow> ?raises"
  proof
    assume ?missing
    then have "\<exists>e. ?load = Inl e" by (rule load_provider_plan_missing)
    with load_queue_config_plan [of cv table] show ?raises
      by (cases "load_queue_config cv table") auto
  qed
  show ?window
  proof (intro allI impI)
    fix cfg assume "load_queue_config cv table = Inr cfg"
    from load_queue_config_plan [OF this] obtain plan where "?load = Inr plan"
      and "qc_request_timeout cfg = pp_request_timeout plan" by blast
    with load_provider_plan_steps(1) load_provider_plan_window
    show "\<exists>window. window < qc_request_timeout cfg \<and>
        (case map_of (dict_of (config_rows table)) (provider_key ''ibkr'' ''rate_limit_window_sec'') of
           None \<Rightarrow> window = 600 | Some w \<Rightarrow> cv_float cv w = Inr window)"
      by (intro exI [of _ "pp_rate_limit_window plan"]) simp
  qed
qed

section \<open>The rotation of gap fills\<close>

text \<open>Consecutive weekdays have consecutive indices.\<close>

lemma weekday_index_weekday:
  assumes "(d - WEEKDAY_ORIGIN) mod 7 < 5"
  shows "weekday_index d = (d - WEEKDAY_ORIGIN) div 7 * 5 + (d - WEEKDAY_ORIGIN) mod 7"
  using assms by (simp add: weekday_index_def Let_def)

lemma weekday_origin: "weekday d = (d - WEEKDAY_ORIGIN) mod 7"
  by (simp add: weekday_def WEEKDAY_ORIGIN_def mod_eq_dvd_iff)

definition business_day :: "int \<Rightarrow> day" where
  "business_day n = WEEKDAY_ORIGIN + n div 5 * 7 + n mod 5"

lemma business_day_index: "weekday_index (business_day n) = n" and business_day_week: "weekday (business_day n) = n mod 5"
proof -
  have "(n div 5 * 7 + n mod 5) div 7 = n div 5" "(n div 5 * 7 + n mod 5) mod 7 = n mod 5"
    by (simp_all add: mult.commute [of _ 7])
  then show "weekday_index (business_day n) = n" "weekday (business_day n) = n mod 5"
    by (simp_all add: business_day_def weekday_index_def Let_def weekday_origin)
qed

lemma business_day_onto: "weekday d < 5 \<Longrightarrow> business_day (weekday_index d) = d"
proof -
  assume "weekday d < 5"
  then have w: "(d - WEEKDAY_ORIGIN) mod 7 < 5" by (simp add: weekday_origin)
  have "((d - WEEKDAY_ORIGIN) div 7 * 5 + (d - WEEKDAY_ORIGIN) mod 7) div 5 = (d - WEEKDAY_ORIGIN) div 7"
    "((d - WEEKDAY_ORIGIN) div 7 * 5 + (d - WEEKDAY_ORIGIN) mod 7) mod 5 = (d - WEEKDAY_ORIGIN) mod 7"
    using w by (simp_all add: mult.commute [of _ 5])
  then show "business_day (weekday_index d) = d"
    by (simp add: business_day_def weekday_index_weekday [OF w])
qed

lemma residue_once:
  assumes "0 < (N :: int)"
  shows "\<exists>!k. n \<le> k \<and> k < n + N \<and> (k + h) mod N = 0"
proof
  let ?k = "n + (- (n + h)) mod N"
  have "(n + (- (n + h)) mod N + h) mod N = (n + h + (- (n + h)) mod N) mod N" by (simp add: algebra_simps)
  also have "\<dots> = 0" by (simp add: mod_add_right_eq)
  finally show "n \<le> ?k \<and> ?k < n + N \<and> (?k + h) mod N = 0" using assms by simp
next
  fix k assume k: "n \<le> k \<and> k < n + N \<and> (k + h) mod N = 0"
  then have "N dvd k - n - - (n + h)" by (simp add: mod_0_imp_dvd)
  then have "(k - n) mod N = (- (n + h)) mod N" by (simp only: mod_eq_dvd_iff)
  moreover have "(k - n) mod N = k - n" using k by (intro mod_pos_pos_trivial) simp_all
  ultimately show "k = n + (- (n + h)) mod N" by simp
qed

text \<open>The gap-fill rotation visits every series once a cycle: of any N consecutive weekdays (the n-th weekday from
  the fixed Monday is \<open>business_day n\<close>, and every weekday is one), exactly one is the series' turn.\<close>

theorem gap_fill_once_per_cycle:
  assumes "1 < N"
  shows "(\<exists>!k. n \<le> k \<and> k < n + N \<and> gap_fill_due hash64 symbol timeframe (business_day k) N) \<and>
    (\<forall>d. weekday d < 5 \<longrightarrow> business_day (weekday_index d) = d)"
  using residue_once [of N n "stable_int hash64 [symbol, timeframe]"] assms
  by (simp add: gap_fill_due_def business_day_index business_day_onto)


section \<open>Witnesses\<close>

definition demo_conv :: conv where
  "demo_conv = \<lparr>cv_int = (\<lambda>_. Inr 3), cv_float = (\<lambda>_. Inr 700), cv_strings = (\<lambda>_. Inr [''15m'', ''1h'']),
     cv_scopes = (\<lambda>_. Inr [])\<rparr>"

definition demo_config :: queue_config where
  "demo_config = \<lparr>qc_max_failures = 5, qc_sla_days = 3, qc_priority_tfs = [''15m'', ''1h''], qc_depth_days = DEPTH_FALLBACKS,
     qc_request_timeout = 700, qc_request_retries = 3, qc_run_budget = 240, qc_default_scopes = [], qc_fetch_concurrency = 1\<rparr>"

definition demo_row :: "string \<Rightarrow> string \<Rightarrow> int \<Rightarrow> coverage_row" where
  "demo_row s tf failures = \<lparr>cv_symbol = s, cv_timeframe = tf, cv_earliest = None, cv_latest = None,
     cv_last_fetch_status = None, cv_consecutive_failures = failures, cv_floor = None, cv_last_fetched_at = None,
     cv_provider = ''ibkr''\<rparr>"

definition demo_queue :: pqueue where
  "demo_queue = \<lparr>pq_config = demo_config,
     pq_candidates = [(''ibkr'', ''A'', ''1h''), (''ibkr'', ''A'', ''1d''), (''ibkr'', ''B'', ''1h'')],
     pq_today = 738000, pq_current_after = None, pq_daily = None, pq_holds = [], pq_provider = ''ibkr'', pq_plan = None,
     pq_items = [], pq_held = [], pq_daily_inputs = None, pq_due_reasons = []\<rparr>"

definition demo_ledger :: ledger where
  "demo_ledger = \<lparr>ld_config = [(REVERIFY_DAYS_KEY, ''30''), (KEY_CONFIRMATION_CHUNKS, ''2'')],
     ld_coverage = [demo_row ''B'' ''1h'' 9], ld_heads = [], ld_empties = [], ld_policy = [], ld_requests = [],
     ld_raw = []\<rparr>"

definition demo_loaded :: pqueue where
  "demo_loaded = projr (load_queue demo_conv demo_queue demo_ledger 0)"

lemma demo_load: "load_queue demo_conv demo_queue demo_ledger 0 = Inr demo_loaded"
  unfolding demo_loaded_def by (subst sum.collapse(2)) (code_simp, rule refl)

lemma demo_keys: "map item_key (pq_items demo_loaded) = [(''ibkr'', ''A'', ''1d''), (''ibkr'', ''A'', ''1h'')]"
  by code_simp

theorem queue_partition_witness:
  "set (map item_key (pq_items demo_loaded) @ map (\<lambda>p. item_key (fst p)) (pq_held demo_loaded)) =
     {(''ibkr'', ''A'', ''1h''), (''ibkr'', ''A'', ''1d''), (''ibkr'', ''B'', ''1h'')} \<and>
   map snd (pq_held demo_loaded) = [''excluded'']"
proof -
  have "{c \<in> set (pq_candidates demo_queue). in_scope demo_queue c} =
      {(''ibkr'', ''A'', ''1h''), (''ibkr'', ''A'', ''1d''), (''ibkr'', ''B'', ''1h'')}"
    by (auto simp: demo_queue_def in_scope_def answers_1d_def)
  moreover have "map snd (pq_held demo_loaded) = [''excluded'']" by code_simp
  ultimately show ?thesis using queue_partition [OF demo_load] by simp
qed

theorem queue_order_witness:
  "queue_items [demo_row ''A'' ''1d'' 0, demo_row ''A'' ''1h'' 0] demo_config 738000 [] None =
   queue_items [demo_row ''A'' ''1h'' 0, demo_row ''A'' ''1d'' 0] demo_config 738000 [] None"
proof -
  have "length (queue_items [demo_row ''A'' ''1h'' 0, demo_row ''A'' ''1d'' 0] demo_config 738000 [] None) = 2"
    by code_simp
  then show ?thesis
    by (intro conjunct1 [OF queue_order [of _ _ 0 1]]) (simp_all add: demo_row_def row_key_def)
qed


theorem drain_in_order_witness:
  "drain demo_conv (\<lambda>_. (demo_ledger, 0)) 0 demo_queue [] = Inr [(''ibkr'', ''A'', ''1d''), (''ibkr'', ''A'', ''1h'')]"
  using drain_in_order [OF demo_load] unfolding demo_keys by blast

theorem queue_config_checked_witness:
  "(\<exists>e. load_queue_config demo_conv [] = Inl e) \<and>
   (\<exists>cfg. load_queue_config demo_conv [(provider_key ''ibkr'' ''history_request_timeout'', ''700''),
      (provider_key ''ibkr'' ''history_request_retries'', ''3''),
      (provider_key ''ibkr'' ''no_data_confirmation_chunks'', ''3''), (provider_key ''ibkr'' ''inter_item_pause_s'', ''3'')] = Inr cfg \<and>
     600 < qc_request_timeout cfg)"
  (is "?first \<and> (\<exists>cfg. load_queue_config demo_conv ?table = Inr cfg \<and> _ cfg)")
proof
  have "\<exists>suffix \<in> {''history_request_timeout'', ''history_request_retries'', ''no_data_confirmation_chunks'',
      ''inter_item_pause_s''}. map_of (dict_of (config_rows [])) (provider_key ''ibkr'' suffix) = None"
    by (intro bexI [of _ "''history_request_timeout''"]) (simp_all add: config_rows_def)
  with queue_config_checked [of "[]" demo_conv] show ?first by blast
  have none: "map_of (dict_of (config_rows ?table)) (provider_key ''ibkr'' ''rate_limit_window_sec'') = None" by code_simp
  have "\<not> isl (load_queue_config demo_conv ?table)" by code_simp
  then obtain cfg where cfg: "load_queue_config demo_conv ?table = Inr cfg" by (cases "load_queue_config demo_conv ?table") auto
  with queue_config_checked [of ?table demo_conv] none have "600 < qc_request_timeout cfg" by auto
  with cfg show "\<exists>cfg. load_queue_config demo_conv ?table = Inr cfg \<and> 600 < qc_request_timeout cfg" by blast
qed

theorem gap_fill_once_per_cycle_witness:
  "\<exists>!k. 0 \<le> k \<and> k < 5 \<and> gap_fill_due (\<lambda>s. int (length s)) ''A'' ''1h'' (business_day k) 5"
  using gap_fill_once_per_cycle [of 5 0 "\<lambda>s. int (length s)" "''A''" "''1h''"] by simp

end
