(* ===== verification/Bar_Accumulator.thy ===== *)
theory Bar_Accumulator
  imports Sessions
begin

text \<open>
  The live aggregation path: \<open>src/core/bar_accumulator.py\<close> (one-minute bars into higher timeframes),
  \<open>src/core/schemas/bar_message.py\<close> and \<open>src/core/bar_history.py\<close> (the bounded store of completed bars).

  \<open>et d s\<close> is the Unix time of the New York wall clock \<open>s\<close> seconds after midnight of the day \<open>d\<close>.  The
  random \<open>bar_id\<close> and the log lines are not modelled; the dict that limits the log lines is, because it is
  part of the checkpointed state.
\<close>

section \<open>Bars\<close>

datatype session_type = RTH | ETH | CRYPTO | FX | CLOSED

record bar_message =
  bm_ts :: stamp
  bm_symbol :: string
  bm_tf :: string
  bm_open :: real
  bm_high :: real
  bm_low :: real
  bm_close :: real
  bm_volume :: int
  bm_source :: string
  bm_session :: session_type
  bm_gap :: bool
  bm_flat :: bool

definition HTF_MINUTES :: "(string \<times> int) list" where
  "HTF_MINUTES = [(''5m'', 5), (''15m'', 15), (''1h'', 60), (''4h'', 240), (''1d'', 1440)]"

definition ALL_TFS :: "string list" where "ALL_TFS = map fst HTF_MINUTES"

definition RTH_OPEN_ET :: int where "RTH_OPEN_ET = 9 * 3600 + 30 * 60"
definition RTH_CLOSE_ET :: int where "RTH_CLOSE_ET = 16 * 3600"

definition floor_to_period :: "int \<Rightarrow> int \<Rightarrow> int" where
  "floor_to_period ts_seconds tf_minutes = (let period = tf_minutes * 60 in ts_seconds div period * period)"

definition rth_boundaries :: "(day \<Rightarrow> int \<Rightarrow> int) \<Rightarrow> day \<Rightarrow> int list" where
  "rth_boundaries et d = [et d RTH_OPEN_ET, et d RTH_CLOSE_ET]"

definition unix_day :: "int \<Rightarrow> day" where
  "unix_day seconds = seconds div 86400 + 719163"

text \<open>The scan over the UTC dates from the previous bar to the current one.\<close>

definition is_session_break :: "(day \<Rightarrow> int \<Rightarrow> int) \<Rightarrow> session_type \<Rightarrow> int \<Rightarrow> int \<Rightarrow> bool" where
  "is_session_break et session prev_ts curr_ts =
     (if session = CRYPTO \<or> session = FX then False
      else list_ex (\<lambda>d. list_ex (\<lambda>boundary. prev_ts < boundary \<and> boundary \<le> curr_ts) (rth_boundaries et d))
             [unix_day prev_ts .. unix_day curr_ts])"

section \<open>The accumulator\<close>

record accumulator =
  ac_period :: int
  ac_open :: real
  ac_high :: real
  ac_low :: real
  ac_close :: real
  ac_volume :: int
  ac_last_ts :: int
  ac_session :: session_type
  ac_flat :: bool

record accumulators =
  ba_timeframes :: "string list"
  ba_session :: session_type
  ba_accs :: "string \<Rightarrow> accumulator option"
  ba_log :: "(string \<times> stamp) list"

definition LOG_MAX :: nat where "LOG_MAX = 100"

definition new_accumulators :: "string list \<Rightarrow> session_type \<Rightarrow> accumulators" where
  "new_accumulators timeframes session =
     \<lparr>ba_timeframes = (if timeframes = [] then ALL_TFS else timeframes), ba_session = session,
      ba_accs = (\<lambda>_. None), ba_log = []\<rparr>"

definition acc_key :: "string \<Rightarrow> string \<Rightarrow> string" where
  "acc_key symbol tf = symbol @ '':'' @ tf"

definition new_accumulator :: "bar_message \<Rightarrow> int \<Rightarrow> accumulator" where
  "new_accumulator bar period_ts =
     \<lparr>ac_period = period_ts, ac_open = bm_open bar, ac_high = bm_high bar, ac_low = bm_low bar,
      ac_close = bm_close bar, ac_volume = bm_volume bar, ac_last_ts = epoch (bm_ts bar),
      ac_session = bm_session bar, ac_flat = bm_flat bar\<rparr>"

definition accumulator_valid :: "accumulator \<Rightarrow> bool" where
  "accumulator_valid acc = (\<not> ac_high acc < ac_low acc)"

definition extend_accumulator :: "bar_message \<Rightarrow> int \<Rightarrow> accumulator \<Rightarrow> accumulator" where
  "extend_accumulator bar period_ts acc =
     acc\<lparr>ac_high := max (ac_high acc) (bm_high bar), ac_low := min (ac_low acc) (bm_low bar),
         ac_close := bm_close bar, ac_volume := ac_volume acc + bm_volume bar, ac_last_ts := epoch (bm_ts bar),
         ac_period := period_ts, ac_flat := (ac_flat acc \<and> bm_flat bar)\<rparr>"

definition build_bar :: "string \<Rightarrow> string \<Rightarrow> accumulator \<Rightarrow> bar_message" where
  "build_bar symbol tf acc =
     \<lparr>bm_ts = ac_period acc * second, bm_symbol = symbol, bm_tf = tf, bm_open = ac_open acc, bm_high = ac_high acc,
      bm_low = ac_low acc, bm_close = ac_close acc, bm_volume = ac_volume acc, bm_source = ''htf_derived'',
      bm_session = ac_session acc, bm_gap = False, bm_flat = ac_flat acc\<rparr>"

definition prune_log :: "(string \<times> stamp) list \<Rightarrow> (string \<times> stamp) list" where
  "prune_log logs =
     (if LOG_MAX < length logs
      then filter (\<lambda>(k, _). k \<notin> set (map fst (take (length logs div 5) (sort_key snd logs)))) logs
      else logs)"

definition log_boundary :: "string \<Rightarrow> stamp \<Rightarrow> (string \<times> stamp) list \<Rightarrow> (string \<times> stamp) list" where
  "log_boundary key ts logs =
     (if 300 * second < ts - (case map_of logs key of None \<Rightarrow> 0 | Some t \<Rightarrow> t)
      then prune_log (AList.update key ts logs) else logs)"

text \<open>One timeframe of \<open>update\<close>: skip, close the accumulator at a session break or a new period, then start or
  extend.\<close>

definition update_tf ::
  "(day \<Rightarrow> int \<Rightarrow> int) \<Rightarrow> bar_message \<Rightarrow> string \<Rightarrow> accumulators \<Rightarrow> accumulators \<times> bar_message list" where
  "update_tf et bar tf s =
     (case map_of HTF_MINUTES tf of
        None \<Rightarrow> (s, [])
      | Some minutes \<Rightarrow>
          let curr_ts = epoch (bm_ts bar); key = acc_key (bm_symbol bar) tf;
              period_ts = floor_to_period curr_ts minutes
          in case ba_accs s key of
               None \<Rightarrow> (s\<lparr>ba_accs := (ba_accs s)(key \<mapsto> new_accumulator bar period_ts)\<rparr>, [])
             | Some acc \<Rightarrow>
                 if curr_ts \<le> ac_last_ts acc then (s, [])
                 else if is_session_break et (ba_session s) (ac_last_ts acc) curr_ts
                 then (s\<lparr>ba_log := log_boundary key (bm_ts bar) (ba_log s),
                         ba_accs := (ba_accs s)(key \<mapsto> new_accumulator bar period_ts)\<rparr>,
                       [build_bar (bm_symbol bar) tf acc])
                 else if ac_period acc \<noteq> period_ts
                 then (s\<lparr>ba_accs := (ba_accs s)(key \<mapsto> new_accumulator bar period_ts)\<rparr>,
                       [build_bar (bm_symbol bar) tf acc])
                 else if \<not> accumulator_valid acc
                 then (s\<lparr>ba_accs := (ba_accs s)(key \<mapsto> new_accumulator bar period_ts)\<rparr>, [])
                 else (s\<lparr>ba_accs := (ba_accs s)(key \<mapsto> extend_accumulator bar period_ts acc)\<rparr>, []))"

fun update_tfs ::
  "(day \<Rightarrow> int \<Rightarrow> int) \<Rightarrow> bar_message \<Rightarrow> string list \<Rightarrow> accumulators \<Rightarrow> accumulators \<times> bar_message list" where
  "update_tfs et bar [] s = (s, [])"
| "update_tfs et bar (tf # tfs) s =
     (let (s', closed) = update_tf et bar tf s; (s'', more) = update_tfs et bar tfs s' in (s'', closed @ more))"

definition update :: "(day \<Rightarrow> int \<Rightarrow> int) \<Rightarrow> bar_message \<Rightarrow> accumulators \<Rightarrow> accumulators \<times> bar_message list" where
  "update et bar s = (if bm_tf bar \<noteq> ''1m'' then (s, []) else update_tfs et bar (ba_timeframes s) s)"

definition current_partial :: "accumulators \<Rightarrow> string \<Rightarrow> string \<Rightarrow> bar_message option" where
  "current_partial s symbol tf = map_option (build_bar symbol tf) (ba_accs s (acc_key symbol tf))"

text \<open>A stream of bars, with everything it completes.\<close>

fun updates :: "(day \<Rightarrow> int \<Rightarrow> int) \<Rightarrow> bar_message list \<Rightarrow> accumulators \<Rightarrow> accumulators \<times> bar_message list" where
  "updates et [] s = (s, [])"
| "updates et (bar # bars) s =
     (let (s', closed) = update et bar s; (s'', more) = updates et bars s' in (s'', closed @ more))"

section \<open>The history store\<close>

record bar_history =
  hs_maxlen :: nat
  hs_data :: "(string \<times> bar_message list) list"

text \<open>A deque of bounded length drops from the front.\<close>

definition bounded :: "nat \<Rightarrow> 'a list \<Rightarrow> 'a list" where
  "bounded n xs = drop (length xs - n) xs"

definition history_append :: "bar_message \<Rightarrow> bar_history \<Rightarrow> bar_history" where
  "history_append bar h =
     (let key = acc_key (bm_symbol bar) (bm_tf bar);
          old = (case map_of (hs_data h) key of None \<Rightarrow> [] | Some d \<Rightarrow> d)
      in h\<lparr>hs_data := AList.update key (bounded (hs_maxlen h) (old @ [bar])) (hs_data h)\<rparr>)"

definition history_get :: "bar_history \<Rightarrow> string \<Rightarrow> string \<Rightarrow> bar_message list" where
  "history_get h symbol tf = (case map_of (hs_data h) (acc_key symbol tf) of None \<Rightarrow> [] | Some d \<Rightarrow> d)"

definition history_is_warm :: "bar_history \<Rightarrow> string \<Rightarrow> string \<Rightarrow> int \<Rightarrow> bool" where
  "history_is_warm h symbol tf min_bars = (min_bars \<le> int (length (history_get h symbol tf)))"

text \<open>\<open>bars[-maxlen:]\<close> is the whole list for a zero \<open>maxlen\<close>; the deque bounds it again.\<close>

definition history_seed :: "string \<Rightarrow> string \<Rightarrow> bar_message list \<Rightarrow> bar_history \<Rightarrow> bar_history" where
  "history_seed symbol tf bars h =
     (let recent = (if hs_maxlen h = 0 then bars else bounded (hs_maxlen h) bars)
      in h\<lparr>hs_data := AList.update (acc_key symbol tf) (bounded (hs_maxlen h) recent) (hs_data h)\<rparr>)"

fun migrate_keys :: "string \<Rightarrow> string \<Rightarrow> string list \<Rightarrow> (string \<times> bar_message list) list \<Rightarrow> (string \<times> bar_message list) list" where
  "migrate_keys old_symbol new_symbol [] data = data"
| "migrate_keys old_symbol new_symbol (k # ks) data =
     (let tf = drop (length old_symbol + 1) k;
          bars = (case map_of data k of None \<Rightarrow> [] | Some d \<Rightarrow> d)
      in migrate_keys old_symbol new_symbol ks (AList.update (acc_key new_symbol tf) bars (AList.delete k data)))"

definition history_migrate :: "string \<Rightarrow> string \<Rightarrow> bar_history \<Rightarrow> bar_history" where
  "history_migrate old_symbol new_symbol h =
     (let prefix = old_symbol @ '':'';
          olds = filter (\<lambda>k. take (length prefix) k = prefix) (map fst (hs_data h))
      in h\<lparr>hs_data := migrate_keys old_symbol new_symbol olds (hs_data h)\<rparr>)"

end
