(* ===== verification/Bar_Aggregator.thy ===== *)
theory Bar_Aggregator
  imports Bar_Accumulator
begin

text \<open>
  The aggregation service, \<open>services/bar_aggregator.py\<close>: the emit-once guard, the checkpoint of the
  accumulators to a compacted topic and its restore, and the health tracking.

  The topics are part of the state, as the lists of what was published.  Whether a publish succeeds is an input
  (\<open>sent\<close>, \<open>saved\<close>), and so are the clocks (\<open>now\<close> the UTC time, \<open>clock\<close> the monotonic clock, both in microseconds).
  The five-second timeout of a bar, the metrics and the consumer client are not modelled.  \<open>ag_completed\<close> is a history
  variable, the bars the accumulator has completed; no operation reads it.
\<close>

section \<open>Health\<close>

record health =
  hm_last_bar :: "stamp option"
  hm_bars :: int
  hm_htf :: int
  hm_skipped :: int
  hm_errors :: int
  hm_last_htf :: stamp

datatype health_reason = Healthy | Never_processed | No_bars int | Consecutive_errors int | Consuming_not_emitting

definition new_health :: "stamp \<Rightarrow> health" where
  "new_health clock = \<lparr>hm_last_bar = None, hm_bars = 0, hm_htf = 0, hm_skipped = 0, hm_errors = 0, hm_last_htf = clock\<rparr>"

definition record_bar :: "stamp \<Rightarrow> health \<Rightarrow> health" where
  "record_bar ts h = h\<lparr>hm_last_bar := Some ts, hm_bars := hm_bars h + 1\<rparr>"

definition record_htf_bar :: "stamp \<Rightarrow> health \<Rightarrow> health" where
  "record_htf_bar clock h = h\<lparr>hm_htf := hm_htf h + 1, hm_last_htf := clock\<rparr>"

definition record_error :: "health \<Rightarrow> health" where
  "record_error h = h\<lparr>hm_errors := hm_errors h + 1\<rparr>"

definition record_skip :: "health \<Rightarrow> health" where
  "record_skip h = h\<lparr>hm_skipped := hm_skipped h + 1\<rparr>"

definition reset_minute_counters :: "health \<Rightarrow> health" where
  "reset_minute_counters h = h\<lparr>hm_bars := 0, hm_htf := 0, hm_skipped := 0\<rparr>"

definition is_healthy :: "stamp \<Rightarrow> stamp \<Rightarrow> health \<Rightarrow> bool \<times> health_reason" where
  "is_healthy now clock h =
     (case hm_last_bar h of
        None \<Rightarrow> (False, Never_processed)
      | Some ts \<Rightarrow>
          if 300 * second < now - ts then (False, No_bars ((now - ts) div second))
          else if 50 < hm_errors h then (False, Consecutive_errors (hm_errors h))
          else if 100 < hm_bars h \<and> 420 * second < clock - hm_last_htf h then (False, Consuming_not_emitting)
          else (True, Healthy))"

section \<open>The service\<close>

record checkpoint =
  ck_accs :: "string \<Rightarrow> accumulator option"
  ck_log :: "(string \<times> stamp) list"

record aggregator =
  ag_accs :: accumulators
  ag_emitted :: "(string \<times> string) \<Rightarrow> stamp option"
  ag_failures :: "stamp list"
  ag_health :: health
  ag_restart :: bool
  ag_htf_topic :: "bar_message list"
  ag_state_topic :: "(string \<times> checkpoint) list"
  ag_completed :: "bar_message list"

definition AGENT_VERSION :: string where "AGENT_VERSION = ''1''"

definition new_aggregator :: "stamp \<Rightarrow> aggregator" where
  "new_aggregator clock =
     \<lparr>ag_accs = new_accumulators [] RTH, ag_emitted = (\<lambda>_. None), ag_failures = [], ag_health = new_health clock,
      ag_restart = False, ag_htf_topic = [], ag_state_topic = [], ag_completed = []\<rparr>"

text \<open>The emit-once guard.  A publish that raises ends the loop; its bar is already marked as emitted.\<close>

fun emit_bars :: "(bar_message \<Rightarrow> bool) \<Rightarrow> stamp \<Rightarrow> bar_message list \<Rightarrow> aggregator \<Rightarrow> aggregator \<times> bool" where
  "emit_bars sent clock [] a = (a, True)"
| "emit_bars sent clock (bar # bars) a =
     (let key = (bm_symbol bar, bm_tf bar)
      in if ag_emitted a key = Some (bm_ts bar) then emit_bars sent clock bars a
         else
           let a' = a\<lparr>ag_emitted := (ag_emitted a)(key \<mapsto> bm_ts bar)\<rparr>
           in if \<not> sent bar then (a', False)
              else emit_bars sent clock bars
                     (a'\<lparr>ag_htf_topic := ag_htf_topic a' @ [bar], ag_health := record_htf_bar clock (ag_health a')\<rparr>))"

definition track_checkpoint_failure :: "stamp \<Rightarrow> stamp list \<Rightarrow> stamp list \<times> bool" where
  "track_checkpoint_failure clock failures =
     (let recent = filter (\<lambda>t. clock - t < 60 * second) (failures @ [clock]) in (recent, 3 \<le> length recent))"

definition checkpoint_key :: "bar_message \<Rightarrow> string" where
  "checkpoint_key bar = AGENT_VERSION @ '':'' @ bm_symbol bar @ '':'' @ bm_tf bar"

definition checkpoint_of :: "accumulators \<Rightarrow> checkpoint" where
  "checkpoint_of s = \<lparr>ck_accs = ba_accs s, ck_log = ba_log s\<rparr>"

text \<open>The body of the consume loop for one parsed bar.  The exception raised when checkpointing is degraded is caught by
  the handler around the whole body, like a failed publish: it counts as an error and the loop goes on.\<close>

definition process_bar ::
  "(day \<Rightarrow> int \<Rightarrow> int) \<Rightarrow> (bar_message \<Rightarrow> bool) \<Rightarrow> bool \<Rightarrow> stamp \<Rightarrow> bar_message \<Rightarrow> aggregator \<Rightarrow> aggregator" where
  "process_bar et sent saved clock bar a =
     (let (accs, completed) = update et bar (ag_accs a);
          a = a\<lparr>ag_health := record_bar (bm_ts bar) (ag_health a), ag_accs := accs,
                ag_completed := ag_completed a @ completed\<rparr>;
          (a, ok) = emit_bars sent clock completed a
      in if \<not> ok then a\<lparr>ag_health := record_error (ag_health a)\<rparr>
         else if saved
         then a\<lparr>ag_failures := [], ag_state_topic := ag_state_topic a @ [(checkpoint_key bar, checkpoint_of (ag_accs a))]\<rparr>
         else
           let (failures, degraded) = track_checkpoint_failure clock (ag_failures a)
           in a\<lparr>ag_failures := failures,
                ag_health := (if degraded then record_error (ag_health a) else ag_health a)\<rparr>)"

definition skip_payload :: "aggregator \<Rightarrow> aggregator" where
  "skip_payload a = a\<lparr>ag_health := record_skip (ag_health a)\<rparr>"

definition handle_unhealthy :: "health_reason \<Rightarrow> aggregator \<Rightarrow> aggregator" where
  "handle_unhealthy reason a =
     (case reason of
        No_bars _ \<Rightarrow> a\<lparr>ag_restart := True\<rparr>
      | Consuming_not_emitting \<Rightarrow> a\<lparr>ag_restart := True\<rparr>
      | _ \<Rightarrow> a)"

definition health_check :: "stamp \<Rightarrow> stamp \<Rightarrow> aggregator \<Rightarrow> aggregator" where
  "health_check now clock a =
     (case is_healthy now clock (ag_health a) of (ok, reason) \<Rightarrow> if ok then a else handle_unhealthy reason a)"

definition reset_consumer :: "stamp \<Rightarrow> aggregator \<Rightarrow> aggregator" where
  "reset_consumer clock a =
     (if ag_restart a
      then a\<lparr>ag_restart := False,
             ag_health := (ag_health a)\<lparr>hm_errors := 0, hm_bars := 0, hm_htf := 0, hm_last_htf := clock\<rparr>\<rparr>
      else a)"

section \<open>Restore\<close>

fun split_on :: "char \<Rightarrow> string \<Rightarrow> string list" where
  "split_on sep [] = [[]]"
| "split_on sep (c # cs) =
     (if c = sep then [] # split_on sep cs
      else case split_on sep cs of [] \<Rightarrow> [[c]] | part # parts \<Rightarrow> (c # part) # parts)"

definition restore_message :: "string \<times> checkpoint \<Rightarrow> accumulators \<times> bool \<Rightarrow> accumulators \<times> bool" where
  "restore_message = (\<lambda>(key, payload) (s, found).
     case split_on (CHR '':'') key of
       [version, symbol, tf] \<Rightarrow>
         if key = [] \<or> version \<noteq> AGENT_VERSION then (s, found)
         else (s\<lparr>ba_accs := ba_accs s ++ ck_accs payload,
                 ba_log := foldl (\<lambda>d (k, v). AList.update k v d) (ba_log s) (ck_log payload)\<rparr>, True)
     | _ \<Rightarrow> (s, found))"

definition restore :: "(string \<times> checkpoint) list \<Rightarrow> accumulators \<Rightarrow> accumulators \<times> bool" where
  "restore messages s = fold restore_message messages (s, False)"

text \<open>The events of the main loop and of the health task.\<close>

datatype agg_event =
    Bar (ev_bar: bar_message) (ev_sent: "bar_message \<Rightarrow> bool") (ev_saved: bool) (ev_mono: stamp)
  | Skip
  | Minute
  | Check (ev_now: stamp) (ev_monotonic: stamp)
  | Reset (ev_reset: stamp)

fun handle :: "(day \<Rightarrow> int \<Rightarrow> int) \<Rightarrow> agg_event \<Rightarrow> aggregator \<Rightarrow> aggregator" where
  "handle et (Bar bar sent saved clock) a = process_bar et sent saved clock bar a"
| "handle et Skip a = skip_payload a"
| "handle et Minute a = a\<lparr>ag_health := reset_minute_counters (ag_health a)\<rparr>"
| "handle et (Check now clock) a = health_check now clock a"
| "handle et (Reset clock) a = reset_consumer clock a"

definition run_events :: "(day \<Rightarrow> int \<Rightarrow> int) \<Rightarrow> agg_event list \<Rightarrow> aggregator \<Rightarrow> aggregator" where
  "run_events et events a = fold (handle et) events a"

end
