(* ===== verification/Accumulator_Correct.thy ===== *)
theory Accumulator_Correct
  imports Bar_Accumulator
begin

text \<open>
  The accumulator against its specification: the accepted one-minute bars of a series, cut into segments at
  session breaks and period ends, each segment aggregated; and the bounds of the history store.
\<close>

section \<open>The specification\<close>

definition accept :: "bar_message list \<Rightarrow> bar_message \<Rightarrow> bar_message list" where
  "accept acc b = (if acc = [] \<or> epoch (bm_ts (last acc)) < epoch (bm_ts b) then acc @ [b] else acc)"

definition in_order :: "bar_message list \<Rightarrow> bar_message list" where
  "in_order bars = foldl accept [] bars"

definition joins :: "(day \<Rightarrow> int \<Rightarrow> int) \<Rightarrow> session_type \<Rightarrow> int \<Rightarrow> bar_message \<Rightarrow> bar_message \<Rightarrow> bool" where
  "joins et session minutes b b' \<longleftrightarrow>
     \<not> is_session_break et session (epoch (bm_ts b)) (epoch (bm_ts b')) \<and>
     floor_to_period (epoch (bm_ts b)) minutes = floor_to_period (epoch (bm_ts b')) minutes"

definition add_bar ::
  "(day \<Rightarrow> int \<Rightarrow> int) \<Rightarrow> session_type \<Rightarrow> int \<Rightarrow> bar_message list list \<Rightarrow> bar_message \<Rightarrow> bar_message list list" where
  "add_bar et session minutes segs b =
     (if segs = [] then [[b]]
      else if joins et session minutes (last (last segs)) b then butlast segs @ [last segs @ [b]]
      else segs @ [[b]])"

definition segments :: "(day \<Rightarrow> int \<Rightarrow> int) \<Rightarrow> session_type \<Rightarrow> int \<Rightarrow> bar_message list \<Rightarrow> bar_message list list" where
  "segments et session minutes bars = foldl (add_bar et session minutes) [] bars"

definition aggregate :: "string \<Rightarrow> string \<Rightarrow> int \<Rightarrow> bar_message list \<Rightarrow> bar_message" where
  "aggregate symbol tf minutes seg =
     \<lparr>bm_ts = floor_to_period (epoch (bm_ts (hd seg))) minutes * second, bm_symbol = symbol, bm_tf = tf,
      bm_open = bm_open (hd seg), bm_high = Max (bm_high ` set seg), bm_low = Min (bm_low ` set seg),
      bm_close = bm_close (last seg), bm_volume = sum_list (map bm_volume seg), bm_source = ''htf_derived'',
      bm_session = bm_session (hd seg), bm_gap = False, bm_flat = list_all bm_flat seg\<rparr>"

lemma in_order_Nil [simp]: "in_order [] = []" by (simp add: in_order_def)
lemma in_order_snoc: "in_order (bars @ [b]) = accept (in_order bars) b" by (simp add: in_order_def)
lemma segments_Nil [simp]: "segments et session minutes [] = []" by (simp add: segments_def)
lemma segments_snoc: "segments et session minutes (bars @ [b]) = add_bar et session minutes (segments et session minutes bars) b"
  by (simp add: segments_def)

lemma segments_facts:
  "concat (segments et session minutes bars) = bars \<and> [] \<notin> set (segments et session minutes bars)"
proof (induction bars rule: rev_induct)
  case (snoc b bars)
  let ?segs = "segments et session minutes bars"
  have "concat (butlast ?segs) @ last ?segs = bars" if "?segs \<noteq> []"
    using snoc that by (metis append_butlast_last_id concat.simps concat_append append_Nil2)
  with snoc show ?case by (auto simp: segments_snoc add_bar_def dest: in_set_butlastD)
qed simp

lemma segments_empty_iff: "segments et session minutes bars = [] \<longleftrightarrow> bars = []"
  using segments_facts [of et session minutes bars] by (cases "bars") auto

lemma segments_last: "bars \<noteq> [] \<Longrightarrow> last (segments et session minutes bars) \<noteq> [] \<and> last (last (segments et session minutes bars)) = last bars"
proof (induction bars rule: rev_induct)
  case (snoc b bars)
  then show ?case by (simp add: segments_snoc add_bar_def)
qed simp

section \<open>One series\<close>

text \<open>What \<open>update_tf\<close> does to the accumulator of its series.\<close>

definition series_step ::
  "(day \<Rightarrow> int \<Rightarrow> int) \<Rightarrow> session_type \<Rightarrow> int \<Rightarrow> bar_message \<Rightarrow> accumulator option \<Rightarrow> accumulator \<times> accumulator list" where
  "series_step et session minutes bar slot =
     (let curr_ts = epoch (bm_ts bar); period_ts = floor_to_period curr_ts minutes; fresh = new_accumulator bar period_ts
      in case slot of
           None \<Rightarrow> (fresh, [])
         | Some acc \<Rightarrow>
             if curr_ts \<le> ac_last_ts acc then (acc, [])
             else if is_session_break et session (ac_last_ts acc) curr_ts \<or> ac_period acc \<noteq> period_ts then (fresh, [acc])
             else if \<not> accumulator_valid acc then (fresh, [])
             else (extend_accumulator bar period_ts acc, []))"

lemma update_tf_series:
  assumes "map_of HTF_MINUTES tf = Some minutes"
  shows "ba_accs (fst (update_tf et bar tf s)) =
      (ba_accs s)(acc_key (bm_symbol bar) tf \<mapsto> fst (series_step et (ba_session s) minutes bar (ba_accs s (acc_key (bm_symbol bar) tf))))"
    and "snd (update_tf et bar tf s) =
      map (build_bar (bm_symbol bar) tf) (snd (series_step et (ba_session s) minutes bar (ba_accs s (acc_key (bm_symbol bar) tf))))"
  using assms by (auto simp: update_tf_def series_step_def Let_def fun_upd_idem split: option.splits)

lemma update_tf_none: "map_of HTF_MINUTES tf = None \<Longrightarrow> update_tf et bar tf s = (s, [])"
  by (simp add: update_tf_def)

lemma update_tf_frame [simp, frame_simps]:
  "ba_timeframes (fst (update_tf et bar tf s)) = ba_timeframes s" "ba_session (fst (update_tf et bar tf s)) = ba_session s"
  by (auto simp: update_tf_def Let_def split: option.splits)

lemma update_tfs_frame [simp, frame_simps]:
  "ba_timeframes (fst (update_tfs et bar tfs s)) = ba_timeframes s" "ba_session (fst (update_tfs et bar tfs s)) = ba_session s"
  by (induction tfs arbitrary: s) (simp_all add: Let_def split_beta)

lemma update_frame [simp, frame_simps]:
  "ba_timeframes (fst (update et bar s)) = ba_timeframes s" "ba_session (fst (update et bar s)) = ba_session s"
  by (simp_all add: update_def)

lemma updates_frame [simp, frame_simps]:
  "ba_timeframes (fst (updates et bars s)) = ba_timeframes s" "ba_session (fst (updates et bars s)) = ba_session s"
  by (induction bars arbitrary: s) (simp_all add: Let_def split_beta)

lemma no_colon: "map_of HTF_MINUTES tf = Some minutes \<Longrightarrow> CHR '':'' \<notin> set tf"
  by (auto simp: HTF_MINUTES_def split: if_splits)

lemma acc_key_inj:
  assumes "acc_key s tf = acc_key s' tf'" and "CHR '':'' \<notin> set tf" and "CHR '':'' \<notin> set tf'"
  shows "s = s'" "tf = tf'"
proof -
  have cut: "takeWhile (\<lambda>c. c \<noteq> CHR '':'') (rev (acc_key x y)) = rev y" if "CHR '':'' \<notin> set y" for x y
    using that by (subst acc_key_def, simp) (subst takeWhile_append2, auto)
  show "tf = tf'" using cut [OF assms(2), of s] cut [OF assms(3), of s'] assms(1) by simp
  with assms(1) show "s = s'" by (simp add: acc_key_def)
qed

definition for_series :: "string \<Rightarrow> string \<Rightarrow> bar_message list \<Rightarrow> bar_message list" where
  "for_series symbol tf bars = filter (\<lambda>b. bm_symbol b = symbol \<and> bm_tf b = tf) bars"

lemma for_series_append [simp]: "for_series symbol tf (xs @ ys) = for_series symbol tf xs @ for_series symbol tf ys"
  by (simp add: for_series_def)

lemma for_series_built:
  "for_series symbol tf (map (build_bar symbol' tf') accs) =
     (if symbol = symbol' \<and> tf = tf' then map (build_bar symbol' tf') accs else [])"
  by (induction accs) (auto simp: for_series_def build_bar_def)

lemma update_tf_other:
  assumes "map_of HTF_MINUTES tf = Some minutes" and "bm_symbol bar \<noteq> symbol \<or> tf' \<noteq> tf"
  shows "ba_accs (fst (update_tf et bar tf' s)) (acc_key symbol tf) = ba_accs s (acc_key symbol tf) \<and>
    for_series symbol tf (snd (update_tf et bar tf' s)) = []"
proof (cases "map_of HTF_MINUTES tf'")
  case None
  then show ?thesis by (simp add: update_tf_none for_series_def)
next
  case (Some m)
  have "acc_key (bm_symbol bar) tf' \<noteq> acc_key symbol tf"
    using acc_key_inj [of "bm_symbol bar" tf' symbol tf] no_colon [OF Some] no_colon [OF assms(1)] assms(2) by blast
  with assms(2) show ?thesis by (auto simp: update_tf_series [OF Some] for_series_built)
qed

lemma update_tfs_other:
  assumes "map_of HTF_MINUTES tf = Some minutes" and "bm_symbol bar \<noteq> symbol \<or> tf \<notin> set tfs"
  shows "ba_accs (fst (update_tfs et bar tfs s)) (acc_key symbol tf) = ba_accs s (acc_key symbol tf) \<and>
    for_series symbol tf (snd (update_tfs et bar tfs s)) = []"
  using assms
proof (induction tfs arbitrary: s)
  case (Cons tf' tfs)
  with update_tf_other [OF assms(1), of bar symbol tf' et s] show ?case
    by (auto simp: Let_def split_beta)
qed (simp add: for_series_def)
lemma update_tfs_series:
  assumes "map_of HTF_MINUTES tf = Some minutes" and "tf \<in> set tfs" and "distinct tfs" and "bm_symbol bar = symbol"
  shows "ba_accs (fst (update_tfs et bar tfs s)) (acc_key symbol tf) =
      Some (fst (series_step et (ba_session s) minutes bar (ba_accs s (acc_key symbol tf)))) \<and>
    for_series symbol tf (snd (update_tfs et bar tfs s)) =
      map (build_bar symbol tf) (snd (series_step et (ba_session s) minutes bar (ba_accs s (acc_key symbol tf))))"
  using assms
proof (induction tfs arbitrary: s)
  case (Cons tf' tfs)
  show ?case
  proof (cases "tf' = tf")
    case True
    with Cons.prems update_tfs_other [OF assms(1), of bar symbol tfs et "fst (update_tf et bar tf s)"] show ?thesis
      by (simp add: Let_def split_beta update_tf_series [OF assms(1)] for_series_built)
  next
    case False
    with Cons update_tf_other [OF assms(1), of bar symbol tf' et s] show ?thesis
      by (simp add: Let_def split_beta)
  qed
qed simp

definition of_series :: "string \<Rightarrow> bar_message \<Rightarrow> bool" where
  "of_series symbol bar = (bm_tf bar = ''1m'' \<and> bm_symbol bar = symbol)"

lemma update_series:
  assumes "map_of HTF_MINUTES tf = Some minutes" and "tf \<in> set (ba_timeframes s)" and "distinct (ba_timeframes s)"
  shows "of_series symbol bar \<Longrightarrow> ba_accs (fst (update et bar s)) (acc_key symbol tf) =
      Some (fst (series_step et (ba_session s) minutes bar (ba_accs s (acc_key symbol tf)))) \<and>
    for_series symbol tf (snd (update et bar s)) =
      map (build_bar symbol tf) (snd (series_step et (ba_session s) minutes bar (ba_accs s (acc_key symbol tf))))"
    and "\<not> of_series symbol bar \<Longrightarrow> ba_accs (fst (update et bar s)) (acc_key symbol tf) = ba_accs s (acc_key symbol tf) \<and>
      for_series symbol tf (snd (update et bar s)) = []"
  using update_tfs_series [OF assms(1-3), of bar symbol et s] update_tfs_other [OF assms(1), of bar symbol "ba_timeframes s" et s]
  by (auto simp: update_def of_series_def for_series_def)

lemma updates_append:
  "updates et (xs @ ys) s = (let (s', out) = updates et xs s; (s'', more) = updates et ys s' in (s'', out @ more))"
  by (induction xs arbitrary: s) (simp_all add: Let_def split_beta)

lemma updates_snoc:
  "fst (updates et (bars @ [b]) s) = fst (update et b (fst (updates et bars s)))"
  "snd (updates et (bars @ [b]) s) = snd (updates et bars s) @ snd (update et b (fst (updates et bars s)))"
  by (simp_all add: updates_append Let_def split_beta)

section \<open>Simulation\<close>

text \<open>The accumulator of a series stands for the open segment.\<close>

definition stands_for :: "int \<Rightarrow> bar_message list \<Rightarrow> accumulator \<Rightarrow> bool" where
  "stands_for minutes seg acc \<longleftrightarrow> seg \<noteq> [] \<and>
     (\<forall>symbol tf. build_bar symbol tf acc = aggregate symbol tf minutes seg) \<and>
     ac_last_ts acc = epoch (bm_ts (last seg)) \<and>
     ac_period acc = floor_to_period (epoch (bm_ts (last seg))) minutes \<and> accumulator_valid acc"

lemma stands_for_new:
  assumes "bm_low b \<le> bm_high b"
  shows "stands_for minutes [b] (new_accumulator b (floor_to_period (epoch (bm_ts b)) minutes))"
  using assms by (simp add: stands_for_def new_accumulator_def build_bar_def aggregate_def accumulator_valid_def)

lemma stands_for_extend:
  assumes rep: "stands_for minutes seg acc" and period: "ac_period acc = floor_to_period (epoch (bm_ts b)) minutes"
  shows "stands_for minutes (seg @ [b]) (extend_accumulator b (floor_to_period (epoch (bm_ts b)) minutes) acc)"
proof -
  have seg: "seg \<noteq> []" using rep by (simp add: stands_for_def)
  have built: "build_bar [] [] acc = aggregate [] [] minutes seg" using rep unfolding stands_for_def by blast
  then have "ac_high acc = Max (bm_high ` set seg)" "ac_low acc = Min (bm_low ` set seg)"
    "ac_open acc = bm_open (hd seg)" "ac_volume acc = sum_list (map bm_volume seg)"
    "ac_session acc = bm_session (hd seg)" "ac_flat acc = list_all bm_flat seg"
    "ac_period acc * second = floor_to_period (epoch (bm_ts (hd seg))) minutes * second"
    by (simp_all add: build_bar_def aggregate_def)
  moreover have "accumulator_valid acc" using rep by (simp add: stands_for_def)
  ultimately show ?thesis
    using seg period
    by (auto simp: stands_for_def extend_accumulator_def build_bar_def aggregate_def accumulator_valid_def
        max.commute min.commute)
qed

lemma step_simulates:
  assumes bars: "bars \<noteq> []" and rep: "stands_for minutes (last (segments et session minutes bars)) acc"
    and b: "bm_low b \<le> bm_high b" and later: "epoch (bm_ts (last bars)) < epoch (bm_ts b)"
  defines "segs \<equiv> segments et session minutes (bars @ [b])"
  shows "stands_for minutes (last segs) (fst (series_step et session minutes b (Some acc))) \<and>
    map (build_bar symbol tf) (snd (series_step et session minutes b (Some acc))) =
      map (aggregate symbol tf minutes) (drop (length (segments et session minutes bars) - 1) (butlast segs))"
proof -
  let ?old = "segments et session minutes bars"
  have ne: "?old \<noteq> []" using bars by (simp add: segments_empty_iff)
  have last: "ac_last_ts acc = epoch (bm_ts (last bars))" "ac_period acc = floor_to_period (epoch (bm_ts (last bars))) minutes"
    and valid: "accumulator_valid acc"
    using rep segments_last [OF bars, of et session minutes] by (simp_all add: stands_for_def)
  show ?thesis
  proof (cases "joins et session minutes (last bars) b")
    case True
    then have segs: "segs = butlast ?old @ [last ?old @ [b]]"
      using ne segments_last [OF bars, of et session minutes] by (simp add: segs_def segments_snoc add_bar_def)
    have "series_step et session minutes b (Some acc) =
        (extend_accumulator b (floor_to_period (epoch (bm_ts b)) minutes) acc, [])"
      using True later last valid by (simp add: series_step_def joins_def Let_def)
    with stands_for_extend [OF rep] True last segs show ?thesis by (simp add: joins_def)
  next
    case False
    then have segs: "segs = ?old @ [[b]]"
      using ne segments_last [OF bars, of et session minutes] by (simp add: segs_def segments_snoc add_bar_def)
    have "series_step et session minutes b (Some acc) =
        (new_accumulator b (floor_to_period (epoch (bm_ts b)) minutes), [acc])"
      using False later last by (auto simp: series_step_def joins_def Let_def)
    moreover have "drop (length ?old - 1) ?old = [last ?old]"
      using ne by (metis append_butlast_last_id append_eq_conv_conj length_butlast)
    ultimately show ?thesis using stands_for_new [OF b] segs rep by (simp add: stands_for_def)
  qed
qed

lemma segments_grow:
  "bars \<noteq> [] \<Longrightarrow> butlast (segments et session minutes (bars @ [b])) =
     butlast (segments et session minutes bars) @
     drop (length (segments et session minutes bars) - 1) (butlast (segments et session minutes (bars @ [b])))"
proof -
  assume "bars \<noteq> []"
  then have ne: "segments et session minutes bars \<noteq> []" by (simp add: segments_empty_iff)
  let ?old = "segments et session minutes bars"
  have "butlast ?old @ drop (length ?old - 1) ?old = ?old"
    by (metis append_take_drop_id butlast_conv_take)
  with ne show ?thesis by (simp add: segments_snoc add_bar_def)
qed

definition accepted :: "string \<Rightarrow> bar_message list \<Rightarrow> bar_message list" where
  "accepted symbol bars = in_order (filter (of_series symbol) bars)"

lemma in_order_subset: "set (in_order bars) \<subseteq> set bars"
  by (induction bars rule: rev_induct) (auto simp: in_order_snoc accept_def)

lemma updates_simulate:
  assumes tf: "map_of HTF_MINUTES tf = Some minutes" and s0: "s0 = new_accumulators tfs session"
    and tfs: "tf \<in> set (ba_timeframes s0)" "distinct (ba_timeframes s0)"
    and valid: "\<forall>b \<in> set bars. bm_low b \<le> bm_high b"
  shows "for_series symbol tf (snd (updates et bars s0)) =
      map (aggregate symbol tf minutes) (butlast (segments et session minutes (accepted symbol bars))) \<and>
    (case ba_accs (fst (updates et bars s0)) (acc_key symbol tf) of
       None \<Rightarrow> segments et session minutes (accepted symbol bars) = []
     | Some acc \<Rightarrow> segments et session minutes (accepted symbol bars) \<noteq> [] \<and>
         stands_for minutes (last (segments et session minutes (accepted symbol bars))) acc)"
  using valid
proof (induction bars rule: rev_induct)
  case Nil
  show ?case by (simp add: accepted_def s0 new_accumulators_def for_series_def)
next
  case (snoc b bars)
  let ?s = "fst (updates et bars s0)" and ?acc = "accepted symbol bars"
  let ?segs = "segments et session minutes ?acc"
  have frame: "ba_timeframes ?s = ba_timeframes s0" "ba_session ?s = session"
    by (simp_all add: s0 new_accumulators_def)
  note IH = snoc.IH [OF snoc.prems [simplified, THEN conjunct2]]
  have b: "bm_low b \<le> bm_high b" using snoc.prems by simp
  note steps = update_series [OF tf, of ?s symbol b et, unfolded frame, OF tfs]
  show ?case
  proof (cases "of_series symbol b")
    case False
    then have "accepted symbol (bars @ [b]) = ?acc" by (simp add: accepted_def)
    with IH steps(2) [OF False] show ?thesis by (simp add: updates_snoc cong: option.case_cong)
  next
    case True
    have acc': "accepted symbol (bars @ [b]) = accept ?acc b" using True by (simp add: accepted_def in_order_snoc)
    show ?thesis
    proof (cases "ba_accs ?s (acc_key symbol tf)")
      case None
      with IH have "?acc = []" by (simp add: segments_empty_iff)
      with None IH steps(1) [OF True] stands_for_new [OF b, of minutes] acc' show ?thesis
        by (simp add: updates_snoc series_step_def Let_def accept_def segments_def add_bar_def)
    next
      case (Some acc)
      with IH have ne: "?acc \<noteq> []" and rep: "stands_for minutes (last ?segs) acc" by (auto simp: segments_empty_iff)
      have last: "ac_last_ts acc = epoch (bm_ts (last ?acc))"
        using rep segments_last [OF ne, of et session minutes] by (simp add: stands_for_def)
      show ?thesis
      proof (cases "epoch (bm_ts (last ?acc)) < epoch (bm_ts b)")
        case False
        then have "accept ?acc b = ?acc" using ne by (simp add: accept_def)
        moreover have "series_step et session minutes b (Some acc) = (acc, [])"
          using False last by (simp add: series_step_def Let_def)
        ultimately show ?thesis using IH Some steps(1) [OF True] acc' by (simp add: updates_snoc)
      next
        case later: True
        then have grown: "accept ?acc b = ?acc @ [b]" by (simp add: accept_def)
        note sim = step_simulates [OF ne rep b later, of symbol tf]
        have "segments et session minutes (?acc @ [b]) \<noteq> []" by (simp add: segments_empty_iff)
        moreover have "map (aggregate symbol tf minutes) (butlast (segments et session minutes (?acc @ [b]))) =
            map (aggregate symbol tf minutes) (butlast ?segs) @
            map (build_bar symbol tf) (snd (series_step et session minutes b (Some acc)))"
          by (subst segments_grow [OF ne]) (simp only: map_append conjunct2 [OF sim])
        ultimately show ?thesis using IH Some steps(1) [OF True] acc' grown conjunct1 [OF sim]
          by (simp add: updates_snoc)
      qed
    qed
  qed
qed

text \<open>C36. The accumulator implements its specification.  Of the stream of bars, let the accepted bars of a symbol be its
  one-minute bars that are later than every one accepted before, cut into the longest runs that lie in one period and
  cross no session boundary.  Then for every timeframe the completed bars of the series are, in order, the aggregates
  (first open, highest high, lowest low, last close, total volume) of all runs but the last, and the partial bar is the
  aggregate of the last; no accepted bar is lost and none is counted twice.\<close>

theorem accumulator_refines:
  assumes "map_of HTF_MINUTES tf = Some minutes" and "tf \<in> set (ba_timeframes (new_accumulators tfs session))"
    and "distinct (ba_timeframes (new_accumulators tfs session))" and "\<forall>b \<in> set bars. bm_low b \<le> bm_high b"
  shows "(let (s, completed) = updates et bars (new_accumulators tfs session);
              segs = segments et session minutes (accepted symbol bars)
          in for_series symbol tf completed = map (aggregate symbol tf minutes) (butlast segs) \<and>
             current_partial s symbol tf = (if segs = [] then None else Some (aggregate symbol tf minutes (last segs))) \<and>
             concat segs = accepted symbol bars)"
proof -
  let ?segs = "segments et session minutes (accepted symbol bars)"
  note sim = updates_simulate [OF assms(1) refl assms(2-4), of symbol et]
  have "current_partial (fst (updates et bars (new_accumulators tfs session))) symbol tf =
      (if ?segs = [] then None else Some (aggregate symbol tf minutes (last ?segs)))"
    using sim by (auto simp: current_partial_def stands_for_def split: option.splits)
  with sim segments_facts show ?thesis by (simp add: Let_def split_beta)
qed

section \<open>The history store\<close>

text \<open>Every deque respects the configured length and every key stands once, after any operation.\<close>

definition data_ok :: "nat \<Rightarrow> (string \<times> bar_message list) list \<Rightarrow> bool" where
  "data_ok n data \<longleftrightarrow> distinct (map fst data) \<and> (\<forall>k d. map_of data k = Some d \<longrightarrow> length d \<le> n)"

definition history_ok :: "bar_history \<Rightarrow> bool" where
  "history_ok h = data_ok (hs_maxlen h) (hs_data h)"

lemma length_bounded [simp]: "length (bounded n xs) \<le> n"
  by (simp add: bounded_def)

lemma bounded_bounded [simp]: "bounded n (bounded n xs) = bounded n xs"
  by (simp add: bounded_def)

lemma data_ok_update: "data_ok n data \<Longrightarrow> length d \<le> n \<Longrightarrow> data_ok n (AList.update k d data)"
  unfolding data_ok_def update_conv' by (auto simp: distinct_update)

lemma data_ok_delete: "data_ok n data \<Longrightarrow> data_ok n (AList.delete k data)"
  unfolding data_ok_def delete_conv' by (auto simp: distinct_delete)

lemma history_append_ok: "history_ok h \<Longrightarrow> history_ok (history_append bar h)"
  by (simp add: history_ok_def history_append_def Let_def data_ok_update)

lemma history_seed_ok: "history_ok h \<Longrightarrow> history_ok (history_seed symbol tf bars h)"
  unfolding history_ok_def history_seed_def Let_def
  using data_ok_update [of "hs_maxlen h" "hs_data h"] length_bounded [of "hs_maxlen h"] by simp

lemma migrate_keys_ok: "data_ok n data \<Longrightarrow> data_ok n (migrate_keys a b ks data)"
proof (induction a b ks data rule: migrate_keys.induct)
  case (2 a b k ks data)
  have "length (case map_of data k of None \<Rightarrow> [] | Some d \<Rightarrow> d) \<le> n"
    using 2(2) by (simp add: data_ok_def split: option.split)
  with 2 show ?case by (simp add: Let_def data_ok_update data_ok_delete)
qed simp

lemma history_migrate_ok: "history_ok h \<Longrightarrow> history_ok (history_migrate a b h)"
  by (simp add: history_ok_def history_migrate_def Let_def migrate_keys_ok)

text \<open>What is read back: the newest bars, at most the configured number of them.\<close>

lemma history_append_get:
  "history_get (history_append bar h) (bm_symbol bar) (bm_tf bar) =
     bounded (hs_maxlen h) (history_get h (bm_symbol bar) (bm_tf bar) @ [bar])"
  by (simp add: history_get_def history_append_def Let_def update_conv')

lemma history_seed_get: "history_get (history_seed symbol tf bars h) symbol tf = bounded (hs_maxlen h) bars"
  by (simp add: history_get_def history_seed_def Let_def update_conv')

end
