(* ===== verification/Aggregator_Correct.thy ===== *)
theory Aggregator_Correct
  imports Bar_Aggregator Accumulator_Correct
begin

text \<open>
  The aggregation service against its accumulator: what the emit-once guard lets through, and what the
  checkpoints restore.
\<close>

section \<open>The service runs its accumulator\<close>

fun bars_in :: "agg_event list \<Rightarrow> bar_message list" where
  "bars_in [] = []"
| "bars_in (Bar bar _ _ _ # es) = bar # bars_in es"
| "bars_in (_ # es) = bars_in es"

lemma bars_of_append [simp]: "bars_in (xs @ ys) = bars_in xs @ bars_in ys"
  by (induction xs rule: bars_in.induct) simp_all

lemma emit_bars_frame [simp, frame_simps]:
  "ag_accs (fst (emit_bars sent clock bars a)) = ag_accs a"
  "ag_completed (fst (emit_bars sent clock bars a)) = ag_completed a"
  "ag_state_topic (fst (emit_bars sent clock bars a)) = ag_state_topic a"
  by (induction bars arbitrary: a) (simp_all add: Let_def)

lemma process_bar_accs:
  "ag_accs (process_bar et sent saved clock bar a) = fst (update et bar (ag_accs a)) \<and>
   ag_completed (process_bar et sent saved clock bar a) = ag_completed a @ snd (update et bar (ag_accs a))"
  by (simp add: process_bar_def Let_def split_beta)

lemma handle_other:
  assumes "\<And>bar sent saved clock. e \<noteq> Bar bar sent saved clock"
  shows "ag_accs (handle et e a) = ag_accs a" "ag_completed (handle et e a) = ag_completed a"
    "ag_htf_topic (handle et e a) = ag_htf_topic a" "ag_emitted (handle et e a) = ag_emitted a"
    "ag_state_topic (handle et e a) = ag_state_topic a"
  using assms by (cases e; simp add: skip_payload_def health_check_def handle_unhealthy_def reset_consumer_def
      split: prod.splits health_reason.splits)+

lemma run_events_Nil [simp]: "run_events et [] a = a" by (simp add: run_events_def)
lemma run_events_Cons: "run_events et (e # es) a = run_events et es (handle et e a)" by (simp add: run_events_def)
lemma run_events_snoc: "run_events et (es @ [e]) a = handle et e (run_events et es a)" by (simp add: run_events_def)

lemma run_accs:
  "ag_accs (run_events et es a) = fst (updates et (bars_in es) (ag_accs a)) \<and>
   ag_completed (run_events et es a) = ag_completed a @ snd (updates et (bars_in es) (ag_accs a))"
proof (induction es arbitrary: a)
  case (Cons e es)
  show ?case
  proof (cases e)
    case (Bar bar sent saved clock)
    with Cons [of "handle et e a"] process_bar_accs [of et sent saved clock bar a] show ?thesis
      by (simp add: run_events_Cons Let_def split_beta)
  qed (use Cons [of "handle et e a"] in \<open>simp_all add: run_events_Cons handle_other del: handle.simps\<close>)
qed simp

section \<open>Emit once\<close>

definition emit_step :: "bar_message list \<Rightarrow> bar_message \<Rightarrow> bar_message list" where
  "emit_step published b = (if published \<noteq> [] \<and> bm_ts (last published) = bm_ts b then published else published @ [b])"

definition emit_series :: "bar_message list \<Rightarrow> bar_message list" where
  "emit_series bars = foldl emit_step [] bars"

lemma emit_series_Nil [simp]: "emit_series [] = []" by (simp add: emit_series_def)
lemma emit_series_snoc: "emit_series (bars @ [b]) = emit_step (emit_series bars) b" by (simp add: emit_series_def)

definition emitted_inv :: "bar_message list \<Rightarrow> aggregator \<Rightarrow> bool" where
  "emitted_inv completed a \<longleftrightarrow> (\<forall>symbol tf.
     for_series symbol tf (ag_htf_topic a) = emit_series (for_series symbol tf completed) \<and>
     ag_emitted a (symbol, tf) =
       (let p = emit_series (for_series symbol tf completed) in if p = [] then None else Some (bm_ts (last p))))"

lemma for_series_single: "for_series symbol tf [b] = (if bm_symbol b = symbol \<and> bm_tf b = tf then [b] else [])"
  by (simp add: for_series_def)

lemma emit_bars_inv:
  assumes "emitted_inv completed a"
  shows "snd (emit_bars (\<lambda>_. True) clock bars a) \<and>
    emitted_inv (completed @ bars) (fst (emit_bars (\<lambda>_. True) clock bars a))"
  using assms
proof (induction bars arbitrary: completed a)
  case (Cons b bars)
  let ?series = "\<lambda>c. for_series (bm_symbol b) (bm_tf b) c"
  let ?p = "emit_series (?series completed)"
  have emitted: "ag_emitted a (bm_symbol b, bm_tf b) = (if ?p = [] then None else Some (bm_ts (last ?p)))"
    using Cons.prems unfolding emitted_inv_def Let_def by blast
  show ?case
  proof (cases "ag_emitted a (bm_symbol b, bm_tf b) = Some (bm_ts b)")
    case True
    then have "emit_step ?p b = ?p" using emitted by (auto simp: emit_step_def split: if_splits)
    then have "emitted_inv (completed @ [b]) a"
      using Cons.prems by (auto simp: emitted_inv_def for_series_single emit_series_snoc)
    from Cons.IH [OF this] True show ?thesis by simp
  next
    case False
    let ?a = "a\<lparr>ag_emitted := (ag_emitted a)((bm_symbol b, bm_tf b) \<mapsto> bm_ts b), ag_htf_topic := ag_htf_topic a @ [b],
        ag_health := record_htf_bar clock (ag_health a)\<rparr>"
    have "emit_step ?p b = ?p @ [b]" using False emitted by (auto simp: emit_step_def split: if_splits)
    then have "emitted_inv (completed @ [b]) ?a"
      using Cons.prems by (auto simp: emitted_inv_def for_series_single emit_series_snoc Let_def)
    from Cons.IH [OF this] False show ?thesis by simp
  qed
qed simp

text \<open>All publishes of an event succeed.\<close>

definition all_sent :: "agg_event \<Rightarrow> bool" where
  "all_sent e = (case e of Bar _ sent _ _ \<Rightarrow> (sent = (\<lambda>_. True)) | _ \<Rightarrow> True)"

lemma emitted_inv_cong:
  "ag_htf_topic a = ag_htf_topic a' \<Longrightarrow> ag_emitted a = ag_emitted a' \<Longrightarrow> emitted_inv c a = emitted_inv c a'"
  by (simp add: emitted_inv_def)

lemma process_bar_inv:
  assumes "emitted_inv (ag_completed a) a"
  shows "emitted_inv (ag_completed (process_bar et (\<lambda>_. True) saved clock bar a)) (process_bar et (\<lambda>_. True) saved clock bar a)"
proof -
  let ?completed = "snd (update et bar (ag_accs a))"
  let ?a = "a\<lparr>ag_health := record_bar (bm_ts bar) (ag_health a), ag_accs := fst (update et bar (ag_accs a)),
      ag_completed := ag_completed a @ ?completed\<rparr>"
  have "emitted_inv (ag_completed a) ?a" using assms by (simp add: emitted_inv_def)
  note emit = emit_bars_inv [OF this, of clock ?completed]
  let ?b = "process_bar et (\<lambda>_. True) saved clock bar a" and ?e = "fst (emit_bars (\<lambda>_. True) clock ?completed ?a)"
  have "ag_htf_topic ?b = ag_htf_topic ?e" "ag_emitted ?b = ag_emitted ?e"
    using conjunct1 [OF emit] by (simp_all add: process_bar_def Let_def split_beta)
  with conjunct2 [OF emit] show ?thesis
    unfolding conjunct2 [OF process_bar_accs] by (simp cong: emitted_inv_cong)
qed

lemma events_inv:
  "list_all all_sent es \<Longrightarrow> emitted_inv (ag_completed a) a \<Longrightarrow>
   emitted_inv (ag_completed (run_events et es a)) (run_events et es a)"
proof (induction es arbitrary: a)
  case (Cons e es)
  have "emitted_inv (ag_completed (handle et e a)) (handle et e a)"
  proof (cases "\<exists>bar sent saved clock. e = Bar bar sent saved clock")
    case True
    with Cons.prems process_bar_inv show ?thesis by (auto simp: all_sent_def)
  next
    case False
    then have "\<And>bar sent saved clock. e \<noteq> Bar bar sent saved clock" by blast
    note same = handle_other [of e, OF this, of et a]
    show ?thesis unfolding same(2) using Cons.prems(2) emitted_inv_cong [OF same(3,4)] by blast
  qed
  with Cons show ?case by (simp add: run_events_Cons del: handle.simps)
qed simp

lemma run_emitted:
  assumes "list_all all_sent es"
  shows "for_series symbol tf (ag_htf_topic (run_events et es (new_aggregator clock))) =
    emit_series (for_series symbol tf (snd (updates et (bars_in es) (new_accumulators [] RTH))))"
proof -
  have "emitted_inv (ag_completed (new_aggregator clock)) (new_aggregator clock)"
    by (simp add: emitted_inv_def new_aggregator_def for_series_def)
  from events_inv [OF assms this, of et] run_accs [of et es "new_aggregator clock"] show ?thesis
    by (simp add: emitted_inv_def new_aggregator_def)
qed
lemma sorted_last: "sorted (map f xs) \<Longrightarrow> x \<in> set xs \<Longrightarrow> f x \<le> f (last xs)"
  by (induction xs rule: rev_induct) (auto simp: sorted_append)

lemma emit_series_first:
  assumes "sorted (map bm_ts bars)"
  shows "sorted_wrt (<) (map bm_ts (emit_series bars)) \<and>
    set (emit_series bars) = {b. find (\<lambda>c. bm_ts c = bm_ts b) bars = Some b} \<and>
    bm_ts ` set (emit_series bars) = bm_ts ` set bars \<and> (bars \<noteq> [] \<longrightarrow> bm_ts (last (emit_series bars)) = bm_ts (last bars))"
  using assms
proof (induction bars rule: rev_induct)
  case (snoc b bars)
  let ?p = "emit_series bars"
  from snoc.prems have le: "\<And>c. c \<in> set bars \<Longrightarrow> bm_ts c \<le> bm_ts b" by (auto simp: sorted_append)
  have "sorted (map bm_ts bars)" using snoc.prems by (simp add: sorted_append)
  from snoc.IH [OF this] have IH: "sorted_wrt (<) (map bm_ts ?p)" "set ?p = {b. find (\<lambda>c. bm_ts c = bm_ts b) bars = Some b}"
    "bm_ts ` set ?p = bm_ts ` set bars" "bars \<noteq> [] \<longrightarrow> bm_ts (last ?p) = bm_ts (last bars)"
    by blast+
  have found: "find (\<lambda>c. bm_ts c = bm_ts x) (bars @ [b]) =
      (if bm_ts x \<in> bm_ts ` set bars then find (\<lambda>c. bm_ts c = bm_ts x) bars else if bm_ts b = bm_ts x then Some b else None)" for x
    by (induction bars) auto
  have none: "find (\<lambda>c. bm_ts c = bm_ts x) bars = None \<longleftrightarrow> bm_ts x \<notin> bm_ts ` set bars" for x
    by (simp add: find_None_iff image_iff) metis
  have some: "find (\<lambda>c. bm_ts c = bm_ts x) bars = Some y \<Longrightarrow> bm_ts x \<in> bm_ts ` set bars" for x y
    using none [of x] by (cases "find (\<lambda>c. bm_ts c = bm_ts x) bars") simp_all
  have p_empty: "?p = [] \<longleftrightarrow> bars = []" using IH(3) by (metis image_is_empty set_empty)
  show ?case
  proof (cases "?p \<noteq> [] \<and> bm_ts (last ?p) = bm_ts b")
    case True
    then have mem: "bm_ts b \<in> bm_ts ` set bars" using IH(3) by (metis imageI last_in_set)
    then have "find (\<lambda>c. bm_ts c = bm_ts x) (bars @ [b]) = Some x \<longleftrightarrow> find (\<lambda>c. bm_ts c = bm_ts x) bars = Some x" for x
      unfolding found using some [of x x] by (cases "bm_ts x \<in> bm_ts ` set bars") auto
    then have "{x. find (\<lambda>c. bm_ts c = bm_ts x) (bars @ [b]) = Some x} = set ?p" by (simp only: IH(2))
    with True IH mem show ?thesis by (auto simp: emit_series_snoc emit_step_def)
  next
    case False
    have new: "bm_ts b \<notin> bm_ts ` set bars"
    proof
      assume mem: "bm_ts b \<in> bm_ts ` set bars"
      then have ne: "bars \<noteq> []" by auto
      from mem obtain c where c: "c \<in> set bars" "bm_ts c = bm_ts b" by auto
      from sorted_last [OF \<open>sorted (map bm_ts bars)\<close> c(1)] c(2) le [of "last bars"] ne
      have "bm_ts (last bars) = bm_ts b" by simp
      with IH(4) False ne p_empty show False by simp
    qed
    then have "find (\<lambda>c. bm_ts c = bm_ts x) (bars @ [b]) = Some x \<longleftrightarrow>
        x = b \<or> find (\<lambda>c. bm_ts c = bm_ts x) bars = Some x" for x
      unfolding found using some [of x x] by (cases "bm_ts x \<in> bm_ts ` set bars") auto
    then have "{x. find (\<lambda>c. bm_ts c = bm_ts x) (bars @ [b]) = Some x} = insert b (set ?p)"
      unfolding IH(2) by blast
    moreover have "\<forall>t \<in> bm_ts ` set ?p. t < bm_ts b"
      using new le unfolding IH(3) by (metis image_iff order.strict_iff_order)
    moreover have "emit_series (bars @ [b]) = ?p @ [b]" using False by (auto simp: emit_series_snoc emit_step_def)
    ultimately show ?thesis using IH(1,3) by (simp add: sorted_wrt_append)
  qed
qed simp


section \<open>Periods ascend\<close>

lemma in_order_sorted: "sorted_wrt (<) (map (\<lambda>b. epoch (bm_ts b)) (in_order bars))"
proof (induction bars rule: rev_induct)
  case (snoc b bars)
  have "epoch (bm_ts x) \<le> epoch (bm_ts (last (in_order bars)))" if "x \<in> set (in_order bars)" for x
    using sorted_last [of "\<lambda>b. epoch (bm_ts b)", OF _ that] snoc by (simp add: strict_sorted_iff)
  with snoc show ?case by (force simp: in_order_snoc accept_def sorted_wrt_append)
qed simp

lemma floor_to_period_mono:
  assumes "map_of HTF_MINUTES tf = Some minutes" and "s \<le> t"
  shows "floor_to_period s minutes \<le> floor_to_period t minutes"
proof -
  have "0 < minutes" using assms(1) by (auto simp: HTF_MINUTES_def split: if_splits)
  then show ?thesis using assms(2) by (simp add: floor_to_period_def Let_def zdiv_mono1)
qed

lemma segment_periods:
  assumes tf: "map_of HTF_MINUTES tf = Some minutes"
    and "sorted_wrt (<) (map (\<lambda>b. epoch (bm_ts b)) bars)"
  shows "sorted (map (\<lambda>seg. floor_to_period (epoch (bm_ts (hd seg))) minutes) (segments et session minutes bars)) \<and>
    (bars \<noteq> [] \<longrightarrow> floor_to_period (epoch (bm_ts (hd (last (segments et session minutes bars))))) minutes =
       floor_to_period (epoch (bm_ts (last bars))) minutes)"
  using assms(2)
proof (induction bars rule: rev_induct)
  case (snoc b bars)
  let ?segs = "segments et session minutes bars" and ?f = "\<lambda>seg. floor_to_period (epoch (bm_ts (hd seg))) minutes"
  have IH: "sorted (map ?f ?segs)" "bars \<noteq> [] \<Longrightarrow> ?f (last ?segs) = floor_to_period (epoch (bm_ts (last bars))) minutes"
    using snoc by (simp_all add: sorted_wrt_append)
  show ?case
  proof (cases "bars = []")
    case True
    then show ?thesis by (simp add: segments_def add_bar_def)
  next
    case False
    note last = segments_last [OF False, of et session minutes]
    have ne: "?segs \<noteq> []" using False by (simp add: segments_empty_iff)
    have "epoch (bm_ts (last bars)) \<le> epoch (bm_ts b)"
      using snoc.prems False by (simp add: sorted_wrt_append less_imp_le)
    from floor_to_period_mono [OF tf this] IH(2) [OF False]
    have le: "?f (last ?segs) \<le> floor_to_period (epoch (bm_ts b)) minutes" by simp
    then have up: "\<forall>seg \<in> set ?segs. ?f seg \<le> floor_to_period (epoch (bm_ts b)) minutes"
      using sorted_last [OF IH(1)] by fastforce
    show ?thesis
    proof (cases "joins et session minutes (last (last ?segs)) b")
      case True
      have "map ?f (butlast ?segs @ [last ?segs @ [b]]) = map ?f (butlast ?segs @ [last ?segs])"
        using last by simp
      then have same: "map ?f (butlast ?segs @ [last ?segs @ [b]]) = map ?f ?segs" using ne by simp
      have "segments et session minutes (bars @ [b]) = butlast ?segs @ [last ?segs @ [b]]"
        using True ne by (simp add: segments_snoc add_bar_def)
      with same IH True last False show ?thesis by (auto simp: joins_def)
    next
      case False
      then have "segments et session minutes (bars @ [b]) = ?segs @ [[b]]" using ne by (simp add: segments_snoc add_bar_def)
      with IH up show ?thesis by (simp add: sorted_append)
    qed
  qed
qed simp

lemma completed_sorted:
  assumes "map_of HTF_MINUTES tf = Some minutes"
  shows "sorted (map bm_ts (map (aggregate symbol tf minutes) (butlast (segments et session minutes (accepted symbol bars)))))"
proof -
  have "sorted_wrt (<) (map (\<lambda>b. epoch (bm_ts b)) (accepted symbol bars))"
    unfolding accepted_def by (rule in_order_sorted)
  from conjunct1 [OF segment_periods [OF assms this, of et session]]
  have "sorted (map (\<lambda>seg. floor_to_period (epoch (bm_ts (hd seg))) minutes) (segments et session minutes (accepted symbol bars)))" .
  then have "sorted (butlast (map (\<lambda>seg. floor_to_period (epoch (bm_ts (hd seg))) minutes)
      (segments et session minutes (accepted symbol bars))))"
    by (simp only: butlast_conv_take sorted_wrt_take)
  then have "sorted_wrt (\<lambda>x y. floor_to_period (epoch (bm_ts (hd x))) minutes \<le> floor_to_period (epoch (bm_ts (hd y))) minutes)
      (butlast (segments et session minutes (accepted symbol bars)))"
    by (simp add: map_butlast [symmetric] sorted_wrt_map)
  then show ?thesis
    unfolding sorted_wrt_map by (rule sorted_wrt_mono_rel [rotated]) (simp add: aggregate_def second_def)
qed

text \<open>C37. What the service publishes of a series when every publish succeeds: the start times of the published bars
  increase strictly, and of the segments completed within one period exactly the first is published.  A period that a
  session boundary cuts in two is therefore published without its second part.\<close>

theorem emit_once_publishes_first:
  assumes "map_of HTF_MINUTES tf = Some minutes" and "list_all all_sent es"
    and "\<forall>b \<in> set (bars_in es). bm_low b \<le> bm_high b"
  shows "(let published = for_series symbol tf (ag_htf_topic (run_events et es (new_aggregator clock)));
              completed = map (aggregate symbol tf minutes) (butlast (segments et RTH minutes (accepted symbol (bars_in es))))
          in sorted_wrt (<) (map bm_ts published) \<and>
             set published = {b. find (\<lambda>c. bm_ts c = bm_ts b) completed = Some b})"
proof -
  have "tf \<in> set (ba_timeframes (new_accumulators [] RTH))"
    using map_of_SomeD [OF assms(1)] by (force simp: new_accumulators_def ALL_TFS_def)
  moreover have "distinct (ba_timeframes (new_accumulators [] RTH))"
    by (simp add: new_accumulators_def ALL_TFS_def HTF_MINUTES_def)
  ultimately have "for_series symbol tf (snd (updates et (bars_in es) (new_accumulators [] RTH))) =
      map (aggregate symbol tf minutes) (butlast (segments et RTH minutes (accepted symbol (bars_in es))))"
    using updates_simulate [OF assms(1) refl _ _ assms(3), of "[]" RTH symbol et] by blast
  with run_emitted [OF assms(2), of symbol tf et clock] emit_series_first [OF completed_sorted [OF assms(1)]]
  show ?thesis by (simp add: Let_def)
qed

section \<open>Checkpoints\<close>

lemma update_accs_dom: "dom (ba_accs s) \<subseteq> dom (ba_accs (fst (update et bar s)))"
proof -
  have tf: "dom (ba_accs s) \<subseteq> dom (ba_accs (fst (update_tf et bar tf s)))" for tf s
    by (cases "map_of HTF_MINUTES tf") (auto simp: update_tf_none update_tf_series)
  have "dom (ba_accs s) \<subseteq> dom (ba_accs (fst (update_tfs et bar tfs s)))" for tfs
  proof (induction tfs arbitrary: s)
    case (Cons t tfs)
    from subset_trans [OF tf [of s t] Cons [of "fst (update_tf et bar t s)"]] show ?case
      by (simp add: Let_def split_beta)
  qed simp
  then show ?thesis by (simp add: update_def)
qed

text \<open>The state topic of a run: its messages carry growing dictionaries, each bounded by the accumulators of the service,
  and keys that the restore accepts.\<close>

lemma split_on_parts:
  assumes "CHR '':'' \<notin> set a" and "CHR '':'' \<notin> set b" and "CHR '':'' \<notin> set c"
  shows "split_on (CHR '':'') (a @ '':'' @ b @ '':'' @ c) = [a, b, c]"
proof -
  have plain: "split_on sep xs = [xs]" if "sep \<notin> set xs" for sep xs
    using that by (induction xs) auto
  have cut: "split_on sep (xs @ sep # ys) = xs # split_on sep ys" if "sep \<notin> set xs" for sep xs ys
    using that by (induction xs) auto
  from assms show ?thesis by (simp add: plain cut)
qed

definition plain_names :: "bar_message \<Rightarrow> bool" where
  "plain_names bar \<longleftrightarrow> CHR '':'' \<notin> set (bm_symbol bar) \<and> CHR '':'' \<notin> set (bm_tf bar)"

lemma restore_checkpoint:
  assumes "plain_names bar"
  shows "ba_accs (fst (restore_message (checkpoint_key bar, payload) s)) = ba_accs (fst s) ++ ck_accs payload \<and>
    snd (restore_message (checkpoint_key bar, payload) s)"
proof -
  have "split_on (CHR '':'') (checkpoint_key bar) = [AGENT_VERSION, bm_symbol bar, bm_tf bar]"
    unfolding checkpoint_key_def using assms by (intro split_on_parts) (simp_all add: plain_names_def AGENT_VERSION_def)
  then show ?thesis by (cases s) (simp add: restore_message_def checkpoint_key_def AGENT_VERSION_def)
qed

definition topic_ok :: "aggregator \<Rightarrow> bool" where
  "topic_ok a \<longleftrightarrow>
     (\<forall>m \<in> set (ag_state_topic a). (\<exists>bar. plain_names bar \<and> fst m = checkpoint_key bar) \<and>
        dom (ck_accs (snd m)) \<subseteq> dom (ba_accs (ag_accs a))) \<and>
     sorted_wrt (\<lambda>m m'. dom (ck_accs (snd m)) \<subseteq> dom (ck_accs (snd m'))) (ag_state_topic a)"

lemma process_bar_topic:
  "ag_state_topic (process_bar et sent saved clock bar a) =
     ag_state_topic a @ (if snd (emit_bars sent clock (snd (update et bar (ag_accs a)))
         (a\<lparr>ag_health := record_bar (bm_ts bar) (ag_health a), ag_accs := fst (update et bar (ag_accs a)),
            ag_completed := ag_completed a @ snd (update et bar (ag_accs a))\<rparr>)) \<and> saved
       then [(checkpoint_key bar, checkpoint_of (fst (update et bar (ag_accs a))))] else [])"
  by (simp add: process_bar_def Let_def split_beta)

lemma process_bar_topic_ok:
  assumes "topic_ok a" and "plain_names bar"
  shows "topic_ok (process_bar et sent saved clock bar a)"
  using assms update_accs_dom [of "ag_accs a" et bar]
  by (fastforce simp: topic_ok_def process_bar_accs process_bar_topic sorted_wrt_append checkpoint_of_def)

lemma handle_bar_or_other:
  obtains (bar) bar sent saved clock where "e = Bar bar sent saved clock"
  | (other) "\<And>bar sent saved clock. e \<noteq> Bar bar sent saved clock"
  by (cases e) auto

lemma run_topic_ok: "\<forall>bar \<in> set (bars_in es). plain_names bar \<Longrightarrow> topic_ok (run_events et es (new_aggregator clock))"
proof (induction es rule: rev_induct)
  case Nil
  show ?case by (simp add: topic_ok_def new_aggregator_def)
next
  case (snoc e es)
  then have ok: "topic_ok (run_events et es (new_aggregator clock))" by simp
  show ?case
  proof (cases e rule: handle_bar_or_other)
    case (bar b sent saved c)
    with snoc.prems process_bar_topic_ok [OF ok] show ?thesis by (simp add: run_events_snoc)
  next
    case other
    from ok show ?thesis by (simp add: run_events_snoc topic_ok_def handle_other [OF other])
  qed
qed

lemma last_saved:
  assumes "ag_state_topic (run_events et es (new_aggregator clock)) \<noteq> []"
  shows "\<exists>es1 es2. es = es1 @ es2 \<and>
    ag_state_topic (run_events et es (new_aggregator clock)) = ag_state_topic (run_events et es1 (new_aggregator clock)) \<and>
    ck_accs (snd (last (ag_state_topic (run_events et es (new_aggregator clock))))) =
      ba_accs (ag_accs (run_events et es1 (new_aggregator clock)))"
  using assms
proof (induction es rule: rev_induct)
  case Nil
  then show ?case by (simp add: new_aggregator_def)
next
  case (snoc e es)
  let ?a = "run_events et es (new_aggregator clock)" and ?a' = "run_events et (es @ [e]) (new_aggregator clock)"
  show ?case
  proof (cases "ag_state_topic ?a' = ag_state_topic ?a")
    case True
    with snoc obtain es1 es2 where "es = es1 @ es2" "ag_state_topic ?a = ag_state_topic (run_events et es1 (new_aggregator clock))"
      "ck_accs (snd (last (ag_state_topic ?a))) = ba_accs (ag_accs (run_events et es1 (new_aggregator clock)))" by auto
    with True show ?thesis by (intro exI [of _ es1] exI [of _ "es2 @ [e]"]) simp
  next
    case False
    then obtain b sent saved c where e: "e = Bar b sent saved c"
      using handle_other(5) [of e et ?a] by (cases e rule: handle_bar_or_other) (auto simp: run_events_snoc)
    from False have "ck_accs (snd (last (ag_state_topic ?a'))) = ba_accs (ag_accs ?a')"
      by (simp add: run_events_snoc e process_bar_topic process_bar_accs checkpoint_of_def split: if_splits)
    then show ?thesis by (intro exI [of _ "es @ [e]"] exI [of _ "[]"]) simp
  qed
qed

text \<open>Log compaction: a message may be dropped only when a later one has the same key.\<close>

fun compacts :: "('k \<times> 'v) list \<Rightarrow> ('k \<times> 'v) list \<Rightarrow> bool" where
  "compacts [] kept = (kept = [])"
| "compacts (m # ms) kept =
     ((case kept of [] \<Rightarrow> False | k # ks \<Rightarrow> k = m \<and> compacts ms ks) \<or> (fst m \<in> fst ` set ms \<and> compacts ms kept))"

lemma compacts_facts:
  "compacts ms kept \<Longrightarrow> set kept \<subseteq> set ms \<and> (sorted_wrt R ms \<longrightarrow> sorted_wrt R kept) \<and> (ms \<noteq> [] \<longrightarrow> kept \<noteq> [] \<and> last kept = last ms)"
proof (induction ms kept rule: compacts.induct)
  case (2 m ms kept)
  show ?case
  proof (cases "fst m \<in> fst ` set ms \<and> compacts ms kept")
    case True
    with 2 show ?thesis by auto
  next
    case False
    with 2(3) obtain ks where "kept = m # ks" "compacts ms ks" by (auto split: list.splits)
    with 2(1) [of m ks] show ?thesis by (cases ms) auto
  qed
qed simp

lemma restore_last:
  assumes "\<forall>m \<in> set kept. \<exists>bar. plain_names bar \<and> fst m = checkpoint_key bar"
    and "sorted_wrt (\<lambda>m m'. dom (ck_accs (snd m)) \<subseteq> dom (ck_accs (snd m'))) kept" and "kept \<noteq> []"
  shows "ba_accs (fst (restore kept (new_accumulators tfs session))) = ck_accs (snd (last kept)) \<and>
    snd (restore kept (new_accumulators tfs session))"
  using assms
proof (induction kept rule: rev_induct)
  case (snoc m kept)
  let ?s = "restore kept (new_accumulators tfs session)"
  obtain bar where bar: "plain_names bar" "m = (checkpoint_key bar, snd m)"
    using snoc.prems(1) by (cases m) auto
  have "dom (ba_accs (fst ?s)) \<subseteq> dom (ck_accs (snd m))"
  proof (cases "kept = []")
    case True
    then show ?thesis by (simp add: restore_def new_accumulators_def)
  next
    case False
    with snoc have "ba_accs (fst ?s) = ck_accs (snd (last kept))" by (simp add: sorted_wrt_append)
    with snoc.prems(2) False show ?thesis by (simp add: sorted_wrt_append)
  qed
  then have "ba_accs (fst ?s) ++ ck_accs (snd m) = ck_accs (snd m)"
    by (auto simp: map_add_def fun_eq_iff split: option.splits)
  moreover have "restore (kept @ [m]) (new_accumulators tfs session) = restore_message (checkpoint_key bar, snd m) ?s"
    using bar(2) by (simp add: restore_def)
  ultimately show ?case using restore_checkpoint [OF bar(1), of "snd m" ?s] by simp
qed simp


section \<open>Witnesses\<close>

text \<open>Three one-minute bars around the 9:30 open, at UTC-4: the last before the open, the first of the session and the one
  at the next full hour.\<close>

definition demo_et :: "day \<Rightarrow> int \<Rightarrow> int" where
  "demo_et d s = (d - 719163) * 86400 + s + 14400"

definition demo_bar :: "int \<Rightarrow> int \<Rightarrow> bar_message" where
  "demo_bar minutes volume =
     \<lparr>bm_ts = (1728000000 + minutes * 60) * second, bm_symbol = ''ES'', bm_tf = ''1m'', bm_open = 1, bm_high = 2, bm_low = 1,
      bm_close = 1, bm_volume = volume, bm_source = ''ibkr_named'', bm_session = RTH, bm_gap = False, bm_flat = False\<rparr>"

definition demo_bars :: "bar_message list" where
  "demo_bars = [demo_bar 809 10, demo_bar 810 20, demo_bar 840 5]"

definition demo_events :: "agg_event list" where
  "demo_events = map (\<lambda>b. Bar b (\<lambda>_. True) True 0) demo_bars"

lemma demo_bars_in: "bars_in demo_events = demo_bars"
  by (simp add: demo_events_def demo_bars_def)

lemma demo_valid: "\<forall>b \<in> set demo_bars. bm_low b \<le> bm_high b"
  by (simp add: demo_bars_def demo_bar_def)

lemma demo_segments:
  "segments demo_et RTH 60 (accepted ''ES'' demo_bars) = [[demo_bar 809 10], [demo_bar 810 20], [demo_bar 840 5]]"
  by code_simp

theorem accumulator_refines_witness:
  "map bm_volume (for_series ''ES'' ''1h'' (snd (updates demo_et demo_bars (new_accumulators [] RTH)))) = [10, 20]"
proof -
  have "map_of HTF_MINUTES ''1h'' = Some 60" "''1h'' \<in> set (ba_timeframes (new_accumulators [] RTH))"
    "distinct (ba_timeframes (new_accumulators [] RTH))" by code_simp+
  from accumulator_refines [OF this demo_valid, of demo_et "''ES''"]
  show ?thesis by (simp add: Let_def split_beta demo_segments aggregate_def) (simp add: demo_bar_def)
qed

text \<open>The second half of the 13:00 hour, the first half hour of the session with volume 20, is never published.\<close>

theorem emit_once_publishes_first_witness:
  "set (map bm_volume (for_series ''ES'' ''1h'' (ag_htf_topic (run_events demo_et demo_events (new_aggregator 0))))) = {10}"
proof -
  let ?published = "for_series ''ES'' ''1h'' (ag_htf_topic (run_events demo_et demo_events (new_aggregator 0)))"
  let ?first = "aggregate ''ES'' ''1h'' 60 [demo_bar 809 10]" and ?second = "aggregate ''ES'' ''1h'' 60 [demo_bar 810 20]"
  have "map_of HTF_MINUTES ''1h'' = Some 60" by code_simp
  moreover have "list_all all_sent demo_events" by (simp add: demo_events_def demo_bars_def all_sent_def)
  moreover have "\<forall>b \<in> set (bars_in demo_events). bm_low b \<le> bm_high b" unfolding demo_bars_in by (rule demo_valid)
  ultimately have "set ?published = {b. find (\<lambda>c. bm_ts c = bm_ts b) [?first, ?second] = Some b}"
    using emit_once_publishes_first [of "''1h''" 60 demo_events "''ES''" demo_et 0]
    by (simp add: Let_def demo_bars_in demo_segments)
  moreover have "bm_ts ?first = bm_ts ?second" by code_simp
  ultimately have "set ?published = {?first}" by auto
  then show ?thesis by (simp add: aggregate_def) (simp add: demo_bar_def)
qed


end
