(* ===== verification/Provider_Merger.thy ===== *)
theory Provider_Merger
  imports Bar_Accumulator Transition
begin

text \<open>
  The gateway from the raw provider topics to the bar topic, \<open>services/provider_merger.py\<close>: routing by
  asset class, failover to a secondary when the primary is silent, recovery when it resumes.

  The two output topics are part of the state, as the lists of what was published; whether a publish succeeds is an
  input (\<open>sends\<close>), and so is the time a message is consumed.  A publish that raises ends the handler there, as in the
  service's loop, which logs the exception and goes on.  The active instruments (\<open>get_active_contracts\<close>) are the
  asset classes of the configuration.
\<close>

datatype quality_type = Bar_received | Failover | Recovery

record quality_event =
  qe_ts :: stamp
  qe_symbol :: string
  qe_tf :: string
  qe_provider :: string
  qe_type :: quality_type
  qe_latency_us :: int
  qe_promoted :: "string option"

record merger_config =
  mc_prefix :: string
  mc_providers :: "string list"
  mc_routing :: "(string \<times> string) list"
  mc_threshold :: int
  mc_asset_class :: "(string \<times> string) list"

record merger =
  mg_promoted :: "string \<Rightarrow> string option"
  mg_last_ts :: "string \<Rightarrow> string \<Rightarrow> stamp option"
  mg_bars :: "(string \<times> bar_message) list"
  mg_quality :: "quality_event list"

record sends =
  sd_bar :: bool
  sd_received :: bool
  sd_failover :: bool
  sd_recovery :: bool

definition TF_SECONDS :: "(string \<times> int) list" where
  "TF_SECONDS = [(''1m'', 60), (''5m'', 300), (''15m'', 900), (''1h'', 3600), (''4h'', 14400), (''1d'', 86400)]"

definition topic_market_bars_raw :: "string \<Rightarrow> string \<Rightarrow> string" where
  "topic_market_bars_raw prefix provider = prefix @ ''market.bars.raw.'' @ provider"

definition new_merger :: "merger_config \<Rightarrow> err + merger" where
  "new_merger cfg =
     (if mc_providers cfg = [] then Inl ValueError
      else Inr \<lparr>mg_promoted = (\<lambda>_. None), mg_last_ts = (\<lambda>_ _. None), mg_bars = [], mg_quality = []\<rparr>)"

definition extract_provider :: "string \<Rightarrow> string" where
  "extract_provider topic = rev (takeWhile (\<lambda>c. c \<noteq> CHR ''.'') (rev topic))"

definition topic_provider :: "merger_config \<Rightarrow> string \<Rightarrow> string" where
  "topic_provider cfg topic =
     (case map_of (dict_of (map (\<lambda>p. (topic_market_bars_raw (mc_prefix cfg) p, p)) (mc_providers cfg))) topic of
        Some p \<Rightarrow> if p = [] then extract_provider topic else p
      | None \<Rightarrow> extract_provider topic)"

definition authoritative :: "merger_config \<Rightarrow> string \<Rightarrow> string" where
  "authoritative cfg symbol =
     (let asset = (case map_of (mc_asset_class cfg) symbol of None \<Rightarrow> ''futures'' | Some a \<Rightarrow> a)
      in case map_of (mc_routing cfg) asset of None \<Rightarrow> hd (mc_providers cfg) | Some p \<Rightarrow> p)"

definition quality :: "bar_message \<Rightarrow> string \<Rightarrow> quality_type \<Rightarrow> int \<Rightarrow> string option \<Rightarrow> quality_event" where
  "quality bar provider kind latency promoted =
     \<lparr>qe_ts = bm_ts bar, qe_symbol = bm_symbol bar, qe_tf = bm_tf bar, qe_provider = provider, qe_type = kind,
      qe_latency_us = latency, qe_promoted = promoted\<rparr>"

definition route_bar :: "sends \<Rightarrow> bar_message \<Rightarrow> string \<Rightarrow> stamp \<Rightarrow> merger \<Rightarrow> merger \<times> bool" where
  "route_bar sent bar provider consume_ts s =
     (if \<not> sd_bar sent then (s, False)
      else
        let s = s\<lparr>mg_bars := mg_bars s @ [(provider, bar)]\<rparr>
        in if \<not> sd_received sent then (s, False)
           else (s\<lparr>mg_quality := mg_quality s @
                     [quality bar provider Bar_received (max 0 (consume_ts - bm_ts bar)) None]\<rparr>, True))"

definition check_failover ::
  "merger_config \<Rightarrow> sends \<Rightarrow> bar_message \<Rightarrow> string \<Rightarrow> string \<Rightarrow> stamp \<Rightarrow> merger \<Rightarrow> merger \<times> bool" where
  "check_failover cfg sent bar secondary primary consume_ts s =
     (case mg_last_ts s primary (bm_symbol bar) of
        None \<Rightarrow> (s, True)
      | Some primary_last \<Rightarrow>
          let interval = (case map_of TF_SECONDS (bm_tf bar) of None \<Rightarrow> 60 | Some i \<Rightarrow> i)
          in if mc_threshold cfg * interval * second \<le> consume_ts - primary_last
             then if mg_promoted s (bm_symbol bar) = Some secondary then (s, True)
                  else
                    let s = s\<lparr>mg_promoted := (mg_promoted s)(bm_symbol bar \<mapsto> secondary)\<rparr>
                    in if \<not> sd_failover sent then (s, False)
                       else (s\<lparr>mg_quality := mg_quality s @ [quality bar secondary Failover 0 (Some secondary)]\<rparr>, True)
             else (s, True))"

text \<open>A promoted provider's name is tested for truth: the empty name counts as no promotion.\<close>

definition truthy :: "string option \<Rightarrow> bool" where
  "truthy p = (case p of None \<Rightarrow> False | Some n \<Rightarrow> n \<noteq> [])"

definition handle_bar :: "merger_config \<Rightarrow> sends \<Rightarrow> stamp \<Rightarrow> string \<Rightarrow> bar_message \<Rightarrow> merger \<Rightarrow> merger \<times> bool" where
  "handle_bar cfg sent consume_ts topic bar s =
     (let provider = topic_provider cfg topic; symbol = bm_symbol bar; primary = authoritative cfg symbol;
          s = s\<lparr>mg_last_ts := (mg_last_ts s)(provider := (mg_last_ts s provider)(symbol \<mapsto> bm_ts bar))\<rparr>;
          promoted = mg_promoted s symbol
      in if truthy promoted \<and> provider = primary
         then
           let s = s\<lparr>mg_promoted := (mg_promoted s)(symbol := None)\<rparr>
           in if \<not> sd_recovery sent then (s, False)
              else route_bar sent bar provider consume_ts
                     (s\<lparr>mg_quality := mg_quality s @ [quality bar provider Recovery 0 (Some primary)]\<rparr>)
         else if provider = primary \<or> (truthy promoted \<and> Some provider = promoted)
         then route_bar sent bar provider consume_ts s
         else check_failover cfg sent bar provider primary consume_ts s)"

text \<open>A message the loop consumes: its topic, its bar (\<open>None\<close> when it does not validate and goes to the dead-letter
  topic), the time and the outcomes of the publishes.\<close>

record raw_message =
  rm_topic :: string
  rm_bar :: "bar_message option"
  rm_consumed :: stamp
  rm_sends :: sends

definition consume :: "merger_config \<Rightarrow> raw_message \<Rightarrow> merger \<Rightarrow> merger" where
  "consume cfg m s =
     (case rm_bar m of None \<Rightarrow> s | Some bar \<Rightarrow> fst (handle_bar cfg (rm_sends m) (rm_consumed m) (rm_topic m) bar s))"

definition consume_all :: "merger_config \<Rightarrow> raw_message list \<Rightarrow> merger \<Rightarrow> merger" where
  "consume_all cfg ms s = fold (consume cfg) ms s"

section \<open>What the merger promises\<close>

text \<open>The specification: one provider at a time serves a symbol.  The primary's bars always pass and end a failover; the
  promoted provider's bars pass; any other provider's bar can only take over, and only from a silent primary.\<close>

definition active :: "merger_config \<Rightarrow> merger \<Rightarrow> string \<Rightarrow> string" where
  "active cfg s symbol = (case mg_promoted s symbol of None \<Rightarrow> authoritative cfg symbol | Some p \<Rightarrow> p)"

definition silent :: "merger_config \<Rightarrow> merger \<Rightarrow> bar_message \<Rightarrow> stamp \<Rightarrow> bool" where
  "silent cfg s bar consume_ts \<longleftrightarrow>
     (case mg_last_ts s (authoritative cfg (bm_symbol bar)) (bm_symbol bar) of
        None \<Rightarrow> False
      | Some t \<Rightarrow> mc_threshold cfg * (case map_of TF_SECONDS (bm_tf bar) of None \<Rightarrow> 60 | Some i \<Rightarrow> i) * second \<le> consume_ts - t)"

definition merger_inv :: "merger_config \<Rightarrow> merger \<Rightarrow> bool" where
  "merger_inv cfg s \<longleftrightarrow>
     (\<forall>symbol p. mg_promoted s symbol = Some p \<longrightarrow> p \<noteq> [] \<and> p \<noteq> authoritative cfg symbol \<and>
        mg_last_ts s (authoritative cfg symbol) symbol \<noteq> None \<and> mg_last_ts s p symbol \<noteq> None) \<and>
     (\<forall>(p, bar) \<in> set (mg_bars s). mg_last_ts s p (bm_symbol bar) \<noteq> None)"

definition merger_step :: "merger_config \<Rightarrow> merger \<Rightarrow> raw_message \<Rightarrow> merger \<Rightarrow> bool" where
  "merger_step cfg s m s' \<longleftrightarrow> s' = consume cfg m s \<and> (\<forall>bar. rm_bar m = Some bar \<longrightarrow> topic_provider cfg (rm_topic m) \<noteq> [])"

lemma consume_promoted:
  "mg_promoted (fst (route_bar sent bar provider consume_ts s)) = mg_promoted s"
  "mg_last_ts (fst (route_bar sent bar provider consume_ts s)) = mg_last_ts s"
  "mg_last_ts (fst (check_failover cfg sent bar provider primary consume_ts s)) = mg_last_ts s"
  "mg_bars (fst (check_failover cfg sent bar provider primary consume_ts s)) = mg_bars s"
  by (simp_all add: route_bar_def check_failover_def Let_def split: option.splits)

lemma route_bar_bars:
  "mg_bars (fst (route_bar sent bar provider consume_ts s)) = mg_bars s @ (if sd_bar sent then [(provider, bar)] else [])"
  by (simp add: route_bar_def Let_def)

lemma check_failover_promoted:
  assumes "primary = authoritative cfg (bm_symbol bar)"
  shows "mg_promoted (fst (check_failover cfg sent bar provider primary consume_ts s)) =
    (if silent cfg s bar consume_ts then (mg_promoted s)(bm_symbol bar \<mapsto> provider) else mg_promoted s)"
  using assms by (auto simp: check_failover_def silent_def Let_def fun_upd_idem split: option.splits)

text \<open>The three cases of the handler, on states without an empty or a primary promotion.\<close>

definition noted :: "merger_config \<Rightarrow> string \<Rightarrow> bar_message \<Rightarrow> merger \<Rightarrow> merger" where
  "noted cfg provider bar s =
     s\<lparr>mg_last_ts := (mg_last_ts s)(provider := (mg_last_ts s provider)(bm_symbol bar \<mapsto> bm_ts bar))\<rparr>"

lemma handle_last_ts:
  "mg_last_ts (fst (handle_bar cfg sent t topic bar s)) = mg_last_ts (noted cfg (topic_provider cfg topic) bar s)"
  by (simp add: handle_bar_def Let_def noted_def consume_promoted)

lemma handle_promoted:
  assumes inv: "merger_inv cfg s" and P: "P = topic_provider cfg topic"
  shows "mg_promoted (fst (handle_bar cfg sent t topic bar s)) =
    (if P = authoritative cfg (bm_symbol bar) then (mg_promoted s)(bm_symbol bar := None)
     else if mg_promoted s (bm_symbol bar) = Some P then mg_promoted s
     else if silent cfg s bar t then (mg_promoted s)(bm_symbol bar \<mapsto> P) else mg_promoted s)"
proof -
  have truthy: "truthy (mg_promoted s (bm_symbol bar)) \<longleftrightarrow> mg_promoted s (bm_symbol bar) \<noteq> None"
    using inv by (auto simp: truthy_def merger_inv_def split: option.splits)
  have silent: "silent cfg (noted cfg P bar s) bar t = silent cfg s bar t" if "P \<noteq> authoritative cfg (bm_symbol bar)"
    using that by (simp add: silent_def noted_def)
  show ?thesis
    using truthy silent
    by (auto simp: handle_bar_def Let_def consume_promoted check_failover_promoted P [symmetric] noted_def [symmetric]
        fun_upd_idem) (simp_all add: noted_def fun_upd_idem)
qed

lemma handle_bars:
  assumes inv: "merger_inv cfg s" and P: "P = topic_provider cfg topic"
  shows "mg_bars (fst (handle_bar cfg sent t topic bar s)) = mg_bars s @
    (if sd_bar sent \<and> (P = authoritative cfg (bm_symbol bar) \<and> (mg_promoted s (bm_symbol bar) = None \<or> sd_recovery sent) \<or>
        mg_promoted s (bm_symbol bar) = Some P) then [(P, bar)] else [])"
proof -
  have truthy: "truthy (mg_promoted s (bm_symbol bar)) \<longleftrightarrow> mg_promoted s (bm_symbol bar) \<noteq> None"
    and other: "mg_promoted s (bm_symbol bar) \<noteq> Some (authoritative cfg (bm_symbol bar))"
    using inv by (auto simp: truthy_def merger_inv_def split: option.splits)
  show ?thesis
    using truthy other by (auto simp: handle_bar_def Let_def consume_promoted route_bar_bars P)
qed

lemma consume_inv:
  assumes inv: "merger_inv cfg s" and step: "merger_step cfg s m s'"
  shows "merger_inv cfg s'"
proof (cases "rm_bar m")
  case None
  with assms show ?thesis by (simp add: merger_step_def consume_def)
next
  case (Some bar)
  let ?P = "topic_provider cfg (rm_topic m)" and ?s = "fst (handle_bar cfg (rm_sends m) (rm_consumed m) (rm_topic m) bar s)"
  have s': "s' = ?s" and named: "?P \<noteq> []" using step Some by (simp_all add: merger_step_def consume_def)
  have seen: "mg_last_ts s p symbol \<noteq> None \<Longrightarrow> mg_last_ts ?s p symbol \<noteq> None" for p symbol
    by (auto simp: handle_last_ts noted_def)
  have now: "mg_last_ts ?s ?P (bm_symbol bar) \<noteq> None" by (simp add: handle_last_ts noted_def)
  have primary: "silent cfg s bar t \<Longrightarrow> mg_last_ts s (authoritative cfg (bm_symbol bar)) (bm_symbol bar) \<noteq> None" for t
    by (auto simp: silent_def split: option.splits)
  have "p \<noteq> [] \<and> p \<noteq> authoritative cfg symbol \<and> mg_last_ts ?s (authoritative cfg symbol) symbol \<noteq> None \<and> mg_last_ts ?s p symbol \<noteq> None"
    if "mg_promoted ?s symbol = Some p" for symbol p
  proof (cases "mg_promoted s symbol = Some p")
    case True
    then show ?thesis using inv seen unfolding merger_inv_def by blast
  next
    case False
    with that have ids: "symbol = bm_symbol bar" "p = ?P" "?P \<noteq> authoritative cfg symbol" "silent cfg s bar (rm_consumed m)"
      unfolding handle_promoted [OF inv refl] by (auto split: if_splits)
    have "mg_last_ts ?s (authoritative cfg symbol) symbol \<noteq> None"
      using seen [OF primary [OF ids(4)]] by (simp only: ids(1) not_False_eq_True)
    with named now ids(3) show ?thesis unfolding ids(1,2) by blast
  qed
  moreover have "mg_last_ts ?s p (bm_symbol b) \<noteq> None" if "(p, b) \<in> set (mg_bars ?s)" for p b
    using that inv seen now unfolding handle_bars [OF inv refl] merger_inv_def by (auto split: if_splits)
  ultimately show ?thesis unfolding merger_inv_def s' by blast
qed

interpretation mg: invariant "\<lambda>s. new_merger cfg = Inr s" "merger_step cfg" "merger_inv cfg" for cfg
proof unfold_locales
  show "merger_inv cfg s" if "new_merger cfg = Inr s" for s
    using that by (auto simp: new_merger_def merger_inv_def split: if_splits)
qed (rule consume_inv)

definition all_ok :: sends where
  "all_ok = \<lparr>sd_bar = True, sd_received = True, sd_failover = True, sd_recovery = True\<rparr>"

text \<open>C39. One provider at a time serves a symbol.  In every reachable state, when the publishes succeed, a consumed bar is
  forwarded exactly when it comes from the symbol's primary or from the provider now serving it; a bar of the primary
  makes the primary the serving provider again; any other provider becomes the serving one exactly when the primary has
  been seen and has been silent for the threshold; no other symbol is touched.\<close>

theorem merger_serves_one_provider:
  assumes "reachable (\<lambda>s. new_merger cfg = Inr s) (merger_step cfg) s" and "rm_bar m = Some bar" and "rm_sends m = all_ok"
    and "P = topic_provider cfg (rm_topic m)" and "primary = authoritative cfg (bm_symbol bar)"
  shows "mg_bars (consume cfg m s) = mg_bars s @ (if P = primary \<or> P = active cfg s (bm_symbol bar) then [(P, bar)] else []) \<and>
    active cfg (consume cfg m s) = (active cfg s)(bm_symbol bar :=
      if P = primary then primary
      else if P \<noteq> active cfg s (bm_symbol bar) \<and> silent cfg s bar (rm_consumed m) then P
      else active cfg s (bm_symbol bar)) \<and>
    (\<forall>symbol p. mg_promoted s symbol = Some p \<longrightarrow> p \<noteq> authoritative cfg symbol)"
proof -
  have inv: "merger_inv cfg s" using assms(1) by (rule mg.reachable_inv)
  have c: "consume cfg m s = fst (handle_bar cfg all_ok (rm_consumed m) (rm_topic m) bar s)"
    using assms(2,3) by (simp add: consume_def)
  have "mg_bars (consume cfg m s) = mg_bars s @ (if P = primary \<or> P = active cfg s (bm_symbol bar) then [(P, bar)] else [])"
    unfolding c handle_bars [OF inv refl] using assms(4,5) by (auto simp: active_def all_ok_def split: option.splits)
  moreover have "active cfg (consume cfg m s) = (active cfg s)(bm_symbol bar :=
      if P = primary then primary
      else if P \<noteq> active cfg s (bm_symbol bar) \<and> silent cfg s bar (rm_consumed m) then P
      else active cfg s (bm_symbol bar))"
    unfolding c active_def fun_eq_iff handle_promoted [OF inv refl] using assms(4,5) by (auto split: option.splits)
  moreover have "\<forall>symbol p. mg_promoted s symbol = Some p \<longrightarrow> p \<noteq> authoritative cfg symbol"
    using inv by (simp add: merger_inv_def)
  ultimately show ?thesis by blast
qed


text \<open>Two secondaries starve a symbol.  While the primary stays silent and the bars of the symbol come from other
  providers in turn, no two in a row from the same one and the first not from the serving one, every bar takes the
  failover over from the one before and none of them is ever forwarded.\<close>

theorem alternating_secondaries_starve:
  assumes "reachable (\<lambda>s. new_merger cfg = Inr s) (merger_step cfg) s"
    and "\<forall>m \<in> set ms. \<exists>bar. rm_bar m = Some bar \<and> bm_symbol bar = symbol \<and> topic_provider cfg (rm_topic m) \<noteq> [] \<and>
      topic_provider cfg (rm_topic m) \<noteq> authoritative cfg symbol \<and> silent cfg s bar (rm_consumed m)"
    and "successively (\<lambda>m m'. topic_provider cfg (rm_topic m) \<noteq> topic_provider cfg (rm_topic m')) ms"
    and "ms \<noteq> [] \<Longrightarrow> topic_provider cfg (rm_topic (hd ms)) \<noteq> active cfg s symbol"
  shows "mg_bars (consume_all cfg ms s) = mg_bars s"
proof -
  have "merger_inv cfg s" using assms(1) by (rule mg.reachable_inv)
  from this assms(2-4) show ?thesis
  proof (induction ms arbitrary: s)
    case (Cons m ms)
    let ?P = "topic_provider cfg (rm_topic m)" and ?s = "consume cfg m s"
    from Cons.prems(2) obtain bar where bar: "rm_bar m = Some bar" "bm_symbol bar = symbol" "?P \<noteq> []"
      "?P \<noteq> authoritative cfg symbol" "silent cfg s bar (rm_consumed m)" by auto
    have c: "?s = fst (handle_bar cfg (rm_sends m) (rm_consumed m) (rm_topic m) bar s)" using bar(1) by (simp add: consume_def)
    have first: "mg_promoted s symbol \<noteq> Some ?P" using Cons.prems(4) by (simp add: active_def split: option.splits)
    have step: "merger_step cfg s m ?s" using bar by (simp add: merger_step_def)
    have "mg_bars ?s = mg_bars s"
      unfolding c handle_bars [OF Cons.prems(1) refl] using bar first by auto
    moreover have "active cfg ?s symbol = ?P"
      unfolding c active_def handle_promoted [OF Cons.prems(1) refl] using bar first by simp
    moreover have "silent cfg ?s b t = silent cfg s b t" if "bm_symbol b = symbol" for b t
      using that bar(4) unfolding c silent_def handle_last_ts noted_def by simp
    ultimately show ?case
      using Cons.IH [OF consume_inv [OF Cons.prems(1) step]] Cons.prems(2,3)
      by (cases ms) (fastforce simp: consume_all_def)+
  qed (simp add: consume_all_def)
qed

section \<open>Witnesses\<close>

definition demo_merger_config :: merger_config where
  "demo_merger_config = \<lparr>mc_prefix = [], mc_providers = [''ibkr'', ''alpaca'', ''tradier''], mc_routing = [(''futures'', ''ibkr'')],
     mc_threshold = 5, mc_asset_class = []\<rparr>"

definition demo_message :: "string \<Rightarrow> int \<Rightarrow> raw_message" where
  "demo_message provider minutes =
     \<lparr>rm_topic = ''market.bars.raw.'' @ provider,
      rm_bar = Some \<lparr>bm_ts = minutes * minute, bm_symbol = ''ES'', bm_tf = ''1m'', bm_open = 1, bm_high = 2, bm_low = 1,
        bm_close = 1, bm_volume = 1, bm_source = ''ibkr'', bm_session = RTH, bm_gap = False, bm_flat = False\<rparr>,
      rm_consumed = minutes * minute, rm_sends = all_ok\<rparr>"

definition demo_merger :: merger where
  "demo_merger = consume_all demo_merger_config [demo_message ''ibkr'' 0] (projr (new_merger demo_merger_config))"

lemma demo_topic: "p \<in> {''ibkr'', ''alpaca'', ''tradier''} \<Longrightarrow> topic_provider demo_merger_config (rm_topic (demo_message p t)) = p"
  by (elim insertE emptyE; simp; code_simp)

lemma demo_reachable: "reachable (\<lambda>s. new_merger demo_merger_config = Inr s) (merger_step demo_merger_config) demo_merger"
proof -
  have "new_merger demo_merger_config = Inr (projr (new_merger demo_merger_config))"
    by (simp add: new_merger_def demo_merger_config_def)
  moreover have "merger_step demo_merger_config (projr (new_merger demo_merger_config)) (demo_message ''ibkr'' 0) demo_merger"
    by (simp add: merger_step_def demo_merger_def consume_all_def demo_topic)
  ultimately show ?thesis by (meson reachable_init reachable_step)
qed


theorem merger_serves_one_provider_witness:
  "mg_bars (consume demo_merger_config (demo_message ''alpaca'' 1) demo_merger) = mg_bars demo_merger \<and>
   mg_bars (consume demo_merger_config (demo_message ''ibkr'' 1) demo_merger) =
     mg_bars demo_merger @ [(''ibkr'', the (rm_bar (demo_message ''ibkr'' 1)))]"
proof -
  have topics: "''alpaca'' = topic_provider demo_merger_config (rm_topic (demo_message ''alpaca'' 1))"
    "''ibkr'' = topic_provider demo_merger_config (rm_topic (demo_message ''ibkr'' 1))"
    by (simp_all only: demo_topic insert_iff simp_thms)
  have bar: "rm_bar (demo_message p 1) = Some (the (rm_bar (demo_message p 1)))" "rm_sends (demo_message p 1) = all_ok" for p
    by (simp_all add: demo_message_def)
  have primary: "''ibkr'' = authoritative demo_merger_config (bm_symbol (the (rm_bar (demo_message p 1))))" for p
    by (simp add: demo_message_def authoritative_def demo_merger_config_def)
  have serving: "active demo_merger_config demo_merger (bm_symbol (the (rm_bar (demo_message ''alpaca'' 1)))) = ''ibkr''"
    by code_simp
  have differ: "''alpaca'' \<noteq> ''ibkr''" by simp
  from merger_serves_one_provider [OF demo_reachable bar topics(1) primary] serving differ
  have "mg_bars (consume demo_merger_config (demo_message ''alpaca'' 1) demo_merger) = mg_bars demo_merger"
    by (simp only: simp_thms if_False append_Nil2)
  moreover from merger_serves_one_provider [OF demo_reachable bar topics(2) primary]
  have "mg_bars (consume demo_merger_config (demo_message ''ibkr'' 1) demo_merger) =
     mg_bars demo_merger @ [(''ibkr'', the (rm_bar (demo_message ''ibkr'' 1)))]"
    by (simp only: simp_thms if_True)
  ultimately show ?thesis by (rule conjI)
qed

theorem alternating_secondaries_starve_witness:
  "mg_bars (consume_all demo_merger_config
     [demo_message ''alpaca'' 5, demo_message ''tradier'' 6, demo_message ''alpaca'' 7, demo_message ''tradier'' 8] demo_merger) =
   mg_bars demo_merger"
proof (rule alternating_secondaries_starve [OF demo_reachable, of _ "''ES''"])
  have primary: "authoritative demo_merger_config ''ES'' = ''ibkr''" by code_simp
  have seen: "mg_last_ts demo_merger ''ibkr'' ''ES'' = Some 0" by code_simp
  have ok: "\<exists>bar. rm_bar (demo_message p t) = Some bar \<and> bm_symbol bar = ''ES'' \<and>
      topic_provider demo_merger_config (rm_topic (demo_message p t)) \<noteq> [] \<and>
      topic_provider demo_merger_config (rm_topic (demo_message p t)) \<noteq> authoritative demo_merger_config ''ES'' \<and>
      silent demo_merger_config demo_merger bar (rm_consumed (demo_message p t))"
    if p: "p \<in> {''alpaca'', ''tradier''}" and t: "5 \<le> t" for p t
  proof (intro exI conjI)
    show "rm_bar (demo_message p t) = Some (the (rm_bar (demo_message p t)))" by (simp add: demo_message_def)
    show es: "bm_symbol (the (rm_bar (demo_message p t))) = ''ES''" by (simp add: demo_message_def)
    have "bm_tf (the (rm_bar (demo_message p t))) = ''1m''" "rm_consumed (demo_message p t) = t * minute"
      by (simp_all add: demo_message_def)
    moreover have "map_of TF_SECONDS ''1m'' = Some 60" "mc_threshold demo_merger_config = 5" by code_simp+
    ultimately show "silent demo_merger_config demo_merger (the (rm_bar (demo_message p t))) (rm_consumed (demo_message p t))"
      using t unfolding silent_def es primary seen by (simp add: minute_def second_def)
    have "topic_provider demo_merger_config (rm_topic (demo_message p t)) = p" using p by (intro demo_topic) blast
    then show "topic_provider demo_merger_config (rm_topic (demo_message p t)) \<noteq> []"
      "topic_provider demo_merger_config (rm_topic (demo_message p t)) \<noteq> authoritative demo_merger_config ''ES''"
      using p unfolding primary by auto
  qed
  then show "\<forall>m \<in> set [demo_message ''alpaca'' 5, demo_message ''tradier'' 6, demo_message ''alpaca'' 7, demo_message ''tradier'' 8].
      \<exists>bar. rm_bar m = Some bar \<and> bm_symbol bar = ''ES'' \<and> topic_provider demo_merger_config (rm_topic m) \<noteq> [] \<and>
      topic_provider demo_merger_config (rm_topic m) \<noteq> authoritative demo_merger_config ''ES'' \<and>
      silent demo_merger_config demo_merger bar (rm_consumed m)"
    by simp
  show "successively (\<lambda>m m'. topic_provider demo_merger_config (rm_topic m) \<noteq> topic_provider demo_merger_config (rm_topic m'))
      [demo_message ''alpaca'' 5, demo_message ''tradier'' 6, demo_message ''alpaca'' 7, demo_message ''tradier'' 8]"
    by (simp add: demo_topic)
  have "active demo_merger_config demo_merger ''ES'' = ''ibkr''" by code_simp
  then show "topic_provider demo_merger_config (rm_topic (hd [demo_message ''alpaca'' 5, demo_message ''tradier'' 6,
      demo_message ''alpaca'' 7, demo_message ''tradier'' 8])) \<noteq> active demo_merger_config demo_merger ''ES''"
    by (simp add: demo_topic)
qed

end
