(* ===== verification/Vendor_Arbitration.thy ===== *)
theory Vendor_Arbitration
  imports Daily_Rule
begin

text \<open>
  The three-vendor arbitration of the daily closes: \<open>src/intelligence/bars/vendor_arbitration.py\<close>.

  A vendor's closes are an association list from session to price.  An isoformat text of the plan is the date itself.
  \<open>math.log\<close> of a number that is not positive, and a division by zero, raise.  The entries of the plan document that
  only repeat a span (\<open>Span.record\<close>) hold the span.
\<close>

section \<open>Parameters and spans\<close>

definition IBKR_DEFECTIVE :: string where "IBKR_DEFECTIVE = ''ibkr_defective''"
definition ALPACA_DIFFERS :: string where "ALPACA_DIFFERS = ''alpaca_differs''"
definition THREE_WAY :: string where "THREE_WAY = ''three_way''"
definition TWO_VENDOR :: string where "TWO_VENDOR = ''two_vendor''"
definition PRE_IBKR_HISTORY :: string where "PRE_IBKR_HISTORY = ''pre_ibkr_history''"

lemmas span_classes = IBKR_DEFECTIVE_def ALPACA_DIFFERS_def THREE_WAY_def TWO_VENDOR_def PRE_IBKR_HISTORY_def

definition SEAM :: day where "SEAM = 735967"
definition POLICY_EPOCH :: day where "POLICY_EPOCH = 726468"
definition N_EXAMPLES :: nat where "N_EXAMPLES = 3"
definition ARBITRATED_THROUGH :: day where "ARBITRATED_THROUGH = 739895"
definition QUARANTINE_RULE :: string where "QUARANTINE_RULE = ''vendor_disagreement''"

type_synonym closes = "(day \<times> real) list"

record arb_params =
  ap_window_start :: day
  ap_window_end :: day
  ap_tolerance_bp :: real
  ap_min_sessions :: int
  ap_min_class_share :: real
  ap_quarantine_rel :: real
  ap_three_way_max_it_bp :: real
  ap_three_way_log_share :: real
  ap_gap_max_moves :: real

record arb_example =
  ae_session :: day
  ae_alpaca :: real
  ae_ibkr :: real
  ae_tradier :: "real option"

record head_evidence =
  he_consecutive :: bool
  he_alpaca_at_head :: "real option"
  he_ibkr_at_head :: real
  he_tradier_at_head :: "real option"
  he_overnight_gap_bp :: "real option"
  he_median_move_bp :: "real option"
  he_gap_in_moves :: "real option"

record arb_span =
  as_symbol :: string
  as_cls :: string
  as_start :: day
  as_end :: day
  as_n_sessions :: nat
  as_n_tradier :: nat
  as_shares :: "(string \<times> real) list"
  as_ibkr_over_alpaca :: "real option"
  as_tradier_over_alpaca :: "real option"
  as_log_it_bp :: "real option"
  as_mad_log_it_bp :: "real option"
  as_log_ia_bp :: "real option"
  as_examples :: "arb_example list"
  as_touches_window_end :: bool
  as_ibkr_head :: "day option"
  as_ibkr_head_verified :: bool
  as_continuous :: bool
  as_agree_share :: "real option"
  as_head_evidence :: "head_evidence option"

record quarantined =
  qu_symbol :: string
  qu_session :: day
  qu_alpaca :: real
  qu_ibkr :: real
  qu_tradier :: real
  qu_alpaca_over_tradier :: real

record name_arbitration =
  na_symbol :: string
  na_n_common :: nat
  na_spans :: "arb_span list"
  na_quarantine :: "quarantined list"

record live_symbol_row =
  lr_policy_id :: string
  lr_symbol :: string
  lr_valid_from :: day
  lr_valid_to :: "day option"
  lr_primary :: string
  lr_fallback :: "string option"

definition agree :: "real \<Rightarrow> real \<Rightarrow> real \<Rightarrow> bool" where
  "agree a b tolerance_bp \<longleftrightarrow> 0 < b \<and> \<bar>a / b - 1\<bar> * BP \<le> tolerance_bp"

definition median_opt :: "real list \<Rightarrow> real option" where
  "median_opt xs = (if xs = [] then None else Some (median xs))"

definition log_bp :: "real \<Rightarrow> real \<Rightarrow> err + real" where
  "log_bp a b =
     (if b = 0 then Inl ZeroDivisionError else if a / b \<le> 0 then Inl ValueError else Inr (ln (a / b) * BP))"

text \<open>\<open>m[d]\<close> of a date known to be present, and \<open>m.get(d, 0.0)\<close>.\<close>

definition px :: "closes \<Rightarrow> day \<Rightarrow> real" where
  "px m d = the (map_of m d)"

definition px0 :: "closes \<Rightarrow> day \<Rightarrow> real" where
  "px0 m d = (case map_of m d of None \<Rightarrow> 0 | Some p \<Rightarrow> p)"

section \<open>One disagreement span\<close>

definition vote :: "arb_params \<Rightarrow> closes \<Rightarrow> closes \<Rightarrow> closes \<Rightarrow> day \<Rightarrow> string" where
  "vote params alpaca ibkr tradier d =
     (let a_ok = agree (px alpaca d) (px tradier d) (ap_tolerance_bp params);
          i_ok = agree (px ibkr d) (px tradier d) (ap_tolerance_bp params)
      in if a_ok \<and> \<not> i_ok then IBKR_DEFECTIVE else if i_ok \<and> \<not> a_ok then ALPACA_DIFFERS else THREE_WAY)"

definition share_of :: "string list \<Rightarrow> string \<Rightarrow> real" where
  "share_of votes cls = (if votes = [] then 0 else real (length (filter (\<lambda>v. v = cls) votes)) / real (length votes))"

definition classify_span :: "string list \<Rightarrow> real \<Rightarrow> string" where
  "classify_span votes min_class_share =
     (if votes = [] then TWO_VENDOR
      else if min_class_share \<le> share_of votes IBKR_DEFECTIVE then IBKR_DEFECTIVE
      else if min_class_share \<le> share_of votes ALPACA_DIFFERS then ALPACA_DIFFERS
      else THREE_WAY)"

definition span_examples :: "day list \<Rightarrow> closes \<Rightarrow> closes \<Rightarrow> closes \<Rightarrow> arb_example list" where
  "span_examples run alpaca ibkr tradier =
     map (\<lambda>d. \<lparr>ae_session = d, ae_alpaca = px alpaca d, ae_ibkr = px ibkr d, ae_tradier = map_of tradier d\<rparr>)
       (take N_EXAMPLES (sorted_set [hd run, run ! (length run div 2), last run]))"

definition span_of ::
  "string \<Rightarrow> day list \<Rightarrow> closes \<Rightarrow> closes \<Rightarrow> closes \<Rightarrow> arb_params \<Rightarrow> day \<Rightarrow> err + arb_span" where
  "span_of symbol run alpaca ibkr tradier params last_common =
     (let with_tradier = filter (\<lambda>d. 0 < px0 tradier d) run;
          votes = map (vote params alpaca ibkr tradier) with_tradier
      in ebind (emap (\<lambda>d. log_bp (px ibkr d) (px tradier d)) with_tradier) (\<lambda>log_it.
         ebind (emap (\<lambda>d. log_bp (px ibkr d) (px alpaca d)) run) (\<lambda>log_ia.
         Inr \<lparr>as_symbol = symbol, as_cls = classify_span votes (ap_min_class_share params),
              as_start = hd run, as_end = last run, as_n_sessions = length run, as_n_tradier = length with_tradier,
              as_shares = map (\<lambda>c. (c, share_of votes c)) [IBKR_DEFECTIVE, ALPACA_DIFFERS, THREE_WAY],
              as_ibkr_over_alpaca = median_opt (map (\<lambda>d. px ibkr d / px alpaca d) run),
              as_tradier_over_alpaca = median_opt (map (\<lambda>d. px tradier d / px alpaca d) with_tradier),
              as_log_it_bp = median_opt log_it,
              as_mad_log_it_bp = (case median_opt log_it of None \<Rightarrow> None
                                  | Some m \<Rightarrow> median_opt (map (\<lambda>x. \<bar>x - m\<bar>) log_it)),
              as_log_ia_bp = median_opt log_ia,
              as_examples = span_examples run alpaca ibkr tradier,
              as_touches_window_end = (last run = last_common),
              as_ibkr_head = None, as_ibkr_head_verified = False, as_continuous = False,
              as_agree_share = None, as_head_evidence = None\<rparr>)))"

definition quarantine_of ::
  "string \<Rightarrow> arb_span \<Rightarrow> day list \<Rightarrow> closes \<Rightarrow> closes \<Rightarrow> closes \<Rightarrow> arb_params \<Rightarrow> quarantined list" where
  "quarantine_of symbol sp run alpaca ibkr tradier params =
     (if ap_min_sessions params \<le> int (as_n_sessions sp) \<or> as_cls sp = IBKR_DEFECTIVE then []
      else map (\<lambda>d. \<lparr>qu_symbol = symbol, qu_session = d, qu_alpaca = px alpaca d, qu_ibkr = px ibkr d,
                     qu_tradier = px0 tradier d, qu_alpaca_over_tradier = px alpaca d / px0 tradier d\<rparr>)
             (filter (\<lambda>d. 0 < px0 tradier d \<and> agree (px ibkr d) (px0 tradier d) (ap_tolerance_bp params) \<and>
                          ap_quarantine_rel params < \<bar>px alpaca d / px0 tradier d - 1\<bar>) run))"

section \<open>Alpaca before IBKR's first bar\<close>

definition session_index :: "day list \<Rightarrow> day \<Rightarrow> nat option" where
  "session_index sessions = map_of (dict_of (zip sessions [0..<length sessions]))"

definition head_test ::
  "day list \<Rightarrow> closes \<Rightarrow> closes \<Rightarrow> closes \<Rightarrow> arb_params \<Rightarrow> day list \<Rightarrow> day \<Rightarrow> err + (bool \<times> head_evidence)" where
  "head_test pre alpaca ibkr tradier params sessions head =
     (let consecutive = (case (session_index sessions (last pre), session_index sessions head) of
                           (Some i, Some j) \<Rightarrow> int j - int i = 1 | _ \<Rightarrow> False);
          a_head = map_of alpaca head;
          agrees_ibkr = (case a_head of None \<Rightarrow> False | Some a \<Rightarrow> agree a (px ibkr head) (ap_tolerance_bp params));
          t_head = px0 tradier head;
          agrees_tradier = (case a_head of None \<Rightarrow> False | Some a \<Rightarrow> 0 < t_head \<and> agree a t_head (ap_tolerance_bp params));
          ibkr_days = sort (filter (\<lambda>d. 0 < px ibkr d) (map fst ibkr))
      in ebind (emap (\<lambda>(a, b). log_bp (px ibkr b) (px ibkr a)) (zip ibkr_days (tl ibkr_days))) (\<lambda>logs.
         ebind (if 0 < px alpaca (last pre)
                then ebind (log_bp (px ibkr head) (px alpaca (last pre))) (\<lambda>g. Inr (Some g)) else Inr None) (\<lambda>gap.
         let median_move = median_opt (map (\<lambda>x. \<bar>x\<bar>) logs)
         in Inr (consecutive \<and> (agrees_ibkr \<or> agrees_tradier),
              \<lparr>he_consecutive = consecutive, he_alpaca_at_head = a_head, he_ibkr_at_head = px ibkr head,
               he_tradier_at_head = (if t_head = 0 then None else Some t_head), he_overnight_gap_bp = gap,
               he_median_move_bp = median_move,
               he_gap_in_moves = (case (gap, median_move) of
                                    (Some g, Some m) \<Rightarrow> if m = 0 then None else Some (\<bar>g\<bar> / m) | _ \<Rightarrow> None)\<rparr>))))"

definition key_min :: "closes \<Rightarrow> day option" where
  "key_min m = (if m = [] then None else Some (Min (set (map fst m))))"

definition pre_ibkr ::
  "string \<Rightarrow> day list \<Rightarrow> closes \<Rightarrow> closes \<Rightarrow> closes \<Rightarrow> arb_params \<Rightarrow> day list option \<Rightarrow> day option \<Rightarrow> err + arb_span" where
  "pre_ibkr symbol pre alpaca ibkr tradier params sessions head_verified =
     (let head = key_min ibkr;
          with_tradier = filter (\<lambda>d. 0 < px0 tradier d) pre;
          agreeing = filter (\<lambda>d. agree (px alpaca d) (px tradier d) (ap_tolerance_bp params)) with_tradier
      in ebind (case head of None \<Rightarrow> Inr (False, None)
                | Some h \<Rightarrow> ebind (head_test pre alpaca ibkr tradier params (case sessions of None \<Rightarrow> [] | Some s \<Rightarrow> s) h)
                              (\<lambda>(c, e). Inr (c, Some e))) (\<lambda>(continuous, evidence).
         Inr \<lparr>as_symbol = symbol, as_cls = PRE_IBKR_HISTORY, as_start = hd pre, as_end = last pre,
              as_n_sessions = length pre, as_n_tradier = length with_tradier, as_shares = [],
              as_ibkr_over_alpaca = None, as_tradier_over_alpaca = None, as_log_it_bp = None, as_mad_log_it_bp = None,
              as_log_ia_bp = None, as_examples = [], as_touches_window_end = False,
              as_ibkr_head = head, as_ibkr_head_verified = (head_verified \<noteq> None), as_continuous = continuous,
              as_agree_share = (if with_tradier = [] then None
                                else Some (real (length agreeing) / real (length with_tradier))),
              as_head_evidence = evidence\<rparr>))"

section \<open>The spans of a name\<close>

text \<open>The loop of \<open>arbitrate\<close>: the maximal runs of common sessions that do not agree.\<close>

fun split_runs :: "(day \<Rightarrow> bool) \<Rightarrow> day list \<Rightarrow> day list \<Rightarrow> day list list" where
  "split_runs ok [] run = (if run = [] then [] else [run])"
| "split_runs ok (d # ds) run =
     (if ok d then (if run = [] then split_runs ok ds [] else run # split_runs ok ds [])
      else split_runs ok ds (run @ [d]))"

definition in_window :: "arb_params \<Rightarrow> day \<Rightarrow> bool" where
  "in_window params d \<longleftrightarrow> ap_window_start params \<le> d \<and> d \<le> ap_window_end params"

definition common_sessions :: "arb_params \<Rightarrow> closes \<Rightarrow> closes \<Rightarrow> day list" where
  "common_sessions params alpaca ibkr =
     sort (filter (\<lambda>d. in_window params d \<and> d \<in> set (map fst ibkr) \<and> 0 < px alpaca d \<and> 0 < px ibkr d) (map fst alpaca))"

definition pre_sessions :: "arb_params \<Rightarrow> closes \<Rightarrow> closes \<Rightarrow> day list" where
  "pre_sessions params alpaca ibkr =
     sort (filter (\<lambda>d. in_window params d \<and> (case key_min ibkr of None \<Rightarrow> True | Some h \<Rightarrow> d < h)) (map fst alpaca))"

definition disagreeing_runs :: "arb_params \<Rightarrow> closes \<Rightarrow> closes \<Rightarrow> day list list" where
  "disagreeing_runs params alpaca ibkr =
     split_runs (\<lambda>d. agree (px ibkr d) (px alpaca d) (ap_tolerance_bp params)) (common_sessions params alpaca ibkr) []"

definition arbitrate ::
  "string \<Rightarrow> closes \<Rightarrow> closes \<Rightarrow> closes \<Rightarrow> arb_params \<Rightarrow> day list option \<Rightarrow> day option \<Rightarrow> err + name_arbitration" where
  "arbitrate symbol alpaca ibkr tradier params sessions head_verified =
     (let common = common_sessions params alpaca ibkr; pre = pre_sessions params alpaca ibkr;
          runs = disagreeing_runs params alpaca ibkr
      in ebind (if pre = [] then Inr []
                else ebind (pre_ibkr symbol pre alpaca ibkr tradier params sessions head_verified) (\<lambda>sp. Inr [sp])) (\<lambda>first.
         ebind (emap (\<lambda>run. span_of symbol run alpaca ibkr tradier params (last common)) runs) (\<lambda>spans.
         Inr \<lparr>na_symbol = symbol, na_n_common = length common, na_spans = sort_key as_start (first @ spans),
              na_quarantine = concat (map (\<lambda>(sp, run). quarantine_of symbol sp run alpaca ibkr tradier params)
                (zip spans runs))\<rparr>)))"

section \<open>What a span does\<close>

definition adjusted_three_way :: "arb_span \<Rightarrow> arb_params \<Rightarrow> bool" where
  "adjusted_three_way sp params \<longleftrightarrow>
     (case (as_log_it_bp sp, as_mad_log_it_bp sp, as_log_ia_bp sp) of
        (Some it, Some mad, Some ia) \<Rightarrow>
          \<bar>it\<bar> \<le> ap_three_way_max_it_bp params \<and> mad < ap_tolerance_bp params \<and>
          \<bar>it\<bar> \<le> ap_three_way_log_share params * \<bar>ia\<bar>
      | _ \<Rightarrow> False)"

datatype span_act = Row | Evidence | Hold | Noise | Info

definition span_action :: "arb_span \<Rightarrow> arb_params \<Rightarrow> span_act" where
  "span_action sp params =
     (if as_cls sp = PRE_IBKR_HISTORY then
        (if as_ibkr_head sp = None then Hold
         else if \<not> as_continuous sp then Row
         else if int (as_n_sessions sp) \<le> ap_min_sessions params then Info
         else case as_agree_share sp of
                Some share \<Rightarrow> if ap_min_class_share params \<le> share then Info else Hold
              | None \<Rightarrow> (case as_head_evidence sp of
                           None \<Rightarrow> Hold
                         | Some e \<Rightarrow> (case he_gap_in_moves e of
                             None \<Rightarrow> Hold
                           | Some moves \<Rightarrow> if moves \<le> ap_gap_max_moves params then Info else Hold)))
      else if as_cls sp = IBKR_DEFECTIVE then Evidence
      else if int (as_n_sessions sp) < ap_min_sessions params then Noise
      else if as_cls sp = ALPACA_DIFFERS then (if as_touches_window_end sp then Hold else Row)
      else if as_cls sp = THREE_WAY \<and> adjusted_three_way sp params then Row
      else Hold)"

definition row_end :: "arb_span \<Rightarrow> day" where
  "row_end sp =
     (case as_ibkr_head sp of
        Some h \<Rightarrow> if as_cls sp = PRE_IBKR_HISTORY then h else as_end sp + 1
      | None \<Rightarrow> as_end sp + 1)"

section \<open>The plan\<close>

record ibkr_row =
  pr_symbol :: string
  pr_valid_from :: day
  pr_valid_to :: day
  pr_primary :: string
  pr_fallback :: "string option"
  pr_span :: arb_span
  pr_interim :: bool

record retired_row =
  rr_policy_id :: string
  rr_symbol :: string
  rr_disposition :: string
  rr_old_row :: live_symbol_row
  rr_n_common :: nat
  rr_classes :: "string list"

record kept_row =
  kr_policy_id :: string
  kr_symbol :: string
  kr_valid_from :: day
  kr_valid_to :: "day option"
  kr_reason :: string

record plan_default =
  pd_valid_from :: day
  pd_valid_to :: "day option"
  pd_primary :: string
  pd_fallback :: "string option"

record fingerprint =
  fp_through :: day
  fp_series :: "(string \<times> nat \<times> stamp option) list"

record class_count =
  cc_cls :: string
  cc_action :: span_act
  cc_spans :: nat
  cc_sessions :: nat
  cc_names :: nat

record plan_doc =
  pl_timeframe :: string
  pl_seam :: day
  pl_retire_defaults :: bool
  pl_retire_default_ids :: "string list"
  pl_raw_fingerprint :: fingerprint
  pl_defaults :: "plan_default list"
  pl_symbol_rows :: "ibkr_row list"
  pl_retire_symbol_rows :: "retired_row list"
  pl_keep_symbol_rows :: "kept_row list"
  pl_hold :: "arb_span list"
  pl_window_end_spans :: "(arb_span \<times> span_act) list"
  pl_ibkr_defective :: "arb_span list"
  pl_quarantine :: "quarantined list"
  pl_quarantine_rule :: string
  pl_reason :: string
  pl_span_actions :: "(span_act \<times> nat) list"
  pl_classes :: "class_count list"
  pl_n_names :: nat

text \<open>Every span of the results in the order of the loop, with its name and its action.\<close>

definition acted_spans :: "name_arbitration list \<Rightarrow> arb_params \<Rightarrow> (string \<times> arb_span \<times> span_act) list" where
  "acted_spans results params =
     concat (map (\<lambda>r. map (\<lambda>sp. (na_symbol r, sp, span_action sp params)) (na_spans r)) (sort_key na_symbol results))"

definition writes_row :: "span_act \<Rightarrow> bool" where
  "writes_row a \<longleftrightarrow> a = Row \<or> a = Hold"

definition past_window :: "arb_params \<Rightarrow> arb_span \<Rightarrow> span_act \<Rightarrow> bool" where
  "past_window params sp a \<longleftrightarrow> writes_row a \<and> ap_window_end params < row_end sp"

definition plan_row_of :: "string \<Rightarrow> arb_span \<Rightarrow> span_act \<Rightarrow> ibkr_row" where
  "plan_row_of symbol sp a =
     \<lparr>pr_symbol = symbol, pr_valid_from = as_start sp, pr_valid_to = row_end sp, pr_primary = ''ibkr'', pr_fallback = None,
      pr_span = sp, pr_interim = (a = Hold)\<rparr>"

definition act_order :: "span_act \<Rightarrow> string" where
  "act_order a = (case a of Row \<Rightarrow> ''row'' | Evidence \<Rightarrow> ''evidence'' | Hold \<Rightarrow> ''hold'' | Noise \<Rightarrow> ''noise'' | Info \<Rightarrow> ''info'')"

definition class_counts :: "(string \<times> arb_span \<times> span_act) list \<Rightarrow> class_count list" where
  "class_counts acted =
     map (\<lambda>((cls, action), entries).
         \<lparr>cc_cls = cls, cc_action = action, cc_spans = length entries,
          cc_sessions = sum_list (map (\<lambda>(_, sp, _). as_n_sessions sp) entries),
          cc_names = length (remdups (map fst entries))\<rparr>)
       (sort_key (\<lambda>((cls, action), _). (cls, act_order action)) (group_by (\<lambda>(_, sp, a). (as_cls sp, a)) acted))"

definition dispose :: "name_arbitration list \<Rightarrow> string list \<Rightarrow> live_symbol_row \<Rightarrow> retired_row + kept_row" where
  "dispose results new_symbols row =
     (case map_of (dict_of (map (\<lambda>r. (na_symbol r, r)) results)) (lr_symbol row) of
        None \<Rightarrow> Inr \<lparr>kr_policy_id = lr_policy_id row, kr_symbol = lr_symbol row, kr_valid_from = lr_valid_from row,
                    kr_valid_to = lr_valid_to row, kr_reason = ''no Alpaca 1d history to arbitrate''\<rparr>
      | Some r \<Rightarrow> Inl \<lparr>rr_policy_id = lr_policy_id row, rr_symbol = lr_symbol row,
                      rr_disposition = (if lr_symbol row \<in> set new_symbols then ''replaced'' else ''superseded_by_default''),
                      rr_old_row = row, rr_n_common = na_n_common r,
                      rr_classes = sorted_set (map as_cls (na_spans r))\<rparr>)"

definition build_plan ::
  "name_arbitration list \<Rightarrow> live_symbol_row list \<Rightarrow> arb_params \<Rightarrow> string list \<Rightarrow> fingerprint \<Rightarrow> plan_doc" where
  "build_plan results live_rows params live_default_ids raw_fingerprint =
     (let acted = acted_spans results params;
          written = filter (\<lambda>(_, sp, a). \<not> past_window params sp a) acted;
          symbol_rows = map (\<lambda>(s, sp, a). plan_row_of s sp a) (filter (\<lambda>(_, _, a). writes_row a) written);
          disposed = map (dispose results (map pr_symbol symbol_rows)) (sort_key (\<lambda>r. (lr_symbol r, lr_valid_from r)) live_rows)
      in \<lparr>pl_timeframe = ''1d'', pl_seam = SEAM, pl_retire_defaults = True, pl_retire_default_ids = live_default_ids,
          pl_raw_fingerprint = raw_fingerprint,
          pl_defaults =
            [\<lparr>pd_valid_from = POLICY_EPOCH, pd_valid_to = Some SEAM, pd_primary = ''ibkr'', pd_fallback = None\<rparr>,
             \<lparr>pd_valid_from = SEAM, pd_valid_to = None, pd_primary = ''alpaca'', pd_fallback = Some ''ibkr''\<rparr>],
          pl_symbol_rows = symbol_rows,
          pl_retire_symbol_rows = concat (map (\<lambda>x. case x of Inl r \<Rightarrow> [r] | Inr _ \<Rightarrow> []) disposed),
          pl_keep_symbol_rows = concat (map (\<lambda>x. case x of Inl _ \<Rightarrow> [] | Inr k \<Rightarrow> [k]) disposed),
          pl_hold = map (\<lambda>(_, sp, _). sp) (filter (\<lambda>(_, _, a). a = Hold) written),
          pl_window_end_spans = map (\<lambda>(_, sp, a). (sp, a)) (filter (\<lambda>(_, sp, a). past_window params sp a) acted),
          pl_ibkr_defective = map (\<lambda>(_, sp, _). sp) (filter (\<lambda>(_, _, a). a = Evidence) written),
          pl_quarantine = concat (map na_quarantine (sort_key na_symbol results)),
          pl_quarantine_rule = QUARANTINE_RULE,
          pl_reason = ''D-191-Q: canonical 1d Alpaca SIP primary from 2016-01-04, IBKR before (todo 545 step 4)'',
          pl_span_actions = map (\<lambda>a. (a, length (filter (\<lambda>(_, _, b). b = a) acted))) [Row, Evidence, Hold, Noise, Info],
          pl_classes = class_counts acted,
          pl_n_names = length results\<rparr>)"

end
