(* ===== verification/Integrity_1d.thy ===== *)
theory Integrity_1d
  imports Vendor_Arbitration Write_Contract Sessions
begin

text \<open>
  The daily integrity report of one name: the 1d part of \<open>src/intelligence/bars/integrity_checks.py\<close>, with
  \<open>vendor_basis.py\<close>, the continuity test of \<open>corporate_actions.py\<close> and the month digests of \<open>digest.py\<close>.

  \<open>digest\<close> is the hash of the canonical text of digest rows.  A stored price is a \<open>pyfloat\<close>, as in the write contract;
  an absent price enters a digest as NaN, as the float array of the code makes it.  The timings are not modelled.
\<close>

section \<open>Calendar months\<close>

definition leap :: "int \<Rightarrow> bool" where
  "leap y \<longleftrightarrow> (4 dvd y \<and> \<not> 100 dvd y) \<or> 400 dvd y"

definition days_before_month :: "int \<Rightarrow> int \<Rightarrow> int" where
  "days_before_month y m =
     [0, 31, 59, 90, 120, 151, 181, 212, 243, 273, 304, 334] ! nat (m - 1) + (if 2 < m \<and> leap y then 1 else 0)"

definition month_start :: "int \<times> int \<Rightarrow> day" where
  "month_start = (\<lambda>(y, m). jan1 y + days_before_month y m)"

definition month_of :: "day \<Rightarrow> int" where
  "month_of d = (let y = year_of d in int (length (filter (\<lambda>m. month_start (y, m) \<le> d) [1..12])))"

definition next_month :: "int \<times> int \<Rightarrow> int \<times> int" where
  "next_month = (\<lambda>(y, m). if m = 12 then (y + 1, 1) else (y, m + 1))"

definition midnight_of :: "day \<Rightarrow> stamp" where
  "midnight_of d = (d - 719163) * one_day"

text \<open>The months from one to another; the difference of their running numbers counts down.\<close>

function months_to :: "int \<times> int \<Rightarrow> int \<times> int \<Rightarrow> (int \<times> int) list" where
  "months_to ym final =
     (if 12 * fst ym + snd ym \<le> 12 * fst final + snd final then ym # months_to (next_month ym) final else [])"
  by pat_completeness auto
termination
  by (relation "measure (\<lambda>(ym, final). nat (12 * fst final + snd final + 1 - (12 * fst ym + snd ym)))")
    (auto simp: next_month_def split: prod.splits)

declare months_to.simps [simp del]

definition month_ranges :: "stamp list \<Rightarrow> (stamp \<times> stamp) list" where
  "month_ranges ts =
     (if ts = [] then []
      else
        let first = utc_day (Min (set ts)); final = utc_day (Max (set ts))
        in map (\<lambda>ym. (midnight_of (month_start ym), midnight_of (month_start (next_month ym))))
             (months_to (year_of first, month_of first) (year_of final, month_of final)))"

section \<open>Basis runs\<close>

record basis_run =
  br_start :: day
  br_end :: day
  br_n_sessions :: nat
  br_median_ratio :: real

definition close_run :: "int \<Rightarrow> (day \<times> real) list \<Rightarrow> err + basis_run list" where
  "close_run min_sessions current =
     (if int (length current) < min_sessions then Inr []
      else if current = [] then Inl IndexError
      else Inr [\<lparr>br_start = fst (hd current), br_end = fst (last current), br_n_sessions = length current,
                 br_median_ratio = median (map snd current)\<rparr>])"

fun basis_loop :: "real \<Rightarrow> int \<Rightarrow> (day \<times> real \<times> real) list \<Rightarrow> (day \<times> real) list \<Rightarrow> err + basis_run list" where
  "basis_loop tolerance_bp min_sessions [] current = close_run min_sessions current"
| "basis_loop tolerance_bp min_sessions ((session, ibkr_close, other_close) # pairs) current =
     (if ibkr_close \<le> 0 \<or> other_close \<le> 0 then basis_loop tolerance_bp min_sessions pairs current
      else
        let ratio = ibkr_close / other_close
        in if tolerance_bp < \<bar>ratio - 1\<bar> * BP
           then basis_loop tolerance_bp min_sessions pairs (current @ [(session, ratio)])
           else ebind (close_run min_sessions current) (\<lambda>runs.
                ebind (basis_loop tolerance_bp min_sessions pairs []) (\<lambda>more. Inr (runs @ more))))"

definition find_basis_runs :: "(day \<times> real \<times> real) list \<Rightarrow> real \<Rightarrow> int \<Rightarrow> err + basis_run list" where
  "find_basis_runs pairs tolerance_bp min_sessions = basis_loop tolerance_bp min_sessions pairs []"

text \<open>A corporate action or an IBKR row of the symbol explains a run.\<close>

definition run_explained :: "split_record list \<Rightarrow> policy list \<Rightarrow> string \<Rightarrow> day list \<Rightarrow> basis_run \<Rightarrow> bool" where
  "run_explained splits policy_rows symbol common run =
     (let after = find (\<lambda>d. br_end run < d) common
      in list_ex (\<lambda>s. br_start run \<le> sp_effective_date s \<and>
             (case after of None \<Rightarrow> True | Some a \<Rightarrow> sp_effective_date s \<le> a)) splits \<or>
         list_ex (\<lambda>r. po_timeframe r = ''1d'' \<and> po_symbol r = Some symbol \<and> po_primary r = ''ibkr'' \<and>
             po_valid_from r \<le> br_start run \<and> (case po_valid_to r of None \<Rightarrow> True | Some v \<Rightarrow> br_end run < v)) policy_rows)"

definition alpaca_basis_runs ::
  "observation list \<Rightarrow> split_record list \<Rightarrow> policy list \<Rightarrow> string \<Rightarrow> day \<Rightarrow> real \<Rightarrow> int \<Rightarrow> err + basis_run list" where
  "alpaca_basis_runs observations splits policy_rows symbol since tolerance_bp min_sessions =
     ebind (vendor_basis_closes observations splits) (\<lambda>closes.
       let alpaca = the (map_of closes ''alpaca''); ibkr = the (map_of closes ''ibkr'');
           common = filter (\<lambda>d. since < d) (sorted_set (filter (\<lambda>d. d \<in> set (map fst alpaca)) (map fst ibkr)));
           pairs = map (\<lambda>d. (d, the (map_of ibkr d), the (map_of alpaca d))) common
       in ebind (find_basis_runs pairs tolerance_bp min_sessions) (\<lambda>runs.
            Inr (filter (\<lambda>run. \<not> run_explained splits policy_rows symbol common run) runs)))"

section \<open>The checks\<close>

record integrity_verdict =
  ve_symbol :: string
  ve_timeframe :: string
  ve_check :: string
  ve_passed :: bool
  ve_metric :: real
  ve_threshold :: real

definition session_coverage :: "day list \<Rightarrow> day list \<Rightarrow> day list \<Rightarrow> real" where
  "session_coverage bar_dates empty_dates sessions =
     (if sessions = [] then 1
      else real (card ((set bar_dates \<union> set empty_dates) \<inter> set sessions)) / real (length sessions))"

text \<open>The scan of \<open>proven_start\<close> from the last session backwards: how many sessions were seen and how many of
  them were missing.\<close>

fun proven_scan :: "day list \<Rightarrow> real \<Rightarrow> day list \<Rightarrow> nat \<Rightarrow> nat \<Rightarrow> day option \<Rightarrow> day option" where
  "proven_scan answered min_coverage [] seen missing start = start"
| "proven_scan answered min_coverage (s # ss) seen missing start =
     (if s \<notin> set answered then proven_scan answered min_coverage ss (seen + 1) (missing + 1) start
      else if min_coverage \<le> (real (seen + 1) - real missing) / real (seen + 1)
      then proven_scan answered min_coverage ss (seen + 1) missing (Some s)
      else proven_scan answered min_coverage ss (seen + 1) missing start)"

definition proven_start :: "day list \<Rightarrow> day list \<Rightarrow> real \<Rightarrow> day option" where
  "proven_start sessions answered min_coverage = proven_scan answered min_coverage (rev sessions) 0 0 None"

definition conforms ::
  "policy list \<Rightarrow> (string \<times> day list) list \<Rightarrow> string \<Rightarrow> day \<times> string \<times> string \<Rightarrow> err + bool" where
  "conforms policy_rows primary_dates symbol = (\<lambda>(bar_date, vendor, kind).
     ebind (resolve_policy policy_rows symbol bar_date) (\<lambda>pol.
     ebind (if po_primary pol \<in> set (map fst PRIMARY_PAIR)
            then ebind (primary_pair (po_primary pol) bar_date (alpaca_era_start policy_rows)) (\<lambda>pair. Inr ((vendor, kind) = pair))
            else Inr False) (\<lambda>primary.
       Inr (primary \<or> ((vendor, kind) = FALLBACK_PAIR \<and> po_fallback pol = Some ''ibkr'' \<and>
         bar_date \<notin> set (case map_of primary_dates (po_primary pol) of None \<Rightarrow> [] | Some ds \<Rightarrow> ds))))))"

definition policy_conformance ::
  "(day \<times> string \<times> string) list \<Rightarrow> policy list \<Rightarrow> (string \<times> day list) list \<Rightarrow> string \<Rightarrow> err + day list" where
  "policy_conformance rows policy_rows primary_dates symbol =
     ebind (emap (conforms policy_rows primary_dates symbol) rows) (\<lambda>oks.
       Inr (sort (map (\<lambda>(row, ok). fst row) (filter (\<lambda>(row, ok). \<not> ok) (zip rows oks)))))"

record stored_bar =
  sb_timestamp :: stamp
  sb_open :: "pyfloat option"
  sb_high :: "pyfloat option"
  sb_low :: "pyfloat option"
  sb_close :: "pyfloat option"
  sb_volume :: "int option"
  sb_vendor :: string
  sb_kind :: string

definition SPLIT_BRACKET_MAX_DAYS :: int where "SPLIT_BRACKET_MAX_DAYS = 7"

fun prefix_products :: "real \<Rightarrow> real list \<Rightarrow> real list" where
  "prefix_products product [] = []"
| "prefix_products product (f # fs) =
     (let p = product * f
      in (if \<bar>p - 1\<bar> \<le> max \<bar>p\<bar> 1 / 1000000000 then [] else [p]) @ prefix_products p fs)"

fun run_products :: "real list \<Rightarrow> real list" where
  "run_products [] = []"
| "run_products (f # fs) = prefix_products 1 (f # fs) @ run_products fs"

definition route_boundaries :: "observation list \<Rightarrow> day \<Rightarrow> string list \<Rightarrow> day list" where
  "route_boundaries observations last_date routes =
     (let dated = sort (map (\<lambda>ob. (ob_date ob, ob_request_id ob))
            (filter (\<lambda>ob. ob_route ob \<in> set routes \<and> ob_date ob \<le> last_date) observations))
      in map (\<lambda>(a, b). fst a) (filter (\<lambda>(a, b). snd a \<noteq> snd b) (zip dated (tl dated))))"

definition request_boundaries :: "observation list \<Rightarrow> split_record list \<Rightarrow> day list" where
  "request_boundaries observations splits =
     (let rescaled_splits = filter (\<lambda>s. sp_rescale_routes s \<noteq> []) splits
      in if rescaled_splits = [] then []
         else
           let last_date = Max (set (map sp_effective_date rescaled_splits));
               routes = concat (map sp_rescale_routes rescaled_splits)
           in concat (map (\<lambda>(series, series_routes).
                if list_ex (\<lambda>r. r \<in> set routes) series_routes
                then route_boundaries observations last_date series_routes else []) RESCALABLE_SERIES))"

datatype continuity = Continuous | Unadjusted | Double_adjusted

definition split_continuity :: "real \<Rightarrow> real \<Rightarrow> real \<Rightarrow> err + continuity" where
  "split_continuity canonical_step factor rel_tol =
     (if \<not> (0 < factor \<and> factor \<noteq> 1) then Inl ValueError
      else
        let expected = - ln factor; tol = rel_tol * \<bar>expected\<bar>
        in Inr (if \<bar>canonical_step - expected\<bar> \<le> tol then Unadjusted
                else if \<bar>canonical_step + expected\<bar> \<le> tol then Double_adjusted else Continuous))"

text \<open>The first product whose verdict is not continuous.\<close>

fun first_break :: "real \<Rightarrow> real \<Rightarrow> real list \<Rightarrow> err + continuity option" where
  "first_break step rel_tol [] = Inr None"
| "first_break step rel_tol (p # ps) =
     ebind (split_continuity step p rel_tol) (\<lambda>state.
       if state \<noteq> Continuous then Inr (Some state) else first_break step rel_tol ps)"

definition tradeable :: "stored_bar list \<Rightarrow> day list \<Rightarrow> (day \<times> real \<times> string \<times> string) list" where
  "tradeable stored quarantined =
     sort (concat (map (\<lambda>b. case sb_close b of
         Some (Fin c) \<Rightarrow>
           if 0 < c \<and> (case sb_volume b of None \<Rightarrow> False | Some v \<Rightarrow> 0 < v) \<and> utc_day (sb_timestamp b) \<notin> set quarantined
           then [(utc_day (sb_timestamp b), c, sb_vendor b, sb_kind b)] else []
       | _ \<Rightarrow> []) stored))"

definition judge_split_day ::
  "(day \<times> real \<times> string \<times> string) list \<Rightarrow> split_record list \<Rightarrow> (day \<times> real) list \<Rightarrow> real \<Rightarrow> day \<Rightarrow> err + (day \<times> continuity) list" where
  "judge_split_day bars ordered real_move rel_tol d =
     (let days = map fst bars; after = length (takeWhile (\<lambda>x. x \<le> d) days)
      in if after = 0 \<or> after = length days then Inr []
         else if SPLIT_BRACKET_MAX_DAYS < days ! after - days ! (after - 1) then Inr []
         else
           let step = ln (fst (snd (bars ! after)) / fst (snd (bars ! (after - 1)))) -
                 (case map_of real_move d of None \<Rightarrow> 0 | Some m \<Rightarrow> m);
               later = map sp_factor (filter (\<lambda>s. d \<le> sp_effective_date s) ordered)
           in ebind (first_break step rel_tol (run_products later)) (\<lambda>found.
                Inr (case found of None \<Rightarrow> [] | Some state \<Rightarrow> [(d, state)])))"

definition split_discontinuities ::
  "stored_bar list \<Rightarrow> split_record list \<Rightarrow> real \<Rightarrow> day list \<Rightarrow> day list \<Rightarrow> err + (day \<times> continuity) list" where
  "split_discontinuities stored splits rel_tol quarantined boundaries =
     (let bars = tradeable stored quarantined;
          ordered = sort_key sp_effective_date splits;
          real_move = dict_of (map (\<lambda>s. (sp_effective_date s, sp_calendar_adjusted_step s))
                        (filter (\<lambda>s. sp_rescale_routes s \<noteq> []) ordered));
          seams = map (\<lambda>(a, b). fst a) (filter (\<lambda>(a, b). snd (snd a) \<noteq> snd (snd b)) (zip bars (tl bars)));
          judged = sorted_set (map sp_effective_date ordered @ (if real_move = [] then [] else boundaries @ seams))
      in ebind (emap (judge_split_day bars ordered real_move rel_tol) judged) (\<lambda>found. Inr (concat found)))"

section \<open>Digests\<close>

record digest_row =
  dg_ts :: int
  dg_prices :: "pyfloat list"
  dg_volume :: "int option"
  dg_rules :: "string list"

text \<open>\<open>digest\<close> of the rows sorted by their time (\<open>bar_content_digest\<close>), one digest per month the bars span.\<close>

definition float_of :: "pyfloat option \<Rightarrow> pyfloat" where
  "float_of p = (case p of None \<Rightarrow> NaN | Some f \<Rightarrow> f)"

definition bar_content_digest :: "(digest_row list \<Rightarrow> string) \<Rightarrow> digest_row list \<Rightarrow> string" where
  "bar_content_digest digest rows =
     digest (sort_key dg_ts (map (\<lambda>r. r\<lparr>dg_rules := sort (dg_rules r)\<rparr>) rows))"

type_synonym quality_flag = "stamp \<times> string \<times> bool"

definition digest_rows :: "stored_bar list \<Rightarrow> quality_flag list \<Rightarrow> digest_row list" where
  "digest_rows stored flags =
     map (\<lambda>b. \<lparr>dg_ts = epoch (sb_timestamp b),
               dg_prices = [float_of (sb_open b), float_of (sb_high b), float_of (sb_low b), float_of (sb_close b)],
               dg_volume = sb_volume b,
               dg_rules = sorted_set (map (\<lambda>(_, rule, _). rule)
                 (filter (\<lambda>(t, rule, quarantine). \<not> quarantine \<and> epoch t = epoch (sb_timestamp b)) flags))\<rparr>)
       (sort_key sb_timestamp stored)"

definition month_digests :: "(digest_row list \<Rightarrow> string) \<Rightarrow> stored_bar list \<Rightarrow> quality_flag list \<Rightarrow> (stamp \<times> string) list" where
  "month_digests digest stored flags =
     (let rows = digest_rows stored flags
      in map (\<lambda>(start, stop). (start, bar_content_digest digest
             (filter (\<lambda>r. start \<le> dg_ts r * second \<and> dg_ts r * second < stop) rows)))
           (month_ranges (map (\<lambda>r. dg_ts r * second) rows)))"

definition stale_digest_months ::
  "string \<Rightarrow> (stamp \<times> string) list \<Rightarrow> (stamp \<times> string \<times> string) list \<Rightarrow> stamp list" where
  "stale_digest_months rule_version recomputed current =
     map fst (filter (\<lambda>(start, d). map_of current start \<noteq> Some (d, rule_version)) (sort_key fst (dict_of recomputed)))"

section \<open>The report\<close>

definition values_of :: "stored_bar \<Rightarrow> bar_values" where
  "values_of b =
     \<lparr>bv_open = sb_open b, bv_high = sb_high b, bv_low = sb_low b, bv_close = sb_close b, bv_volume = sb_volume b,
      bv_vendor = sb_vendor b, bv_kind = sb_kind b\<rparr>"

definition derived_values :: "canonical_bar \<Rightarrow> bar_values" where
  "derived_values b =
     \<lparr>bv_open = Some (Fin (cb_open b)), bv_high = Some (Fin (cb_high b)), bv_low = Some (Fin (cb_low b)),
      bv_close = Some (Fin (cb_close b)), bv_volume = cb_volume b, bv_vendor = cb_vendor b, bv_kind = cb_kind b\<rparr>"

definition recompute_findings :: "(day \<times> bar_values) list \<Rightarrow> (day \<times> bar_values) list \<Rightarrow> err + day list" where
  "recompute_findings derived stored =
     ebind (classify derived stored (Some (map fst stored))) (\<lambda>delta.
       Inr (sorted_set (map fst (wd_new delta) @ map fst (wd_changed delta) @ map fst (wd_removed delta))))"

definition in_any :: "day \<Rightarrow> (day \<times> day) list \<Rightarrow> bool" where
  "in_any d spans = list_ex (\<lambda>(start, stop). start \<le> d \<and> d \<le> stop) spans"

definition freshness_1d ::
  "day option \<Rightarrow> (day \<times> day) list \<Rightarrow> day \<Rightarrow> day list \<Rightarrow> int \<Rightarrow> string \<Rightarrow> day option \<Rightarrow> integrity_verdict" where
  "freshness_1d latest_bar answered_empty last_session sessions max_lag symbol listing_end =
     (let judged_to = (case listing_end of None \<Rightarrow> last_session | Some e \<Rightarrow> min last_session e);
          behind = length (filter (\<lambda>s. (case latest_bar of None \<Rightarrow> True | Some l \<Rightarrow> l < s) \<and> s \<le> judged_to \<and>
                     \<not> in_any s answered_empty) sessions)
      in \<lparr>ve_symbol = symbol, ve_timeframe = ''1d'', ve_check = ''freshness_1d'',
          ve_passed = (latest_bar \<noteq> None \<and> int behind \<le> max_lag), ve_metric = real behind,
          ve_threshold = of_int max_lag\<rparr>)"

record thresholds =
  th_session_coverage_min :: real
  th_vendor_run_min_sessions :: int
  th_report_max_age_hours :: int
  th_basis_window_sessions :: int
  th_basis_tolerance_bp :: real
  th_freshness_max_lag :: int
  th_split_continuity_rel_tol :: real

record name_inputs =
  ni_symbol :: string
  ni_observations :: "observation list"
  ni_policy_rows :: "policy list"
  ni_splits :: "split_record list"
  ni_stored :: "stored_bar list"
  ni_flags :: "quality_flag list"
  ni_current_digests :: "(stamp \<times> string \<times> string) list"
  ni_lineage_missing :: "day list"
  ni_empty_spans :: "(day \<times> day) list"
  ni_seam_findings :: int
  ni_latest_load_at :: "stamp option"
  ni_listing_end :: "day option"

record name_report =
  nr_verdicts :: "integrity_verdict list"
  nr_refused_head :: nat
  nr_unserved_primary :: nat
  nr_alpaca_runs :: "basis_run list"
  nr_proven_start :: "day option"

definition RULE_VERSION :: string where "RULE_VERSION = ''d2-v5''"

definition stored_values :: "stored_bar list \<Rightarrow> (day \<times> bar_values) list" where
  "stored_values stored = dict_of (map (\<lambda>b. (utc_day (sb_timestamp b), values_of b)) stored)"

definition verdict_of :: "string \<Rightarrow> string \<Rightarrow> bool \<Rightarrow> real \<Rightarrow> real \<Rightarrow> integrity_verdict" where
  "verdict_of symbol check passed metric threshold =
     \<lparr>ve_symbol = symbol, ve_timeframe = ''1d'', ve_check = check, ve_passed = passed, ve_metric = metric,
      ve_threshold = threshold\<rparr>"

definition zero_verdict :: "string \<Rightarrow> string \<Rightarrow> 'a list \<Rightarrow> integrity_verdict" where
  "zero_verdict symbol check findings = verdict_of symbol check (findings = []) (real (length findings)) 0"

text \<open>The coverage of the judged span and the proven start.\<close>

definition judge_coverage ::
  "name_inputs \<Rightarrow> (day \<times> bar_values) list \<Rightarrow> day list \<Rightarrow> day \<Rightarrow> day \<Rightarrow> real \<Rightarrow> real \<times> day option" where
  "judge_coverage inputs stored sessions last_session era_start min_coverage =
     (if stored = [] then (0, None)
      else
        let first = max (Min (set (map fst stored))) era_start;
            judged_span = filter (\<lambda>s. first \<le> s \<and> s \<le> last_session) sessions;
            empty_dates = filter (\<lambda>s. in_any s (ni_empty_spans inputs)) judged_span;
            proven = proven_start judged_span (map fst stored @ empty_dates) min_coverage
        in (session_coverage (map fst stored) empty_dates
              (case proven of None \<Rightarrow> judged_span | Some p \<Rightarrow> filter (\<lambda>s. p \<le> s) judged_span), proven))"

definition judge_name_1d ::
  "(digest_row list \<Rightarrow> string) \<Rightarrow> name_inputs \<Rightarrow> day list \<Rightarrow> day \<Rightarrow> stamp \<Rightarrow> thresholds \<Rightarrow> day \<Rightarrow> err + name_report" where
  "judge_name_1d digest inputs sessions last_session run_start th era_start =
     (let symbol = ni_symbol inputs;
          stored = stored_values (ni_stored inputs);
          (coverage, proven) = judge_coverage inputs stored sessions last_session era_start (th_session_coverage_min th)
      in ebind (servable_primary_dates (ni_observations inputs) (ni_splits inputs)) (\<lambda>primary_dates.
         ebind (policy_conformance (map (\<lambda>(d, v). (d, bv_vendor v, bv_kind v)) stored) (ni_policy_rows inputs) primary_dates symbol) (\<lambda>contradicted.
         ebind (derive_daily (ni_observations inputs) (ni_policy_rows inputs) (ni_splits inputs) symbol
                  (th_basis_window_sessions th) (th_basis_tolerance_bp th)) (\<lambda>derived.
         ebind (recompute_findings (dict_of (map (\<lambda>b. (cb_date b, derived_values b)) (dr_bars derived))) stored) (\<lambda>drifted.
         let stale = stale_digest_months RULE_VERSION (month_digests digest (ni_stored inputs) (ni_flags inputs)) (ni_current_digests inputs)
         in ebind (alpaca_basis_runs (ni_observations inputs) (ni_splits inputs) (ni_policy_rows inputs) symbol ARBITRATED_THROUGH
                  (th_basis_tolerance_bp th) (th_vendor_run_min_sessions th)) (\<lambda>alpaca_runs.
         ebind (split_discontinuities (ni_stored inputs) (ni_splits inputs) (th_split_continuity_rel_tol th)
                  (map (\<lambda>(t, _, _). utc_day t) (filter (\<lambda>(_, _, quarantine). quarantine) (ni_flags inputs)))
                  (request_boundaries (ni_observations inputs) (ni_splits inputs))) (\<lambda>discontinuous.
         Inr \<lparr>nr_verdicts =
                [verdict_of symbol ''session_coverage'' (th_session_coverage_min th \<le> coverage) coverage (th_session_coverage_min th),
                 zero_verdict symbol ''policy_conformance'' contradicted,
                 zero_verdict symbol ''lineage_missing'' (ni_lineage_missing inputs),
                 zero_verdict symbol ''canonical_recompute'' drifted,
                 zero_verdict symbol ''digest_fresh'' stale,
                 verdict_of symbol ''unexplained_seam'' (ni_seam_findings inputs = 0) (of_int (ni_seam_findings inputs)) 0,
                 zero_verdict symbol ''alpaca_basis_run'' alpaca_runs,
                 zero_verdict symbol ''split_continuity'' discontinuous,
                 verdict_of symbol ''report_age''
                   (case ni_latest_load_at inputs of None \<Rightarrow> True | Some t \<Rightarrow> t \<le> run_start)
                   (case ni_latest_load_at inputs of None \<Rightarrow> 0 | Some t \<Rightarrow> of_int (run_start - t) / of_int hour)
                   (of_int (th_report_max_age_hours th)),
                 freshness_1d (if stored = [] then None else Some (Max (set (map fst stored)))) (ni_empty_spans inputs)
                   last_session sessions (th_freshness_max_lag th) symbol (ni_listing_end inputs)],
              nr_refused_head = length (dr_refused_head derived), nr_unserved_primary = length (dr_unserved_primary derived),
              nr_alpaca_runs = alpaca_runs, nr_proven_start = proven\<rparr>)))))))"

end
