(* ===== verification/Integrity_Correct.thy ===== *)
theory Integrity_Correct
  imports Integrity_1d Daily_Correct
begin

text \<open>
  The daily integrity report against the rule that fills the table: what a rebuild writes passes the checks that
  compare the table with the rule and the policy; and what \<open>proven_start\<close> finds.
\<close>

section \<open>Derived bars conform\<close>

lemma vendor_days_distinct:
  assumes "screen obs splits = Inr sn"
  shows "distinct (map fst (days_of (sn_days sn) v))"
proof -
  from screen_days [OF assms] obtain filed where
    "days_of (sn_days sn) v = (if v \<in> set VENDORS then vendor_pool splits (filed_obs filed) v else [])"
    by (rule by_vendor_day_pool) blast
  moreover have "distinct (map fst (vendor_pool splits (filed_obs filed) v))"
    unfolding vendor_pool_keys by (rule group_by_distinct)
  ultimately show ?thesis by (simp split: if_split)
qed

definition primary_current :: "(string \<times> vendor_days) list \<Rightarrow> string \<Rightarrow> day list" where
  "primary_current days vendor = map fst (filter (\<lambda>(d, v). vd_current v \<noteq> None) (days_of days vendor))"

lemma primary_current_iff:
  assumes "distinct (map fst (days_of days vendor))"
  shows "d \<in> set (primary_current days vendor) \<longleftrightarrow>
    (\<exists>vd. map_of (days_of days vendor) d = Some vd \<and> vd_current vd \<noteq> None)"
proof -
  have "d \<in> set (primary_current days vendor) \<longleftrightarrow>
      (\<exists>vd. (d, vd) \<in> set (days_of days vendor) \<and> vd_current vd \<noteq> None)"
    by (force simp: primary_current_def)
  then show ?thesis using assms by simp
qed

lemma servable_dates_lookup:
  assumes "screen obs splits = Inr sn" "servable_primary_dates obs splits = Inr dates"
    and "v = VENDOR_TRADIER \<or> v = VENDOR_ALPACA"
  shows "map_of dates v = Some (primary_current (sn_days sn) v)"
  using assms by (auto simp: servable_primary_dates_def FALLBACK_FOR_def primary_current_def daily_names)

lemma frames_vendor:
  "map_of (frames_of days splits w tol) v = Some frame \<Longrightarrow> v = VENDOR_TRADIER \<or> v = VENDOR_ALPACA"
  by (auto simp: frames_of_def FALLBACK_FOR_def split: if_splits)

lemma primary_pair_known: "primary_pair v d era = Inr pair \<Longrightarrow> v \<in> set (map fst PRIMARY_PAIR)"
  by (auto simp: primary_pair_def PRIMARY_PAIR_def split: if_splits)

lemma primary_pair_total:
  assumes "v = VENDOR_TRADIER \<or> v = VENDOR_ALPACA"
  shows "\<exists>pair. primary_pair v d era = Inr pair"
proof -
  have "v \<noteq> VENDOR_IBKR" "\<exists>p. map_of PRIMARY_PAIR v = Some p"
    using assms by (auto simp: PRIMARY_PAIR_def daily_names)
  then show ?thesis by (auto simp: primary_pair_def)
qed

text \<open>A fallback bar is only appended where the primary has no current observation and its vendor has a frame.\<close>

lemma decide_day_fallback:
  assumes "decide_day days frames rows symbol era w tol d = Inr x" "outcome_bar x = Some b"
    and "resolve_policy rows symbol d = Inr pol"
  shows "primary_pair (po_primary pol) d era = Inr (cb_vendor b, cb_kind b) \<or>
    (cb_vendor b, cb_kind b) = FALLBACK_PAIR \<and> po_fallback pol = Some VENDOR_IBKR \<and>
    (\<exists>frame. map_of frames (po_primary pol) = Some frame) \<and>
    (\<forall>vd. map_of (days_of days (po_primary pol)) d = Some vd \<longrightarrow> vd_current vd = None)"
proof -
  let ?primary = "map_of (days_of days (po_primary pol)) d" and ?fb = "fallback_day days pol d"
  have chk: "check_policy pol = Inr ()" using assms(1,3) by (auto simp: decide_day_def ebind_eq_Inr)
  have fb: "po_fallback pol = Some VENDOR_IBKR" if "?fb \<noteq> None"
    using that fallback_is_ibkr [OF chk] by (auto simp: fallback_day_def split: option.splits if_splits)
  have served: "(cb_vendor b, cb_kind b) = FALLBACK_PAIR \<and> ?fb \<noteq> None \<and> (\<exists>frame. map_of frames (po_primary pol) = Some frame)"
    if "decide_fallback frames pol w tol d ?fb = Inr x"
    using that assms(2) by (auto simp: decide_fallback_def Let_def ebind_eq_Inr split: option.splits if_splits)
  have stale: "primary_pair (po_primary pol) d era = Inr (cb_vendor b, cb_kind b) \<or>
      (cb_vendor b, cb_kind b) = FALLBACK_PAIR \<and> ?fb \<noteq> None \<and> (\<exists>frame. map_of frames (po_primary pol) = Some frame)"
    if "decide_stale frames pol era w tol d s ?fb = Inr x" for s
    using that assms(2) by (auto simp: decide_stale_def Let_def ebind_eq_Inr split: option.splits if_splits)
  show ?thesis
  proof (cases ?primary)
    case None
    with assms(1,3) chk have "decide_fallback frames pol w tol d ?fb = Inr x" by (simp add: decide_day_def Let_def)
    with served fb None show ?thesis by auto
  next
    case (Some p)
    show ?thesis
    proof (cases "vd_current p")
      case (Some cur)
      with \<open>?primary = Some p\<close> assms chk show ?thesis by (auto simp: decide_day_def Let_def ebind_eq_Inr)
    next
      case None
      show ?thesis
      proof (cases "vd_stale p")
        case None
        with \<open>?primary = Some p\<close> \<open>vd_current p = None\<close> assms(1,3) chk
        have "decide_fallback frames pol w tol d ?fb = Inr x" by (simp add: decide_day_def Let_def)
        with served fb \<open>?primary = Some p\<close> \<open>vd_current p = None\<close> show ?thesis by auto
      next
        case (Some s)
        with \<open>?primary = Some p\<close> \<open>vd_current p = None\<close> assms(1,3) chk
        have "decide_stale frames pol era w tol d s ?fb = Inr x" by (simp add: decide_day_def Let_def)
        with stale [of s] fb \<open>?primary = Some p\<close> \<open>vd_current p = None\<close> show ?thesis by auto
      qed
    qed
  qed
qed

lemma decided_conforms:
  assumes "screen obs splits = Inr sn" "servable_primary_dates obs splits = Inr dates"
    and "decide_day (sn_days sn) (frames_of (sn_days sn) splits w tol) rows symbol (alpaca_era_start rows) w tol d = Inr x"
    and "outcome_bar x = Some b"
  shows "conforms rows dates symbol (d, cb_vendor b, cb_kind b) = Inr True"
proof -
  from assms(3) obtain pol where pol: "resolve_policy rows symbol d = Inr pol"
    by (auto simp: decide_day_def ebind_eq_Inr)
  from decide_day_fallback [OF assms(3,4) pol] show ?thesis
  proof (elim disjE conjE exE)
    assume p: "primary_pair (po_primary pol) d (alpaca_era_start rows) = Inr (cb_vendor b, cb_kind b)"
    with primary_pair_known [OF p] show ?thesis by (simp add: conforms_def pol)
  next
    fix frame
    assume fb: "(cb_vendor b, cb_kind b) = FALLBACK_PAIR" "po_fallback pol = Some VENDOR_IBKR"
      and fr: "map_of (frames_of (sn_days sn) splits w tol) (po_primary pol) = Some frame"
      and cur: "\<forall>vd. map_of (days_of (sn_days sn) (po_primary pol)) d = Some vd \<longrightarrow> vd_current vd = None"
    note v = frames_vendor [OF fr]
    have "d \<notin> set (primary_current (sn_days sn) (po_primary pol))"
    proof
      assume "d \<in> set (primary_current (sn_days sn) (po_primary pol))"
      from primary_current_iff [OF vendor_days_distinct [OF assms(1)], THEN iffD1, OF this] obtain vd where
        "map_of (days_of (sn_days sn) (po_primary pol)) d = Some vd" "vd_current vd \<noteq> None"
        by (elim exE conjE)
      with cur [THEN spec, THEN mp] show False by (elim notE) iprover
    qed
    moreover have "map_of dates (po_primary pol) = Some (primary_current (sn_days sn) (po_primary pol))"
      by (rule servable_dates_lookup [OF assms(1,2) v])
    moreover note primary_pair_total [OF v, of d "alpaca_era_start rows"]
    then obtain pair where "primary_pair (po_primary pol) d (alpaca_era_start rows) = Inr pair" by (elim exE)
    moreover from primary_pair_known [OF this] have "po_primary pol \<in> set (map fst PRIMARY_PAIR)" .
    moreover have "po_fallback pol = Some ''ibkr''" using fb(2) by (simp only: VENDOR_IBKR_def)
    ultimately show ?thesis using fb(1) unfolding conforms_def prod.case pol ebind_Inr by simp
  qed
qed

section \<open>A rebuild passes its own report\<close>

lemma bars_conform:
  assumes "derive_daily obs rows splits symbol w tol = Inr r" "servable_primary_dates obs splits = Inr dates"
    and "b \<in> set (dr_bars r)"
  shows "conforms rows dates symbol (cb_date b, cb_vendor b, cb_kind b) = Inr True"
proof -
  from assms(1) obtain sn decided where sn: "screen obs splits = Inr sn"
    and dec: "emap (\<lambda>d. ebind (decide_day (sn_days sn) (frames_of (sn_days sn) splits (nat w) tol) rows symbol
        (alpaca_era_start rows) (nat w) tol d) (\<lambda>x. Inr (d, x))) (axis_of (sn_days sn)) = Inr decided"
    and r: "r = result_of (frames_of (sn_days sn) splits (nat w) tol) (nat w) (sn_zero_volume sn) decided"
    by (rule derive_daily_cases) blast
  have "strip b \<in> set (map strip (dr_bars r))" using assms(3) by simp
  then have "strip b \<in> set (map strip (bars_of decided))" unfolding r result_bars_strip .
  then obtain b' where b': "b' \<in> set (bars_of decided)" and s: "strip b = strip b'" by auto
  from b' obtain d x where x: "(d, x) \<in> set decided" "outcome_bar x = Some b'" by (auto simp: bars_of_set)
  note day = decided_fst(2) [OF dec x(1)]
  have "cb_date b' = d" using decide_day_sourced [OF screen_days [OF sn] day x(2)] ..
  with decided_conforms [OF sn assms(2) day x(2)]
  have "conforms rows dates symbol (cb_date (strip b'), cb_vendor (strip b'), cb_kind (strip b')) = Inr True" by simp
  then show ?thesis unfolding s [symmetric] by simp
qed

lemma bars_dates_distinct:
  assumes "derive_daily obs rows splits symbol w tol = Inr r"
  shows "distinct (map cb_date (dr_bars r))"
proof -
  from assms(1) obtain sn decided where sn: "screen obs splits = Inr sn"
    and dec: "emap (\<lambda>d. ebind (decide_day (sn_days sn) (frames_of (sn_days sn) splits (nat w) tol) rows symbol
        (alpaca_era_start rows) (nat w) tol d) (\<lambda>x. Inr (d, x))) (axis_of (sn_days sn)) = Inr decided"
    and r: "r = result_of (frames_of (sn_days sn) splits (nat w) tol) (nat w) (sn_zero_volume sn) decided"
    by (rule derive_daily_cases) blast
  have "map cb_date (dr_bars r) = days_where (\<lambda>x. outcome_bar x \<noteq> None) decided"
    unfolding r by (rule result_dates [OF sn dec])
  moreover have "distinct (map fst decided)" unfolding decided_fst(1) [OF dec] axis_of_def by simp
  ultimately show ?thesis by (simp add: days_where_def distinct_map_filter)
qed

lemma update_fresh: "k \<notin> set (map fst xs) \<Longrightarrow> AList.update k v xs = xs @ [(k, v)]"
  by (induction xs) auto

lemma dict_of_self: "distinct (map fst xs) \<Longrightarrow> dict_of xs = xs"
proof (induction xs rule: rev_induct)
  case (snoc x xs)
  obtain k v where "x = (k, v)" by (cases x)
  with snoc show ?case by (simp add: dict_of_snoc update_fresh)
qed simp

lemma classify_self:
  assumes "distinct (map fst xs)" "\<forall>(k, v) \<in> set xs. \<not> has_nan v"
  shows "classify xs xs (Some (map fst xs)) =
    Inr \<lparr>wd_new = [], wd_changed = [], wd_unchanged = length xs, wd_removed = []\<rparr>"
proof -
  have "classify_loop xs ys delta = Inr (delta\<lparr>wd_unchanged := wd_unchanged delta + length ys\<rparr>)"
    if "set ys \<subseteq> set xs" for ys delta
    using that
  proof (induction ys arbitrary: delta)
    case (Cons y ys)
    obtain k v where y: "y = (k, v)" by (cases y)
    with Cons.prems assms have "map_of xs k = Some v" "values_eq v v" by (auto intro!: values_eq_refl)
    with Cons y show ?case by simp
  qed simp
  moreover have "removed_rows xs xs (Some (map fst xs)) = []" by (auto simp: removed_rows_def filter_empty_conv)
  ultimately show ?thesis by (simp add: classify_def)
qed

lemma recompute_self:
  "distinct (map fst xs) \<Longrightarrow> \<forall>(k, v) \<in> set xs. \<not> has_nan v \<Longrightarrow> recompute_findings xs xs = Inr []"
  by (simp add: recompute_findings_def classify_self)

lemma derived_no_nan: "\<not> has_nan (derived_values b)"
  by (simp add: has_nan_def prices_def derived_values_def)

lemma conformance_clean:
  assumes "\<And>row. row \<in> set rs \<Longrightarrow> conforms rows dates symbol row = Inr True"
  shows "policy_conformance rs rows dates symbol = Inr []"
proof -
  have "emap (conforms rows dates symbol) rs = Inr (replicate (length rs) True)"
    using assms by (induction rs) auto
  moreover have "filter (\<lambda>(row, ok). \<not> ok) (zip rs (replicate (length rs) True)) = []"
    by (auto simp: filter_empty_conv set_zip)
  ultimately show ?thesis by (simp add: policy_conformance_def)
qed

lemma fresh_digests:
  "stale_digest_months v recomputed (map (\<lambda>(m, d). (m, d, v)) (dict_of recomputed)) = []"
proof -
  have "map_of (map (\<lambda>(m, d). (m, d, v)) (dict_of recomputed)) m = Some (d, v)" if "(m, d) \<in> set (dict_of recomputed)" for m d
    using that by (simp add: map_of_map_key)
  then show ?thesis by (auto simp: stale_digest_months_def filter_empty_conv)
qed

lemma judged_verdicts:
  assumes "judge_name_1d digest inputs sessions last_session run_start th era_start = Inr report"
  obtains dates contradicted r drifted where
    "servable_primary_dates (ni_observations inputs) (ni_splits inputs) = Inr dates"
    "policy_conformance (map (\<lambda>(d, v). (d, bv_vendor v, bv_kind v)) (stored_values (ni_stored inputs)))
       (ni_policy_rows inputs) dates (ni_symbol inputs) = Inr contradicted"
    "derive_daily (ni_observations inputs) (ni_policy_rows inputs) (ni_splits inputs) (ni_symbol inputs)
       (th_basis_window_sessions th) (th_basis_tolerance_bp th) = Inr r"
    "recompute_findings (dict_of (map (\<lambda>b. (cb_date b, derived_values b)) (dr_bars r)))
       (stored_values (ni_stored inputs)) = Inr drifted"
    "\<And>v. v \<in> set (nr_verdicts report) \<Longrightarrow>
       (ve_check v = ''policy_conformance'' \<longrightarrow> ve_passed v = (contradicted = [])) \<and>
       (ve_check v = ''canonical_recompute'' \<longrightarrow> ve_passed v = (drifted = [])) \<and>
       (ve_check v = ''digest_fresh'' \<longrightarrow> ve_passed v = (stale_digest_months RULE_VERSION
          (month_digests digest (ni_stored inputs) (ni_flags inputs)) (ni_current_digests inputs) = []))"
proof -
  obtain coverage proven where cov: "judge_coverage inputs (stored_values (ni_stored inputs)) sessions last_session
      era_start (th_session_coverage_min th) = (coverage, proven)"
    by (cases "judge_coverage inputs (stored_values (ni_stored inputs)) sessions last_session era_start
        (th_session_coverage_min th)")
  from assms show ?thesis
    unfolding judge_name_1d_def Let_def cov prod.case ebind_eq_Inr
    by (elim exE conjE) (rule that, assumption+,
        auto simp only: sum.inject name_report.simps list.set insert_iff empty_iff zero_verdict_def verdict_of_def
          freshness_1d_def Let_def integrity_verdict.simps list.inject char.inject simp_thms list.distinct)
qed


definition ex_stored_bar :: "canonical_bar \<Rightarrow> stored_bar" where
  "ex_stored_bar b =
     \<lparr>sb_timestamp = midnight_of (cb_date b), sb_open = Some (Fin (cb_open b)), sb_high = Some (Fin (cb_high b)),
      sb_low = Some (Fin (cb_low b)), sb_close = Some (Fin (cb_close b)), sb_volume = cb_volume b,
      sb_vendor = cb_vendor b, sb_kind = cb_kind b\<rparr>"

definition ex_digest :: "digest_row list \<Rightarrow> string" where
  "ex_digest rows = (if rows = [] then ''0'' else ''1'')"

definition ex_inputs :: name_inputs where
  "ex_inputs =
     \<lparr>ni_symbol = ''SPY'', ni_observations = ex_daily_obs, ni_policy_rows = ex_daily_policy, ni_splits = [],
      ni_stored = map ex_stored_bar (dr_bars ex_daily), ni_flags = [],
      ni_current_digests = map (\<lambda>(month, d). (month, d, RULE_VERSION))
        (dict_of (month_digests ex_digest (map ex_stored_bar (dr_bars ex_daily)) [])),
      ni_lineage_missing = [], ni_empty_spans = [], ni_seam_findings = 0, ni_latest_load_at = None,
      ni_listing_end = None\<rparr>"

definition ex_thresholds :: thresholds where
  "ex_thresholds =
     \<lparr>th_session_coverage_min = 1, th_vendor_run_min_sessions = 2, th_report_max_age_hours = 24,
      th_basis_window_sessions = 2, th_basis_tolerance_bp = 50, th_freshness_max_lag = 0,
      th_split_continuity_rel_tol = 1 / 10\<rparr>"

definition ex_report :: name_report where
  "ex_report = projr (judge_name_1d ex_digest ex_inputs [1, 2, 3, 4] 4 0 ex_thresholds 0)"

lemma no_splits_continuous: "split_discontinuities stored [] rel_tol quarantined boundaries = Inr []"
  by (simp add: split_discontinuities_def Let_def)

lemma ex_parts:
  "servable_primary_dates ex_daily_obs [] = Inr [(''tradier'', []), (''alpaca'', [2, 4])]"
  "policy_conformance (map (\<lambda>(d, v). (d, bv_vendor v, bv_kind v)) (stored_values (map ex_stored_bar (dr_bars ex_daily))))
     ex_daily_policy [(''tradier'', []), (''alpaca'', [2, 4])] ''SPY'' = Inr []"
  "recompute_findings (dict_of (map (\<lambda>b. (cb_date b, derived_values b)) (dr_bars ex_daily)))
     (stored_values (map ex_stored_bar (dr_bars ex_daily))) = Inr []"
  "alpaca_basis_runs ex_daily_obs [] ex_daily_policy ''SPY'' ARBITRATED_THROUGH 50 2 = Inr []"
  by code_simp+

lemma ex_judge:
  "\<exists>report. judge_name_1d ex_digest ex_inputs [1, 2, 3, 4] 4 0 ex_thresholds 0 = Inr report \<and>
     nr_verdicts report ! 3 = zero_verdict ''SPY'' ''canonical_recompute'' ([] :: day list) \<and> length (nr_verdicts report) = 10"
proof -
  obtain coverage proven where cov: "judge_coverage ex_inputs (stored_values (ni_stored ex_inputs)) [1, 2, 3, 4] 4 0
      (th_session_coverage_min ex_thresholds) = (coverage, proven)"
    by (cases "judge_coverage ex_inputs (stored_values (ni_stored ex_inputs)) [1, 2, 3, 4] 4 0
      (th_session_coverage_min ex_thresholds)")
  have inputs: "ni_observations ex_inputs = ex_daily_obs" "ni_policy_rows ex_inputs = ex_daily_policy"
    "ni_splits ex_inputs = []" "ni_symbol ex_inputs = ''SPY''" "ni_stored ex_inputs = map ex_stored_bar (dr_bars ex_daily)"
    "th_basis_window_sessions ex_thresholds = 2" "th_basis_tolerance_bp ex_thresholds = 50"
    "th_vendor_run_min_sessions ex_thresholds = 2"
    by (simp_all add: ex_inputs_def ex_thresholds_def)
  show ?thesis
    unfolding judge_name_1d_def Let_def cov prod.case
    unfolding inputs ex_parts ex_daily ebind_Inr no_splits_continuous
    by simp
qed

lemma ex_report: "judge_name_1d ex_digest ex_inputs [1, 2, 3, 4] 4 0 ex_thresholds 0 = Inr ex_report"
  using ex_judge unfolding ex_report_def by (elim exE conjE) (simp only: sum.sel)

lemma ex_verdict: "nr_verdicts ex_report ! 3 \<in> set (nr_verdicts ex_report)"
    "ve_check (nr_verdicts ex_report ! 3) = ''canonical_recompute''"
proof -
  from ex_judge ex_report have "nr_verdicts ex_report ! 3 = zero_verdict ''SPY'' ''canonical_recompute'' ([] :: day list)"
    "length (nr_verdicts ex_report) = 10" by simp_all
  then show "nr_verdicts ex_report ! 3 \<in> set (nr_verdicts ex_report)"
    "ve_check (nr_verdicts ex_report ! 3) = ''canonical_recompute''"
    using nth_mem [of 3 "nr_verdicts ex_report"] by (simp_all add: zero_verdict_def verdict_of_def)
qed


section \<open>The proven start\<close>

text \<open>The share of a span's sessions that were answered, and the earliest answered session from which the share to
  the end of the span reaches the minimum.\<close>

definition answered_share :: "day list \<Rightarrow> day list \<Rightarrow> real" where
  "answered_share answered ss = real (length (filter (\<lambda>s. s \<in> set answered) ss)) / real (length ss)"

fun earliest_proven :: "day list \<Rightarrow> real \<Rightarrow> day list \<Rightarrow> day option" where
  "earliest_proven answered m [] = None"
| "earliest_proven answered m (s # ss) =
     (if s \<in> set answered \<and> m \<le> answered_share answered (s # ss) then Some s else earliest_proven answered m ss)"

lemma proven_scan_snoc:
  "proven_scan answered m (ss @ [s]) seen missing start =
     (let before = proven_scan answered m ss seen missing start;
          n = length (filter (\<lambda>x. x \<notin> set answered) ss)
      in if s \<in> set answered \<and> m \<le> (real (seen + length ss + 1) - real (missing + n)) / real (seen + length ss + 1)
         then Some s else before)"
  by (induction answered m ss seen missing start rule: proven_scan.induct) (auto simp: Let_def)

lemma proven_start_earliest: "proven_start sessions answered m = earliest_proven answered m sessions"
proof (induction sessions)
  case (Cons s ss)
  have split: "length (filter (\<lambda>x. x \<in> set answered) ss) + length (filter (\<lambda>x. x \<notin> set answered) ss) = length ss"
    by (rule sum_length_filter_compl)
  have n: "length (filter (\<lambda>x. x \<notin> set answered) (rev ss)) = length (filter (\<lambda>x. x \<notin> set answered) ss)"
    by (simp add: rev_filter [symmetric])
  show ?case
  proof (cases "s \<in> set answered")
    case True
    have "(real (0 + length (rev ss) + 1) - real (0 + length (filter (\<lambda>x. x \<notin> set answered) (rev ss)))) /
        real (0 + length (rev ss) + 1) = answered_share answered (s # ss)"
      unfolding n answered_share_def using True split by simp
    with True Cons show ?thesis by (simp only: proven_start_def rev.simps proven_scan_snoc Let_def earliest_proven.simps)
  next
    case False
    with Cons show ?thesis by (simp add: proven_start_def proven_scan_snoc)
  qed
qed (simp add: proven_start_def)

end
