(* ===== verification/Verdict_Gate.thy ===== *)
theory Verdict_Gate
  imports Prelude
begin

text \<open>
  The verdict gate: \<open>src/intelligence/bars/verdict_gate.py\<close>.  The statements it sends are functions on the tables
  \<open>integrity_monitor\<close> and \<open>ohlcv_load\<close>; \<open>ready_predicate\<close> is the meaning of the fragment \<open>ready_predicate_sql\<close> renders.
  A reason is a constructor with the instants its text formats.
\<close>

section \<open>Required checks\<close>

definition MONITOR_TYPE :: string where "MONITOR_TYPE = ''bar_integrity''"
definition REPORT_MAX_AGE_APR_KEY :: string where
  "REPORT_MAX_AGE_APR_KEY = ''threshold.bar_integrity.report_max_age_hours''"

definition REQUIRED_CHECKS :: "(string \<times> string list) list" where
  "REQUIRED_CHECKS =
     [(''1d'', [''session_coverage'', ''policy_conformance'', ''lineage_missing'', ''canonical_recompute'',
                ''digest_fresh'', ''unexplained_seam'', ''alpaca_basis_run'', ''split_continuity'']),
      (''5m'', [''slot_coverage'', ''digest_fresh'', ''coverage_cache'']),
      (''15m'', [''digest_fresh'', ''grid_parity'']),
      (''1h'', [''digest_fresh'', ''grid_parity''])]"

definition REBUILD_ONLY_CHECKS :: "(string \<times> string list) list" where
  "REBUILD_ONLY_CHECKS =
     [(''1d'', [''freshness_1d'']), (''15m'', [''stray_vendor_rows'']), (''1h'', [''stray_vendor_rows''])]"

definition all_check_names :: "string list" where
  "all_check_names = concat (map snd (REQUIRED_CHECKS @ REBUILD_ONLY_CHECKS))"

definition required_tf :: "string list \<Rightarrow> string \<Rightarrow> err + string \<times> string list" where
  "required_tf extra tf =
     (case map_of REQUIRED_CHECKS tf of
        None \<Rightarrow> Inl ValueError
      | Some checks \<Rightarrow>
          Inr (tf, checks @ filter (\<lambda>c. c \<in> set extra) (case map_of REBUILD_ONLY_CHECKS tf of None \<Rightarrow> [] | Some cs \<Rightarrow> cs)))"

definition required_for :: "string list \<Rightarrow> string list \<Rightarrow> err + (string \<times> string list) list" where
  "required_for timeframes extra =
     (if \<not> set extra \<subseteq> set (concat (map snd REBUILD_ONLY_CHECKS)) then Inl ValueError
      else ebind (emap (required_tf extra) timeframes) (\<lambda>entries. Inr (dict_of entries)))"

section \<open>The gate\<close>

record verdict_row =
  vr_symbol :: string
  vr_timeframe :: string
  vr_check :: string
  vr_passed :: bool
  vr_at :: stamp

text \<open>\<open>s.rpartition(c)\<close> without its middle part.\<close>

definition rpartition :: "char \<Rightarrow> string \<Rightarrow> string \<times> string" where
  "rpartition c s =
     (let tail = rev (takeWhile (\<lambda>x. x \<noteq> c) (rev s))
      in if c \<in> set s then (take (length s - length tail - 1) s, tail) else ([], s))"

definition verdict_row_from_record :: "string \<Rightarrow> string \<Rightarrow> bool \<Rightarrow> stamp \<Rightarrow> verdict_row" where
  "verdict_row_from_record subject check passed t =
     (let (symbol, timeframe) = rpartition (CHR ''|'') subject
      in \<lparr>vr_symbol = symbol, vr_timeframe = timeframe, vr_check = check, vr_passed = passed, vr_at = t\<rparr>)"

type_synonym verdict_key = "string \<times> string \<times> string"

definition key_of :: "verdict_row \<Rightarrow> verdict_key" where
  "key_of row = (vr_symbol row, vr_timeframe row, vr_check row)"

definition keep_latest :: "(verdict_key \<times> verdict_row) list \<Rightarrow> verdict_row \<Rightarrow> (verdict_key \<times> verdict_row) list" where
  "keep_latest latest row =
     (case map_of latest (key_of row) of
        None \<Rightarrow> AList.update (key_of row) row latest
      | Some held \<Rightarrow>
          if vr_at held < vr_at row \<or> (vr_at row = vr_at held \<and> \<not> vr_passed row)
          then AList.update (key_of row) row latest else latest)"

definition latest_rows :: "string list \<Rightarrow> verdict_row list \<Rightarrow> (verdict_key \<times> verdict_row) list" where
  "latest_rows wanted rows = foldl (\<lambda>latest row. if vr_symbol row \<notin> set wanted then latest else keep_latest latest row) [] rows"

datatype reason =
    Missing
  | Failed
  | StaleAge stamp stamp
  | StaleLoad stamp

definition reason_of :: "verdict_row option \<Rightarrow> stamp \<Rightarrow> stamp \<Rightarrow> stamp option \<Rightarrow> reason option" where
  "reason_of row now max_age loaded =
     (case row of
        None \<Rightarrow> Some Missing
      | Some r \<Rightarrow>
          if \<not> vr_passed r then Some Failed
          else if max_age < now - vr_at r then Some (StaleAge (now - vr_at r) max_age)
          else (case loaded of
                  None \<Rightarrow> None
                | Some l \<Rightarrow> if vr_at r < l then Some (StaleLoad l) else None))"

definition symbol_reasons ::
  "(verdict_key \<times> verdict_row) list \<Rightarrow> (string \<times> string list) list \<Rightarrow> stamp \<Rightarrow> stamp \<Rightarrow> ((string \<times> string) \<times> stamp) list
   \<Rightarrow> string \<Rightarrow> (string \<times> string \<times> reason) list" where
  "symbol_reasons latest required now max_age latest_load symbol =
     concat (map (\<lambda>(tf, checks).
       concat (map (\<lambda>check.
           case reason_of (map_of latest (symbol, tf, check)) now max_age (map_of latest_load (symbol, tf)) of
             None \<Rightarrow> [] | Some r \<Rightarrow> [(tf, check, r)])
         (sorted_set checks))) required)"

definition gate_symbols ::
  "verdict_row list \<Rightarrow> string list \<Rightarrow> string list \<Rightarrow> stamp \<Rightarrow> stamp \<Rightarrow> ((string \<times> string) \<times> stamp) list \<Rightarrow> string list
   \<Rightarrow> err + (string \<times> (string \<times> string \<times> reason) list) list" where
  "gate_symbols rows symbols timeframes now max_age latest_load extra =
     ebind (required_for timeframes extra) (\<lambda>required.
       let latest = latest_rows symbols rows
       in Inr (filter (\<lambda>(symbol, reasons). reasons \<noteq> [])
            (map (\<lambda>symbol. (symbol, symbol_reasons latest required now max_age latest_load symbol)) (sorted_set symbols))))"

section \<open>The tables\<close>

record monitor_row =
  im_type :: string
  im_subject :: string
  im_metric :: string
  im_passed :: bool
  im_at :: stamp

record load_row =
  ld_symbol :: string
  ld_timeframe :: string
  ld_at :: stamp
  ld_new :: int
  ld_changed :: int
  ld_removed :: "int option"

definition changing :: "load_row \<Rightarrow> bool" where
  "changing l \<longleftrightarrow> 0 < ld_new l + ld_changed l + (case ld_removed l of None \<Rightarrow> 0 | Some r \<Rightarrow> r)"

text \<open>The order of both statements: the latest first, and a failing row before a passing one of the same instant.\<close>

definition newest :: "monitor_row list \<Rightarrow> monitor_row" where
  "newest = arg_min_list (\<lambda>m. (- im_at m, im_passed m))"

definition latest_verdicts :: "monitor_row list \<Rightarrow> string list \<Rightarrow> string list \<Rightarrow> (string \<times> string \<times> bool \<times> stamp) list" where
  "latest_verdicts monitor subjects checks =
     (let rows = filter (\<lambda>m. im_type m = MONITOR_TYPE \<and> im_subject m \<in> set subjects \<and> im_metric m \<in> set checks) monitor
      in map (\<lambda>(subject, check).
           let m = newest (filter (\<lambda>m. im_subject m = subject \<and> im_metric m = check) rows)
           in (subject, check, im_passed m, im_at m))
         (sorted_set (map (\<lambda>m. (im_subject m, im_metric m)) rows)))"

definition load_time :: "load_row list \<Rightarrow> string \<Rightarrow> string \<Rightarrow> stamp option" where
  "load_time loads symbol tf =
     (let ts = map ld_at (filter (\<lambda>l. ld_symbol l = symbol \<and> ld_timeframe l = tf \<and> changing l) loads)
      in if ts = [] then None else Some (Max (set ts)))"

definition latest_loads :: "load_row list \<Rightarrow> string list \<Rightarrow> string list \<Rightarrow> ((string \<times> string) \<times> stamp) list" where
  "latest_loads loads symbols timeframes =
     concat (map (\<lambda>(symbol, tf). case load_time loads symbol tf of None \<Rightarrow> [] | Some t \<Rightarrow> [((symbol, tf), t)])
       (remdups (List.product symbols timeframes)))"

definition max_age_of :: "real \<Rightarrow> stamp" where
  "max_age_of hours = py_round (hours * 3600000000)"

definition load_report_max_age_hours :: "(string \<rightharpoonup> real) \<Rightarrow> err + real" where
  "load_report_max_age_hours config =
     (case config REPORT_MAX_AGE_APR_KEY of
        None \<Rightarrow> Inl RuntimeError
      | Some hours \<Rightarrow> if hours \<le> 0 then Inl RuntimeError else Inr hours)"

record verdict_scan =
  vs_failures :: "(string \<times> (string \<times> string \<times> reason) list) list"
  vs_n_symbols :: nat
  vs_first :: "stamp option"
  vs_last :: "stamp option"

definition subject_of :: "string \<Rightarrow> string \<Rightarrow> string" where
  "subject_of symbol tf = symbol @ ''|'' @ tf"

definition fetch_verdict_scan ::
  "monitor_row list \<Rightarrow> load_row list \<Rightarrow> string list \<Rightarrow> string list \<Rightarrow> real \<Rightarrow> string list \<Rightarrow> stamp \<Rightarrow> err + verdict_scan" where
  "fetch_verdict_scan monitor loads symbols timeframes max_age_hours extra now =
     (let subjects = concat (map (\<lambda>symbol. map (subject_of symbol) timeframes) symbols);
          rows = map (\<lambda>(subject, check, passed, t). verdict_row_from_record subject check passed t)
            (latest_verdicts monitor subjects all_check_names);
          times = map vr_at rows
      in ebind (gate_symbols rows symbols timeframes now (max_age_of max_age_hours)
                  (latest_loads loads symbols timeframes) extra) (\<lambda>failures.
         Inr \<lparr>vs_failures = failures, vs_n_symbols = length symbols,
              vs_first = (if times = [] then None else Some (Min (set times))),
              vs_last = (if times = [] then None else Some (Max (set times)))\<rparr>))"

section \<open>The promotion predicate\<close>

text \<open>The inner subquery of the fragment, for one required pair of an instrument.\<close>

definition pair_ready ::
  "monitor_row list \<Rightarrow> load_row list \<Rightarrow> stamp \<Rightarrow> real \<Rightarrow> string \<Rightarrow> string \<times> string \<Rightarrow> bool" where
  "pair_ready monitor loads now max_age_hours symbol = (\<lambda>(tf, check).
     let rows = filter (\<lambda>m. im_type m = MONITOR_TYPE \<and> im_subject m = subject_of symbol tf \<and> im_metric m = check) monitor;
         latest = newest rows
     in rows \<noteq> [] \<and> im_passed latest \<and> now - max_age_of max_age_hours \<le> im_at latest \<and>
        (case load_time loads symbol tf of None \<Rightarrow> True | Some t \<Rightarrow> t \<le> im_at latest))"

definition required_pairs :: "string list \<Rightarrow> (string \<times> string) list" where
  "required_pairs selected = concat (map (\<lambda>tf. map (\<lambda>check. (tf, check)) (the (map_of REQUIRED_CHECKS tf))) selected)"

definition ready_predicate ::
  "string list option \<Rightarrow> string list \<Rightarrow> monitor_row list \<Rightarrow> load_row list \<Rightarrow> stamp \<Rightarrow> real \<Rightarrow> string \<Rightarrow> err + bool" where
  "ready_predicate timeframes bound monitor loads now max_age_hours symbol =
     (let selected = (case timeframes of None \<Rightarrow> map fst REQUIRED_CHECKS | Some tfs \<Rightarrow> tfs)
      in if \<not> set selected \<subseteq> set (map fst REQUIRED_CHECKS) then Inl ValueError
         else Inr (list_all (\<lambda>(tf, check). (timeframes = None \<and> tf \<notin> set bound) \<or>
                     pair_ready monitor loads now max_age_hours symbol (tf, check)) (required_pairs selected) \<and>
                   (timeframes = None \<longrightarrow>
                      length (remdups (filter (\<lambda>tf. tf \<in> set bound) selected)) = length bound)))"

end
