(* ===== verification/Verdict_Gate_Correct.thy ===== *)
theory Verdict_Gate_Correct
  imports Verdict_Gate
begin

text \<open>
  Correctness of the verdict gate: which row of a check the gate reads, when a symbol fails, and that the gate run by
  the promotion and rebuild scripts and the promotion predicate sent to the database decide alike.
\<close>

section \<open>Subjects\<close>

lemma rpartition_subject:
  assumes "CHR ''|'' \<notin> set tf"
  shows "rpartition (CHR ''|'') (subject_of symbol tf) = (symbol, tf)"
proof -
  have "takeWhile (\<lambda>x. x \<noteq> CHR ''|'') (rev (subject_of symbol tf)) = rev tf"
  proof -
    have "rev (subject_of symbol tf) = rev tf @ (CHR ''|'' # rev symbol)" by (simp add: subject_of_def)
    moreover have "takeWhile (\<lambda>x. x \<noteq> CHR ''|'') (rev tf @ (CHR ''|'' # rev symbol)) = rev tf @ takeWhile (\<lambda>x. x \<noteq> CHR ''|'') (CHR ''|'' # rev symbol)"
      using assms by (intro takeWhile_append2) auto
    ultimately show ?thesis by simp
  qed
  then show ?thesis by (simp add: rpartition_def subject_of_def)
qed

lemma required_no_bar: "tf \<in> set (map fst REQUIRED_CHECKS) \<Longrightarrow> CHR ''|'' \<notin> set tf"
  by (auto simp: REQUIRED_CHECKS_def)

section \<open>The row the gate reads\<close>

definition rank_row :: "verdict_row \<Rightarrow> stamp \<times> bool" where
  "rank_row r = (vr_at r, \<not> vr_passed r)"

lemma latest_rows_snoc:
  "latest_rows wanted (rows @ [r]) =
     (if vr_symbol r \<notin> set wanted then latest_rows wanted rows else keep_latest (latest_rows wanted rows) r)"
  by (simp add: latest_rows_def)

lemma gate_latest_lookup:
  "map_of (keep_latest d r) k =
     (if k = key_of r then
        (case map_of d k of
           None \<Rightarrow> Some r
         | Some held \<Rightarrow> if vr_at held < vr_at r \<or> (vr_at r = vr_at held \<and> \<not> vr_passed r) then Some r else Some held)
      else map_of d k)"
  by (auto simp: keep_latest_def update_conv' split: option.split)

lemma rank_row_le: "\<not> (vr_at h < vr_at r \<or> (vr_at r = vr_at h \<and> \<not> vr_passed r)) \<Longrightarrow> rank_row r \<le> rank_row h"
  by (auto simp: rank_row_def less_eq_prod_def)

lemma rank_row_ge: "vr_at h < vr_at r \<or> (vr_at r = vr_at h \<and> \<not> vr_passed r) \<Longrightarrow> rank_row h \<le> rank_row r"
  by (auto simp: rank_row_def less_eq_prod_def)

definition of_key :: "string list \<Rightarrow> verdict_key \<Rightarrow> verdict_row list \<Rightarrow> verdict_row set" where
  "of_key wanted k rows = {r \<in> set rows. key_of r = k \<and> vr_symbol r \<in> set wanted}"

lemma of_key_snoc:
  "of_key wanted k (rows @ [r]) =
     (if key_of r = k \<and> vr_symbol r \<in> set wanted then insert r (of_key wanted k rows) else of_key wanted k rows)"
  by (auto simp: of_key_def)

lemma latest_rows_max:
  "case map_of (latest_rows wanted rows) k of
     None \<Rightarrow> of_key wanted k rows = {}
   | Some r \<Rightarrow> r \<in> of_key wanted k rows \<and> (\<forall>r' \<in> of_key wanted k rows. rank_row r' \<le> rank_row r)"
proof (induction rows rule: rev_induct)
  case Nil
  show ?case by (simp add: latest_rows_def of_key_def)
next
  case (snoc r rows)
  show ?case
  proof (cases "key_of r = k \<and> vr_symbol r \<in> set wanted")
    case False
    then have "map_of (latest_rows wanted (rows @ [r])) k = map_of (latest_rows wanted rows) k"
      by (auto simp: latest_rows_snoc gate_latest_lookup)
    moreover have "of_key wanted k (rows @ [r]) = of_key wanted k rows" using False by (simp only: of_key_snoc if_False)
    ultimately show ?thesis using snoc by (simp only:)
  next
    case True
    show ?thesis
    proof (cases "map_of (latest_rows wanted rows) k")
      case None
      with True snoc show ?thesis by (simp add: latest_rows_snoc gate_latest_lookup of_key_snoc)
    next
      case (Some h)
      with snoc have h: "h \<in> of_key wanted k rows" "\<forall>r' \<in> of_key wanted k rows. rank_row r' \<le> rank_row h" by auto
      show ?thesis
      proof (cases "vr_at h < vr_at r \<or> (vr_at r = vr_at h \<and> \<not> vr_passed r)")
        case True': True
        from rank_row_ge [OF True'] h(2) have "\<forall>r' \<in> of_key wanted k rows. rank_row r' \<le> rank_row r" by (meson order_trans)
        with True True' Some show ?thesis by (auto simp: latest_rows_snoc gate_latest_lookup of_key_snoc)
      next
        case False
        from False True Some have "map_of (latest_rows wanted (rows @ [r])) k = Some h"
          by (simp only: latest_rows_snoc gate_latest_lookup if_True if_False option.case simp_thms)
        with rank_row_le [OF False] h True show ?thesis by (simp add: of_key_snoc)
      qed
    qed
  qed
qed

section \<open>When a symbol fails\<close>

definition row_ready :: "verdict_row \<Rightarrow> stamp \<Rightarrow> stamp \<Rightarrow> stamp option \<Rightarrow> bool" where
  "row_ready r now max_age loaded \<longleftrightarrow>
     vr_passed r \<and> now - max_age \<le> vr_at r \<and> (case loaded of None \<Rightarrow> True | Some t \<Rightarrow> t \<le> vr_at r)"

lemma reason_None:
  "reason_of row now max_age loaded = None \<longleftrightarrow> (\<exists>r. row = Some r \<and> row_ready r now max_age loaded)"
  by (auto simp: reason_of_def row_ready_def split: option.splits if_splits)

lemma required_for_lookup:
  assumes "required_for timeframes extra = Inr required"
  shows "(tf, checks) \<in> set required \<longleftrightarrow> tf \<in> set timeframes \<and> required_tf extra tf = Inr (tf, checks)"
proof -
  from assms obtain entries where e: "emap (required_tf extra) timeframes = Inr entries" and r: "required = dict_of entries"
    by (auto simp: required_for_def ebind_eq_Inr split: if_splits)
  have fst: "fst p = tf" if "required_tf extra tf = Inr p" for tf p
    using that by (auto simp: required_tf_def split: option.splits)
  have entry: "p \<in> set entries \<longleftrightarrow> (\<exists>tf \<in> set timeframes. required_tf extra tf = Inr p)" for p
    using e by (induction timeframes arbitrary: entries) (auto simp: ebind_eq_Inr)
  have "(tf, checks) \<in> set required \<longleftrightarrow> map_of required tf = Some checks" unfolding r by simp
  also have "\<dots> \<longleftrightarrow> (tf, checks) \<in> set entries"
  proof
    assume "map_of required tf = Some checks"
    then show "(tf, checks) \<in> set entries" unfolding r dict_of_lookup by (metis map_of_SomeD set_rev)
  next
    assume a: "(tf, checks) \<in> set entries"
    then have "tf \<in> fst ` set (rev entries)" by force
    then obtain c where c: "map_of (rev entries) tf = Some c" by (metis map_of_eq_None_iff not_None_eq)
    then have "(tf, c) \<in> set entries" by (metis map_of_SomeD set_rev)
    with a entry fst have "c = checks" by (metis Inr_inject fst_conv snd_conv)
    with c show "map_of required tf = Some checks" unfolding r dict_of_lookup by simp
  qed
  also have "\<dots> \<longleftrightarrow> tf \<in> set timeframes \<and> required_tf extra tf = Inr (tf, checks)"
    using entry fst by (metis fst_conv)
  finally show ?thesis .
qed

lemma symbol_reasons_set:
  "(tf, check, reason) \<in> set (symbol_reasons latest required now max_age loads symbol) \<longleftrightarrow>
     (\<exists>checks. (tf, checks) \<in> set required \<and> check \<in> set checks \<and>
        reason_of (map_of latest (symbol, tf, check)) now max_age (map_of loads (symbol, tf)) = Some reason)"
proof -
  have "(tf, check, reason) \<in> set (symbol_reasons latest required now max_age loads symbol) \<longleftrightarrow>
      (\<exists>p \<in> set required. fst p = tf \<and> check \<in> set (snd p) \<and>
        reason_of (map_of latest (symbol, tf, check)) now max_age (map_of loads (symbol, tf)) = Some reason)"
    by (auto simp: symbol_reasons_def split_beta split: option.split)
  then show ?thesis by force
qed

lemma gate_lookup:
  assumes "gate_symbols rows symbols timeframes now max_age loads extra = Inr failures"
    and "required_for timeframes extra = Inr required"
  shows "map_of failures symbol =
    (if symbol \<in> set symbols \<and> symbol_reasons (latest_rows symbols rows) required now max_age loads symbol \<noteq> []
     then Some (symbol_reasons (latest_rows symbols rows) required now max_age loads symbol) else None)"
proof -
  let ?R = "symbol_reasons (latest_rows symbols rows) required now max_age loads"
  have f: "failures = filter (\<lambda>(symbol, reasons). reasons \<noteq> []) (map (\<lambda>s. (s, ?R s)) (sorted_set symbols))"
    using assms by (simp add: gate_symbols_def Let_def)
  have "map_of (filter (\<lambda>(symbol, reasons). reasons \<noteq> []) (map (\<lambda>s. (s, ?R s)) ss)) symbol =
      (if symbol \<in> set ss \<and> ?R symbol \<noteq> [] then Some (?R symbol) else None)" for ss
    by (induction ss) auto
  then show ?thesis unfolding f by simp
qed

text \<open>A key passes when the greatest of its rows is ready; rows of one instant and outcome are alike.\<close>

definition key_ready :: "verdict_row set \<Rightarrow> stamp \<Rightarrow> stamp \<Rightarrow> stamp option \<Rightarrow> bool" where
  "key_ready rs now max_age loaded \<longleftrightarrow> (\<exists>r \<in> rs. (\<forall>r' \<in> rs. rank_row r' \<le> rank_row r) \<and> row_ready r now max_age loaded)"

lemma row_ready_rank: "rank_row r = rank_row r' \<Longrightarrow> row_ready r now max_age loaded = row_ready r' now max_age loaded"
  by (simp add: rank_row_def row_ready_def cong: option.case_cong)

lemma latest_ready:
  "(\<exists>r. map_of (latest_rows wanted rows) k = Some r \<and> row_ready r now max_age loaded) \<longleftrightarrow>
     key_ready (of_key wanted k rows) now max_age loaded"
proof (cases "map_of (latest_rows wanted rows) k")
  case None
  then have "of_key wanted k rows = {}" using latest_rows_max [of wanted k rows] by simp
  with None show ?thesis by (simp add: key_ready_def)
next
  case (Some r)
  then have r: "r \<in> of_key wanted k rows" "\<forall>r' \<in> of_key wanted k rows. rank_row r' \<le> rank_row r"
    using latest_rows_max [of wanted k rows] by simp_all
  have "row_ready r now max_age loaded" if "q \<in> of_key wanted k rows" "\<forall>r' \<in> of_key wanted k rows. rank_row r' \<le> rank_row q"
    "row_ready q now max_age loaded" for q
    using row_ready_rank [of r q] that r by (metis order_antisym)
  with r Some show ?thesis by (auto simp: key_ready_def)
qed

lemma symbol_passes:
  assumes "gate_symbols rows symbols timeframes now max_age loads extra = Inr failures" "symbol \<in> set symbols"
  shows "map_of failures symbol = None \<longleftrightarrow>
    (\<forall>tf \<in> set timeframes. \<forall>checks. required_tf extra tf = Inr (tf, checks) \<longrightarrow>
       (\<forall>check \<in> set checks. key_ready (of_key symbols (symbol, tf, check) rows) now max_age (map_of loads (symbol, tf))))"
proof -
  from assms(1) obtain required where req: "required_for timeframes extra = Inr required"
    by (auto simp: gate_symbols_def ebind_eq_Inr)
  let ?L = "latest_rows symbols rows"
  have "map_of failures symbol = None \<longleftrightarrow> symbol_reasons ?L required now max_age loads symbol = []"
    using gate_lookup [OF assms(1) req, of symbol] assms(2) by simp
  also have "\<dots> \<longleftrightarrow> (\<forall>tf check reason. (tf, check, reason) \<notin> set (symbol_reasons ?L required now max_age loads symbol))"
    by (metis list.set_intros(1) neq_Nil_conv prod_cases3 empty_iff list.set(1))
  also have "\<dots> \<longleftrightarrow> (\<forall>tf checks check. (tf, checks) \<in> set required \<longrightarrow> check \<in> set checks \<longrightarrow>
      reason_of (map_of ?L (symbol, tf, check)) now max_age (map_of loads (symbol, tf)) = None)"
    unfolding symbol_reasons_set by (metis not_None_eq)
  also have "\<dots> \<longleftrightarrow> (\<forall>tf \<in> set timeframes. \<forall>checks. required_tf extra tf = Inr (tf, checks) \<longrightarrow>
       (\<forall>check \<in> set checks. key_ready (of_key symbols (symbol, tf, check) rows) now max_age (map_of loads (symbol, tf))))"
    unfolding required_for_lookup [OF req] reason_None latest_ready by blast
  finally show ?thesis .
qed

section \<open>The rows the statement fetches\<close>

lemma newest_in: "xs \<noteq> [] \<Longrightarrow> newest xs \<in> set xs"
  unfolding newest_def by (rule arg_min_list_in)

lemma newest_least: "m \<in> set xs \<Longrightarrow> (- im_at (newest xs), im_passed (newest xs)) \<le> (- im_at m, im_passed m)"
  unfolding newest_def using arg_min_list_least [of xs m "\<lambda>m. (- im_at m, im_passed m)"] by (cases xs) auto

definition pair_rows :: "monitor_row list \<Rightarrow> string \<Rightarrow> string \<Rightarrow> string \<Rightarrow> monitor_row list" where
  "pair_rows monitor symbol tf check =
     filter (\<lambda>m. im_type m = MONITOR_TYPE \<and> im_subject m = subject_of symbol tf \<and> im_metric m = check) monitor"

definition fetched :: "monitor_row list \<Rightarrow> string list \<Rightarrow> string list \<Rightarrow> verdict_row list" where
  "fetched monitor symbols timeframes =
     map (\<lambda>(subject, check, passed, t). verdict_row_from_record subject check passed t)
       (latest_verdicts monitor (concat (map (\<lambda>symbol. map (subject_of symbol) timeframes) symbols)) all_check_names)"

lemma subject_inj:
  assumes "CHR ''|'' \<notin> set tf" "CHR ''|'' \<notin> set tf'"
  shows "subject_of s tf = subject_of s' tf' \<longleftrightarrow> s = s' \<and> tf = tf'"
proof
  assume "subject_of s tf = subject_of s' tf'"
  then have "rpartition (CHR ''|'') (subject_of s tf) = rpartition (CHR ''|'') (subject_of s' tf')" by (rule arg_cong)
  then have "(s, tf) = (s', tf')" unfolding rpartition_subject [OF assms(1)] rpartition_subject [OF assms(2)] .
  then show "s = s' \<and> tf = tf'" by simp
qed simp

lemma fetched_of_key:
  assumes tfs: "set timeframes \<subseteq> set (map fst REQUIRED_CHECKS)" and tf: "tf \<in> set timeframes"
    and s: "symbol \<in> set symbols" and c: "check \<in> set all_check_names"
  shows "of_key symbols (symbol, tf, check) (fetched monitor symbols timeframes) =
    (if pair_rows monitor symbol tf check = [] then {}
     else {\<lparr>vr_symbol = symbol, vr_timeframe = tf, vr_check = check,
            vr_passed = im_passed (newest (pair_rows monitor symbol tf check)),
            vr_at = im_at (newest (pair_rows monitor symbol tf check))\<rparr>})" (is "?L = ?R")
proof -
  let ?subjects = "concat (map (\<lambda>symbol. map (subject_of symbol) timeframes) symbols)"
  let ?rows = "filter (\<lambda>m. im_type m = MONITOR_TYPE \<and> im_subject m \<in> set ?subjects \<and> im_metric m \<in> set all_check_names) monitor"
  let ?found = "\<lambda>subject check. let m = newest (filter (\<lambda>m. im_subject m = subject \<and> im_metric m = check) ?rows)
    in verdict_row_from_record subject check (im_passed m) (im_at m)"
  have no_bar: "CHR ''|'' \<notin> set t" if "t \<in> set timeframes" for t using required_no_bar tfs that by blast
  have set: "set (fetched monitor symbols timeframes) = (\<lambda>m. ?found (im_subject m) (im_metric m)) ` set ?rows"
    by (auto simp: fetched_def latest_verdicts_def Let_def split_beta image_image)
  have key: "key_of (?found (im_subject m) (im_metric m)) = (symbol, tf, check) \<longleftrightarrow>
      im_subject m = subject_of symbol tf \<and> im_metric m = check" if "m \<in> set ?rows" for m
  proof -
    from that obtain s' t' where m: "im_subject m = subject_of s' t'" "t' \<in> set timeframes" by auto
    then show ?thesis
      using rpartition_subject [OF no_bar [OF m(2)], of s'] subject_inj [OF no_bar [OF m(2)] no_bar [OF tf], of s' symbol]
      by (auto simp: key_of_def verdict_row_from_record_def Let_def)
  qed
  have rows: "filter (\<lambda>m. im_subject m = subject_of symbol tf \<and> im_metric m = check) ?rows = pair_rows monitor symbol tf check"
    unfolding pair_rows_def filter_filter using s tf c by (intro filter_cong) auto
  have entry: "?found (subject_of symbol tf) check =
      \<lparr>vr_symbol = symbol, vr_timeframe = tf, vr_check = check,
       vr_passed = im_passed (newest (pair_rows monitor symbol tf check)),
       vr_at = im_at (newest (pair_rows monitor symbol tf check))\<rparr>"
    unfolding rows by (simp add: verdict_row_from_record_def Let_def rpartition_subject [OF no_bar [OF tf]])
  define f where "f = (\<lambda>m :: monitor_row. ?found (im_subject m) (im_metric m))"
  define R where "R = set ?rows"
  have mem: "key_of r = (symbol, tf, check) \<and> vr_symbol r \<in> set symbols \<longleftrightarrow> key_of r = (symbol, tf, check)" for r
    using s by (auto simp: key_of_def)
  have key': "key_of (f m) = (symbol, tf, check) \<longleftrightarrow> im_subject m = subject_of symbol tf \<and> im_metric m = check" if "m \<in> R" for m
    using key that unfolding f_def R_def by blast
  have "?L = {r \<in> f ` R. key_of r = (symbol, tf, check)}"
    unfolding of_key_def set mem f_def R_def ..
  also have "\<dots> = f ` {m \<in> R. im_subject m = subject_of symbol tf \<and> im_metric m = check}"
    using key' by blast
  also have "\<dots> = (\<lambda>m. ?found (subject_of symbol tf) check) ` {m \<in> R. im_subject m = subject_of symbol tf \<and> im_metric m = check}"
    unfolding f_def by (rule image_cong) (simp_all only: mem_Collect_eq)
  also have "{m \<in> R. im_subject m = subject_of symbol tf \<and> im_metric m = check} = set (pair_rows monitor symbol tf check)"
    unfolding rows [symmetric] R_def set_filter by (simp only:)
  finally show ?thesis unfolding entry by (simp add: image_constant_conv)
qed

section \<open>One rule in two places\<close>

lemma newest_ready:
  assumes "xs \<noteq> []"
  shows "key_ready {\<lparr>vr_symbol = s, vr_timeframe = tf, vr_check = c, vr_passed = im_passed (newest xs), vr_at = im_at (newest xs)\<rparr>}
      now max_age loaded \<longleftrightarrow>
    im_passed (newest xs) \<and> now - max_age \<le> im_at (newest xs) \<and> (case loaded of None \<Rightarrow> True | Some t \<Rightarrow> t \<le> im_at (newest xs))"
  by (simp add: key_ready_def row_ready_def cong: option.case_cong)

lemma pair_ready_key:
  assumes "set timeframes \<subseteq> set (map fst REQUIRED_CHECKS)" "tf \<in> set timeframes" "symbol \<in> set symbols"
    "check \<in> set all_check_names"
  shows "key_ready (of_key symbols (symbol, tf, check) (fetched monitor symbols timeframes)) now (max_age_of hours)
      (load_time loads symbol tf) \<longleftrightarrow> pair_ready monitor loads now hours symbol (tf, check)"
proof (cases "pair_rows monitor symbol tf check = []")
  case True
  then show ?thesis unfolding fetched_of_key [OF assms] pair_ready_def prod.case Let_def pair_rows_def [symmetric]
    by (simp add: key_ready_def)
next
  case False
  then show ?thesis unfolding fetched_of_key [OF assms] if_not_P [OF False] newest_ready [OF False] pair_ready_def prod.case Let_def
      pair_rows_def [symmetric] by simp
qed

lemma latest_loads_lookup:
  assumes "symbol \<in> set symbols" "tf \<in> set timeframes"
  shows "map_of (latest_loads loads symbols timeframes) (symbol, tf) = load_time loads symbol tf"
proof -
  have "map_of (concat (map (\<lambda>(symbol, tf). case load_time loads symbol tf of None \<Rightarrow> [] | Some t \<Rightarrow> [((symbol, tf), t)]) ps)) (symbol, tf) =
      (if (symbol, tf) \<in> set ps then load_time loads symbol tf else None)" for ps
    by (induction ps) (auto split: option.split)
  then show ?thesis using assms unfolding latest_loads_def by simp
qed

lemma required_tf_plain: "required_tf [] tf = Inr (t, checks) \<longleftrightarrow> t = tf \<and> map_of REQUIRED_CHECKS tf = Some checks"
  by (auto simp: required_tf_def split: option.splits)

lemma check_named: "map_of REQUIRED_CHECKS tf = Some checks \<Longrightarrow> check \<in> set checks \<Longrightarrow> check \<in> set all_check_names"
  unfolding all_check_names_def by (force dest!: map_of_SomeD)

lemma scan_gate:
  assumes "fetch_verdict_scan monitor loads symbols timeframes hours [] now = Inr scan"
  shows "gate_symbols (fetched monitor symbols timeframes) symbols timeframes now (max_age_of hours)
      (latest_loads loads symbols timeframes) [] = Inr (vs_failures scan)"
    "set timeframes \<subseteq> set (map fst REQUIRED_CHECKS)"
proof -
  show g: "gate_symbols (fetched monitor symbols timeframes) symbols timeframes now (max_age_of hours)
      (latest_loads loads symbols timeframes) [] = Inr (vs_failures scan)"
    using assms unfolding fetch_verdict_scan_def Let_def fetched_def by (auto simp: ebind_eq_Inr)
  then obtain entries where e: "emap (required_tf []) timeframes = Inr entries"
    by (auto simp: gate_symbols_def required_for_def ebind_eq_Inr)
  have "\<exists>checks. map_of REQUIRED_CHECKS tf = Some checks" if "tf \<in> set timeframes" for tf
    using e that by (induction timeframes arbitrary: entries) (auto simp: ebind_eq_Inr required_tf_def split: option.splits)
  then show "set timeframes \<subseteq> set (map fst REQUIRED_CHECKS)"
    by (metis domI dom_map_of_conv_image_fst image_set subsetI)
qed

lemma pair_ready_all:
  assumes "set selected \<subseteq> set (map fst REQUIRED_CHECKS)"
  shows "list_all (\<lambda>(tf, check). P tf \<or> Q tf check) (required_pairs selected) \<longleftrightarrow>
    (\<forall>tf \<in> set selected. \<forall>checks. map_of REQUIRED_CHECKS tf = Some checks \<longrightarrow> P tf \<or> (\<forall>check \<in> set checks. Q tf check))"
proof -
  have "\<exists>checks. map_of REQUIRED_CHECKS tf = Some checks" if "tf \<in> set selected" for tf
    using that assms by (metis (no_types) map_of_eq_None_iff not_None_eq set_map subsetD)
  then show ?thesis unfolding required_pairs_def list_all_iff by fastforce
qed

lemma scan_passes:
  assumes "fetch_verdict_scan monitor loads symbols timeframes hours [] now = Inr scan" "symbol \<in> set symbols"
  shows "map_of (vs_failures scan) symbol = None \<longleftrightarrow>
    (\<forall>tf \<in> set timeframes. \<forall>checks. map_of REQUIRED_CHECKS tf = Some checks \<longrightarrow>
       (\<forall>check \<in> set checks. pair_ready monitor loads now hours symbol (tf, check)))"
proof -
  note g = scan_gate [OF assms(1)]
  have "key_ready (of_key symbols (symbol, tf, check) (fetched monitor symbols timeframes)) now (max_age_of hours)
      (map_of (latest_loads loads symbols timeframes) (symbol, tf)) \<longleftrightarrow> pair_ready monitor loads now hours symbol (tf, check)"
    if "tf \<in> set timeframes" "map_of REQUIRED_CHECKS tf = Some checks" "check \<in> set checks" for tf checks check
    unfolding latest_loads_lookup [OF assms(2) that(1)]
    by (rule pair_ready_key [OF g(2) that(1) assms(2) check_named [OF that(2,3)]])
  then show ?thesis unfolding symbol_passes [OF g(1) assms(2)] required_tf_plain by blast
qed

lemma distinct_bound:
  assumes "distinct bound" "set bound \<subseteq> set selected"
  shows "length (remdups (filter (\<lambda>tf. tf \<in> set bound) selected)) = length bound"
proof -
  have "set (remdups (filter (\<lambda>tf. tf \<in> set bound) selected)) = set bound" using assms(2) by auto
  then show ?thesis using assms(1) by (metis distinct_card distinct_remdups)
qed

lemma ball_restrict:
  "B \<subseteq> A \<Longrightarrow> (\<forall>x \<in> A. \<forall>c. m x = Some c \<longrightarrow> x \<notin> B \<or> R x c) \<longleftrightarrow> (\<forall>x \<in> B. \<forall>c. m x = Some c \<longrightarrow> R x c)"
  by blast

text \<open>C18. One rule in two places.  For distinct timeframes the gate names no reason against a symbol exactly when the
  predicate sent to the database holds for its instrument row, both as the fragment that binds the timeframes and
  as the one rendered for them; the two can only differ in raising.\<close>

lemma gate_agrees_with_sql:
  assumes "fetch_verdict_scan monitor loads symbols timeframes hours [] now = Inr scan"
    and "symbol \<in> set symbols" and "distinct timeframes"
  shows "ready_predicate None timeframes monitor loads now hours symbol = Inr (map_of (vs_failures scan) symbol = None) \<and>
    ready_predicate (Some timeframes) [] monitor loads now hours symbol = Inr (map_of (vs_failures scan) symbol = None)"
proof -
  note known = scan_gate(2) [OF assms(1)]
  note all = pair_ready_all [of _ _ "\<lambda>tf check. pair_ready monitor loads now hours symbol (tf, check)"]
  have "list_all (\<lambda>(tf, check). tf \<notin> set timeframes \<or> pair_ready monitor loads now hours symbol (tf, check))
      (required_pairs (map fst REQUIRED_CHECKS)) \<longleftrightarrow> map_of (vs_failures scan) symbol = None"
    unfolding scan_passes [OF assms(1,2)] all [OF subset_refl] by (rule ball_restrict [OF known])
  moreover have "list_all (\<lambda>(tf, check). False \<or> pair_ready monitor loads now hours symbol (tf, check))
      (required_pairs timeframes) \<longleftrightarrow> map_of (vs_failures scan) symbol = None"
    unfolding scan_passes [OF assms(1,2)] all [OF known] by (simp only: simp_thms)
  ultimately show ?thesis
    unfolding ready_predicate_def Let_def option.case using known distinct_bound [OF assms(3) known] by simp
qed

text \<open>The timeframes must be distinct: bound twice, the count guard of the fragment refuses what the gate passes.\<close>

definition ex_monitor :: "monitor_row list" where
  "ex_monitor =
     map (\<lambda>(tf, check). \<lparr>im_type = MONITOR_TYPE, im_subject = subject_of ''SPY'' tf, im_metric = check, im_passed = True,
       im_at = 3600000000\<rparr>) (required_pairs [''15m'', ''1h'']) @
     [\<lparr>im_type = MONITOR_TYPE, im_subject = subject_of ''SPY'' ''1h'', im_metric = ''grid_parity'', im_passed = False,
       im_at = 1800000000\<rparr>,
      \<lparr>im_type = MONITOR_TYPE, im_subject = subject_of ''QQQ'' ''1h'', im_metric = ''grid_parity'', im_passed = False,
       im_at = 3600000000\<rparr>,
      \<lparr>im_type = MONITOR_TYPE, im_subject = subject_of ''QQQ'' ''1h'', im_metric = ''grid_parity'', im_passed = True,
       im_at = 3600000000\<rparr>]"

definition ex_scan :: "string list \<Rightarrow> verdict_scan" where
  "ex_scan tfs = projr (fetch_verdict_scan ex_monitor [] [''SPY'', ''QQQ''] tfs 2 [] 7200000000)"

lemma ex_scan: "fetch_verdict_scan ex_monitor [] [''SPY'', ''QQQ''] [''15m'', ''1h''] 2 [] 7200000000 = Inr (ex_scan [''15m'', ''1h''])"
  unfolding ex_scan_def by code_simp

lemma ex_scan_spy: "map_of (vs_failures (ex_scan [''15m'', ''1h''])) ''SPY'' = None"
  by code_simp

lemma repeated_timeframe_differs:
  "map_of (vs_failures (ex_scan [''1h'', ''1h''])) ''SPY'' = None \<and>
   ready_predicate None [''1h'', ''1h''] ex_monitor [] 7200000000 2 ''SPY'' = Inr False"
  by code_simp

lemma gate_agrees_with_sql_witness:
  "ready_predicate None [''15m'', ''1h''] ex_monitor [] 7200000000 2 ''SPY'' = Inr True"
proof -
  have "''SPY'' \<in> set [''SPY'', ''QQQ'']" "distinct [''15m'', ''1h'']" by simp_all
  from conjunct1 [OF gate_agrees_with_sql [OF ex_scan this]] show ?thesis unfolding ex_scan_spy by (simp only: simp_thms)
qed

end
