(* ===== verification/Source_Policy.thy ===== *)
theory Source_Policy
  imports Vendor_Arbitration
begin

text \<open>
  The table \<open>bar_source_policy\<close> and its one writer, \<open>scripts/ops/bars/ops_source_policy.py\<close>.

  The statements are functions on the table, with the constraints and the append-only trigger of the migrations 446, 460
  and 520: a statement they refuse is the error \<open>IntegrityViolation\<close>, a date range whose bounds are swapped
  \<open>DataException\<close>.  A row in the table is the \<open>policy\<close> the daily rule reads with its id and the reason of its
  retirement; the recorded, closed and retired times are not modelled.  A plan file is the record its JSON object
  holds; an evidence object is only tested for being one.
\<close>

section \<open>The table\<close>

record table_row =
  tr_policy_id :: string
  tr_row :: policy
  tr_retired :: "string option"

record policy_db =
  db_rows :: "table_row list"
  db_instruments :: "string list"

definition live :: "table_row \<Rightarrow> bool" where
  "live r \<longleftrightarrow> tr_retired r = None"

text \<open>The view \<open>bar_source_policy_current\<close>.\<close>

definition current :: "policy_db \<Rightarrow> policy list" where
  "current db = map tr_row (filter live (db_rows db))"

definition TIMEFRAMES :: "string list" where
  "TIMEFRAMES = [''1d'', ''5m'', ''1m'', ''15m'', ''1h'', ''4h'']"

definition INGRESS_MODE :: "(string \<times> string) list" where
  "INGRESS_MODE = [(''1d'', ''observed''), (''15m'', ''derived''), (''1h'', ''derived'')]"

definition DEFAULT_INGRESS_MODE :: string where "DEFAULT_INGRESS_MODE = ''direct''"

definition mode_of :: "string \<Rightarrow> string" where
  "mode_of timeframe = (case map_of INGRESS_MODE timeframe of None \<Rightarrow> DEFAULT_INGRESS_MODE | Some m \<Rightarrow> m)"

definition until :: "day \<Rightarrow> day option \<Rightarrow> bool" where
  "until d valid_to \<longleftrightarrow> (case valid_to of None \<Rightarrow> True | Some e \<Rightarrow> d < e)"

lemma until_simps [simp]: "until d None" "until d (Some e) \<longleftrightarrow> d < e"
  by (simp_all add: until_def)

definition range_ok :: "day \<Rightarrow> day option \<Rightarrow> bool" where
  "range_ok first stop \<longleftrightarrow> (case stop of None \<Rightarrow> True | Some e \<Rightarrow> first \<le> e)"

text \<open>\<open>daterange(a, b, '[)') && daterange(c, d, '[)')\<close>; an empty range overlaps nothing.\<close>

definition ranges_overlap :: "day \<Rightarrow> day option \<Rightarrow> day \<Rightarrow> day option \<Rightarrow> bool" where
  "ranges_overlap a b c d \<longleftrightarrow> until a b \<and> until c d \<and> until c b \<and> until a d"

definition series_of :: "policy \<Rightarrow> string \<times> string" where
  "series_of p = (po_timeframe p, case po_symbol p of None \<Rightarrow> '''' | Some s \<Rightarrow> s)"

definition collide :: "policy \<Rightarrow> policy \<Rightarrow> bool" where
  "collide p q \<longleftrightarrow> series_of p = series_of q \<and>
     ranges_overlap (po_valid_from p) (po_valid_to p) (po_valid_from q) (po_valid_to q)"

definition row_checks :: "policy \<Rightarrow> bool" where
  "row_checks p \<longleftrightarrow> po_timeframe p \<in> set TIMEFRAMES \<and> po_ingress_mode p \<in> {''observed'', ''direct'', ''derived''} \<and>
     until (po_valid_from p) (po_valid_to p) \<and> po_fallback p \<noteq> Some (po_primary p) \<and>
     (po_ingress_mode p = ''derived'') = (po_primary p = ''derived'')"

definition known_symbol :: "policy_db \<Rightarrow> policy \<Rightarrow> bool" where
  "known_symbol db p \<longleftrightarrow> po_symbol p = None \<or> po_symbol p \<in> Some ` set (db_instruments db)"

definition sql_insert :: "policy_db \<Rightarrow> string \<Rightarrow> policy \<Rightarrow> err + policy_db" where
  "sql_insert db new_id p =
     (if new_id \<in> set (map tr_policy_id (db_rows db)) \<or> \<not> row_checks p \<or> \<not> known_symbol db p \<or>
         list_ex (collide p) (current db)
      then Inl IntegrityViolation
      else Inr (db\<lparr>db_rows := db_rows db @ [\<lparr>tr_policy_id = new_id, tr_row = p, tr_retired = None\<rparr>]\<rparr>))"

text \<open>An update of the rows a statement selects: each changes by \<open>f\<close> or is refused.\<close>

definition sql_update :: "policy_db \<Rightarrow> (table_row \<Rightarrow> bool) \<Rightarrow> (table_row \<Rightarrow> err + table_row) \<Rightarrow> err + (nat \<times> policy_db)" where
  "sql_update db sel f =
     ebind (emap (\<lambda>r. if sel r then f r else Inr r) (db_rows db)) (\<lambda>rows.
       Inr (length (filter sel (db_rows db)), db\<lparr>db_rows := rows\<rparr>))"

definition close_to :: "day \<Rightarrow> table_row \<Rightarrow> err + table_row" where
  "close_to valid_to r =
     (if \<not> live r \<or> po_valid_to (tr_row r) \<noteq> None \<or> valid_to \<le> po_valid_from (tr_row r) then Inl IntegrityViolation
      else Inr (r\<lparr>tr_row := (tr_row r)\<lparr>po_valid_to := Some valid_to\<rparr>\<rparr>))"

definition retire_for :: "string \<Rightarrow> table_row \<Rightarrow> err + table_row" where
  "retire_for reason r = (if \<not> live r then Inl IntegrityViolation else Inr (r\<lparr>tr_retired := Some reason\<rparr>))"

definition overlapping_row :: "policy_db \<Rightarrow> string \<Rightarrow> string \<Rightarrow> day \<Rightarrow> day option \<Rightarrow> err + bool" where
  "overlapping_row db timeframe symbol valid_from valid_to =
     (if \<not> range_ok valid_from valid_to then Inl DataException
      else Inr (list_ex (\<lambda>p. po_timeframe p = timeframe \<and> po_symbol p = Some symbol \<and>
                  ranges_overlap (po_valid_from p) (po_valid_to p) valid_from valid_to) (current db)))"

section \<open>The single-row commands\<close>

definition new_row :: "string \<Rightarrow> string option \<Rightarrow> day \<Rightarrow> day option \<Rightarrow> string \<Rightarrow> string option \<Rightarrow> policy" where
  "new_row timeframe symbol valid_from valid_to primary fallback =
     \<lparr>po_timeframe = timeframe, po_symbol = symbol, po_valid_from = valid_from, po_valid_to = valid_to,
      po_ingress_mode = mode_of timeframe, po_primary = primary, po_fallback = fallback\<rparr>"

record add_request =
  rq_timeframe :: string
  rq_symbol :: string
  rq_valid_from :: day
  rq_valid_to :: "day option"
  rq_primary :: string
  rq_fallback :: "string option"

definition requested :: "add_request \<Rightarrow> policy" where
  "requested q = new_row (rq_timeframe q) (Some (rq_symbol q)) (rq_valid_from q) (rq_valid_to q) (rq_primary q) (rq_fallback q)"

definition insert_row :: "policy_db \<Rightarrow> string \<Rightarrow> add_request \<Rightarrow> err + (bool \<times> policy_db)" where
  "insert_row db new_id q =
     ebind (overlapping_row db (rq_timeframe q) (rq_symbol q) (rq_valid_from q) (rq_valid_to q)) (\<lambda>overlap.
       if overlap then Inr (False, db)
       else ebind (sql_insert db new_id (requested q)) (\<lambda>db. Inr (True, db)))"

definition open_series_row :: "string \<Rightarrow> string \<Rightarrow> table_row \<Rightarrow> bool" where
  "open_series_row timeframe symbol r \<longleftrightarrow>
     po_timeframe (tr_row r) = timeframe \<and> po_symbol (tr_row r) = Some symbol \<and> po_valid_to (tr_row r) = None"

definition close_row :: "policy_db \<Rightarrow> string \<Rightarrow> day \<Rightarrow> string \<Rightarrow> err + (nat \<times> policy_db)" where
  "close_row db symbol valid_to timeframe =
     sql_update db (\<lambda>r. open_series_row timeframe symbol r \<and> live r) (close_to valid_to)"

text \<open>The policy write of \<open>write_and_reselect\<close> with the window it hands to the re-selection; its closing statement does
  not test for retirement.\<close>

definition reselect_add :: "policy_db \<Rightarrow> string \<Rightarrow> add_request \<Rightarrow> err + ((day \<times> day option) \<times> policy_db)" where
  "reselect_add db new_id q =
     ebind (overlapping_row db (rq_timeframe q) (rq_symbol q) (rq_valid_from q) (rq_valid_to q)) (\<lambda>overlap.
       if overlap then Inl ValueError
       else ebind (sql_insert db new_id (requested q)) (\<lambda>db. Inr ((rq_valid_from q, rq_valid_to q), db)))"

definition reselect_close :: "policy_db \<Rightarrow> string \<Rightarrow> day \<Rightarrow> string \<Rightarrow> err + ((day \<times> day option) \<times> policy_db)" where
  "reselect_close db symbol valid_to timeframe =
     ebind (sql_update db (open_series_row timeframe symbol) (close_to valid_to)) (\<lambda>(n, db).
       if n \<noteq> 1 then Inl ValueError else Inr ((valid_to, None), db))"

definition live_symbol_row_at :: "string \<Rightarrow> day \<Rightarrow> table_row \<Rightarrow> bool" where
  "live_symbol_row_at symbol valid_from r \<longleftrightarrow>
     po_timeframe (tr_row r) = ''1d'' \<and> po_symbol (tr_row r) = Some symbol \<and> po_valid_from (tr_row r) = valid_from \<and> live r"

definition retire_symbol_row :: "policy_db \<Rightarrow> string \<Rightarrow> day \<Rightarrow> string \<Rightarrow> bool \<Rightarrow> err + (int \<times> policy_db)" where
  "retire_symbol_row db symbol valid_from reason apply_it =
     (if \<not> list_ex (live_symbol_row_at symbol valid_from) (db_rows db) then Inr (2, db)
      else if \<not> apply_it then Inr (0, db)
      else ebind (sql_update db (live_symbol_row_at symbol valid_from) (retire_for reason)) (\<lambda>(n, db').
             if n \<noteq> 1 then Inr (2, db') else Inr (0, db')))"

definition check_vendors :: "string list \<Rightarrow> string option list \<Rightarrow> err + unit" where
  "check_vendors codes vendors =
     (if list_all (\<lambda>v. case v of None \<Rightarrow> True | Some c \<Rightarrow> c \<in> set codes) vendors then Inr () else Inl SystemExit)"

definition DIRECT_TIMEFRAMES :: "string list" where
  "DIRECT_TIMEFRAMES = filter (\<lambda>tf. tf \<notin> DERIVATION_OWNED_TIMEFRAMES) [''1m'', ''5m'', ''4h'']"

definition backdated :: "string \<Rightarrow> day \<Rightarrow> day \<Rightarrow> bool" where
  "backdated timeframe effective today \<longleftrightarrow> timeframe \<in> set DIRECT_TIMEFRAMES \<and> effective < today"

end
