(* ===== verification/Policy_Plan.thy ===== *)
theory Policy_Plan
  imports Source_Policy
begin

text \<open>
  A ranking decision as one transaction: \<open>parse_plan\<close> and \<open>apply_plan\<close> of \<open>scripts/ops/bars/ops_source_policy.py\<close>.
  \<open>raw_plan\<close> is the JSON object of a plan file; a key the code requires is an option.  The quarantine list goes to another
  table and is only checked here.
\<close>

section \<open>The plan file\<close>

datatype evidence = NotObject | EmptyObject | FilledObject

record raw_row =
  rw_symbol :: string
  rw_valid_from :: day
  rw_valid_to :: "day option"
  rw_primary :: string
  rw_fallback :: "string option"
  rw_evidence :: evidence

record raw_retired =
  rt_policy_id :: string
  rt_symbol :: string
  rt_disposition :: "string option"
  rt_evidence :: evidence

record raw_kept =
  rk_policy_id :: string
  rk_symbol :: string
  rk_valid_from :: "day option"
  rk_valid_to :: "day option"
  rk_reason :: "string option"

record raw_plan =
  rp_timeframe :: "string option"
  rp_seam :: "day option"
  rp_defaults :: "plan_default list option"
  rp_reason :: "string option"
  rp_evidence :: "evidence option"
  rp_retire_defaults :: bool
  rp_symbol_rows :: "raw_row list"
  rp_retire_symbol_rows :: "raw_retired list option"
  rp_keep_symbol_rows :: "raw_kept list"
  rp_retire_default_ids :: "string list option"
  rp_raw_fingerprint :: "fingerprint option"
  rp_hold :: "(string \<times> day \<times> day) list"
  rp_window_end_spans :: nat
  rp_quarantine :: "quarantined list"
  rp_quarantine_rule :: "string option"

record policy_plan =
  pn_timeframe :: string
  pn_seam :: day
  pn_defaults :: "policy list"
  pn_reason :: string
  pn_retire_defaults :: bool
  pn_symbol_rows :: "policy list"
  pn_retire_symbol_rows :: "raw_retired list option"
  pn_keep_symbol_rows :: "raw_kept list"
  pn_retire_default_ids :: "string list option"
  pn_raw_fingerprint :: "fingerprint option"
  pn_hold :: "(string \<times> day \<times> day) list"
  pn_quarantine :: "quarantined list"
  pn_quarantine_rule :: "string option"

definition DISPOSITIONS :: "string list" where "DISPOSITIONS = [''replaced'', ''superseded_by_default'']"
definition EXPLICIT_TIMEFRAMES :: "string list" where "EXPLICIT_TIMEFRAMES = [''1d'']"

definition refuse_if :: "bool \<Rightarrow> err + unit" where
  "refuse_if b = (if b then Inl ValueError else Inr ())"

definition default_row :: "string \<Rightarrow> plan_default \<Rightarrow> policy" where
  "default_row timeframe d = new_row timeframe None (pd_valid_from d) (pd_valid_to d) (pd_primary d) (pd_fallback d)"

definition symbol_row :: "string \<Rightarrow> raw_row \<Rightarrow> policy" where
  "symbol_row timeframe r =
     new_row timeframe (Some (rw_symbol r)) (rw_valid_from r) (rw_valid_to r) (rw_primary r) (rw_fallback r)"

definition parse_symbol_lists :: "raw_retired list \<Rightarrow> raw_kept list \<Rightarrow> policy list \<Rightarrow> err + unit" where
  "parse_symbol_lists retire keep symbol_rows =
     (let new_symbols = map (\<lambda>r. the (po_symbol r)) symbol_rows
      in ebind (refuse_if (\<not> distinct (map rt_policy_id retire @ map rk_policy_id keep))) (\<lambda>_.
         ebind (refuse_if (list_ex (\<lambda>r. rt_disposition r \<notin> Some ` set DISPOSITIONS \<or> rt_evidence r = NotObject \<or>
                  (rt_disposition r = Some ''replaced'' \<and> rt_symbol r \<notin> set new_symbols)) retire)) (\<lambda>_.
         refuse_if (list_ex (\<lambda>k. rk_reason k = None \<or> rk_reason k = Some '''' \<or> rk_symbol k \<in> set new_symbols) keep))))"

definition row_covers :: "day \<Rightarrow> day option \<Rightarrow> day \<Rightarrow> day \<Rightarrow> bool" where
  "row_covers valid_from valid_to start stop \<longleftrightarrow> valid_from \<le> start \<and> until stop valid_to"

definition check_hold_coverage ::
  "(string \<times> day \<times> day) list \<Rightarrow> policy list \<Rightarrow> raw_kept list \<Rightarrow> err + unit" where
  "check_hold_coverage hold symbol_rows keep =
     refuse_if (list_ex (\<lambda>(symbol, start, stop).
       \<not> (list_ex (\<lambda>r. po_symbol r = Some symbol \<and> row_covers (po_valid_from r) (po_valid_to r) start stop) symbol_rows \<or>
          list_ex (\<lambda>k. rk_symbol k = symbol \<and> (case rk_valid_from k of None \<Rightarrow> False
             | Some f \<Rightarrow> row_covers f (rk_valid_to k) start stop)) keep)) hold)"

definition gap_or_overlap :: "policy list \<Rightarrow> bool" where
  "gap_or_overlap defaults =
     list_ex (\<lambda>(before, after). po_valid_to before \<noteq> Some (po_valid_from after)) (zip defaults (tl defaults))"

definition rows_overlap :: "policy list \<Rightarrow> bool" where
  "rows_overlap rows =
     list_ex (\<lambda>(before, after). po_symbol before = po_symbol after \<and> until (po_valid_from after) (po_valid_to before))
       (zip rows (tl rows))"

definition past_fingerprint :: "fingerprint option \<Rightarrow> policy list \<Rightarrow> bool" where
  "past_fingerprint fp rows =
     (case fp of None \<Rightarrow> False
      | Some f \<Rightarrow> list_ex (\<lambda>r. case po_valid_to r of None \<Rightarrow> True | Some e \<Rightarrow> fp_through f < e) rows)"

text \<open>Every check of \<open>parse_plan\<close> raises \<open>ValueError\<close>; the sorted rows are its arguments.\<close>

definition plan_checks :: "raw_plan \<Rightarrow> string \<Rightarrow> day \<Rightarrow> evidence \<Rightarrow> policy list \<Rightarrow> policy list \<Rightarrow> err + unit" where
  "plan_checks raw timeframe seam ev defaults symbol_rows =
     (let explicit = (rp_retire_symbol_rows raw \<noteq> None)
      in ebind (refuse_if (timeframe \<notin> set TIMEFRAMES)) (\<lambda>_.
         ebind (refuse_if (rp_window_end_spans raw \<noteq> 0)) (\<lambda>_.
         ebind (refuse_if (ev \<noteq> FilledObject)) (\<lambda>_.
         ebind (refuse_if (timeframe \<in> set EXPLICIT_TIMEFRAMES \<and> \<not> explicit)) (\<lambda>_.
         ebind (refuse_if (defaults = [] \<or> po_valid_to (last defaults) \<noteq> None)) (\<lambda>_.
         ebind (refuse_if (gap_or_overlap defaults)) (\<lambda>_.
         ebind (refuse_if (if rp_retire_defaults raw then seam \<notin> set (map po_valid_from defaults)
                           else po_valid_from (hd defaults) \<noteq> seam)) (\<lambda>_.
         ebind (refuse_if (list_ex (\<lambda>r. rw_evidence r \<noteq> FilledObject) (rp_symbol_rows raw))) (\<lambda>_.
         ebind (refuse_if (symbol_rows \<noteq> [] \<and> \<not> explicit)) (\<lambda>_.
         ebind (refuse_if (rows_overlap symbol_rows)) (\<lambda>_.
         ebind (case rp_retire_symbol_rows raw of None \<Rightarrow> Inr ()
                | Some retire \<Rightarrow> parse_symbol_lists retire (rp_keep_symbol_rows raw) symbol_rows) (\<lambda>_.
         ebind (refuse_if (timeframe \<in> set EXPLICIT_TIMEFRAMES \<and>
                  (rp_retire_defaults raw \<and> (case rp_retire_default_ids raw of None \<Rightarrow> True | Some ids \<Rightarrow> length (remdups ids) \<noteq> 2) \<or>
                   (case rp_raw_fingerprint raw of None \<Rightarrow> True | Some fp \<Rightarrow> fp_series fp = [])))) (\<lambda>_.
         ebind (refuse_if (past_fingerprint (rp_raw_fingerprint raw) symbol_rows)) (\<lambda>_.
         ebind (check_hold_coverage (rp_hold raw) symbol_rows (if explicit then rp_keep_symbol_rows raw else [])) (\<lambda>_.
         refuse_if (rp_quarantine raw \<noteq> [] \<and> (rp_quarantine_rule raw = None \<or> rp_quarantine_rule raw = Some '''')))))))))))))))))"

definition parse_plan :: "raw_plan \<Rightarrow> err + policy_plan" where
  "parse_plan raw =
     (case (rp_timeframe raw, rp_seam raw, rp_defaults raw, rp_reason raw, rp_evidence raw) of
        (Some timeframe, Some seam, Some raw_defaults, Some reason, Some ev) \<Rightarrow>
          (let defaults = sort_key po_valid_from (map (default_row timeframe) raw_defaults);
               symbol_rows = sort_key (\<lambda>r. (the (po_symbol r), po_valid_from r)) (map (symbol_row timeframe) (rp_symbol_rows raw))
           in ebind (plan_checks raw timeframe seam ev defaults symbol_rows) (\<lambda>_.
              Inr \<lparr>pn_timeframe = timeframe, pn_seam = seam, pn_defaults = defaults, pn_reason = reason,
                   pn_retire_defaults = rp_retire_defaults raw, pn_symbol_rows = symbol_rows,
                   pn_retire_symbol_rows = rp_retire_symbol_rows raw,
                   pn_keep_symbol_rows = (if rp_retire_symbol_rows raw \<noteq> None then rp_keep_symbol_rows raw else []),
                   pn_retire_default_ids =
                     (case rp_retire_default_ids raw of None \<Rightarrow> None | Some ids \<Rightarrow> if ids = [] then None else Some ids),
                   pn_raw_fingerprint = rp_raw_fingerprint raw, pn_hold = rp_hold raw,
                   pn_quarantine = rp_quarantine raw, pn_quarantine_rule = rp_quarantine_rule raw\<rparr>))
      | _ \<Rightarrow> Inl ValueError)"

section \<open>Applying a plan\<close>

definition live_ids :: "policy_db \<Rightarrow> string \<Rightarrow> (policy \<Rightarrow> bool) \<Rightarrow> string list" where
  "live_ids db timeframe P =
     map tr_policy_id (filter (\<lambda>r. live r \<and> po_timeframe (tr_row r) = timeframe \<and> P (tr_row r)) (db_rows db))"

definition check_plan_preconditions ::
  "policy_db \<Rightarrow> fingerprint \<Rightarrow> string list \<Rightarrow> policy_plan \<Rightarrow> err + unit" where
  "check_plan_preconditions db now_fingerprint quarantine_rules plan =
     ebind (refuse_if (case pn_raw_fingerprint plan of None \<Rightarrow> False | Some fp \<Rightarrow> now_fingerprint \<noteq> fp)) (\<lambda>_.
     ebind (refuse_if (case pn_retire_default_ids plan of None \<Rightarrow> False
              | Some ids \<Rightarrow> set (live_ids db (pn_timeframe plan) (\<lambda>p. po_symbol p = None)) \<noteq> set ids)) (\<lambda>_.
     refuse_if (pn_quarantine plan \<noteq> [] \<and> pn_quarantine_rule plan \<notin> Some ` set quarantine_rules)))"

fun retire_ids :: "policy_db \<Rightarrow> (string \<times> string) list \<Rightarrow> err + policy_db" where
  "retire_ids db [] = Inr db"
| "retire_ids db ((policy_id, reason) # rows) =
     ebind (sql_update db (\<lambda>r. tr_policy_id r = policy_id \<and> po_symbol (tr_row r) \<noteq> None \<and> live r) (retire_for reason))
       (\<lambda>(n, db). if n \<noteq> 1 then Inl ValueError else retire_ids db rows)"

definition retire_named_symbol_rows :: "policy_db \<Rightarrow> policy_plan \<Rightarrow> raw_retired list \<Rightarrow> err + (nat \<times> policy_db)" where
  "retire_named_symbol_rows db plan retire =
     (let live_now = set (live_ids db (pn_timeframe plan) (\<lambda>p. po_symbol p \<noteq> None));
          named = set (map rt_policy_id retire @ map rk_policy_id (pn_keep_symbol_rows plan))
      in ebind (refuse_if (live_now \<noteq> named)) (\<lambda>_.
         ebind (retire_ids db (map (\<lambda>r. (rt_policy_id r, pn_reason plan @ '': '' @ the (rt_disposition r))) retire)) (\<lambda>db.
         Inr (length retire, db))))"

fun insert_all :: "policy_db \<Rightarrow> string list \<Rightarrow> policy list \<Rightarrow> err + policy_db" where
  "insert_all db ids [] = Inr db"
| "insert_all db (new_id # ids) (p # ps) = ebind (sql_insert db new_id p) (\<lambda>db. insert_all db ids ps)"
| "insert_all db [] (p # ps) = Inl IntegrityViolation"

record plan_counts =
  pc_symbol_rows_before :: nat
  pc_defaults_before :: nat
  pc_retired :: nat
  pc_kept :: nat
  pc_default_closed :: nat
  pc_defaults_retired :: nat
  pc_inserted :: nat
  pc_symbol_rows_inserted :: nat
  pc_symbol_rows_after :: nat
  pc_defaults_after :: nat

definition is_default :: "string \<Rightarrow> table_row \<Rightarrow> bool" where
  "is_default timeframe r \<longleftrightarrow> po_timeframe (tr_row r) = timeframe \<and> po_symbol (tr_row r) = None \<and> live r"

definition clear_defaults :: "policy_db \<Rightarrow> policy_plan \<Rightarrow> err + (nat \<times> nat \<times> policy_db)" where
  "clear_defaults db plan =
     (if pn_retire_defaults plan then
        ebind (sql_update db (is_default (pn_timeframe plan)) (retire_for (pn_reason plan))) (\<lambda>(n, db).
          if n < 1 then Inl ValueError else Inr (0, n, db))
      else
        ebind (sql_update db (\<lambda>r. is_default (pn_timeframe plan) r \<and> po_valid_to (tr_row r) = None) (close_to (pn_seam plan)))
          (\<lambda>(n, db). if n \<noteq> 1 then Inl ValueError else Inr (n, 0, db)))"

text \<open>The transaction: an exception rolls it back and is raised, a dry run rolls it back and reports.  \<open>ids\<close> are the
  policy ids the database generates.\<close>

definition apply_policy_plan ::
  "policy_db \<Rightarrow> fingerprint \<Rightarrow> string list \<Rightarrow> string list \<Rightarrow> policy_plan \<Rightarrow> bool \<Rightarrow> err + (plan_counts \<times> policy_db)" where
  "apply_policy_plan db now_fingerprint quarantine_rules ids plan apply_it =
     ebind (check_plan_preconditions db now_fingerprint quarantine_rules plan) (\<lambda>_.
     let tf = pn_timeframe plan; symbols = (\<lambda>p. po_symbol p \<noteq> None); defaults = (\<lambda>p. po_symbol p = None)
     in ebind (case pn_retire_symbol_rows plan of
                 Some retire \<Rightarrow> retire_named_symbol_rows db plan retire
               | None \<Rightarrow> sql_update db (\<lambda>r. po_timeframe (tr_row r) = tf \<and> po_symbol (tr_row r) \<noteq> None \<and> live r)
                           (retire_for (pn_reason plan))) (\<lambda>(retired, db1).
        ebind (clear_defaults db1 plan) (\<lambda>(closed, defaults_retired, db2).
        ebind (insert_all db2 ids (pn_defaults plan @ pn_symbol_rows plan)) (\<lambda>db3.
        Inr (\<lparr>pc_symbol_rows_before = length (live_ids db tf symbols), pc_defaults_before = length (live_ids db tf defaults),
              pc_retired = retired, pc_kept = length (pn_keep_symbol_rows plan), pc_default_closed = closed,
              pc_defaults_retired = defaults_retired, pc_inserted = length (pn_defaults plan),
              pc_symbol_rows_inserted = length (pn_symbol_rows plan),
              pc_symbol_rows_after = length (live_ids db3 tf symbols), pc_defaults_after = length (live_ids db3 tf defaults)\<rparr>,
             if apply_it then db3 else db)))))"

section \<open>The file \<open>build_plan\<close> writes\<close>

definition raw_of_plan :: "plan_doc \<Rightarrow> raw_plan" where
  "raw_of_plan doc =
     \<lparr>rp_timeframe = Some (pl_timeframe doc), rp_seam = Some (pl_seam doc), rp_defaults = Some (pl_defaults doc),
      rp_reason = Some (pl_reason doc), rp_evidence = Some FilledObject, rp_retire_defaults = pl_retire_defaults doc,
      rp_symbol_rows = map (\<lambda>r. \<lparr>rw_symbol = pr_symbol r, rw_valid_from = pr_valid_from r, rw_valid_to = Some (pr_valid_to r),
        rw_primary = pr_primary r, rw_fallback = pr_fallback r, rw_evidence = FilledObject\<rparr>) (pl_symbol_rows doc),
      rp_retire_symbol_rows = Some (map (\<lambda>r. \<lparr>rt_policy_id = rr_policy_id r, rt_symbol = rr_symbol r,
        rt_disposition = Some (rr_disposition r), rt_evidence = FilledObject\<rparr>) (pl_retire_symbol_rows doc)),
      rp_keep_symbol_rows = map (\<lambda>k. \<lparr>rk_policy_id = kr_policy_id k, rk_symbol = kr_symbol k,
        rk_valid_from = Some (kr_valid_from k), rk_valid_to = kr_valid_to k, rk_reason = Some (kr_reason k)\<rparr>)
        (pl_keep_symbol_rows doc),
      rp_retire_default_ids = Some (pl_retire_default_ids doc), rp_raw_fingerprint = Some (pl_raw_fingerprint doc),
      rp_hold = map (\<lambda>sp. (as_symbol sp, as_start sp, as_end sp)) (pl_hold doc),
      rp_window_end_spans = length (pl_window_end_spans doc), rp_quarantine = pl_quarantine doc,
      rp_quarantine_rule = Some (pl_quarantine_rule doc)\<rparr>"

end
