(* ===== verification/Source_Policy_Correct.thy ===== *)
theory Source_Policy_Correct
  imports Policy_Plan Daily_Correct Transition
begin

text \<open>
  Correctness of the policy table: the states its writer and the migrations can reach, in all of which the lookup of
  the daily rule is unambiguous, and the closing command that a retired row blocks.
\<close>

section \<open>The steps\<close>

datatype policy_event =
    Seed string policy
  | Add string add_request
  | CloseOpen string day string
  | ReselectAdd string add_request
  | ReselectClose string day string
  | RetireOne string day string bool
  | ApplyPlan fingerprint "string list" "string list" policy_plan bool

inductive policy_step :: "policy_db \<Rightarrow> policy_event \<Rightarrow> policy_db \<Rightarrow> bool" where
  seed: "sql_insert db i p = Inr db' \<Longrightarrow> policy_step db (Seed i p) db'"
| add: "insert_row db i q = Inr (b, db') \<Longrightarrow> policy_step db (Add i q) db'"
| close: "close_row db s d tf = Inr (n, db') \<Longrightarrow> policy_step db (CloseOpen s d tf) db'"
| reselect_add: "reselect_add db i q = Inr (w, db') \<Longrightarrow> policy_step db (ReselectAdd i q) db'"
| reselect_close: "reselect_close db s d tf = Inr (w, db') \<Longrightarrow> policy_step db (ReselectClose s d tf) db'"
| retire: "retire_symbol_row db s d reason a = Inr (code, db') \<Longrightarrow> policy_step db (RetireOne s d reason a) db'"
| plan: "apply_policy_plan db fp rules ids pn a = Inr (counts, db') \<Longrightarrow> policy_step db (ApplyPlan fp rules ids pn a) db'"

inductive_cases policy_stepE: "policy_step db e db'"

definition empty_table :: "policy_db \<Rightarrow> bool" where
  "empty_table db \<longleftrightarrow> db_rows db = []"

section \<open>The invariant\<close>

definition apart :: "table_row \<Rightarrow> table_row \<Rightarrow> bool" where
  "apart r q \<longleftrightarrow> \<not> (live r \<and> live q \<and> collide (tr_row r) (tr_row q))"

definition table_ok :: "policy_db \<Rightarrow> bool" where
  "table_ok db \<longleftrightarrow> distinct (map tr_policy_id (db_rows db)) \<and>
     (\<forall>r \<in> set (db_rows db). row_checks (tr_row r) \<and> known_symbol db (tr_row r)) \<and>
     sorted_wrt apart (db_rows db)"

lemma collide_sym: "collide p q \<longleftrightarrow> collide q p"
  by (auto simp: collide_def ranges_overlap_def)

lemma insert_ok:
  assumes "table_ok db" "sql_insert db i p = Inr db'"
  shows "table_ok db'"
proof -
  from assms(2) have db': "db' = db\<lparr>db_rows := db_rows db @ [\<lparr>tr_policy_id = i, tr_row = p, tr_retired = None\<rparr>]\<rparr>"
    and i: "i \<notin> set (map tr_policy_id (db_rows db))" and p: "row_checks p" "known_symbol db p"
    and free: "\<forall>q \<in> set (current db). \<not> collide p q"
    by (auto simp: sql_insert_def list_ex_iff split: if_splits)
  have "apart r \<lparr>tr_policy_id = i, tr_row = p, tr_retired = None\<rparr>" if "r \<in> set (db_rows db)" for r
    using free that collide_sym [of p "tr_row r"] by (auto simp: apart_def current_def)
  with assms(1) i p show ?thesis
    by (auto simp: table_ok_def db' sorted_wrt_append known_symbol_def)
qed

text \<open>What an update may do to a row: retire it or end it earlier.\<close>

definition shrinks :: "table_row \<Rightarrow> table_row \<Rightarrow> bool" where
  "shrinks r r' \<longleftrightarrow> tr_policy_id r' = tr_policy_id r \<and> (live r' \<longrightarrow> live r) \<and>
     po_symbol (tr_row r') = po_symbol (tr_row r) \<and> (row_checks (tr_row r) \<longrightarrow> row_checks (tr_row r')) \<and>
     (\<forall>q. collide (tr_row r') q \<longrightarrow> collide (tr_row r) q)"

lemma shrinks_refl [simp]: "shrinks r r"
  by (simp add: shrinks_def)

lemma close_shrinks: "close_to d r = Inr r' \<Longrightarrow> shrinks r r'"
  by (auto simp: close_to_def shrinks_def live_def row_checks_def collide_def series_of_def ranges_overlap_def
      split: if_splits)

lemma retire_shrinks: "retire_for reason r = Inr r' \<Longrightarrow> shrinks r r'"
  by (auto simp: retire_for_def shrinks_def live_def split: if_splits)

lemma apart_shrinks: "apart r q \<Longrightarrow> shrinks r r' \<Longrightarrow> shrinks q q' \<Longrightarrow> apart r' q'"
  unfolding apart_def shrinks_def using collide_sym by blast

lemma rows_shrunk:
  assumes "sql_update db sel f = Inr (n, db')" "\<And>r r'. f r = Inr r' \<Longrightarrow> shrinks r r'"
  shows "list_all2 shrinks (db_rows db) (db_rows db')" "db_instruments db' = db_instruments db"
proof -
  from assms(1) have e: "emap (\<lambda>r. if sel r then f r else Inr r) (db_rows db) = Inr (db_rows db')"
    by (auto simp: sql_update_def ebind_eq_Inr)
  show "list_all2 shrinks (db_rows db) (db_rows db')"
    unfolding list_all2_conv_all_nth
  proof (intro conjI allI impI)
    show "length (db_rows db) = length (db_rows db')" using emap_length [OF e] by simp
    fix i assume "i < length (db_rows db)"
    from emap_nth [OF e this] show "shrinks (db_rows db ! i) (db_rows db' ! i)"
      by (auto intro: assms(2) split: if_splits)
  qed
  show "db_instruments db' = db_instruments db" using assms(1) by (auto simp: sql_update_def ebind_eq_Inr)
qed

lemma shrunk_ok:
  assumes "table_ok db" "list_all2 shrinks (db_rows db) (db_rows db')" "db_instruments db' = db_instruments db"
  shows "table_ok db'"
proof -
  have len: "length (db_rows db') = length (db_rows db)" using assms(2) by (simp add: list_all2_lengthD)
  have sh: "shrinks (db_rows db ! i) (db_rows db' ! i)" if "i < length (db_rows db)" for i
    using assms(2) that by (simp add: list_all2_nthD)
  have "map tr_policy_id (db_rows db') = map tr_policy_id (db_rows db)"
    using len sh by (intro nth_equalityI) (auto simp: shrinks_def)
  moreover have "row_checks (tr_row r) \<and> known_symbol db' (tr_row r)" if "r \<in> set (db_rows db')" for r
  proof -
    from that obtain i where i: "i < length (db_rows db)" "r = db_rows db' ! i" by (metis in_set_conv_nth len)
    with assms(1) have "row_checks (tr_row (db_rows db ! i))" "known_symbol db (tr_row (db_rows db ! i))"
      by (auto simp: table_ok_def)
    with sh [OF i(1)] i assms(3) show ?thesis by (simp add: shrinks_def known_symbol_def)
  qed
  moreover have "sorted_wrt apart (db_rows db')"
    unfolding sorted_wrt_iff_nth_less len
  proof (intro allI impI)
    fix i j assume ij: "i < j" "j < length (db_rows db)"
    with assms(1) have "apart (db_rows db ! i) (db_rows db ! j)"
      by (simp add: table_ok_def sorted_wrt_iff_nth_less)
    then show "apart (db_rows db' ! i) (db_rows db' ! j)"
      by (rule apart_shrinks) (use sh ij in auto)
  qed
  ultimately show ?thesis using assms(1) by (simp add: table_ok_def)
qed

lemma update_ok:
  assumes "table_ok db" "sql_update db sel f = Inr (n, db')" "\<And>r r'. f r = Inr r' \<Longrightarrow> shrinks r r'"
  shows "table_ok db'"
  using shrunk_ok [OF assms(1) rows_shrunk [OF assms(2,3)]] .

lemmas updates_ok = update_ok [OF _ _ close_shrinks] update_ok [OF _ _ retire_shrinks]

lemma retire_ids_ok: "retire_ids db rows = Inr db' \<Longrightarrow> table_ok db \<Longrightarrow> table_ok db'"
proof (induction db rows rule: retire_ids.induct)
  case (2 db i reason rows)
  then obtain n db1 where u: "sql_update db (\<lambda>r. tr_policy_id r = i \<and> po_symbol (tr_row r) \<noteq> None \<and> live r) (retire_for reason) = Inr (n, db1)"
    and rest: "n = 1" "retire_ids db1 rows = Inr db'" by (auto simp: ebind_eq_Inr split: if_splits)
  have "table_ok db1" by (rule updates_ok(2) [OF 2(3) u])
  with 2(1) [OF u refl _ rest(2)] rest(1) show ?case by simp
qed simp

lemma insert_all_ok: "insert_all db ids ps = Inr db' \<Longrightarrow> table_ok db \<Longrightarrow> table_ok db'"
  by (induction db ids ps rule: insert_all.induct) (auto simp: ebind_eq_Inr dest: insert_ok)

lemma clear_defaults_ok:
  assumes "clear_defaults db plan = Inr (c, n, db')" "table_ok db"
  shows "table_ok db'"
proof (cases "pn_retire_defaults plan")
  case True
  with assms(1) have "sql_update db (is_default (pn_timeframe plan)) (retire_for (pn_reason plan)) = Inr (n, db')"
    by (auto simp: clear_defaults_def ebind_eq_Inr split: if_splits)
  from updates_ok(2) [OF assms(2) this] show ?thesis .
next
  case False
  with assms(1) have "sql_update db (\<lambda>r. is_default (pn_timeframe plan) r \<and> po_valid_to (tr_row r) = None)
      (close_to (pn_seam plan)) = Inr (c, db')"
    by (auto simp: clear_defaults_def ebind_eq_Inr split: if_splits)
  from updates_ok(1) [OF assms(2) this] show ?thesis .
qed

lemma retire_named_ok:
  assumes "retire_named_symbol_rows db plan retire = Inr (n, db')" "table_ok db"
  shows "table_ok db'"
  using assms by (auto simp: retire_named_symbol_rows_def ebind_eq_Inr Let_def intro: retire_ids_ok)

text \<open>The three stages of an applied plan.\<close>

lemma apply_plan_stages:
  assumes "apply_policy_plan db fp rules ids pn a = Inr (counts, db')"
  obtains n db1 c k db2 db3 where
    "check_plan_preconditions db fp rules pn = Inr ()"
    "(case pn_retire_symbol_rows pn of
        Some retire \<Rightarrow> retire_named_symbol_rows db pn retire
      | None \<Rightarrow> sql_update db (\<lambda>r. po_timeframe (tr_row r) = pn_timeframe pn \<and> po_symbol (tr_row r) \<noteq> None \<and> live r)
                  (retire_for (pn_reason pn))) = Inr (n, db1)"
    "clear_defaults db1 pn = Inr (c, k, db2)" "insert_all db2 ids (pn_defaults pn @ pn_symbol_rows pn) = Inr db3"
    "db' = (if a then db3 else db)"
  using assms unfolding apply_policy_plan_def Let_def
  by (auto simp: ebind_eq_Inr split: prod.splits)

lemma apply_plan_ok:
  assumes "apply_policy_plan db fp rules ids pn a = Inr (counts, db')" "table_ok db"
  shows "table_ok db'"
  using assms(1)
proof (rule apply_plan_stages)
  fix n db1 c k db2 db3
  assume 1: "(case pn_retire_symbol_rows pn of
        Some retire \<Rightarrow> retire_named_symbol_rows db pn retire
      | None \<Rightarrow> sql_update db (\<lambda>r. po_timeframe (tr_row r) = pn_timeframe pn \<and> po_symbol (tr_row r) \<noteq> None \<and> live r)
                  (retire_for (pn_reason pn))) = Inr (n, db1)"
    and 2: "clear_defaults db1 pn = Inr (c, k, db2)"
    and 3: "insert_all db2 ids (pn_defaults pn @ pn_symbol_rows pn) = Inr db3" and db': "db' = (if a then db3 else db)"
  have "table_ok db1"
  proof (cases "pn_retire_symbol_rows pn")
    case None
    from updates_ok(2) [OF assms(2) 1 [unfolded None option.case]] show ?thesis .
  next
    case (Some retire)
    from retire_named_ok [OF 1 [unfolded Some option.case] assms(2)] show ?thesis .
  qed
  then have "table_ok db3" using insert_all_ok [OF 3] clear_defaults_ok [OF 2] by blast
  with db' assms(2) show ?thesis by simp
qed

lemma insert_row_ok: "table_ok db \<Longrightarrow> insert_row db i q = Inr (b, db') \<Longrightarrow> table_ok db'"
  by (auto simp: insert_row_def ebind_eq_Inr split: if_splits dest: insert_ok)

lemma close_row_ok: "table_ok db \<Longrightarrow> close_row db s d tf = Inr (n, db') \<Longrightarrow> table_ok db'"
  unfolding close_row_def by (rule updates_ok(1))

lemma reselect_add_ok: "table_ok db \<Longrightarrow> reselect_add db i q = Inr (w, db') \<Longrightarrow> table_ok db'"
  by (auto simp: reselect_add_def ebind_eq_Inr split: if_splits dest: insert_ok)

lemma reselect_close_ok:
  assumes "table_ok db" "reselect_close db s d tf = Inr (w, db')"
  shows "table_ok db'"
proof -
  from assms(2) obtain n where "sql_update db (open_series_row tf s) (close_to d) = Inr (n, db')"
    by (auto simp: reselect_close_def ebind_eq_Inr split: if_splits)
  from updates_ok(1) [OF assms(1) this] show ?thesis .
qed

lemma retire_row_ok:
  assumes "table_ok db" "retire_symbol_row db s d reason a = Inr (code, db')"
  shows "table_ok db'"
proof -
  from assms(2) consider "db' = db" | n where "sql_update db (live_symbol_row_at s d) (retire_for reason) = Inr (n, db')"
    by (auto simp: retire_symbol_row_def ebind_eq_Inr split: if_splits)
  then show ?thesis using assms(1) by cases (auto intro: updates_ok(2) [OF assms(1)])
qed

lemmas step_facts = insert_ok insert_row_ok close_row_ok reselect_add_ok reselect_close_ok retire_row_ok

lemma policy_step_ok: "table_ok db \<Longrightarrow> policy_step db e db' \<Longrightarrow> table_ok db'"
  by (erule policy_stepE) (erule (1) step_facts apply_plan_ok [rotated])+

lemma empty_table_ok: "empty_table db \<Longrightarrow> table_ok db"
  by (simp add: empty_table_def table_ok_def)

interpretation policy_table: invariant empty_table policy_step table_ok
  by unfold_locales (erule empty_table_ok, erule (1) policy_step_ok)

section \<open>The lookup\<close>

definition in_force :: "policy_db \<Rightarrow> string \<Rightarrow> string option \<Rightarrow> day \<Rightarrow> policy list" where
  "in_force db tf scope d = filter (\<lambda>p. po_timeframe p = tf \<and> po_covers p d \<and> po_symbol p = scope) (current db)"

lemma covers_collide:
  assumes "row_checks p" "row_checks q" "po_covers p d" "po_covers q d" "po_timeframe p = po_timeframe q" "po_symbol p = po_symbol q"
  shows "collide p q"
proof -
  have "until c b" if "until d b" "c \<le> d" for b c using that by (cases b) auto
  with assms show ?thesis
    by (auto simp: collide_def ranges_overlap_def series_of_def row_checks_def po_covers_def until_def [symmetric])
qed

lemma at_most_one:
  assumes "sorted_wrt (\<lambda>x y. \<not> R x y) xs" "\<And>x y. x \<in> set xs \<Longrightarrow> y \<in> set xs \<Longrightarrow> P x \<Longrightarrow> P y \<Longrightarrow> R x y"
  shows "length (filter P xs) \<le> 1"
proof (rule ccontr)
  assume "\<not> length (filter P xs) \<le> 1"
  then obtain x y zs where f: "filter P xs = x # y # zs" by (cases "filter P xs"; cases "tl (filter P xs)") auto
  have "x \<in> set (filter P xs)" "y \<in> set (filter P xs)" unfolding f by simp_all
  then have "x \<in> set xs" "y \<in> set xs" "P x" "P y" by simp_all
  moreover have "sorted_wrt (\<lambda>x y. \<not> R x y) (filter P xs)" using assms(1) by (rule sorted_wrt_filter)
  ultimately show False using assms(2) [of x y] unfolding f by simp
qed

lemma current_apart:
  assumes "table_ok db"
  shows "sorted_wrt (\<lambda>p q. \<not> collide p q) (current db)" "\<forall>p \<in> set (current db). row_checks p"
proof -
  have "sorted_wrt apart (filter live (db_rows db))" using assms by (simp add: table_ok_def sorted_wrt_filter)
  then have "sorted_wrt (\<lambda>r q. \<not> collide (tr_row r) (tr_row q)) (filter live (db_rows db))"
    by (rule sorted_wrt_mono_rel [rotated]) (auto simp: apart_def)
  then show "sorted_wrt (\<lambda>p q. \<not> collide p q) (current db)" by (simp add: current_def sorted_wrt_map)
  show "\<forall>p \<in> set (current db). row_checks p" using assms by (auto simp: current_def table_ok_def)
qed

lemma one_in_force:
  assumes "table_ok db"
  shows "length (in_force db tf scope d) \<le> 1"
  unfolding in_force_def
  by (rule at_most_one [OF current_apart(1) [OF assms]]) (use current_apart(2) [OF assms] in \<open>auto intro: covers_collide\<close>)

lemma in_force_unique:
  assumes "table_ok db" "p \<in> set (in_force db tf scope d)"
  shows "in_force db tf scope d = [p]"
  using one_in_force [OF assms(1), of tf scope d] assms(2) by (cases "in_force db tf scope d") auto

lemma resolve_scope_rows: "daily.scope_rows (current db) scope d = in_force db TIMEFRAME scope d"
  by (simp add: daily.scope_rows_def in_force_def conj_assoc)

lemma resolve_in_force:
  assumes "table_ok db"
  shows "resolve_policy (current db) s d =
    (case in_force db TIMEFRAME (Some s) d of
       p # _ \<Rightarrow> Inr p
     | [] \<Rightarrow> (case in_force db TIMEFRAME None d of p # _ \<Rightarrow> Inr p | [] \<Rightarrow> Inl LookupError))"
proof -
  have two: "\<not> (\<exists>a b cs. in_force db TIMEFRAME sc d = a # b # cs)" for sc
    using one_in_force [OF assms, of TIMEFRAME sc d] by auto
  show ?thesis
    unfolding daily.lookup_cases resolve_scope_rows
    using two [of "Some s"] two [of None] by (auto split: list.split)
qed

lemma resolve_symbol:
  "table_ok db \<Longrightarrow> p \<in> set (in_force db TIMEFRAME (Some s) d) \<Longrightarrow> resolve_policy (current db) s d = Inr p"
  by (simp add: resolve_in_force in_force_unique)

lemma resolve_default:
  "table_ok db \<Longrightarrow> in_force db TIMEFRAME (Some s) d = [] \<Longrightarrow> p \<in> set (in_force db TIMEFRAME None d) \<Longrightarrow>
   resolve_policy (current db) s d = Inr p"
  by (simp add: resolve_in_force in_force_unique)

text \<open>C22. The policy table.  In every state the writer's commands and the migrations' inserts reach, ids are unique, every
  row passes the checks, at most one live row of a series is in force on a date, and so the lookup of the daily rule is
  never ambiguous: it returns the symbol's row in force, else the default in force, else raises.\<close>

lemma policy_table_unambiguous:
  assumes "reachable empty_table policy_step db"
  shows "distinct (map tr_policy_id (db_rows db)) \<and> list_all (\<lambda>r. row_checks (tr_row r)) (db_rows db) \<and>
    length (in_force db tf scope d) \<le> 1 \<and>
    resolve_policy (current db) s d =
      (case in_force db TIMEFRAME (Some s) d of
         p # _ \<Rightarrow> Inr p
       | [] \<Rightarrow> (case in_force db TIMEFRAME None d of p # _ \<Rightarrow> Inr p | [] \<Rightarrow> Inl LookupError))"
proof -
  note ok = policy_table.reachable_inv [OF assms]
  show ?thesis
    by (intro conjI one_in_force [OF ok] resolve_in_force [OF ok]) (use ok in \<open>auto simp: table_ok_def list_all_iff\<close>)
qed

section \<open>The closing command and retired rows\<close>

text \<open>The closing statement of \<open>--close\<close> skips retired rows; the one of \<open>--close --reselect\<close> selects a retired row that was
  open when it was retired, and the append-only trigger refuses the whole statement.\<close>

lemma reselect_close_blocked:
  assumes "r \<in> set (db_rows db)" "open_series_row tf s r" "\<not> live r"
  shows "\<exists>e. reselect_close db s d tf = Inl e"
proof -
  let ?f = "\<lambda>r. if open_series_row tf s r then close_to d r else Inr r"
  have "?f r = Inl IntegrityViolation" using assms by (simp add: close_to_def)
  from emap_fails [where f = ?f, OF assms(1) this] obtain e where "emap ?f (db_rows db) = Inl e" by blast
  then show ?thesis by (simp add: reselect_close_def sql_update_def)
qed

definition ex_db0 :: policy_db where
  "ex_db0 = \<lparr>db_rows = [], db_instruments = [''SPY'']\<rparr>"

definition ex_request :: "day \<Rightarrow> string \<Rightarrow> add_request" where
  "ex_request d primary = \<lparr>rq_timeframe = ''5m'', rq_symbol = ''SPY'', rq_valid_from = d, rq_valid_to = None, rq_primary = primary,
     rq_fallback = None\<rparr>"

definition ex_seeds :: "(string \<times> policy) list" where
  "ex_seeds =
     [(''d'', new_row ''1d'' None 10 None ''alpaca'' (Some ''ibkr'')), (''s'', new_row ''1d'' (Some ''SPY'') 20 (Some 30) ''ibkr'' None),
      (''o'', new_row ''5m'' (Some ''SPY'') 10 None ''ibkr'' None), (''e'', new_row ''5m'' None 10 None ''ibkr'' None)]"

fun seeded :: "policy_db \<Rightarrow> (string \<times> policy) list \<Rightarrow> policy_db" where
  "seeded db [] = db"
| "seeded db ((i, p) # ps) = seeded (projr (sql_insert db i p)) ps"

definition ex_db4 :: policy_db where "ex_db4 = seeded ex_db0 ex_seeds"

definition ex_plan_5m :: policy_plan where
  "ex_plan_5m = \<lparr>pn_timeframe = ''5m'', pn_seam = 40, pn_defaults = [new_row ''5m'' None 40 None ''alpaca'' (Some ''ibkr'')],
     pn_reason = ''D'', pn_retire_defaults = True, pn_symbol_rows = [], pn_retire_symbol_rows = None,
     pn_keep_symbol_rows = [], pn_retire_default_ids = None, pn_raw_fingerprint = None, pn_hold = [], pn_quarantine = [],
     pn_quarantine_rule = None\<rparr>"

fun seeds_ok :: "policy_db \<Rightarrow> (string \<times> policy) list \<Rightarrow> bool" where
  "seeds_ok db [] \<longleftrightarrow> True"
| "seeds_ok db ((i, p) # ps) \<longleftrightarrow> (case sql_insert db i p of Inl e \<Rightarrow> False | Inr db' \<Rightarrow> seeds_ok db' ps)"

lemma seeded_reachable:
  "reachable empty_table policy_step db \<Longrightarrow> seeds_ok db ps \<Longrightarrow> reachable empty_table policy_step (seeded db ps)"
  by (induction db ps rule: seeds_ok.induct) (auto intro: reachable_step policy_step.seed split: sum.splits)

lemma ex_db4_reachable: "reachable empty_table policy_step ex_db4"
  unfolding ex_db4_def
  by (rule seeded_reachable [OF reachable_init]) (simp add: empty_table_def ex_db0_def, code_simp)

text \<open>A 5m plan retires SPY's open row; after a new open row is added, \<open>--close\<close> works and \<open>--close --reselect\<close> raises.\<close>

definition ex_db5 :: policy_db where
  "ex_db5 = snd (projr (insert_row (snd (projr (apply_policy_plan ex_db4 \<lparr>fp_through = 0, fp_series = []\<rparr> [] [''n''] ex_plan_5m True)))
     ''m'' (ex_request 50 ''alpaca'')))"

lemma ex_reselect_blocked:
  "reselect_close ex_db5 ''SPY'' 60 ''5m'' = Inl IntegrityViolation \<and>
   map_option fst (case close_row ex_db5 ''SPY'' 60 ''5m'' of Inl e \<Rightarrow> None | Inr x \<Rightarrow> Some x) = Some 1"
  by code_simp

lemma policy_table_unambiguous_witness:
  "resolve_policy (current ex_db4) ''SPY'' 25 = Inr (new_row ''1d'' (Some ''SPY'') 20 (Some 30) ''ibkr'' None) \<and>
   resolve_policy (current ex_db4) ''SPY'' 30 = Inr (new_row ''1d'' None 10 None ''alpaca'' (Some ''ibkr''))"
proof -
  have "in_force ex_db4 TIMEFRAME (Some ''SPY'') 25 = [new_row ''1d'' (Some ''SPY'') 20 (Some 30) ''ibkr'' None]"
    "in_force ex_db4 TIMEFRAME (Some ''SPY'') 30 = []"
    "in_force ex_db4 TIMEFRAME None 30 = [new_row ''1d'' None 10 None ''alpaca'' (Some ''ibkr'')]"
    by code_simp+
  moreover have "in_force ex_db4 TIMEFRAME None 25 = [new_row ''1d'' None 10 None ''alpaca'' (Some ''ibkr'')]" by code_simp
  ultimately show ?thesis
    using policy_table_unambiguous [OF ex_db4_reachable, of "''1d''" None 25 "''SPY''"]
      policy_table_unambiguous [OF ex_db4_reachable, of "''1d''" None 30 "''SPY''"] by simp
qed

end
