(* ===== verification/Arbitration_Correct.thy ===== *)
theory Arbitration_Correct
  imports Source_Policy_Correct
begin

text \<open>
  Correctness of the arbitration together with the policy writer and the daily rule's lookup: the spans of a name, the
  plan file that parses, and which vendor the table names on every judged date once the plan is applied.
\<close>

section \<open>Runs\<close>

lemma sorted_last_less: "sorted_wrt (<) (xs @ y # ys) \<Longrightarrow> xs \<noteq> [] \<Longrightarrow> last xs < (y :: int)"
  by (simp add: sorted_wrt_append)

lemma sorted_ends: "sorted_wrt (<) (xs :: int list) \<Longrightarrow> x \<in> set xs \<Longrightarrow> hd xs \<le> x \<and> x \<le> last xs"
  by (simp add: strict_sorted_iff sorted_bounds)

definition run_ok :: "(day \<Rightarrow> bool) \<Rightarrow> day list \<Rightarrow> day list \<Rightarrow> bool" where
  "run_ok ok ds r \<longleftrightarrow> r \<noteq> [] \<and> sorted_wrt (<) r \<and> (\<forall>d \<in> set r. d \<in> set ds \<and> \<not> ok d) \<and>
     (\<forall>d \<in> set ds. hd r \<le> d \<longrightarrow> d \<le> last r \<longrightarrow> d \<in> set r)"

definition split_by :: "(day \<Rightarrow> bool) \<Rightarrow> day list \<Rightarrow> day list \<Rightarrow> day list \<Rightarrow> bool" where
  "split_by ok ds r s \<longleftrightarrow> (\<exists>d \<in> set ds. ok d \<and> last r < d \<and> d < hd s)"

lemma split_by_mono: "split_by ok ds r s \<Longrightarrow> set ds \<subseteq> set ds' \<Longrightarrow> split_by ok ds' r s"
  unfolding split_by_def by blast

lemma split_runs_facts:
  assumes "sorted_wrt (<) (blk @ ds)" "\<forall>d \<in> set blk. \<not> ok d"
  shows "(\<forall>r \<in> set (split_runs ok ds blk). run_ok ok (blk @ ds) r) \<and>
    sorted_wrt (split_by ok (blk @ ds)) (split_runs ok ds blk) \<and>
    {d \<in> set (blk @ ds). \<not> ok d} = \<Union> (set ` set (split_runs ok ds blk))"
  using assms
proof (induction ok ds blk rule: split_runs.induct)
  case (1 ok blk)
  then show ?case by (auto simp: run_ok_def)
next
  case (2 ok d ds blk)
  show ?case
  proof (cases "ok d")
    case False
    with 2 show ?thesis by simp
  next
    case True
    let ?rest = "split_runs ok ds []"
    have sorted: "sorted_wrt (<) ds" "\<forall>x \<in> set blk. \<forall>y \<in> set (d # ds). x < y" "\<forall>y \<in> set ds. d < y" "sorted_wrt (<) blk"
      using 2(4) by (auto simp: sorted_wrt_append)
    have ih: "(\<forall>r \<in> set ?rest. run_ok ok ds r) \<and> sorted_wrt (split_by ok ds) ?rest \<and>
        {d \<in> set ds. \<not> ok d} = \<Union> (set ` set ?rest)"
      using 2(1,2) True sorted(1) by (cases "blk = []") auto
    have rest: "run_ok ok (blk @ d # ds) r" if r: "r \<in> set ?rest" for r
    proof -
      from ih r have ok: "run_ok ok ds r" by blast
      then have "hd r \<in> set ds" by (simp add: run_ok_def)
      with ok sorted show ?thesis by (fastforce simp: run_ok_def)
    qed
    have rs: "sorted_wrt (split_by ok (blk @ d # ds)) ?rest"
      by (rule sorted_wrt_mono_rel [OF _ conjunct1 [OF conjunct2 [OF ih]]]) (auto intro: split_by_mono)
    show ?thesis
    proof (cases "blk = []")
      case True
      with \<open>ok d\<close> ih rest rs show ?thesis by auto
    next
      case False
      have "run_ok ok (blk @ d # ds) blk"
        unfolding run_ok_def
      proof (intro conjI ballI impI)
        fix x assume x: "x \<in> set (blk @ d # ds)" "x \<le> last blk"
        have "last blk \<in> set blk" using False by simp
        with x sorted(2) show "x \<in> set blk" by (metis UnE leD set_append)
      qed (use False 2(5) sorted(4) in auto)
      moreover have "split_by ok (blk @ d # ds) blk r" if "r \<in> set ?rest" for r
      proof -
        have "hd r \<in> set ds" using ih that by (simp add: run_ok_def)
        with sorted False \<open>ok d\<close> show ?thesis unfolding split_by_def by (intro bexI [of _ d]) auto
      qed
      moreover have "{x \<in> set (blk @ d # ds). \<not> ok x} = set blk \<union> {x \<in> set ds. \<not> ok x}" using \<open>ok d\<close> 2(5) by auto
      moreover have "split_runs ok (d # ds) blk = blk # ?rest" using \<open>ok d\<close> False by simp
      ultimately show ?thesis using conjunct2 [OF conjunct2 [OF ih]] rest rs by simp
    qed
  qed
qed

section \<open>The spans of a name\<close>

lemma common_sorted: "distinct (map fst alpaca) \<Longrightarrow> sorted_wrt (<) (common_sessions params alpaca ibkr)"
  by (simp add: common_sessions_def strict_sorted_iff)

lemma pre_sorted: "distinct (map fst alpaca) \<Longrightarrow> sorted_wrt (<) (pre_sessions params alpaca ibkr)"
  by (simp add: pre_sessions_def strict_sorted_iff)

abbreviation agreed :: "arb_params \<Rightarrow> closes \<Rightarrow> closes \<Rightarrow> day \<Rightarrow> bool" where
  "agreed params alpaca ibkr d \<equiv> agree (px ibkr d) (px alpaca d) (ap_tolerance_bp params)"

lemma disagreeing_facts:
  assumes "distinct (map fst alpaca)"
  shows "r \<in> set (disagreeing_runs params alpaca ibkr) \<Longrightarrow> run_ok (agreed params alpaca ibkr) (common_sessions params alpaca ibkr) r"
    "sorted_wrt (split_by (agreed params alpaca ibkr) (common_sessions params alpaca ibkr)) (disagreeing_runs params alpaca ibkr)"
  using split_runs_facts [of "[]" "common_sessions params alpaca ibkr" "agreed params alpaca ibkr"] common_sorted [OF assms]
  by (auto simp: disagreeing_runs_def)

lemma span_of_fields:
  assumes "span_of symbol blk alpaca ibkr tradier params l = Inr sp"
  shows "as_symbol sp = symbol" "as_start sp = hd blk" "as_end sp = last blk" "row_end sp = last blk + 1"
    "as_cls sp \<noteq> PRE_IBKR_HISTORY"
  using assms by (auto simp: span_of_def Let_def ebind_eq_Inr row_end_def classify_span_def span_classes split: if_splits)

lemma pre_ibkr_fields:
  assumes "pre_ibkr symbol pre alpaca ibkr tradier params sessions v = Inr sp"
  shows "as_symbol sp = symbol" "as_start sp = hd pre" "as_end sp = last pre"
    "row_end sp = (case key_min ibkr of None \<Rightarrow> last pre + 1 | Some h \<Rightarrow> h)"
  using assms by (auto simp: pre_ibkr_def Let_def ebind_eq_Inr row_end_def split: option.splits prod.splits)

lemma key_min_le: "d \<in> set (map fst m) \<Longrightarrow> \<exists>h. key_min m = Some h \<and> h \<le> d"
  by (auto simp: key_min_def)

lemma common_after_head: "d \<in> set (common_sessions params alpaca ibkr) \<Longrightarrow> \<exists>h. key_min ibkr = Some h \<and> h \<le> d"
  by (rule key_min_le) (simp add: common_sessions_def)

text \<open>The spans of a result are the optional span before IBKR's head and one per disagreeing run, apart and in order.\<close>

lemma arbitrate_spans:
  assumes "arbitrate symbol alpaca ibkr tradier params sessions v = Inr r" "distinct (map fst alpaca)"
  obtains first spans where "na_spans r = first @ spans" "na_symbol r = symbol"
    "first = [] \<and> pre_sessions params alpaca ibkr = [] \<or>
     (\<exists>sp. first = [sp] \<and> pre_sessions params alpaca ibkr \<noteq> [] \<and>
       pre_ibkr symbol (pre_sessions params alpaca ibkr) alpaca ibkr tradier params sessions v = Inr sp)"
    "list_all2 (\<lambda>blk sp. span_of symbol blk alpaca ibkr tradier params (last (common_sessions params alpaca ibkr)) = Inr sp)
       (disagreeing_runs params alpaca ibkr) spans"
    "sorted_wrt (\<lambda>a b. row_end a \<le> as_start b) (first @ spans)"
    "\<forall>sp \<in> set (first @ spans). as_symbol sp = symbol \<and> as_start sp \<le> as_end sp \<and> as_end sp < row_end sp \<and>
       in_window params (as_start sp)"
proof -
  let ?common = "common_sessions params alpaca ibkr" and ?pre = "pre_sessions params alpaca ibkr"
    and ?runs = "disagreeing_runs params alpaca ibkr"
  from assms(1) obtain first spans where first: "(if ?pre = [] then Inr []
        else ebind (pre_ibkr symbol ?pre alpaca ibkr tradier params sessions v) (\<lambda>sp. Inr [sp])) = Inr first"
    and spans: "emap (\<lambda>blk. span_of symbol blk alpaca ibkr tradier params (last ?common)) ?runs = Inr spans"
    and r: "na_spans r = sort_key as_start (first @ spans)" "na_symbol r = symbol"
    by (auto simp: arbitrate_def Let_def ebind_eq_Inr)
  have f: "first = [] \<and> ?pre = [] \<or> (\<exists>sp. first = [sp] \<and> ?pre \<noteq> [] \<and>
      pre_ibkr symbol ?pre alpaca ibkr tradier params sessions v = Inr sp)"
    using first by (auto simp: ebind_eq_Inr split: if_splits)
  have len: "length spans = length ?runs" using emap_length [OF spans] .
  have nth: "span_of symbol (?runs ! i) alpaca ibkr tradier params (last ?common) = Inr (spans ! i)" if "i < length ?runs" for i
    using emap_nth [OF spans that] .
  have all2: "list_all2 (\<lambda>blk sp. span_of symbol blk alpaca ibkr tradier params (last ?common) = Inr sp) ?runs spans"
    using len nth by (simp add: list_all2_conv_all_nth)
  have blk: "run_ok (agreed params alpaca ibkr) ?common (?runs ! i)" if "i < length ?runs" for i
    using disagreeing_facts(1) [OF assms(2)] that by simp
  have window: "in_window params d" if "d \<in> set ?common \<or> d \<in> set ?pre" for d
    using that by (auto simp: common_sessions_def pre_sessions_def)
  have span: "as_symbol sp = symbol \<and> as_start sp \<in> set ?common \<and> as_start sp \<le> as_end sp \<and> as_end sp < row_end sp"
    if "sp \<in> set spans" for sp
  proof -
    from that obtain i where i: "i < length ?runs" "sp = spans ! i" by (metis in_set_conv_nth len)
    have "hd (?runs ! i) \<le> last (?runs ! i)" "hd (?runs ! i) \<in> set ?common"
    proof -
      from blk [OF i(1)] have b: "?runs ! i \<noteq> []" "sorted_wrt (<) (?runs ! i)" "\<forall>d \<in> set (?runs ! i). d \<in> set ?common"
        unfolding run_ok_def by blast+
      from sorted_ends [OF b(2) hd_in_set [OF b(1)]] show "hd (?runs ! i) \<le> last (?runs ! i)" by blast
      from b(3) hd_in_set [OF b(1)] show "hd (?runs ! i) \<in> set ?common" by blast
    qed
    with span_of_fields [OF nth [OF i(1)]] i show ?thesis by simp
  qed
  have pre: "as_symbol sp = symbol \<and> as_start sp \<in> set ?pre \<and> as_start sp \<le> as_end sp \<and> as_end sp < row_end sp \<and>
      (\<forall>d \<in> set ?common. row_end sp \<le> d)" if "sp \<in> set first" for sp
  proof -
    from that f have ne: "?pre \<noteq> []" and p: "pre_ibkr symbol ?pre alpaca ibkr tradier params sessions v = Inr sp" by auto
    note fields = pre_ibkr_fields [OF p]
    have "hd ?pre \<le> last ?pre" using ne sorted_ends [OF pre_sorted [OF assms(2)]] by simp
    moreover have "last ?pre < (case key_min ibkr of None \<Rightarrow> last ?pre + 1 | Some h \<Rightarrow> h)"
      using last_in_set [OF ne] by (auto simp: pre_sessions_def split: option.split)
    moreover have "\<forall>d \<in> set ?common. (case key_min ibkr of None \<Rightarrow> last ?pre + 1 | Some h \<Rightarrow> h) \<le> d"
      using common_after_head by fastforce
    ultimately show ?thesis using ne fields by simp
  qed
  have apart: "sorted_wrt (\<lambda>a b. row_end a \<le> as_start b) spans"
    unfolding sorted_wrt_iff_nth_less len
  proof (intro allI impI)
    fix i j assume ij: "i < j" "j < length ?runs"
    then have "split_by (agreed params alpaca ibkr) ?common (?runs ! i) (?runs ! j)"
      using disagreeing_facts(2) [OF assms(2)] by (simp add: sorted_wrt_iff_nth_less)
    then have "last (?runs ! i) + 1 \<le> hd (?runs ! j)" by (auto simp: split_by_def)
    moreover have "row_end (spans ! i) = last (?runs ! i) + 1" "as_start (spans ! j) = hd (?runs ! j)"
      using span_of_fields(4) [OF nth [of i]] span_of_fields(2) [OF nth [OF ij(2)]] ij by simp_all
    ultimately show "row_end (spans ! i) \<le> as_start (spans ! j)" by simp
  qed
  have all: "sorted_wrt (\<lambda>a b. row_end a \<le> as_start b) (first @ spans)"
    unfolding sorted_wrt_append using apart pre span f by auto
  have "sorted_wrt (\<lambda>a b. as_start a \<le> as_start b) (first @ spans)"
    by (rule sorted_wrt_mono_rel [OF _ all]) (use pre span in fastforce)
  then have ns: "na_spans r = first @ spans" unfolding r by (intro sort_key_id_if_sorted) (simp only: sorted_map)
  show ?thesis by (rule that [OF ns r(2) f all2 all]) (use pre span window in auto)
qed

text \<open>A session on which the two vendors agree lies outside every span and its row.\<close>

lemma agreed_outside:
  assumes "arbitrate symbol alpaca ibkr tradier params sessions v = Inr r" "distinct (map fst alpaca)"
    and d: "d \<in> set (common_sessions params alpaca ibkr)" "agreed params alpaca ibkr d"
    and sp: "sp \<in> set (na_spans r)"
  shows "\<not> (as_start sp \<le> d \<and> d < row_end sp)"
proof -
  from assms(1,2) obtain first spans where r: "na_spans r = first @ spans"
    and f: "first = [] \<and> pre_sessions params alpaca ibkr = [] \<or>
     (\<exists>sp. first = [sp] \<and> pre_sessions params alpaca ibkr \<noteq> [] \<and>
       pre_ibkr symbol (pre_sessions params alpaca ibkr) alpaca ibkr tradier params sessions v = Inr sp)"
    and all2: "list_all2 (\<lambda>blk sp. span_of symbol blk alpaca ibkr tradier params (last (common_sessions params alpaca ibkr)) = Inr sp)
       (disagreeing_runs params alpaca ibkr) spans"
    by (rule arbitrate_spans) blast
  from sp r consider "sp \<in> set first" | "sp \<in> set spans" by auto
  then show ?thesis
  proof cases
    case 1
    with f have "pre_ibkr symbol (pre_sessions params alpaca ibkr) alpaca ibkr tradier params sessions v = Inr sp" by auto
    from pre_ibkr_fields(4) [OF this] common_after_head [OF d(1)] show ?thesis by auto
  next
    case 2
    then obtain i where i: "i < length spans" "sp = spans ! i" by (metis in_set_conv_nth)
    let ?b = "disagreeing_runs params alpaca ibkr ! i"
    have len: "i < length (disagreeing_runs params alpaca ibkr)" using i all2 by (simp add: list_all2_lengthD)
    note fields = span_of_fields [OF list_all2_nthD [OF all2 len]]
    have b: "run_ok (agreed params alpaca ibkr) (common_sessions params alpaca ibkr) ?b"
      using disagreeing_facts(1) [OF assms(2)] len by simp
    show ?thesis
    proof
      assume "as_start sp \<le> d \<and> d < row_end sp"
      then have "hd ?b \<le> d" "d \<le> last ?b" using fields i by simp_all
      with b d(1) have "d \<in> set ?b" by (simp add: run_ok_def)
      with b d(2) show False by (simp add: run_ok_def)
    qed
  qed
qed

section \<open>The table after the plan\<close>

lemma retired_live:
  assumes "sql_update db sel (retire_for reason) = Inr (n, db')"
  shows "filter live (db_rows db') = filter (\<lambda>r. live r \<and> \<not> sel r) (db_rows db)"
proof -
  from assms have e: "emap (\<lambda>r. if sel r then retire_for reason r else Inr r) (db_rows db) = Inr (db_rows db')"
    by (auto simp: sql_update_def ebind_eq_Inr)
  have "filter live ys = filter (\<lambda>r. live r \<and> \<not> sel r) xs"
    if "emap (\<lambda>r. if sel r then retire_for reason r else Inr r) xs = Inr ys" for xs ys
    using that
  proof (induction xs arbitrary: ys)
    case (Cons x xs)
    then show ?case by (auto simp: ebind_eq_Inr retire_for_def live_def split: if_splits)
  qed simp
  from this [OF e] show ?thesis .
qed

lemma filter_chain: "filter P xs = ys \<Longrightarrow> filter (\<lambda>x. P x \<and> Q x) xs = filter Q ys"
  by (auto simp: conj_commute)

lemma retired_ids_live:
  assumes "retire_ids db rows = Inr db'"
  shows "filter live (db_rows db') =
    filter (\<lambda>r. live r \<and> \<not> (tr_policy_id r \<in> set (map fst rows) \<and> po_symbol (tr_row r) \<noteq> None)) (db_rows db)"
  using assms
proof (induction db rows rule: retire_ids.induct)
  case (2 db i reason rows)
  then obtain n db1 where u: "sql_update db (\<lambda>r. tr_policy_id r = i \<and> po_symbol (tr_row r) \<noteq> None \<and> live r) (retire_for reason) = Inr (n, db1)"
    and n: "n = 1" "retire_ids db1 rows = Inr db'" by (auto simp: ebind_eq_Inr split: if_splits)
  from 2(1) [OF u refl _ n(2)] n(1) have ih: "filter live (db_rows db') =
      filter (\<lambda>r. live r \<and> \<not> (tr_policy_id r \<in> set (map fst rows) \<and> po_symbol (tr_row r) \<noteq> None)) (db_rows db1)" by simp
  show ?case unfolding ih filter_chain [OF retired_live [OF u]] filter_filter
    by (rule filter_cong) auto
qed simp

lemma inserted_rows:
  assumes "insert_all db ids ps = Inr db'"
  shows "current db' = current db @ ps"
  using assms
  by (induction db ids ps arbitrary: rule: insert_all.induct)
    (auto simp: ebind_eq_Inr sql_insert_def current_def live_def split: if_splits)

lemma parse_plan_fields:
  assumes "parse_plan raw = Inr plan"
  obtains seam ds ev where "rp_timeframe raw = Some (pn_timeframe plan)" "rp_seam raw = Some seam"
    "rp_defaults raw = Some ds" "rp_evidence raw = Some ev"
    "plan_checks raw (pn_timeframe plan) seam ev (pn_defaults plan) (pn_symbol_rows plan) = Inr ()"
    "pn_defaults plan = sort_key po_valid_from (map (default_row (pn_timeframe plan)) ds)"
    "pn_symbol_rows plan = sort_key (\<lambda>r. (the (po_symbol r), po_valid_from r)) (map (symbol_row (pn_timeframe plan)) (rp_symbol_rows raw))"
    "pn_retire_symbol_rows plan = rp_retire_symbol_rows raw"
    "pn_keep_symbol_rows plan = (if rp_retire_symbol_rows raw \<noteq> None then rp_keep_symbol_rows raw else [])"
    "pn_retire_defaults plan = rp_retire_defaults raw"
  using assms
  by (auto simp: parse_plan_def Let_def ebind_eq_Inr split: option.splits)

section \<open>The plan that is applied\<close>

text \<open>What the arbitration decides for a date of the Alpaca era: IBKR inside a span it writes a row for, else the Alpaca
  default.\<close>

definition decided :: "name_arbitration \<Rightarrow> arb_params \<Rightarrow> day \<Rightarrow> policy" where
  "decided r params d =
     (case find (\<lambda>sp. writes_row (span_action sp params) \<and> as_start sp \<le> d \<and> d < row_end sp) (na_spans r) of
        Some sp \<Rightarrow> new_row ''1d'' (Some (na_symbol r)) (as_start sp) (Some (row_end sp)) ''ibkr'' None
      | None \<Rightarrow> new_row ''1d'' None SEAM None ''alpaca'' (Some ''ibkr''))"

definition plan_defaults :: "policy list" where
  "plan_defaults =
     [new_row ''1d'' None POLICY_EPOCH (Some SEAM) ''ibkr'' None, new_row ''1d'' None SEAM None ''alpaca'' (Some ''ibkr'')]"

lemma acted_member:
  "(s, sp, a) \<in> set (acted_spans results params) \<longleftrightarrow>
   (\<exists>r \<in> set results. na_symbol r = s \<and> sp \<in> set (na_spans r) \<and> a = span_action sp params)"
  by (auto simp: acted_spans_def)

definition row_of_span :: "string \<Rightarrow> arb_span \<Rightarrow> policy" where
  "row_of_span s sp = new_row ''1d'' (Some s) (as_start sp) (Some (row_end sp)) ''ibkr'' None"

lemma built_rows:
  assumes "pl_window_end_spans (build_plan results live_rows params ids fp) = []"
  shows "pl_symbol_rows (build_plan results live_rows params ids fp) =
      map (\<lambda>(s, sp, a). plan_row_of s sp a) (filter (\<lambda>(_, _, a). writes_row a) (acted_spans results params))"
    "\<forall>(s, sp, a) \<in> set (acted_spans results params). \<not> past_window params sp a"
    "pl_hold (build_plan results live_rows params ids fp) =
      map (\<lambda>(_, sp, _). sp) (filter (\<lambda>(_, _, a). a = Hold) (acted_spans results params))"
proof -
  let ?acted = "acted_spans results params"
  have none: "filter (\<lambda>(s, sp, a). past_window params sp a) ?acted = []"
    using assms by (simp add: build_plan_def Let_def)
  then show "\<forall>(s, sp, a) \<in> set ?acted. \<not> past_window params sp a" by (auto simp: filter_empty_conv)
  have all: "filter (\<lambda>(s, sp, a). \<not> past_window params sp a) ?acted = ?acted"
    using none by (fastforce simp: filter_empty_conv intro: filter_True)
  show "pl_symbol_rows (build_plan results live_rows params ids fp) =
      map (\<lambda>(s, sp, a). plan_row_of s sp a) (filter (\<lambda>(_, _, a). writes_row a) ?acted)"
    "pl_hold (build_plan results live_rows params ids fp) =
      map (\<lambda>(_, sp, _). sp) (filter (\<lambda>(_, _, a). a = Hold) ?acted)"
    by (simp_all only: build_plan_def Let_def all plan_doc.simps)
qed

text \<open>The rows a plan that parses inserts.\<close>

lemma built_plan_rows:
  assumes "parse_plan (raw_of_plan (build_plan results live_rows params ids fp)) = Inr plan"
  shows "pn_timeframe plan = ''1d''" "pn_defaults plan = plan_defaults" "pn_retire_defaults plan"
    "p \<in> set (pn_symbol_rows plan) \<longleftrightarrow>
      (\<exists>r \<in> set results. \<exists>sp \<in> set (na_spans r). writes_row (span_action sp params) \<and> p = row_of_span (na_symbol r) sp)"
    "pn_retire_symbol_rows plan = rp_retire_symbol_rows (raw_of_plan (build_plan results live_rows params ids fp))"
    "pn_keep_symbol_rows plan = rp_keep_symbol_rows (raw_of_plan (build_plan results live_rows params ids fp))"
proof -
  let ?doc = "build_plan results live_rows params ids fp" and ?acted = "acted_spans results params"
  obtain seam ds ev where f: "rp_timeframe (raw_of_plan ?doc) = Some (pn_timeframe plan)" "rp_seam (raw_of_plan ?doc) = Some seam"
    "rp_defaults (raw_of_plan ?doc) = Some ds" "rp_evidence (raw_of_plan ?doc) = Some ev"
    and c: "plan_checks (raw_of_plan ?doc) (pn_timeframe plan) seam ev (pn_defaults plan) (pn_symbol_rows plan) = Inr ()"
    and d: "pn_defaults plan = sort_key po_valid_from (map (default_row (pn_timeframe plan)) ds)"
    and s: "pn_symbol_rows plan = sort_key (\<lambda>r. (the (po_symbol r), po_valid_from r))
        (map (symbol_row (pn_timeframe plan)) (rp_symbol_rows (raw_of_plan ?doc)))"
    and r: "pn_retire_symbol_rows plan = rp_retire_symbol_rows (raw_of_plan ?doc)"
      "pn_keep_symbol_rows plan = (if rp_retire_symbol_rows (raw_of_plan ?doc) \<noteq> None then rp_keep_symbol_rows (raw_of_plan ?doc) else [])"
      "pn_retire_defaults plan = rp_retire_defaults (raw_of_plan ?doc)"
    using assms by (rule parse_plan_fields)
  from f(1) show tf: "pn_timeframe plan = ''1d''" by (simp add: raw_of_plan_def build_plan_def Let_def)
  show "pn_retire_defaults plan" using r(3) by (simp add: raw_of_plan_def build_plan_def Let_def)
  show "pn_retire_symbol_rows plan = rp_retire_symbol_rows (raw_of_plan ?doc)" by (rule r(1))
  show "pn_keep_symbol_rows plan = rp_keep_symbol_rows (raw_of_plan ?doc)" using r(2) by (simp add: raw_of_plan_def)
  from f(3) have ds: "ds = [\<lparr>pd_valid_from = POLICY_EPOCH, pd_valid_to = Some SEAM, pd_primary = ''ibkr'', pd_fallback = None\<rparr>,
             \<lparr>pd_valid_from = SEAM, pd_valid_to = None, pd_primary = ''alpaca'', pd_fallback = Some ''ibkr''\<rparr>]"
    by (simp add: raw_of_plan_def build_plan_def Let_def)
  show "pn_defaults plan = plan_defaults"
    unfolding d ds tf by (simp add: default_row_def plan_defaults_def new_row_def SEAM_def POLICY_EPOCH_def)
  have "rp_window_end_spans (raw_of_plan ?doc) = 0"
    using c by (simp add: plan_checks_def Let_def ebind_eq_Inr refuse_if_def split: if_splits)
  then have "pl_window_end_spans ?doc = []" by (simp add: raw_of_plan_def)
  note rows = built_rows(1) [OF this]
  have "p \<in> set (pn_symbol_rows plan) \<longleftrightarrow> (\<exists>s sp a. (s, sp, a) \<in> set ?acted \<and> writes_row a \<and> p = row_of_span s sp)"
    unfolding s tf by (force simp: raw_of_plan_def rows symbol_row_def plan_row_of_def row_of_span_def image_iff)
  then show "p \<in> set (pn_symbol_rows plan) \<longleftrightarrow>
      (\<exists>r \<in> set results. \<exists>sp \<in> set (na_spans r). writes_row (span_action sp params) \<and> p = row_of_span (na_symbol r) sp)"
    unfolding acted_member by blast
qed

text \<open>A live row the plan keeps is of a name without an arbitration.\<close>

lemma kept_has_no_result:
  assumes "k \<in> set (rp_keep_symbol_rows (raw_of_plan (build_plan results live_rows params ids fp)))"
  shows "\<exists>lr \<in> set live_rows. rk_policy_id k = lr_policy_id lr \<and> lr_symbol lr \<notin> na_symbol ` set results"
proof -
  from assms obtain kr where kr: "kr \<in> set (pl_keep_symbol_rows (build_plan results live_rows params ids fp))"
    "rk_policy_id k = kr_policy_id kr" by (auto simp: raw_of_plan_def)
  then obtain lr syms where lr: "lr \<in> set live_rows" "dispose results syms lr = Inr kr"
    by (auto simp: build_plan_def Let_def split: sum.splits)
  then have "kr_policy_id kr = lr_policy_id lr" "map_of (dict_of (map (\<lambda>r. (na_symbol r, r)) results)) (lr_symbol lr) = None"
    by (auto simp: dispose_def split: option.splits)
  then have "lr_symbol lr \<notin> na_symbol ` set results"
    by (simp add: dict_of_lookup map_of_eq_None_iff image_image)
  with lr(1) kr(2) \<open>kr_policy_id kr = lr_policy_id lr\<close> show ?thesis by auto
qed

lemma no_live_row_left:
  assumes named: "retire_named_symbol_rows db plan retire = Inr (n, db1)"
    and plan: "pn_timeframe plan = ''1d''"
      "pn_keep_symbol_rows plan = rp_keep_symbol_rows (raw_of_plan (build_plan results live_rows params ids fp))"
    and live_rows: "\<forall>lr \<in> set live_rows. \<forall>row \<in> set (db_rows db). tr_policy_id row = lr_policy_id lr \<longrightarrow>
      po_symbol (tr_row row) = Some (lr_symbol lr)"
    and r: "r \<in> set results"
  shows "filter (\<lambda>p. po_timeframe p = ''1d'' \<and> po_symbol p = Some (na_symbol r)) (current db1) = []"
proof -
  let ?rows = "map (\<lambda>r. (rt_policy_id r, pn_reason plan @ '': '' @ the (rt_disposition r))) retire"
  from named have live: "set (live_ids db ''1d'' (\<lambda>p. po_symbol p \<noteq> None)) =
      set (map rt_policy_id retire @ map rk_policy_id (pn_keep_symbol_rows plan))"
    and ids: "retire_ids db ?rows = Inr db1"
    by (auto simp: retire_named_symbol_rows_def Let_def ebind_eq_Inr refuse_if_def plan(1) split: if_splits)
  have "False" if row: "row \<in> set (filter live (db_rows db1))" "po_timeframe (tr_row row) = ''1d''"
    "po_symbol (tr_row row) = Some (na_symbol r)" for row
  proof -
    from row retired_ids_live [OF ids] have row': "row \<in> set (db_rows db)" "live row" "tr_policy_id row \<notin> rt_policy_id ` set retire"
      by (auto simp: image_image)
    with row have "tr_policy_id row \<in> set (live_ids db ''1d'' (\<lambda>p. po_symbol p \<noteq> None))" by (auto simp: live_ids_def)
    with live row'(3) obtain k where k: "k \<in> set (pn_keep_symbol_rows plan)" "tr_policy_id row = rk_policy_id k" by auto
    from kept_has_no_result [OF k(1) [unfolded plan(2)]] k(2) obtain lr where lr: "lr \<in> set live_rows"
      "tr_policy_id row = lr_policy_id lr" "lr_symbol lr \<notin> na_symbol ` set results" by auto
    with live_rows row'(1) row(3) have "lr_symbol lr = na_symbol r" by force
    with lr(3) r show False by auto
  qed
  then show ?thesis by (auto simp: current_def filter_empty_conv)
qed

text \<open>The rows in force for an arbitrated name once the plan is applied.\<close>

lemma applied_rows:
  assumes "parse_plan (raw_of_plan (build_plan results live_rows params ids fp)) = Inr plan"
    "apply_policy_plan db fp' rules ids' plan True = Inr (counts, db')" "r \<in> set results"
    "\<forall>lr \<in> set live_rows. \<forall>row \<in> set (db_rows db). tr_policy_id row = lr_policy_id lr \<longrightarrow>
      po_symbol (tr_row row) = Some (lr_symbol lr)"
  shows "in_force db' ''1d'' (Some (na_symbol r)) d =
      filter (\<lambda>p. po_timeframe p = ''1d'' \<and> po_covers p d \<and> po_symbol p = Some (na_symbol r)) (pn_symbol_rows plan)"
    "set (filter (\<lambda>p. po_covers p d) plan_defaults) \<subseteq> set (in_force db' ''1d'' None d)"
proof -
  note b = built_plan_rows [OF assms(1)]
  from assms(2) obtain n db1 c k db2 where
    s1: "(case pn_retire_symbol_rows plan of
        Some retire \<Rightarrow> retire_named_symbol_rows db plan retire
      | None \<Rightarrow> sql_update db (\<lambda>r. po_timeframe (tr_row r) = pn_timeframe plan \<and> po_symbol (tr_row r) \<noteq> None \<and> live r)
                  (retire_for (pn_reason plan))) = Inr (n, db1)"
    and s2: "clear_defaults db1 plan = Inr (c, k, db2)" and s3: "insert_all db2 ids' (pn_defaults plan @ pn_symbol_rows plan) = Inr db'"
    by (rule apply_plan_stages) auto
  obtain retire where ret: "pn_retire_symbol_rows plan = Some retire" using b(5) by (simp add: raw_of_plan_def)
  have none: "filter (\<lambda>p. po_timeframe p = ''1d'' \<and> po_symbol p = Some (na_symbol r)) (current db1) = []"
    by (rule no_live_row_left [OF s1 [unfolded ret option.case] b(1,6) assms(4,3)])
  from s2 b(3) have u: "sql_update db1 (is_default (pn_timeframe plan)) (retire_for (pn_reason plan)) = Inr (k, db2)"
    by (auto simp: clear_defaults_def ebind_eq_Inr split: if_splits)
  have cur2: "current db2 = filter (\<lambda>p. \<not> (po_timeframe p = ''1d'' \<and> po_symbol p = None)) (current db1)"
    unfolding current_def retired_live [OF u] filter_map
    by (intro arg_cong [of _ _ "map tr_row"]) (auto simp: is_default_def b(1) intro: filter_cong)
  have cur: "current db' = current db2 @ plan_defaults @ pn_symbol_rows plan"
    using inserted_rows [OF s3] b(2) by simp
  have "filter (\<lambda>p. po_timeframe p = ''1d'' \<and> po_covers p d \<and> po_symbol p = Some (na_symbol r)) (current db2) = []"
    using none by (auto simp: cur2 filter_empty_conv)
  then show "in_force db' ''1d'' (Some (na_symbol r)) d =
      filter (\<lambda>p. po_timeframe p = ''1d'' \<and> po_covers p d \<and> po_symbol p = Some (na_symbol r)) (pn_symbol_rows plan)"
    unfolding in_force_def cur by (simp add: plan_defaults_def new_row_def)
  show "set (filter (\<lambda>p. po_covers p d) plan_defaults) \<subseteq> set (in_force db' ''1d'' None d)"
    unfolding in_force_def cur by (auto simp: plan_defaults_def new_row_def)
qed

lemma applied_lookup:
  assumes "reachable empty_table policy_step db"
    "parse_plan (raw_of_plan (build_plan results live_rows params ids fp)) = Inr plan"
    "apply_policy_plan db fp' rules ids' plan True = Inr (counts, db')"
    "distinct (map na_symbol results)" "r \<in> set results"
    "\<forall>lr \<in> set live_rows. \<forall>row \<in> set (db_rows db). tr_policy_id row = lr_policy_id lr \<longrightarrow>
      po_symbol (tr_row row) = Some (lr_symbol lr)"
    "SEAM \<le> d"
  shows "resolve_policy (current db') (na_symbol r) d = Inr (decided r params d)"
proof -
  note b = built_plan_rows [OF assms(2)]
  have ok: "table_ok db'"
    by (rule policy_table.reachable_inv [OF reachable_step [OF assms(1) policy_step.plan [OF assms(3)]]])
  let ?in = "\<lambda>sp. writes_row (span_action sp params) \<and> as_start sp \<le> d \<and> d < row_end sp"
  have rows: "in_force db' TIMEFRAME (Some (na_symbol r)) d =
      filter (\<lambda>p. po_timeframe p = ''1d'' \<and> po_covers p d \<and> po_symbol p = Some (na_symbol r)) (pn_symbol_rows plan)"
    unfolding TIMEFRAME_def by (rule applied_rows(1) [OF assms(2,3,5,6)])
  show ?thesis
  proof (cases "find ?in (na_spans r)")
    case (Some sp)
    from Some [unfolded find_Some_iff] have sp: "sp \<in> set (na_spans r)" "?in sp" by auto
    then have "row_of_span (na_symbol r) sp \<in> set (pn_symbol_rows plan)" unfolding b(4) using assms(5) by blast
    with sp(2) have "row_of_span (na_symbol r) sp \<in> set (in_force db' TIMEFRAME (Some (na_symbol r)) d)"
      unfolding rows by (simp add: row_of_span_def new_row_def po_covers_def)
    from resolve_symbol [OF ok this] Some show ?thesis by (simp add: decided_def row_of_span_def)
  next
    case None
    have "\<not> (po_covers p d \<and> po_symbol p = Some (na_symbol r))" if p: "p \<in> set (pn_symbol_rows plan)" for p
    proof
      assume c: "po_covers p d \<and> po_symbol p = Some (na_symbol r)"
      from p [unfolded b(4)] obtain r' sp where q: "r' \<in> set results" "sp \<in> set (na_spans r')"
        "writes_row (span_action sp params)" "p = row_of_span (na_symbol r') sp" by blast
      with c have "na_symbol r' = na_symbol r" by (simp add: row_of_span_def new_row_def)
      with q(1) assms(4,5) have "r' = r" by (auto simp: distinct_map dest: inj_onD)
      with q c have "?in sp" "sp \<in> set (na_spans r)" by (simp_all add: row_of_span_def new_row_def po_covers_def)
      with None show False by (auto simp: find_None_iff)
    qed
    then have "in_force db' TIMEFRAME (Some (na_symbol r)) d = []" unfolding rows by (auto simp: filter_empty_conv)
    moreover have "new_row ''1d'' None SEAM None ''alpaca'' (Some ''ibkr'') \<in> set (in_force db' TIMEFRAME None d)"
      unfolding TIMEFRAME_def
      by (rule subsetD [OF applied_rows(2) [OF assms(2,3,5,6)]])
        (use assms(7) in \<open>simp add: plan_defaults_def new_row_def po_covers_def\<close>)
    ultimately show ?thesis using resolve_default [OF ok] None by (simp add: decided_def)
  qed
qed

text \<open>C35. From the arbitration to the daily rule.  Take the plan file built from the arbitrated names, in a state of the
  policy table the writer can reach, and let the live rows it lists carry the symbols they have in the table.  When the
  file parses and is applied, the daily rule resolves an arbitrated name, on every date of the Alpaca era, to IBKR without
  a fallback inside a span the arbitration writes a row for and to the Alpaca default everywhere else; so on every common
  session where the two vendors agree within the tolerance it is the Alpaca default.\<close>

lemma arbitration_decides:
  assumes "reachable empty_table policy_step db"
    and "arbitrate s alpaca ibkr tradier params sessions v = Inr r" "distinct (map fst alpaca)"
    and "r \<in> set results" "distinct (map na_symbol results)"
    and "\<forall>lr \<in> set live_rows. \<forall>row \<in> set (db_rows db). tr_policy_id row = lr_policy_id lr \<longrightarrow>
      po_symbol (tr_row row) = Some (lr_symbol lr)"
    and "parse_plan (raw_of_plan (build_plan results live_rows params ids fp)) = Inr plan"
    and "apply_policy_plan db fp' rules ids' plan True = Inr (counts, db')"
    and "SEAM \<le> d"
  shows "resolve_policy (current db') s d = Inr (decided r params d) \<and>
    (d \<in> set (common_sessions params alpaca ibkr) \<and> agreed params alpaca ibkr d \<longrightarrow>
     resolve_policy (current db') s d = Inr (new_row ''1d'' None SEAM None ''alpaca'' (Some ''ibkr'')))"
proof -
  have s: "na_symbol r = s" using assms(2,3) by (rule arbitrate_spans)
  have look: "resolve_policy (current db') s d = Inr (decided r params d)"
    using applied_lookup [OF assms(1,7,8,5,4,6,9)] s by simp
  moreover have "decided r params d = new_row ''1d'' None SEAM None ''alpaca'' (Some ''ibkr'')"
    if "d \<in> set (common_sessions params alpaca ibkr)" "agreed params alpaca ibkr d"
  proof -
    have "find (\<lambda>sp. writes_row (span_action sp params) \<and> as_start sp \<le> d \<and> d < row_end sp) (na_spans r) = None"
      using agreed_outside [OF assms(2,3) that] by (auto simp: find_None_iff)
    then show ?thesis by (simp add: decided_def)
  qed
  ultimately show ?thesis by simp
qed

subsection \<open>A concrete arbitration\<close>

definition ex_params :: arb_params where
  "ex_params = \<lparr>ap_window_start = 736001, ap_window_end = 736010, ap_tolerance_bp = 50, ap_min_sessions = 1,
     ap_min_class_share = 0.6, ap_quarantine_rel = 0.3, ap_three_way_max_it_bp = 100, ap_three_way_log_share = 0.1,
     ap_gap_max_moves = 3\<rparr>"

definition ex_alpaca :: closes where "ex_alpaca = [(736001, 100), (736002, 110), (736003, 100)]"
definition ex_ibkr :: closes where "ex_ibkr = [(736001, 100), (736002, 100), (736003, 100)]"
definition ex_tradier :: closes where "ex_tradier = [(736002, 100)]"

text \<open>The result, whose logarithms stay symbolic.\<close>

definition ex_result :: "real \<Rightarrow> real \<Rightarrow> name_arbitration" where
  "ex_result it ia = \<lparr>na_symbol = ''SPY'', na_n_common = 3, na_spans = [\<lparr>as_symbol = ''SPY'', as_cls = ALPACA_DIFFERS,
     as_start = 736002, as_end = 736002, as_n_sessions = 1, as_n_tradier = 1,
     as_shares = [(IBKR_DEFECTIVE, 0), (ALPACA_DIFFERS, 1), (THREE_WAY, 0)],
     as_ibkr_over_alpaca = Some (100 / 110), as_tradier_over_alpaca = Some (100 / 110),
     as_log_it_bp = Some it, as_mad_log_it_bp = Some 0, as_log_ia_bp = Some ia,
     as_examples = [\<lparr>ae_session = 736002, ae_alpaca = 110, ae_ibkr = 100, ae_tradier = Some 100\<rparr>],
     as_touches_window_end = False, as_ibkr_head = None, as_ibkr_head_verified = False, as_continuous = False,
     as_agree_share = None, as_head_evidence = None\<rparr>], na_quarantine = []\<rparr>"

lemma ex_common: "common_sessions ex_params ex_alpaca ex_ibkr = [736001, 736002, 736003]"
  "pre_sessions ex_params ex_alpaca ex_ibkr = []" "disagreeing_runs ex_params ex_alpaca ex_ibkr = [[736002]]"
  by code_simp+

lemma ex_arbitrated: "\<exists>it ia. arbitrate ''SPY'' ex_alpaca ex_ibkr ex_tradier ex_params None None = Inr (ex_result it ia)"
  unfolding arbitrate_def ex_common Let_def
  by (auto simp: span_of_def ex_result_def ex_alpaca_def ex_ibkr_def ex_tradier_def ex_params_def px_def px0_def log_bp_def Let_def
      vote_def agree_def classify_span_def share_of_def span_classes median_opt_def median_def span_examples_def N_EXAMPLES_def
      quarantine_of_def BP_def sorted_set_def)

definition ex_live_row :: "string \<Rightarrow> string \<Rightarrow> live_symbol_row" where
  "ex_live_row i s = \<lparr>lr_policy_id = i, lr_symbol = s, lr_valid_from = 736000, lr_valid_to = None, lr_primary = ''ibkr'',
     lr_fallback = None\<rparr>"

definition ex_table :: policy_db where
  "ex_table = seeded \<lparr>db_rows = [], db_instruments = [''SPY'', ''QQQ'']\<rparr>
     [(''d'', new_row ''1d'' None 726468 (Some 735967) ''ibkr'' None), (''e'', new_row ''1d'' None 735967 None ''ibkr'' None),
      (''p'', new_row ''1d'' (Some ''SPY'') 736000 None ''ibkr'' None), (''q'', new_row ''1d'' (Some ''QQQ'') 736000 None ''ibkr'' None)]"

definition ex_fp :: fingerprint where "ex_fp = \<lparr>fp_through = 736010, fp_series = [(''alpaca'', 3, None)]\<rparr>"

definition ex_doc :: "real \<Rightarrow> real \<Rightarrow> plan_doc" where
  "ex_doc it ia = build_plan [ex_result it ia] [ex_live_row ''p'' ''SPY'', ex_live_row ''q'' ''QQQ''] ex_params [''d'', ''e''] ex_fp"

lemma ex_actions: "map (\<lambda>sp. span_action sp ex_params) (na_spans (ex_result it ia)) = [Row]"
  by (simp add: ex_result_def span_action_def span_classes ex_params_def)

lemma ex_parses:
  "\<not> (case parse_plan (raw_of_plan (ex_doc it ia)) of Inl e \<Rightarrow> True
    | Inr plan \<Rightarrow> (case apply_policy_plan ex_table ex_fp [] [''1'', ''2'', ''3''] plan True of Inl e \<Rightarrow> True | Inr x \<Rightarrow> False))"
  by code_simp

lemma ex_table_reachable: "reachable empty_table policy_step ex_table"
  unfolding ex_table_def by (rule seeded_reachable [OF reachable_init]) (simp add: empty_table_def, code_simp)

lemma ex_decided: "decided (ex_result it ia) ex_params 736002 = new_row ''1d'' (Some ''SPY'') 736002 (Some 736003) ''ibkr'' None"
  by code_simp

lemma arbitration_decides_witness:
  "\<exists>it ia plan counts db'. arbitrate ''SPY'' ex_alpaca ex_ibkr ex_tradier ex_params None None = Inr (ex_result it ia) \<and>
    parse_plan (raw_of_plan (ex_doc it ia)) = Inr plan \<and>
    apply_policy_plan ex_table ex_fp [] [''1'', ''2'', ''3''] plan True = Inr (counts, db') \<and>
    resolve_policy (current db') ''SPY'' 736002 = Inr (new_row ''1d'' (Some ''SPY'') 736002 (Some 736003) ''ibkr'' None) \<and>
    resolve_policy (current db') ''SPY'' 736003 = Inr (new_row ''1d'' None SEAM None ''alpaca'' (Some ''ibkr''))"
proof -
  obtain it ia where a: "arbitrate ''SPY'' ex_alpaca ex_ibkr ex_tradier ex_params None None = Inr (ex_result it ia)"
    using ex_arbitrated by blast
  from ex_parses [of it ia] obtain plan counts db' where p: "parse_plan (raw_of_plan (ex_doc it ia)) = Inr plan"
    "apply_policy_plan ex_table ex_fp [] [''1'', ''2'', ''3''] plan True = Inr (counts, db')"
    by (auto split: sum.splits)
  have live: "\<forall>lr \<in> set [ex_live_row ''p'' ''SPY'', ex_live_row ''q'' ''QQQ'']. \<forall>row \<in> set (db_rows ex_table).
      tr_policy_id row = lr_policy_id lr \<longrightarrow> po_symbol (tr_row row) = Some (lr_symbol lr)"
    by code_simp
  have d: "distinct (map fst ex_alpaca)" "SEAM \<le> 736002" "SEAM \<le> 736003" by code_simp+
  note all = arbitration_decides [OF ex_table_reachable a d(1) _ _ live p(1) [unfolded ex_doc_def] p(2)]
  have "resolve_policy (current db') ''SPY'' 736002 = Inr (decided (ex_result it ia) ex_params 736002)"
    using all [of 736002] d(2) by simp
  moreover have "agreed ex_params ex_alpaca ex_ibkr 736003" by code_simp
  then have "resolve_policy (current db') ''SPY'' 736003 = Inr (new_row ''1d'' None SEAM None ''alpaca'' (Some ''ibkr''))"
    using conjunct2 [OF all [of 736003]] d(3) by (simp add: ex_common)
  ultimately show ?thesis
    using a p unfolding ex_decided by blast
qed

section \<open>The plan file parses\<close>

lemma sorted_wrt_concat_map:
  assumes "\<And>x. x \<in> set xs \<Longrightarrow> sorted_wrt R (f x)"
    "sorted_wrt (\<lambda>x y. \<forall>a \<in> set (f x). \<forall>b \<in> set (f y). R a b) xs"
  shows "sorted_wrt R (concat (map f xs))"
  using assms by (induction xs) (auto simp: sorted_wrt_append)

lemma sorted_wrt_adjacent:
  assumes "sorted_wrt R xs" "(a, b) \<in> set (zip xs (tl xs))"
  shows "R a b"
proof -
  from assms(2) obtain i where i: "a = xs ! i" "b = tl xs ! i" "i < length (tl xs)" by (auto simp: set_zip)
  then have "b = xs ! Suc i" "Suc i < length xs" by (simp_all add: nth_tl)
  with i(1) sorted_wrt_nth_less [OF assms(1), of i "Suc i"] show ?thesis by simp
qed

definition arbitrated :: "arb_params \<Rightarrow> name_arbitration \<Rightarrow> bool" where
  "arbitrated params r \<longleftrightarrow> (\<exists>alpaca ibkr tradier sessions v.
     arbitrate (na_symbol r) alpaca ibkr tradier params sessions v = Inr r \<and> distinct (map fst alpaca))"

lemma arbitrated_spans:
  assumes "arbitrated params r"
  shows "sorted_wrt (\<lambda>a b. row_end a \<le> as_start b) (na_spans r)"
    "\<forall>sp \<in> set (na_spans r). as_symbol sp = na_symbol r \<and> as_start sp \<le> as_end sp \<and> as_end sp < row_end sp"
proof -
  from assms obtain alpaca ibkr tradier sessions v where
    a: "arbitrate (na_symbol r) alpaca ibkr tradier params sessions v = Inr r" "distinct (map fst alpaca)"
    by (auto simp: arbitrated_def)
  have "sorted_wrt (\<lambda>a b. row_end a \<le> as_start b) (na_spans r) \<and>
      (\<forall>sp \<in> set (na_spans r). as_symbol sp = na_symbol r \<and> as_start sp \<le> as_end sp \<and> as_end sp < row_end sp)"
    by (rule arbitrate_spans [OF a]) simp
  then show "sorted_wrt (\<lambda>a b. row_end a \<le> as_start b) (na_spans r)"
    "\<forall>sp \<in> set (na_spans r). as_symbol sp = na_symbol r \<and> as_start sp \<le> as_end sp \<and> as_end sp < row_end sp" by blast+
qed

definition before :: "string \<times> arb_span \<times> span_act \<Rightarrow> string \<times> arb_span \<times> span_act \<Rightarrow> bool" where
  "before x y \<longleftrightarrow> fst x < fst y \<or> fst x = fst y \<and> row_end (fst (snd x)) \<le> as_start (fst (snd y))"

lemma acted_in_order:
  assumes "\<forall>r \<in> set results. arbitrated params r" "distinct (map na_symbol results)"
  shows "sorted_wrt before (acted_spans results params)"
  unfolding acted_spans_def
proof (rule sorted_wrt_concat_map)
  fix r assume "r \<in> set (sort_key na_symbol results)"
  with assms(1) have "arbitrated params r" by simp
  from arbitrated_spans(1) [OF this]
  show "sorted_wrt before (map (\<lambda>sp. (na_symbol r, sp, span_action sp params)) (na_spans r))"
    by (simp add: sorted_wrt_map before_def)
next
  have "distinct (map na_symbol (sort_key na_symbol results))"
    using assms(2) by (simp add: distinct_map)
  then have "sorted_wrt (<) (map na_symbol (sort_key na_symbol results))" by (simp add: strict_sorted_iff)
  then have "sorted_wrt (\<lambda>r q. na_symbol r < na_symbol q) (sort_key na_symbol results)" by (simp add: sorted_wrt_map)
  then show "sorted_wrt (\<lambda>r q. \<forall>a \<in> set (map (\<lambda>sp. (na_symbol r, sp, span_action sp params)) (na_spans r)).
      \<forall>b \<in> set (map (\<lambda>sp. (na_symbol q, sp, span_action sp params)) (na_spans q)). before a b) (sort_key na_symbol results)"
    by (rule sorted_wrt_mono_rel [rotated]) (auto simp: before_def)
qed

lemma inserted_order:
  assumes "\<forall>r \<in> set results. arbitrated params r" "distinct (map na_symbol results)"
  defines "rows \<equiv> map (\<lambda>(s, sp, a). row_of_span s sp) (filter (\<lambda>(_, _, a). writes_row a) (acted_spans results params))"
  shows "sort_key (\<lambda>r. (the (po_symbol r), po_valid_from r)) rows = rows" "\<not> rows_overlap rows"
proof -
  let ?acted = "filter (\<lambda>(_, _, a). writes_row a) (acted_spans results params)"
  have acted: "sorted_wrt before ?acted" by (rule sorted_wrt_filter [OF acted_in_order [OF assms(1,2)]])
  have span: "as_start sp < row_end sp" if "(s, sp, a) \<in> set ?acted" for s sp a
    using that assms(1) arbitrated_spans(2) by (fastforce simp: acted_member)
  let ?key = "\<lambda>r. (the (po_symbol r), po_valid_from r)"
  have "sorted_wrt (\<lambda>x y. ?key (row_of_span (fst x) (fst (snd x))) \<le> ?key (row_of_span (fst y) (fst (snd y)))) ?acted"
    by (rule sorted_wrt_mono_rel [OF _ acted])
      (use span in \<open>fastforce simp: before_def row_of_span_def new_row_def less_eq_prod_simp\<close>)
  then have "sorted (map ?key rows)"
    by (simp add: rows_def sorted_map sorted_wrt_map case_prod_beta)
  then show "sort_key ?key rows = rows" by (rule sort_key_id_if_sorted)
  have "sorted_wrt (\<lambda>p q. po_symbol p = po_symbol q \<longrightarrow> \<not> until (po_valid_from q) (po_valid_to p)) rows"
    unfolding rows_def sorted_wrt_map
    by (rule sorted_wrt_mono_rel [OF _ acted]) (auto simp: before_def row_of_span_def new_row_def)
  from sorted_wrt_adjacent [OF this] show "\<not> rows_overlap rows"
    by (auto simp: rows_overlap_def list_ex_iff)
qed

lemma dispose_result:
  "lr_symbol lr \<in> na_symbol ` set results \<Longrightarrow>
   \<exists>q. dispose results syms lr = Inl q \<and> rr_policy_id q = lr_policy_id lr \<and> rr_symbol q = lr_symbol lr \<and>
     rr_disposition q = (if lr_symbol lr \<in> set syms then ''replaced'' else ''superseded_by_default'')"
  "lr_symbol lr \<notin> na_symbol ` set results \<Longrightarrow>
   \<exists>k. dispose results syms lr = Inr k \<and> kr_policy_id k = lr_policy_id lr \<and> kr_symbol k = lr_symbol lr \<and> kr_reason k \<noteq> ''''"
proof -
  let ?m = "map_of (dict_of (map (\<lambda>r. (na_symbol r, r)) results)) (lr_symbol lr)"
  have m: "?m = None \<longleftrightarrow> lr_symbol lr \<notin> na_symbol ` set results"
    by (simp add: dict_of_lookup map_of_eq_None_iff image_image)
  show "lr_symbol lr \<in> na_symbol ` set results \<Longrightarrow>
   \<exists>q. dispose results syms lr = Inl q \<and> rr_policy_id q = lr_policy_id lr \<and> rr_symbol q = lr_symbol lr \<and>
     rr_disposition q = (if lr_symbol lr \<in> set syms then ''replaced'' else ''superseded_by_default'')"
    using m by (cases ?m) (auto simp: dispose_def)
  show "lr_symbol lr \<notin> na_symbol ` set results \<Longrightarrow>
   \<exists>k. dispose results syms lr = Inr k \<and> kr_policy_id k = lr_policy_id lr \<and> kr_symbol k = lr_symbol lr \<and> kr_reason k \<noteq> ''''"
    using m by (cases ?m) (auto simp: dispose_def)
qed

lemma disposed_ids:
  "map rr_policy_id (concat (map (\<lambda>x. case x of Inl r \<Rightarrow> [r] | Inr _ \<Rightarrow> []) (map (dispose results syms) rows))) =
     map lr_policy_id (filter (\<lambda>lr. lr_symbol lr \<in> na_symbol ` set results) rows)"
  "map kr_policy_id (concat (map (\<lambda>x. case x of Inl _ \<Rightarrow> [] | Inr k \<Rightarrow> [k]) (map (dispose results syms) rows))) =
     map lr_policy_id (filter (\<lambda>lr. lr_symbol lr \<notin> na_symbol ` set results) rows)"
proof (induction rows)
  case (Cons lr rows)
  {
    case 1
    with dispose_result [of lr results syms] Cons.IH(1) show ?case
      by (cases "lr_symbol lr \<in> na_symbol ` set results") auto
  next
    case 2
    with dispose_result [of lr results syms] Cons.IH(2) show ?case
      by (cases "lr_symbol lr \<in> na_symbol ` set results") auto
  }
qed simp_all

lemma disposed_members:
  "q \<in> set (pl_retire_symbol_rows (build_plan results live_rows params ids fp)) \<Longrightarrow>
   rr_disposition q = (if rr_symbol q \<in> set (map pr_symbol (pl_symbol_rows (build_plan results live_rows params ids fp)))
     then ''replaced'' else ''superseded_by_default'')"
  "k \<in> set (pl_keep_symbol_rows (build_plan results live_rows params ids fp)) \<Longrightarrow>
   kr_reason k \<noteq> '''' \<and> kr_symbol k \<notin> na_symbol ` set results"
proof -
  let ?syms = "map pr_symbol (pl_symbol_rows (build_plan results live_rows params ids fp))"
  show "rr_disposition q = (if rr_symbol q \<in> set ?syms then ''replaced'' else ''superseded_by_default'')"
    if q: "q \<in> set (pl_retire_symbol_rows (build_plan results live_rows params ids fp))"
  proof -
    from q obtain lr where "dispose results ?syms lr = Inl q"
      by (auto simp: build_plan_def Let_def split: sum.splits)
    with dispose_result [of lr results ?syms] show ?thesis
      by (cases "lr_symbol lr \<in> na_symbol ` set results") (auto simp del: set_map)
  qed
  show "kr_reason k \<noteq> '''' \<and> kr_symbol k \<notin> na_symbol ` set results"
    if k: "k \<in> set (pl_keep_symbol_rows (build_plan results live_rows params ids fp))"
  proof -
    from k obtain lr syms where "dispose results syms lr = Inr k"
      by (auto simp: build_plan_def Let_def split: sum.splits)
    with dispose_result [of lr results syms] show ?thesis
      by (cases "lr_symbol lr \<in> na_symbol ` set results") auto
  qed
qed

lemma doc_fields:
  "pl_timeframe (build_plan results live_rows params ids fp) = ''1d''"
  "pl_seam (build_plan results live_rows params ids fp) = SEAM"
  "pl_retire_defaults (build_plan results live_rows params ids fp)"
  "pl_retire_default_ids (build_plan results live_rows params ids fp) = ids"
  "pl_raw_fingerprint (build_plan results live_rows params ids fp) = fp"
  "pl_quarantine_rule (build_plan results live_rows params ids fp) = QUARANTINE_RULE"
  by (simp_all only: build_plan_def Let_def plan_doc.simps)

definition named_rows :: "plan_doc \<Rightarrow> raw_retired list" where
  "named_rows doc = the (rp_retire_symbol_rows (raw_of_plan doc))"

lemma raw_fields:
  "rp_timeframe (raw_of_plan doc) = Some (pl_timeframe doc)" "rp_seam (raw_of_plan doc) = Some (pl_seam doc)"
  "rp_defaults (raw_of_plan doc) = Some (pl_defaults doc)" "rp_reason (raw_of_plan doc) = Some (pl_reason doc)"
  "rp_evidence (raw_of_plan doc) = Some FilledObject" "rp_retire_defaults (raw_of_plan doc) = pl_retire_defaults doc"
  "rp_window_end_spans (raw_of_plan doc) = length (pl_window_end_spans doc)"
  "rp_retire_symbol_rows (raw_of_plan doc) = Some (named_rows doc)"
  "rp_retire_default_ids (raw_of_plan doc) = Some (pl_retire_default_ids doc)"
  "rp_raw_fingerprint (raw_of_plan doc) = Some (pl_raw_fingerprint doc)"
  "rp_quarantine_rule (raw_of_plan doc) = Some (pl_quarantine_rule doc)"
  "list_ex (\<lambda>r. rw_evidence r \<noteq> FilledObject) (rp_symbol_rows (raw_of_plan doc)) \<longleftrightarrow> False"
  by (simp_all add: raw_of_plan_def list_ex_iff named_rows_def)

lemma built_lists_parse:
  assumes "distinct (map lr_policy_id live_rows)"
    and syms: "set (map (\<lambda>r. the (po_symbol r)) symbol_rows) =
      set (map pr_symbol (pl_symbol_rows (build_plan results live_rows params ids fp)))"
    and res: "set (map pr_symbol (pl_symbol_rows (build_plan results live_rows params ids fp))) \<subseteq> na_symbol ` set results"
  shows "parse_symbol_lists (named_rows (build_plan results live_rows params ids fp))
    (rp_keep_symbol_rows (raw_of_plan (build_plan results live_rows params ids fp))) symbol_rows = Inr ()"
proof -
  let ?doc = "build_plan results live_rows params ids fp" and ?rows = "sort_key (\<lambda>r. (lr_symbol r, lr_valid_from r)) live_rows"
  have "map rr_policy_id (pl_retire_symbol_rows ?doc) @ map kr_policy_id (pl_keep_symbol_rows ?doc) =
      map lr_policy_id (filter (\<lambda>lr. lr_symbol lr \<in> na_symbol ` set results) ?rows) @
      map lr_policy_id (filter (\<lambda>lr. lr_symbol lr \<notin> na_symbol ` set results) ?rows)"
    by (simp only: build_plan_def Let_def plan_doc.simps disposed_ids)
  moreover have "distinct (map lr_policy_id ?rows)" using assms(1) by (simp add: distinct_map)
  then have "distinct (map lr_policy_id (filter P ?rows) @ map lr_policy_id (filter (\<lambda>x. \<not> P x) ?rows))" for P
    by (auto simp: distinct_map inj_on_def)
  ultimately have ids: "distinct (map rr_policy_id (pl_retire_symbol_rows ?doc) @ map kr_policy_id (pl_keep_symbol_rows ?doc))"
    by simp
  have 1: "distinct (map rt_policy_id (named_rows ?doc) @ map rk_policy_id (rp_keep_symbol_rows (raw_of_plan ?doc)))"
    using ids by (simp add: raw_of_plan_def named_rows_def comp_def)
  have 2: "\<not> list_ex (\<lambda>r. rt_disposition r \<notin> Some ` set DISPOSITIONS \<or> rt_evidence r = NotObject \<or>
      (rt_disposition r = Some ''replaced'' \<and> rt_symbol r \<notin> set (map (\<lambda>r. the (po_symbol r)) symbol_rows)))
      (named_rows ?doc)"
    unfolding syms by (auto simp: list_ex_iff raw_of_plan_def named_rows_def DISPOSITIONS_def disposed_members(1) split: if_splits)
  have 3: "\<not> list_ex (\<lambda>k. rk_reason k = None \<or> rk_reason k = Some '''' \<or>
      rk_symbol k \<in> set (map (\<lambda>r. the (po_symbol r)) symbol_rows)) (rp_keep_symbol_rows (raw_of_plan ?doc))"
    unfolding syms list_ex_iff
  proof
    assume "\<exists>k \<in> set (rp_keep_symbol_rows (raw_of_plan ?doc)). rk_reason k = None \<or> rk_reason k = Some '''' \<or>
      rk_symbol k \<in> set (map pr_symbol (pl_symbol_rows ?doc))"
    then obtain k where k: "k \<in> set (rp_keep_symbol_rows (raw_of_plan ?doc))" "rk_reason k = None \<or> rk_reason k = Some '''' \<or>
      rk_symbol k \<in> set (map pr_symbol (pl_symbol_rows ?doc))" by blast
    from k(1) obtain kr where kr: "kr \<in> set (pl_keep_symbol_rows ?doc)" "rk_symbol k = kr_symbol kr" "rk_reason k = Some (kr_reason kr)"
      by (auto simp: raw_of_plan_def)
    from disposed_members(2) [OF kr(1)] res k(2) kr(2,3) show False by auto
  qed
  show ?thesis unfolding parse_symbol_lists_def Let_def
    by (simp only: 1 2 3 ebind_Inr refuse_if_def if_False not_True_eq_False)
qed

lemma built_holds_covered:
  assumes "pl_window_end_spans (build_plan results live_rows params ids fp) = []" "\<forall>r \<in> set results. arbitrated params r"
  shows "check_hold_coverage (rp_hold (raw_of_plan (build_plan results live_rows params ids fp)))
    (map (\<lambda>(s, sp, a). row_of_span s sp) (filter (\<lambda>(_, _, a). writes_row a) (acted_spans results params))) k = Inr ()"
proof -
  let ?acted = "acted_spans results params"
  let ?rows = "map (\<lambda>(s, sp, a). row_of_span s sp) (filter (\<lambda>(_, _, a). writes_row a) ?acted)"
  note rows = built_rows [OF assms(1)]
  have "\<exists>p \<in> set ?rows. po_symbol p = Some (as_symbol sp) \<and> row_covers (po_valid_from p) (po_valid_to p) (as_start sp) (as_end sp)"
    if sp: "sp \<in> set (pl_hold (build_plan results live_rows params ids fp))" for sp
  proof -
    from sp obtain s a where m: "(s, sp, a) \<in> set ?acted" "a = Hold" by (auto simp: rows(3))
    with assms(2) arbitrated_spans(2) have f: "as_symbol sp = s" "as_end sp < row_end sp" by (fastforce simp: acted_member)+
    have "row_of_span s sp \<in> set ?rows" using m by (force simp: writes_row_def)
    with f show ?thesis by (intro bexI) (auto simp: row_of_span_def new_row_def row_covers_def)
  qed
  then show ?thesis by (fastforce simp: check_hold_coverage_def refuse_if_def list_ex_iff raw_of_plan_def)
qed

text \<open>C21. The arbitration writes plan files that the policy writer reads.  For arbitrated names with distinct symbols, live
  rows with distinct ids, two live defaults and a fingerprint of some series taken through the window's end, the file
  \<open>build_plan\<close> writes parses exactly when no span would reach past the window.\<close>

lemma built_plan_parses:
  assumes "\<forall>r \<in> set results. arbitrated params r" "distinct (map na_symbol results)"
    and "distinct (map lr_policy_id live_rows)" "length (remdups ids) = 2"
    and "fp_series fp \<noteq> []" "fp_through fp = ap_window_end params"
  shows "(\<exists>plan. parse_plan (raw_of_plan (build_plan results live_rows params ids fp)) = Inr plan) \<longleftrightarrow>
    pl_window_end_spans (build_plan results live_rows params ids fp) = []"
proof
  let ?doc = "build_plan results live_rows params ids fp" and ?acted = "acted_spans results params"
  show "pl_window_end_spans ?doc = []" if "\<exists>plan. parse_plan (raw_of_plan ?doc) = Inr plan"
  proof -
    from that obtain plan where "parse_plan (raw_of_plan ?doc) = Inr plan" by blast
    then obtain tf seam ev defaults rows where "plan_checks (raw_of_plan ?doc) tf seam ev defaults rows = Inr ()"
      by (rule parse_plan_fields)
    then show ?thesis by (simp add: plan_checks_def Let_def ebind_eq_Inr refuse_if_def raw_fields split: if_splits)
  qed
  assume none: "pl_window_end_spans ?doc = []"
  note rows = built_rows [OF none] and order = inserted_order [OF assms(1,2)]
  let ?rows = "map (\<lambda>(s, sp, a). row_of_span s sp) (filter (\<lambda>(_, _, a). writes_row a) ?acted)"
  let ?defaults = "sort_key po_valid_from (map (default_row ''1d'') (pl_defaults ?doc))"
  have sorted: "sort_key (\<lambda>r. (the (po_symbol r), po_valid_from r)) (map (symbol_row ''1d'') (rp_symbol_rows (raw_of_plan ?doc))) = ?rows"
  proof -
    have "map (symbol_row ''1d'') (rp_symbol_rows (raw_of_plan ?doc)) = ?rows"
      by (auto simp: raw_of_plan_def rows(1) symbol_row_def plan_row_of_def row_of_span_def)
    then show ?thesis using order(1) by simp
  qed
  have defaults: "?defaults = plan_defaults"
    by (simp add: build_plan_def Let_def default_row_def plan_defaults_def new_row_def SEAM_def POLICY_EPOCH_def)
  have named: "set (map (\<lambda>r. the (po_symbol r)) ?rows) = set (map pr_symbol (pl_symbol_rows ?doc))"
    by (force simp: rows(1) row_of_span_def new_row_def plan_row_of_def)
  have "set (map pr_symbol (pl_symbol_rows ?doc)) \<subseteq> na_symbol ` set results"
    by (auto simp: rows(1) plan_row_of_def acted_member)
  note lists = built_lists_parse [OF assms(3) named this]
  have past: "\<not> past_fingerprint (rp_raw_fingerprint (raw_of_plan ?doc)) ?rows"
    using rows(2) assms(6)
    by (fastforce simp: past_fingerprint_def raw_of_plan_def build_plan_def Let_def list_ex_iff row_of_span_def new_row_def past_window_def)
  note hold = built_holds_covered [OF none assms(1)]
  have checks: "plan_checks (raw_of_plan ?doc) ''1d'' SEAM FilledObject plan_defaults ?rows = Inr ()"
    unfolding plan_checks_def Let_def raw_fields doc_fields none option.case lists hold if_True list.size
    using past order(2) assms(4,5)
    by (simp add: refuse_if_def raw_fields doc_fields lists hold TIMEFRAMES_def EXPLICIT_TIMEFRAMES_def plan_defaults_def new_row_def gap_or_overlap_def
        QUARANTINE_RULE_def)
  show "\<exists>plan. parse_plan (raw_of_plan ?doc) = Inr plan"
    unfolding parse_plan_def raw_fields doc_fields option.case prod.case Let_def sorted defaults checks by simp
qed

lemma built_plan_parses_witness:
  "\<exists>it ia plan. arbitrate ''SPY'' ex_alpaca ex_ibkr ex_tradier ex_params None None = Inr (ex_result it ia) \<and>
    parse_plan (raw_of_plan (ex_doc it ia)) = Inr plan"
proof -
  obtain it ia where a: "arbitrate ''SPY'' ex_alpaca ex_ibkr ex_tradier ex_params None None = Inr (ex_result it ia)"
    using ex_arbitrated by blast
  have "distinct (map fst ex_alpaca)" "na_symbol (ex_result it ia) = ''SPY''" by (simp_all add: ex_alpaca_def ex_result_def)
  with a have "arbitrated ex_params (ex_result it ia)" unfolding arbitrated_def by metis
  moreover have "pl_window_end_spans (ex_doc it ia) = []" by code_simp
  moreover have "distinct (map lr_policy_id [ex_live_row ''p'' ''SPY'', ex_live_row ''q'' ''QQQ''])" "length (remdups [''d'', ''e'']) = 2"
    "fp_series ex_fp \<noteq> []" "fp_through ex_fp = ap_window_end ex_params" by (code_simp | simp add: ex_fp_def ex_params_def)+
  ultimately obtain plan where "parse_plan (raw_of_plan (ex_doc it ia)) = Inr plan"
    using built_plan_parses [of "[ex_result it ia]" ex_params "[ex_live_row ''p'' ''SPY'', ex_live_row ''q'' ''QQQ'']" "[''d'', ''e'']" ex_fp]
    by (auto simp: ex_doc_def)
  with a show ?thesis by blast
qed

end
