(* ===== verification/Raw_Writer.thy ===== *)
theory Raw_Writer
  imports Write_Contract Vendor_Kind
begin

text \<open>
  The writer of the table of vendor answers, \<open>services/ohlcv_raw_writer.py\<close>.

  The table \<open>ohlcv_raw\<close> is the list of its rows under their key (series and stamp); the statements are functions on it,
  and one the database refuses is the error \<open>IntegrityViolation\<close>.  A price is a real or a NaN, which here stands for every
  price that is not finite; a stamp is an instant, so the tests for a time zone have no counterpart.  The clock is the
  argument \<open>now\<close>.  Reads and writes of one series run under its advisory lock, so a call sees no other writer.
\<close>

definition CANONICAL_ONLY_KINDS :: "string list" where "CANONICAL_ONLY_KINDS = [''fallback'', ''5m_grid'']"
definition SOURCE_SYNTHETIC_FILL :: string where "SOURCE_SYNTHETIC_FILL = ''synthetic_fill''"
definition MAX_PARAMS :: nat where "MAX_PARAMS = 65535"
definition RAW_PARAMS_PER_ROW :: nat where "RAW_PARAMS_PER_ROW = 13"
definition ORIGIN_RAW :: string where "ORIGIN_RAW = ''raw''"
definition ORIGIN_SUPERSEDED :: string where "ORIGIN_SUPERSEDED = ''superseded''"

section \<open>Rows\<close>

type_synonym series = "string \<times> string \<times> string \<times> string"
type_synonym raw_key = "series \<times> stamp"

record served_bar =
  sb_timestamp :: stamp
  sb_symbol :: string
  sb_timeframe :: string
  sb_vendor :: string
  sb_kind :: string
  sb_open :: pyfloat
  sb_high :: pyfloat
  sb_low :: pyfloat
  sb_close :: pyfloat
  sb_volume :: "int option"

record raw_entry =
  re_values :: bar_values
  re_served :: "stamp option"
  re_request :: "string option"
  re_load :: "string option"

text \<open>A row of \<open>ohlcv_revision\<close>; its vendor and kind columns are those of the values.\<close>

record revision =
  rv_load :: string
  rv_key :: raw_key
  rv_values :: bar_values
  rv_token :: string
  rv_request :: "string option"
  rv_origin :: string

record raw_db =
  rd_raw :: "(raw_key \<times> raw_entry) list"
  rd_revisions :: "revision list"

record raw_delta =
  rx_series :: series
  rx_n_stored :: nat
  rx_new :: nat
  rx_changed :: nat
  rx_unchanged :: nat
  rx_changed_old :: "(stamp \<times> bar_values) list"
  rx_new_timestamps :: "stamp list"
  rx_superseded :: nat
  rx_superseded_timestamps :: "stamp list"

definition row_series :: "served_bar \<Rightarrow> series" where
  "row_series r = (sb_symbol r, sb_timeframe r, sb_vendor r, sb_kind r)"

definition row_values :: "served_bar \<Rightarrow> bar_values" where
  "row_values r =
     \<lparr>bv_open = Some (sb_open r), bv_high = Some (sb_high r), bv_low = Some (sb_low r), bv_close = Some (sb_close r),
      bv_volume = sb_volume r, bv_vendor = sb_vendor r, bv_kind = sb_kind r\<rparr>"

section \<open>Validation\<close>

definition validate_row :: "string list \<Rightarrow> string list \<Rightarrow> stamp \<Rightarrow> served_bar \<Rightarrow> err + unit" where
  "validate_row vendor_codes kind_codes latest_allowed r =
     (if SOURCE_SYNTHETIC_FILL \<in> {sb_vendor r, sb_kind r} \<or> sb_vendor r = VENDOR_DERIVED \<or>
         sb_kind r \<in> set CANONICAL_ONLY_KINDS \<or> sb_vendor r \<notin> set vendor_codes \<or> sb_kind r \<notin> set kind_codes \<or>
         latest_allowed < sb_timestamp r \<or> NaN \<in> {sb_open r, sb_high r, sb_low r, sb_close r} \<or>
         (case sb_volume r of None \<Rightarrow> False | Some v \<Rightarrow> v < 0)
      then Inl ValueError else Inr ())"

text \<open>A key offered twice with different values; \<open>seen\<close> is the dictionary of the rows before.\<close>

definition offer_key :: "served_bar \<Rightarrow> raw_key" where
  "offer_key r = (row_series r, sb_timestamp r)"

fun contradicts :: "(raw_key \<times> served_bar) list \<Rightarrow> served_bar list \<Rightarrow> bool" where
  "contradicts seen [] \<longleftrightarrow> False"
| "contradicts seen (r # rows) \<longleftrightarrow>
     (case map_of seen (offer_key r) of None \<Rightarrow> False | Some e \<Rightarrow> \<not> values_eq (row_values e) (row_values r)) \<or>
     contradicts ((offer_key r, r) # seen) rows"

definition group_by_series ::
  "(served_bar \<Rightarrow> err + unit) \<Rightarrow> served_bar list \<Rightarrow> err + (series \<times> (stamp \<times> served_bar) list) list" where
  "group_by_series validate rows =
     ebind (emap validate rows) (\<lambda>_.
       if contradicts [] rows then Inl ValueError
       else Inr (map (\<lambda>(s, rs). (s, dict_of (map (\<lambda>r. (sb_timestamp r, r)) rs))) (group_by row_series rows)))"

definition check_answered_at :: "stamp \<Rightarrow> stamp \<Rightarrow> err + unit" where
  "check_answered_at answered_at latest_allowed = (if latest_allowed < answered_at then Inl ValueError else Inr ())"

section \<open>Classification\<close>

text \<open>One bounded read per calendar year; the years of the stamps wanted.\<close>

definition read_stored :: "raw_db \<Rightarrow> series \<Rightarrow> stamp list \<Rightarrow> (stamp \<times> raw_entry) list" where
  "read_stored db series stamps =
     concat (map (\<lambda>(_, batch).
         map (\<lambda>(k, e). (snd k, e))
           (filter (\<lambda>(k, _). fst k = series \<and> snd k \<in> set batch \<and> hd batch \<le> snd k \<and> snd k \<le> last batch) (rd_raw db)))
       (group_by (\<lambda>ts. year_of (utc_day ts)) (sorted_set stamps)))"

record classified =
  cf_delta :: raw_delta
  cf_replaced :: "(stamp \<times> bar_values) list"
  cf_superseded :: "(stamp \<times> bar_values) list"
  cf_old_request :: "(stamp \<times> string option) list"

definition not_older :: "stamp \<Rightarrow> stamp option \<Rightarrow> bool" where
  "not_older answered_at stored_at \<longleftrightarrow> (case stored_at of None \<Rightarrow> True | Some s \<Rightarrow> s \<le> answered_at)"

definition classify_series ::
  "raw_db \<Rightarrow> series \<Rightarrow> (stamp \<times> served_bar) list \<Rightarrow> stamp \<Rightarrow> err + classified" where
  "classify_series db series keyed answered_at =
     (let stamps = sort (map fst keyed);
          fetched = read_stored db series stamps;
          stored = map (\<lambda>(ts, e). (ts, re_values e)) fetched;
          served = map (\<lambda>(ts, e). (ts, re_served e)) fetched
      in ebind (classify (map (\<lambda>ts. (ts, row_values (the (map_of keyed ts)))) stamps) stored None) (\<lambda>delta.
         let changed = sort_key fst (wd_changed delta);
             takes = (\<lambda>ts. not_older answered_at (the (map_of served ts)));
             replaced = map (\<lambda>(ts, (_, old)). (ts, old)) (filter (\<lambda>(ts, _). takes ts) changed);
             superseded = map (\<lambda>(ts, (new, _)). (ts, new)) (filter (\<lambda>(ts, _). \<not> takes ts) changed)
         in Inr \<lparr>cf_delta =
                   \<lparr>rx_series = series, rx_n_stored = length stored, rx_new = length (wd_new delta), rx_changed = length replaced,
                    rx_unchanged = wd_unchanged delta, rx_changed_old = replaced,
                    rx_new_timestamps = sort (map fst (wd_new delta)), rx_superseded = length superseded,
                    rx_superseded_timestamps = sort (map fst superseded)\<rparr>,
                 cf_replaced = replaced, cf_superseded = superseded,
                 cf_old_request = map (\<lambda>(ts, e). (ts, re_request e)) fetched\<rparr>))"

section \<open>Writing\<close>

definition raw_params :: "served_bar \<Rightarrow> stamp \<Rightarrow> string \<Rightarrow> string \<Rightarrow> raw_key \<times> raw_entry" where
  "raw_params r served_at request_id load_id =
     (offer_key r, \<lparr>re_values = row_values r, re_served = Some served_at, re_request = Some request_id, re_load = Some load_id\<rparr>)"

text \<open>\<open>INSERT\<close>, and \<open>INSERT ... ON CONFLICT DO UPDATE\<close> with the serve-time guard, of one statement's rows.\<close>

definition insert_chunk ::
  "(raw_key \<times> raw_entry) list \<Rightarrow> (raw_key \<times> raw_entry) list \<Rightarrow> err + (raw_key \<times> raw_entry) list" where
  "insert_chunk table rows =
     (if distinct (map fst rows) \<and> set (map fst rows) \<inter> set (map fst table) = {} then Inr (table @ rows)
      else Inl IntegrityViolation)"

definition upsert_row :: "raw_key \<times> raw_entry \<Rightarrow> (raw_key \<times> raw_entry) list \<Rightarrow> (raw_key \<times> raw_entry) list" where
  "upsert_row = (\<lambda>(k, e) table.
     case map_of table k of
       None \<Rightarrow> table @ [(k, e)]
     | Some old \<Rightarrow> if not_older (the (re_served e)) (re_served old) then AList.update k e table else table)"

definition upsert_chunk ::
  "(raw_key \<times> raw_entry) list \<Rightarrow> (raw_key \<times> raw_entry) list \<Rightarrow> err + (raw_key \<times> raw_entry) list" where
  "upsert_chunk table rows =
     (if distinct (map fst rows) then Inr (fold upsert_row rows table) else Inl IntegrityViolation)"

fun write_chunks :: "('t \<Rightarrow> 'r list \<Rightarrow> err + 't) \<Rightarrow> 't \<Rightarrow> 'r list list \<Rightarrow> err + 't" where
  "write_chunks f table [] = Inr table"
| "write_chunks f table (chunk # rest) = ebind (f table chunk) (\<lambda>table. write_chunks f table rest)"

definition write_raw_rows ::
  "((raw_key \<times> raw_entry) list \<Rightarrow> (raw_key \<times> raw_entry) list \<Rightarrow> err + (raw_key \<times> raw_entry) list)
   \<Rightarrow> (raw_key \<times> raw_entry) list \<Rightarrow> (raw_key \<times> raw_entry) list \<Rightarrow> nat \<Rightarrow> err + (raw_key \<times> raw_entry) list" where
  "write_raw_rows statement table rows batch_rows =
     write_chunks statement table (chunks (min batch_rows (MAX_PARAMS div RAW_PARAMS_PER_ROW)) rows)"

text \<open>A small batch is below the bound of the parameters, so evaluation need not compute it.\<close>

lemma write_raw_rows_code [code]:
  "write_raw_rows statement table rows batch_rows =
     write_chunks statement table
       (chunks (if batch_rows \<le> 9 then batch_rows else min batch_rows (MAX_PARAMS div RAW_PARAMS_PER_ROW)) rows)"
  by (simp add: write_raw_rows_def MAX_PARAMS_def RAW_PARAMS_PER_ROW_def)

record write_params =
  wp_batch_rows :: int
  wp_future_tolerance_s :: int

definition new_rows_of :: "(stamp \<times> served_bar) list \<Rightarrow> classified \<Rightarrow> stamp \<Rightarrow> string \<Rightarrow> string \<Rightarrow> (raw_key \<times> raw_entry) list" where
  "new_rows_of keyed found answered_at request_id load_id =
     map (\<lambda>ts. raw_params (the (map_of keyed ts)) answered_at request_id load_id) (rx_new_timestamps (cf_delta found))"

definition changed_rows_of :: "(stamp \<times> served_bar) list \<Rightarrow> classified \<Rightarrow> stamp \<Rightarrow> string \<Rightarrow> string \<Rightarrow> (raw_key \<times> raw_entry) list" where
  "changed_rows_of keyed found answered_at request_id load_id =
     map (\<lambda>(ts, _). raw_params (the (map_of keyed ts)) answered_at request_id load_id) (cf_replaced found)"

definition revisions_of :: "series \<Rightarrow> classified \<Rightarrow> string \<Rightarrow> string \<Rightarrow> revision list" where
  "revisions_of = (\<lambda>(symbol, timeframe, vendor, kind) found request_id load_id.
     let row = (\<lambda>ts values request origin.
           \<lparr>rv_load = load_id, rv_key = ((symbol, timeframe, vendor, kind), ts), rv_values = values,
            rv_token = pair_token vendor kind, rv_request = request, rv_origin = origin\<rparr>)
     in map (\<lambda>(ts, old). row ts old (the (map_of (cf_old_request found) ts)) ORIGIN_RAW) (cf_replaced found) @
        map (\<lambda>(ts, offered). row ts offered (Some request_id) ORIGIN_SUPERSEDED) (cf_superseded found))"

definition write_raw ::
  "raw_db \<Rightarrow> served_bar list \<Rightarrow> string \<Rightarrow> string \<Rightarrow> stamp \<Rightarrow> string list \<Rightarrow> string list \<Rightarrow> write_params \<Rightarrow> stamp
    \<Rightarrow> err + (raw_delta list \<times> raw_db)" where
  "write_raw db rows load_id request_id answered_at vendor_codes kind_codes params now =
     (let latest_allowed = now + wp_future_tolerance_s params * second
      in if wp_batch_rows params < 1 then Inl ValueError
         else ebind (check_answered_at answered_at latest_allowed) (\<lambda>_.
         ebind (group_by_series (validate_row vendor_codes kind_codes latest_allowed) rows) (\<lambda>by_series.
         if by_series = [] then Inr ([], db)
         else ebind (emap (\<lambda>(series, keyed). ebind (classify_series db series keyed answered_at) (\<lambda>found.
                       Inr (series, keyed, found))) (sort_key fst by_series)) (\<lambda>all.
           let new_rows = concat (map (\<lambda>(_, keyed, found). new_rows_of keyed found answered_at request_id load_id) all);
               changed_rows = concat (map (\<lambda>(_, keyed, found). changed_rows_of keyed found answered_at request_id load_id) all);
               revisions = concat (map (\<lambda>(series, _, found). revisions_of series found request_id load_id) all)
           in ebind (write_raw_rows insert_chunk (rd_raw db) new_rows (nat (wp_batch_rows params))) (\<lambda>table.
              ebind (write_raw_rows upsert_chunk table changed_rows (nat (wp_batch_rows params))) (\<lambda>table.
              Inr (map (\<lambda>(_, _, found). cf_delta found) all,
                   \<lparr>rd_raw = table, rd_revisions = rd_revisions db @ revisions\<rparr>)))))))"

definition preview_series :: "raw_db \<Rightarrow> served_bar list \<Rightarrow> stamp \<Rightarrow> err + raw_delta" where
  "preview_series db rows answered_at =
     ebind (group_by_series (\<lambda>_. Inr ()) rows) (\<lambda>grouped.
       case grouped of
         [(series, keyed)] \<Rightarrow> ebind (classify_series db series keyed answered_at) (\<lambda>found. Inr (cf_delta found))
       | _ \<Rightarrow> Inl ValueError)"

definition read_stored_closes :: "raw_db \<Rightarrow> series \<Rightarrow> stamp list \<Rightarrow> (stamp \<times> pyfloat option) list" where
  "read_stored_closes db series stamps = dict_of (map (\<lambda>(ts, e). (ts, bv_close (re_values e))) (read_stored db series stamps))"

end
