(* ===== verification/Canonical_Writer.thy ===== *)
theory Canonical_Writer
  imports Selection Source_Policy
begin

text \<open>
  The writer of the canonical bars of the direct timeframes, \<open>services/bar_selection.py\<close>.

  The table \<open>market_data_ohlcv\<close> is a map from its key (symbol, timeframe, stamp), the table \<open>bar_session_choice\<close> a map from
  (symbol, timeframe, session).  The raw rows are the candidates \<open>raw\<close>, the view of the policy table is \<open>stored_policy\<close>.  The
  New York midnight a date starts at is the parameter \<open>midnight_ny\<close>, the clock of the database the argument \<open>now\<close>.  A series
  is read and written under its advisory lock, so a call sees no other writer of it.
\<close>

definition BAR_VENDORS :: "string list" where
  "BAR_VENDORS = [VENDOR_IBKR, VENDOR_ALPACA, ''tradier'', VENDOR_DERIVED]"

section \<open>Tables\<close>

record canonical_row =
  cr_open :: real
  cr_high :: real
  cr_low :: real
  cr_close :: real
  cr_volume :: int
  cr_vendor :: string
  cr_kind :: string

type_synonym canonical_table = "slot \<rightharpoonup> canonical_row"

record canonical_db =
  cd_bars :: canonical_table
  cd_choices :: "string \<times> string \<times> day \<rightharpoonup> session_choice \<times> stamp"

record selection_counts =
  se_new :: nat
  se_changed :: nat
  se_unchanged :: nat
  se_skipped_null_volume :: nat
  se_unselected :: nat
  se_off_grid :: nat
  se_sessions_fallback :: nat
  se_sessions_incomplete :: nat
  se_dropped :: nat
  se_excluded :: nat

definition no_counts :: selection_counts where
  "no_counts = \<lparr>se_new = 0, se_changed = 0, se_unchanged = 0, se_skipped_null_volume = 0, se_unselected = 0, se_off_grid = 0,
     se_sessions_fallback = 0, se_sessions_incomplete = 0, se_dropped = 0, se_excluded = 0\<rparr>"

section \<open>Reads\<close>

definition session_window :: "(stamp \<Rightarrow> day) \<Rightarrow> (day \<Rightarrow> stamp) \<Rightarrow> stamp \<Rightarrow> stamp \<Rightarrow> stamp \<times> stamp" where
  "session_window ny midnight_ny start stop = (midnight_ny (ny start), midnight_ny (ny (stop - 1) + 1))"

definition read_raw :: "candidate list \<Rightarrow> string \<Rightarrow> string \<Rightarrow> stamp \<Rightarrow> stamp \<Rightarrow> candidate list" where
  "read_raw raw symbol timeframe start stop =
     filter (\<lambda>c. c_symbol c = symbol \<and> c_timeframe c = timeframe \<and> start \<le> c_timestamp c \<and> c_timestamp c < stop) raw"

definition policy_row_of :: "policy \<Rightarrow> policy_row" where
  "policy_row_of p =
     \<lparr>pr_timeframe = po_timeframe p, pr_symbol = po_symbol p, pr_valid_from = po_valid_from p, pr_valid_to = po_valid_to p,
      pr_primary = po_primary p, pr_fallback = po_fallback p\<rparr>"

definition read_policy :: "policy list \<Rightarrow> string \<Rightarrow> string \<Rightarrow> policy_row list" where
  "read_policy stored_policy timeframe symbol =
     map policy_row_of (filter (\<lambda>p. po_timeframe p = timeframe \<and> po_symbol p \<in> {None, Some symbol}) stored_policy)"

definition read_canonical :: "canonical_table \<Rightarrow> string \<Rightarrow> string \<Rightarrow> stamp \<Rightarrow> stamp \<Rightarrow> stamp \<rightharpoonup> canonical_row" where
  "read_canonical bars symbol timeframe start stop =
     (\<lambda>ts. if start \<le> ts \<and> ts < stop then bars (symbol, timeframe, ts) else None)"

section \<open>Writes\<close>

definition canonical_values :: "candidate \<Rightarrow> int \<Rightarrow> canonical_row" where
  "canonical_values c volume =
     \<lparr>cr_open = c_open c, cr_high = c_high c, cr_low = c_low c, cr_close = c_close c, cr_volume = volume,
      cr_vendor = c_vendor c, cr_kind = c_kind c\<rparr>"

definition canonical_entry :: "candidate \<Rightarrow> slot \<times> canonical_row" where
  "canonical_entry c = ((c_symbol c, c_timeframe c, c_timestamp c), canonical_values c (the (c_volume c)))"

definition CANONICAL_MAX_PARAMS :: nat where "CANONICAL_MAX_PARAMS = 65535"
definition CANONICAL_PARAMS_PER_ROW :: nat where "CANONICAL_PARAMS_PER_ROW = 10"

text \<open>One \<open>INSERT ... ON CONFLICT DO UPDATE\<close>; a statement that names a key twice is refused.\<close>

definition upsert_bars :: "canonical_table \<Rightarrow> (slot \<times> canonical_row) list \<Rightarrow> err + canonical_table" where
  "upsert_bars bars rows =
     (if distinct (map fst rows) then Inr (fold (\<lambda>(k, r) bars. bars(k \<mapsto> r)) rows bars) else Inl IntegrityViolation)"

fun write_bar_chunks :: "canonical_table \<Rightarrow> (slot \<times> canonical_row) list list \<Rightarrow> err + canonical_table" where
  "write_bar_chunks bars [] = Inr bars"
| "write_bar_chunks bars (chunk # rest) = ebind (upsert_bars bars chunk) (\<lambda>bars. write_bar_chunks bars rest)"

definition write_bars :: "canonical_table \<Rightarrow> (slot \<times> canonical_row) list \<Rightarrow> nat \<Rightarrow> err + canonical_table" where
  "write_bars bars rows batch_rows =
     write_bar_chunks bars (chunks (min batch_rows (CANONICAL_MAX_PARAMS div CANONICAL_PARAMS_PER_ROW)) rows)"

lemma write_bars_code [code]:
  "write_bars bars rows batch_rows =
     write_bar_chunks bars
       (chunks (if batch_rows \<le> 9 then batch_rows else min batch_rows (CANONICAL_MAX_PARAMS div CANONICAL_PARAMS_PER_ROW)) rows)"
  by (simp add: write_bars_def CANONICAL_MAX_PARAMS_def CANONICAL_PARAMS_PER_ROW_def)

text \<open>\<open>DELETE ... AND vendor = ANY(BAR_VENDORS)\<close> of one slot, with its row count.\<close>

definition retracts :: "canonical_table \<Rightarrow> slot \<Rightarrow> bool" where
  "retracts bars k \<longleftrightarrow> (case bars k of None \<Rightarrow> False | Some r \<Rightarrow> cr_vendor r \<in> set BAR_VENDORS)"

fun retract :: "slot list \<Rightarrow> canonical_table \<Rightarrow> nat \<times> canonical_table" where
  "retract [] bars = (0, bars)"
| "retract (k # ks) bars =
     (let (n, bars') = retract ks (if retracts bars k then bars(k := None) else bars)
      in (of_bool (retracts bars k) + n, bars'))"

text \<open>\<open>record_session_choices\<close>: the sessions selected that have no choice lose their row; an upsert that changes nothing keeps
  the time of the decision.\<close>

definition clear_choices ::
  "string \<Rightarrow> string \<Rightarrow> day list \<Rightarrow> day list \<Rightarrow> (string \<times> string \<times> day \<rightharpoonup> session_choice \<times> stamp)
   \<Rightarrow> (string \<times> string \<times> day \<rightharpoonup> session_choice \<times> stamp)" where
  "clear_choices symbol timeframe sessions chosen table =
     (\<lambda>(s, tf, d). if s = symbol \<and> tf = timeframe \<and> d \<in> set sessions \<and> d \<notin> set chosen then None else table (s, tf, d))"

definition upsert_choice ::
  "string \<Rightarrow> string \<Rightarrow> stamp \<Rightarrow> session_choice \<Rightarrow> (string \<times> string \<times> day \<rightharpoonup> session_choice \<times> stamp)
   \<Rightarrow> (string \<times> string \<times> day \<rightharpoonup> session_choice \<times> stamp)" where
  "upsert_choice symbol timeframe now c table =
     (let k = (symbol, timeframe, sc_session c)
      in if map_option fst (table k) = Some c then table else table(k \<mapsto> (c, now)))"

definition record_session_choices ::
  "string \<Rightarrow> string \<Rightarrow> day list \<Rightarrow> session_choice list \<Rightarrow> stamp \<Rightarrow> canonical_db \<Rightarrow> canonical_db" where
  "record_session_choices symbol timeframe sessions choices now db =
     (if sessions = [] then db
      else db\<lparr>cd_choices := fold (upsert_choice symbol timeframe now) choices
                (clear_choices symbol timeframe sessions (map sc_session choices) (cd_choices db))\<rparr>)"

section \<open>Selection of one series and of several\<close>

record selection_request =
  rs_timeframe :: string
  rs_start :: stamp
  rs_stop :: stamp
  rs_policy :: "policy_row list option"
  rs_kind_order :: "(string \<times> int) list"
  rs_batch_rows :: int
  rs_exclude :: "stamp list"

definition new_winners :: "(stamp \<rightharpoonup> canonical_row) \<Rightarrow> candidate list \<Rightarrow> candidate list" where
  "new_winners stored winners = filter (\<lambda>w. c_volume w \<noteq> None \<and> stored (c_timestamp w) = None) winners"

definition same_row :: "(stamp \<rightharpoonup> canonical_row) \<Rightarrow> candidate \<Rightarrow> bool" where
  "same_row stored w \<longleftrightarrow> stored (c_timestamp w) = Some (snd (canonical_entry w))"

definition changed_winners :: "(stamp \<rightharpoonup> canonical_row) \<Rightarrow> candidate list \<Rightarrow> candidate list" where
  "changed_winners stored winners =
     filter (\<lambda>w. c_volume w \<noteq> None \<and> stored (c_timestamp w) \<noteq> None \<and> \<not> same_row stored w) winners"

definition write_selection ::
  "selection_outcome \<Rightarrow> string \<Rightarrow> string \<Rightarrow> stamp \<times> stamp \<Rightarrow> stamp list \<Rightarrow> nat \<Rightarrow> stamp \<Rightarrow> selection_counts \<times> canonical_db
   \<Rightarrow> err + (selection_counts \<times> canonical_db)" where
  "write_selection out symbol timeframe = (\<lambda>(start, stop) exclude batch_rows now (n, db).
     let db = record_session_choices symbol timeframe (so_sessions out) (so_choices out) now db;
         (n_retracted, bars) = retract (filter (\<lambda>(_, _, ts). ts \<notin> set exclude) (so_dropped out @ so_unselected out)) (cd_bars db);
         n = n\<lparr>se_unselected := se_unselected n + so_n_unselected out, se_excluded := se_excluded n + so_n_excluded out,
               se_off_grid := se_off_grid n + so_n_off_grid out,
               se_sessions_fallback := se_sessions_fallback n + length (filter choice_fallback (so_choices out)),
               se_sessions_incomplete := se_sessions_incomplete n + length (filter (\<lambda>c. \<not> sc_complete c) (so_choices out)),
               se_dropped := se_dropped n + n_retracted\<rparr>;
         winners = filter (\<lambda>w. c_timestamp w \<notin> set exclude) (so_winners out)
     in if winners = [] then Inr (n, db\<lparr>cd_bars := bars\<rparr>)
        else
          let stored = read_canonical bars symbol timeframe start stop;
              new_rows = map canonical_entry (new_winners stored winners);
              changed_rows = map canonical_entry (changed_winners stored winners)
          in ebind (write_bars bars new_rows batch_rows) (\<lambda>bars.
             ebind (write_bars bars changed_rows batch_rows) (\<lambda>bars.
             Inr (n\<lparr>se_new := se_new n + length new_rows, se_changed := se_changed n + length changed_rows,
                    se_unchanged := se_unchanged n + length (filter (\<lambda>w. c_volume w \<noteq> None \<and> same_row stored w) winners),
                    se_skipped_null_volume := se_skipped_null_volume n + length (filter (\<lambda>w. c_volume w = None) winners)\<rparr>,
                  db\<lparr>cd_bars := bars\<rparr>))))"

definition outcome_of ::
  "schedule \<Rightarrow> (stamp \<Rightarrow> day) \<Rightarrow> (day \<Rightarrow> stamp) \<Rightarrow> candidate list \<Rightarrow> policy list \<Rightarrow> selection_request \<Rightarrow> string
   \<Rightarrow> err + selection_outcome" where
  "outcome_of cal ny midnight_ny raw stored_policy q symbol =
     (let (start, stop) = session_window ny midnight_ny (rs_start q) (rs_stop q);
          series_policy = (case rs_policy q of None \<Rightarrow> read_policy stored_policy (rs_timeframe q) symbol | Some rows \<Rightarrow> rows)
      in select_slots cal ny (read_raw raw symbol (rs_timeframe q) start stop) series_policy (rs_kind_order q))"

definition select_symbol ::
  "schedule \<Rightarrow> (stamp \<Rightarrow> day) \<Rightarrow> (day \<Rightarrow> stamp) \<Rightarrow> candidate list \<Rightarrow> policy list \<Rightarrow> stamp \<Rightarrow> selection_request \<Rightarrow> string
   \<Rightarrow> selection_counts \<times> canonical_db \<Rightarrow> err + (selection_counts \<times> canonical_db)" where
  "select_symbol cal ny midnight_ny raw stored_policy now q symbol st =
     ebind (outcome_of cal ny midnight_ny raw stored_policy q symbol) (\<lambda>out.
       write_selection out symbol (rs_timeframe q) (session_window ny midnight_ny (rs_start q) (rs_stop q)) (rs_exclude q)
         (nat (rs_batch_rows q)) now st)"

fun select_symbols ::
  "(string \<Rightarrow> selection_counts \<times> canonical_db \<Rightarrow> err + (selection_counts \<times> canonical_db)) \<Rightarrow> string list
   \<Rightarrow> selection_counts \<times> canonical_db \<Rightarrow> err + (selection_counts \<times> canonical_db)" where
  "select_symbols f [] st = Inr st"
| "select_symbols f (symbol # symbols) st = ebind (f symbol st) (\<lambda>st. select_symbols f symbols st)"

definition select_and_write ::
  "schedule \<Rightarrow> (stamp \<Rightarrow> day) \<Rightarrow> (day \<Rightarrow> stamp) \<Rightarrow> candidate list \<Rightarrow> policy list \<Rightarrow> stamp \<Rightarrow> selection_request \<Rightarrow> string list
   \<Rightarrow> canonical_db \<Rightarrow> err + (selection_counts \<times> canonical_db)" where
  "select_and_write cal ny midnight_ny raw stored_policy now q symbols db =
     (if rs_timeframe q \<notin> set DIRECT_TIMEFRAMES \<or> rs_batch_rows q < 1 then Inl ValueError
      else select_symbols (select_symbol cal ny midnight_ny raw stored_policy now q) (sorted_set symbols) (no_counts, db))"

end
