(* ===== verification/Restatement.thy ===== *)
theory Restatement
  imports Prelude
begin

text \<open>
  The restatement detector, \<open>src/intelligence/bars/restatement.py\<close>: what a vendor's re-serve of bars it had answered before
  changed.

  A value is the tuple (open, high, low, close, volume) of a bar; prices are finite.  A mapping is the list of its items.  The
  error of \<open>statistics.median\<close> on no data is a subclass of \<open>ValueError\<close> and stands as that here.  The text of the detail is not
  modelled.
\<close>

record ohlcv =
  oh_open :: "real option"
  oh_high :: "real option"
  oh_low :: "real option"
  oh_close :: "real option"
  oh_volume :: "int option"

definition SIGNATURE_SHARE :: string where "SIGNATURE_SHARE = ''share''"
definition SIGNATURE_PRICE_RATIO :: string where "SIGNATURE_PRICE_RATIO = ''price_ratio''"
definition SIGNATURE_VOLUME_RATIO :: string where "SIGNATURE_VOLUME_RATIO = ''volume_ratio''"
definition SIGNATURE_TIME_SHIFT :: string where "SIGNATURE_TIME_SHIFT = ''time_shift''"

definition BASIS_SIGNATURES :: "string list" where
  "BASIS_SIGNATURES = [SIGNATURE_PRICE_RATIO, SIGNATURE_VOLUME_RATIO, SIGNATURE_TIME_SHIFT]"

record detector_params =
  dp_flag_share :: real
  dp_flag_min_stored :: int
  dp_signature_min_bars :: int
  dp_ratio_tolerance :: real
  dp_shift_min_share :: real
  dp_ratio_min_share :: real
  dp_ratio_min_move :: real
  dp_price_tick :: real
  dp_volume_tolerance :: real
  dp_volume_min_move :: real

record restatement =
  rt_n_stored :: nat
  rt_n_changed :: nat
  rt_share :: real
  rt_signatures :: "string list"
  rt_ratio :: "real option"
  rt_shift_bars :: "int option"
  rt_volume_ratio :: "real option"

definition flagged :: "restatement \<Rightarrow> bool" where
  "flagged r \<longleftrightarrow> rt_signatures r \<noteq> []"

definition basis_change :: "restatement \<Rightarrow> bool" where
  "basis_change r \<longleftrightarrow> (\<exists>s \<in> set (rt_signatures r). s \<in> set BASIS_SIGNATURES)"

definition positive :: "'a::{zero, linorder} option \<Rightarrow> bool" where
  "positive v = (case v of None \<Rightarrow> False | Some x \<Rightarrow> 0 < x)"

definition first_four :: "ohlcv \<Rightarrow> real option list" where
  "first_four v = [oh_open v, oh_high v, oh_low v, oh_close v]"

definition positive_pairs :: "(ohlcv \<times> ohlcv) list \<Rightarrow> (ohlcv \<times> ohlcv) list" where
  "positive_pairs changed = filter (\<lambda>(new, old). list_all positive (first_four new) \<and> list_all positive (first_four old)) changed"

definition price_pairs :: "ohlcv \<times> ohlcv \<Rightarrow> (real \<times> real) list" where
  "price_pairs = (\<lambda>(new, old). zip (map the (first_four new)) (map the (first_four old)))"

definition price_agrees :: "detector_params \<Rightarrow> real \<Rightarrow> ohlcv \<times> ohlcv \<Rightarrow> bool" where
  "price_agrees p multiple pair \<longleftrightarrow>
     (let rounding = dp_price_tick p * (1 + multiple) / 2
      in list_all (\<lambda>(new, old). \<bar>new - old * multiple\<bar> \<le> dp_ratio_tolerance p * old * multiple + rounding) (price_pairs pair))"

definition price_multiple :: "(ohlcv \<times> ohlcv) list \<Rightarrow> detector_params \<Rightarrow> err + real option" where
  "price_multiple changed p =
     (let pairs = positive_pairs changed
      in if int (length pairs) < dp_signature_min_bars p then Inr None
         else if pairs = [] then Inl ValueError
         else let multiple = median (concat (map (\<lambda>pair. map (\<lambda>(new, old). new / old) (price_pairs pair)) pairs));
                  typical_old = median (map (\<lambda>(_, old). the (oh_close old)) pairs)
              in if \<bar>multiple - 1\<bar> \<le> dp_ratio_min_move p then Inr None
                 else if \<bar>multiple - 1\<bar> * typical_old \<le> 2 * dp_price_tick p then Inr None
                 else let n_agree = length (filter (price_agrees p multiple) pairs)
                      in Inr (if dp_ratio_min_share p \<le> real n_agree / real (length pairs) then Some multiple else None))"

definition volume_pairs :: "(ohlcv \<times> ohlcv) list \<Rightarrow> (real \<times> real) list" where
  "volume_pairs changed =
     map (\<lambda>(new, old). (of_int (the (oh_volume new)), of_int (the (oh_volume old))))
       (filter (\<lambda>(new, old). positive (oh_volume new) \<and> positive (oh_volume old)) changed)"

definition volume_multiple :: "(ohlcv \<times> ohlcv) list \<Rightarrow> detector_params \<Rightarrow> err + real option" where
  "volume_multiple changed p =
     (let pairs = volume_pairs changed
      in if int (length pairs) < dp_signature_min_bars p then Inr None
         else if pairs = [] then Inl ValueError
         else let multiple = median (map (\<lambda>(new, old). new / old) pairs)
              in if \<bar>multiple - 1\<bar> \<le> dp_volume_min_move p then Inr None
                 else let rounding = max multiple 1;
                          n_agree = length (filter (\<lambda>(new, old). \<bar>new - old * multiple\<bar> \<le> dp_volume_tolerance p * old * multiple + rounding) pairs)
                      in Inr (if dp_ratio_min_share p \<le> real n_agree / real (length pairs) then Some multiple else None))"

definition changed_stamps :: "(stamp \<times> ohlcv) list \<Rightarrow> (stamp \<times> ohlcv) list \<Rightarrow> stamp list" where
  "changed_stamps offered stored =
     map fst (filter (\<lambda>(ts, v). case map_of stored ts of None \<Rightarrow> False | Some old \<Rightarrow> old \<noteq> v) offered)"

definition changed_pairs :: "(stamp \<times> ohlcv) list \<Rightarrow> (stamp \<times> ohlcv) list \<Rightarrow> (ohlcv \<times> ohlcv) list" where
  "changed_pairs offered stored =
     map (\<lambda>ts. (the (map_of offered ts), the (map_of stored ts))) (changed_stamps offered stored)"

definition shift_share :: "(stamp \<times> ohlcv) list \<Rightarrow> (stamp \<times> ohlcv) list \<Rightarrow> int \<Rightarrow> int \<Rightarrow> real" where
  "shift_share offered stored bar step =
     (let changed = changed_stamps offered stored
      in real (length (filter (\<lambda>ts. map_of stored (ts + step * bar) = map_of offered ts) changed)) / real (length changed))"

definition shift_of :: "(stamp \<times> ohlcv) list \<Rightarrow> (stamp \<times> ohlcv) list \<Rightarrow> int \<Rightarrow> detector_params \<Rightarrow> int option" where
  "shift_of offered stored bar p = find (\<lambda>step. dp_shift_min_share p \<le> shift_share offered stored bar step) [-1, 1]"

definition detect :: "(stamp \<times> ohlcv) list \<Rightarrow> (stamp \<times> ohlcv) list \<Rightarrow> int \<Rightarrow> detector_params \<Rightarrow> err + restatement" where
  "detect offered stored bar p =
     (let changed = changed_stamps offered stored;
          n_stored = length (filter (\<lambda>(ts, _). map_of stored ts \<noteq> None) offered);
          share = (if n_stored = 0 then 0 else real (length changed) / real n_stored);
          by_share = (if dp_flag_min_stored p \<le> int n_stored \<and> dp_flag_share p < share then [SIGNATURE_SHARE] else []);
          result = (\<lambda>signatures ratio shift volume.
             \<lparr>rt_n_stored = n_stored, rt_n_changed = length changed, rt_share = share, rt_signatures = signatures,
              rt_ratio = ratio, rt_shift_bars = shift, rt_volume_ratio = volume\<rparr>)
      in if int (length changed) < dp_signature_min_bars p then Inr (result by_share None None None)
         else ebind (price_multiple (changed_pairs offered stored) p) (\<lambda>ratio.
              ebind (volume_multiple (changed_pairs offered stored) p) (\<lambda>volume.
                let shift = shift_of offered stored bar p
                in Inr (result
                     (by_share @ (if ratio \<noteq> None then [SIGNATURE_PRICE_RATIO] else []) @
                      (if volume \<noteq> None then [SIGNATURE_VOLUME_RATIO] else []) @ (if shift \<noteq> None then [SIGNATURE_TIME_SHIFT] else []))
                     ratio shift volume))))"

section \<open>The median of a majority\<close>

lemma sorted_split_at:
  fixes m :: "'a::linorder"
  shows "sorted s \<Longrightarrow> s = filter (\<lambda>x. x < m) s @ filter (\<lambda>x. x = m) s @ filter (\<lambda>x. m < x) s"
proof (induction s)
  case (Cons x s)
  then have "filter (\<lambda>x. x < m) s = []" if "m \<le> x" using that by (auto simp: filter_empty_conv)
  moreover from Cons have "filter (\<lambda>x. x = m) s = []" if "m < x" using that by (auto simp: filter_empty_conv)
  ultimately show ?case using Cons by (cases x m rule: linorder_cases) auto
qed simp

lemma median_majority:
  assumes "length xs < 2 * length (filter (\<lambda>x. x = m) xs)"
  shows "median xs = m"
proof -
  let ?a = "length (filter (\<lambda>x. x < m) xs)" and ?c = "length (filter (\<lambda>x. x = m) xs)" and ?n = "length xs"
  have len: "length (filter P (sort xs)) = length (filter P xs)" for P
    by (metis mset_filter mset_sort size_mset)
  have split: "sort xs = filter (\<lambda>x. x < m) (sort xs) @ filter (\<lambda>x. x = m) (sort xs) @ filter (\<lambda>x. m < x) (sort xs)"
    by (rule sorted_split_at) simp
  have at: "sort xs ! i = m" if "?a \<le> i" "i < ?a + ?c" for i
  proof -
    have "sort xs ! i = filter (\<lambda>x. x = m) (sort xs) ! (i - ?a)"
      by (subst split) (use that in \<open>simp add: nth_append len\<close>)
    also have "\<dots> \<in> set (filter (\<lambda>x. x = m) (sort xs))" using that by (intro nth_mem) (simp add: len)
    finally show ?thesis by simp
  qed
  have "?n = ?a + ?c + length (filter (\<lambda>x. m < x) xs)"
    using arg_cong [OF split, of length] by (simp add: len)
  with assms show ?thesis by (cases "odd ?n") (auto simp: median_def Let_def at elim!: evenE oddE)
qed

section \<open>A restated basis is found\<close>

text \<open>A bar whose four prices are all \<open>m\<close> times the old ones.\<close>

definition scaled_by :: "real \<Rightarrow> ohlcv \<times> ohlcv \<Rightarrow> bool" where
  "scaled_by m pair \<longleftrightarrow> list_all (\<lambda>(new, old). new = m * old) (price_pairs pair)"

lemma price_pairs_shape:
  "price_pairs (new, old) =
     [(the (oh_open new), the (oh_open old)), (the (oh_high new), the (oh_high old)), (the (oh_low new), the (oh_low old)),
      (the (oh_close new), the (oh_close old))]"
  by (simp add: price_pairs_def first_four_def)

lemma positive_pair:
  "pair \<in> set (positive_pairs changed) \<Longrightarrow> pair \<in> set changed \<and> (\<forall>(new, old) \<in> set (price_pairs pair). 0 < new \<and> 0 < old)"
  by (cases pair) (auto simp: positive_pairs_def price_pairs_shape first_four_def positive_def split: option.splits)

lemma scaled_ratios:
  assumes "pair \<in> set (positive_pairs changed)" "scaled_by m pair"
  shows "map (\<lambda>(new, old). new / old) (price_pairs pair) = [m, m, m, m]"
  using positive_pair [OF assms(1)] assms(2) by (cases pair) (auto simp: scaled_by_def price_pairs_shape)

lemma scaled_agrees:
  assumes "pair \<in> set (positive_pairs changed)" "scaled_by m pair" "0 < m" "0 \<le> dp_ratio_tolerance p" "0 \<le> dp_price_tick p"
  shows "price_agrees p m pair"
  unfolding price_agrees_def Let_def list_all_iff
proof (rule ballI)
  fix x assume x: "x \<in> set (price_pairs pair)"
  obtain new old where xy: "x = (new, old)" by (cases x)
  from x positive_pair [OF assms(1)] assms(2) have "0 < old" "new = m * old" by (auto simp: scaled_by_def list_all_iff xy)
  moreover have "0 \<le> dp_ratio_tolerance p * old * m" "0 \<le> dp_price_tick p * (1 + m) / 2" using \<open>0 < old\<close> assms(3-5) by simp_all
  ultimately show "case x of (new, old) \<Rightarrow> \<bar>new - old * m\<bar> \<le> dp_ratio_tolerance p * old * m + dp_price_tick p * (1 + m) / 2"
    by (simp add: xy mult.commute)
qed

lemma length_ratios: "length (concat (map (\<lambda>pair. map f (price_pairs pair)) pairs)) = 4 * length pairs"
proof (induction pairs)
  case (Cons a pairs)
  then show ?case by (cases a) (simp add: price_pairs_shape)
qed simp

lemma ratios_equal:
  assumes "set pairs \<subseteq> set (positive_pairs changed)"
  shows "4 * length (filter (scaled_by m) pairs) \<le>
    length (filter (\<lambda>x. x = m) (concat (map (\<lambda>pair. map (\<lambda>(new, old). new / old) (price_pairs pair)) pairs)))"
  using assms
proof (induction pairs)
  case (Cons a pairs)
  then show ?case using scaled_ratios [of a changed m] by auto
qed simp

lemma price_multiple_found:
  fixes changed :: "(ohlcv \<times> ohlcv) list" and m :: real
  defines "pairs \<equiv> positive_pairs changed"
  assumes most: "length pairs < 2 * length (filter (scaled_by m) pairs)"
    and share: "dp_ratio_min_share p * real (length pairs) \<le> real (length (filter (scaled_by m) pairs))"
    and bars: "dp_signature_min_bars p \<le> int (length pairs)"
    and move: "dp_ratio_min_move p < \<bar>m - 1\<bar>" "2 * dp_price_tick p < \<bar>m - 1\<bar> * median (map (\<lambda>(_, old). the (oh_close old)) pairs)"
    and tol: "0 \<le> dp_ratio_tolerance p" "0 \<le> dp_price_tick p"
  shows "price_multiple changed p = Inr (Some m)"
proof -
  let ?ratios = "concat (map (\<lambda>pair. map (\<lambda>(new, old). new / old) (price_pairs pair)) pairs)"
  have ne: "pairs \<noteq> []" using most by auto
  have "length ?ratios < 2 * length (filter (\<lambda>x. x = m) ?ratios)"
    using ratios_equal [of pairs changed m] most unfolding length_ratios pairs_def by simp
  then have med: "median ?ratios = m" by (rule median_majority)
  from most have "filter (scaled_by m) pairs \<noteq> []" by auto
  then obtain pair where pair: "pair \<in> set pairs" "scaled_by m pair" by (metis filter_empty_conv)
  have "0 < m"
  proof -
    obtain new old where no: "pair = (new, old)" by (cases pair)
    have "0 < the (oh_open new)" "0 < the (oh_open old)" "the (oh_open new) = m * the (oh_open old)"
      using positive_pair [of pair changed] pair by (simp_all add: no price_pairs_shape scaled_by_def pairs_def)
    then show ?thesis by (metis zero_less_mult_pos2)
  qed
  have "filter (scaled_by m) pairs = filter (scaled_by m) (filter (price_agrees p m) pairs)"
    unfolding filter_filter pairs_def using scaled_agrees [OF _ _ \<open>0 < m\<close> tol] by (intro filter_cong) auto
  then have "length (filter (scaled_by m) pairs) \<le> length (filter (price_agrees p m) pairs)" by (metis length_filter_le)
  then have "dp_ratio_min_share p * real (length pairs) \<le> real (length (filter (price_agrees p m) pairs))" using share by simp
  then have "dp_ratio_min_share p \<le> real (length (filter (price_agrees p m) pairs)) / real (length pairs)"
    using ne by (simp add: pos_le_divide_eq)
  with ne bars move show ?thesis by (simp add: price_multiple_def Let_def pairs_def [symmetric] med)
qed

lemma volume_multiple_total: "1 \<le> dp_signature_min_bars p \<Longrightarrow> \<exists>x. volume_multiple changed p = Inr x"
  by (auto simp: volume_multiple_def Let_def)

lemma price_multiple_total: "1 \<le> dp_signature_min_bars p \<Longrightarrow> \<exists>x. price_multiple changed p = Inr x"
  by (auto simp: price_multiple_def Let_def)

lemma detect_total: "1 \<le> dp_signature_min_bars p \<Longrightarrow> \<exists>r. detect offered stored bar p = Inr r"
  using volume_multiple_total [of p "changed_pairs offered stored"] price_multiple_total [of p "changed_pairs offered stored"]
  by (auto simp: detect_def Let_def)

lemma length_changed_pairs: "length (changed_pairs offered stored) = length (changed_stamps offered stored)"
  by (simp add: changed_pairs_def)

text \<open>An offer that changes nothing is never flagged.\<close>

lemma unchanged_quiet:
  assumes "changed_stamps offered stored = []" "1 \<le> dp_signature_min_bars p" "0 \<le> dp_flag_share p"
  shows "\<exists>r. detect offered stored bar p = Inr r \<and> \<not> flagged r"
  using assms by (simp add: detect_def Let_def flagged_def)

text \<open>C2. A restated basis is found.  When more than half of the comparable changed bars, and at least the configured share of
  them, carry four prices that are one multiple \<open>m\<close> of the stored ones, the multiple differs from 1 by more than the configured
  move and by more than the rounding of a typical price, and the changed bars are as many as a signature needs, the detector
  reports exactly the multiple \<open>m\<close> and a basis change, whatever the other changed bars carry.\<close>

theorem restatement_detected:
  fixes m :: real
  assumes most: "length (positive_pairs (changed_pairs offered stored)) <
      2 * length (filter (scaled_by m) (positive_pairs (changed_pairs offered stored)))"
    and share: "dp_ratio_min_share p * real (length (positive_pairs (changed_pairs offered stored))) \<le>
      real (length (filter (scaled_by m) (positive_pairs (changed_pairs offered stored))))"
    and bars: "1 \<le> dp_signature_min_bars p" "dp_signature_min_bars p \<le> int (length (positive_pairs (changed_pairs offered stored)))"
    and move: "dp_ratio_min_move p < \<bar>m - 1\<bar>"
      "2 * dp_price_tick p < \<bar>m - 1\<bar> * median (map (\<lambda>(_, old). the (oh_close old)) (positive_pairs (changed_pairs offered stored)))"
    and tol: "0 \<le> dp_ratio_tolerance p" "0 \<le> dp_price_tick p"
  shows "\<exists>r. detect offered stored bar p = Inr r \<and> rt_ratio r = Some m \<and> SIGNATURE_PRICE_RATIO \<in> set (rt_signatures r) \<and> basis_change r"
proof -
  have found: "price_multiple (changed_pairs offered stored) p = Inr (Some m)"
    by (rule price_multiple_found [OF most share bars(2) move tol])
  obtain v where v: "volume_multiple (changed_pairs offered stored) p = Inr v" using volume_multiple_total [OF bars(1)] by blast
  have "length (positive_pairs (changed_pairs offered stored)) \<le> length (changed_stamps offered stored)"
    unfolding positive_pairs_def length_changed_pairs [symmetric] by (rule length_filter_le)
  then have "\<not> int (length (changed_stamps offered stored)) < dp_signature_min_bars p" using bars(2) by linarith
  then show ?thesis by (simp add: detect_def Let_def found v basis_change_def BASIS_SIGNATURES_def)
qed

section \<open>A split\<close>

definition ex_value :: "real \<Rightarrow> ohlcv" where
  "ex_value x = \<lparr>oh_open = Some x, oh_high = Some (2 * x), oh_low = Some x, oh_close = Some (2 * x), oh_volume = Some 100\<rparr>"

definition ex_detector :: detector_params where
  "ex_detector = \<lparr>dp_flag_share = 1, dp_flag_min_stored = 100, dp_signature_min_bars = 3, dp_ratio_tolerance = 0, dp_shift_min_share = 1,
     dp_ratio_min_share = 7 / 10, dp_ratio_min_move = 1 / 500, dp_price_tick = 1 / 100, dp_volume_tolerance = 1 / 100, dp_volume_min_move = 1 / 5\<rparr>"

lemma restatement_detected_witness:
  "\<exists>r. detect [(1, ex_value 5), (2, ex_value 6), (3, ex_value 8), (4, ex_value 3)]
       [(1, ex_value 10), (2, ex_value 12), (3, ex_value 16), (4, ex_value 4)] 1 ex_detector = Inr r \<and>
     rt_ratio r = Some (1 / 2) \<and> basis_change r"
proof -
  let ?offered = "[(1, ex_value 5), (2, ex_value 6), (3, ex_value 8), (4, ex_value 3)]"
    and ?stored = "[(1, ex_value 10), (2, ex_value 12), (3, ex_value 16), (4, ex_value 4)]"
  have pairs: "positive_pairs (changed_pairs ?offered ?stored) =
      [(ex_value 5, ex_value 10), (ex_value 6, ex_value 12), (ex_value 8, ex_value 16), (ex_value 3, ex_value 4)]"
    by (simp add: changed_pairs_def changed_stamps_def positive_pairs_def ex_value_def first_four_def positive_def)
  have scaled: "filter (scaled_by (1 / 2)) (positive_pairs (changed_pairs ?offered ?stored)) =
      [(ex_value 5, ex_value 10), (ex_value 6, ex_value 12), (ex_value 8, ex_value 16)]"
    unfolding pairs by (simp add: scaled_by_def price_pairs_shape ex_value_def)
  have typical: "map (\<lambda>(_, old). the (oh_close old)) (positive_pairs (changed_pairs ?offered ?stored)) = [20, 24, 32, 8]"
    unfolding pairs by (simp add: ex_value_def)
  have "median [20, 24, 32, 8 :: real] = 22" by (simp add: median_def insort_key.simps)
  then have "\<exists>r. detect ?offered ?stored 1 ex_detector = Inr r \<and> rt_ratio r = Some (1 / 2) \<and>
      SIGNATURE_PRICE_RATIO \<in> set (rt_signatures r) \<and> basis_change r"
    by (intro restatement_detected) (simp_all only: scaled typical, simp_all add: pairs ex_detector_def)
  then show ?thesis by blast
qed

end
