(* ===== verification/Ingress.thy ===== *)
theory Ingress
  imports Raw_Writer Canonical_Writer Restatement
begin

text \<open>
  The ingress contract of vendor answers, \<open>services/ohlcv_ingress_contract.py\<close>: one chunk is classified, recorded as a load,
  written to the raw table, judged for restatements, and the direct series it touches are selected.

  The database is the record of the tables the contract reads and writes; a call that raises leaves its transaction to be rolled
  back.  The identifiers \<open>uuid4\<close> draws are the argument \<open>new_id\<close>, one per series of the chunk; the clock is \<open>now\<close>.  A price that
  is not finite never passes the preview, so a value compared by the detector is one of reals.  The texts of the load's and the
  flag's details, the metric and the log lines are not modelled.
\<close>

section \<open>Tables and parameters\<close>

record load_row =
  ll_id :: string
  ll_series :: series
  ll_caller :: string
  ll_n_bars :: nat
  ll_n_new :: nat
  ll_n_changed :: nat
  ll_n_unchanged :: nat
  ll_n_superseded :: nat
  ll_first_bar :: day
  ll_last_bar :: day
  ll_outcome :: string
  ll_destination :: string

record flag_row =
  fl_load :: string
  fl_series :: series
  fl_restatement :: restatement
  fl_flagged_at :: stamp
  fl_review :: "(stamp \<times> string \<times> string) option"

record ingress_db =
  ig_raw :: raw_db
  ig_canonical :: canonical_db
  ig_policy :: "policy list"
  ig_loads :: "load_row list"
  ig_flags :: "flag_row list"

record contract_params =
  kp_detector :: detector_params
  kp_write :: write_params
  kp_vendor_codes :: "string list"
  kp_kind_codes :: "string list"
  kp_kind_order :: "(string \<times> int) list"

record flagged_series =
  fs_series :: series
  fs_load :: string
  fs_restatement :: restatement

record ingress_result =
  ir_n_offered :: nat
  ir_n_new :: nat
  ir_n_changed :: nat
  ir_n_unchanged :: nat
  ir_selected_slots :: nat
  ir_new_timestamps :: "stamp list"
  ir_n_unselected :: nat
  ir_flagged :: "flagged_series list"
  ir_n_superseded :: nat
  ir_n_excluded :: nat

definition n_basis_flagged :: "ingress_result \<Rightarrow> nat" where
  "n_basis_flagged r = length (filter (\<lambda>f. basis_change (fs_restatement f)) (ir_flagged r))"

definition OUTCOME_APPLIED :: string where "OUTCOME_APPLIED = ''applied''"
definition DESTINATION_RAW :: string where "DESTINATION_RAW = ''raw''"

definition BAR_LENGTH :: "(string \<times> int) list" where
  "BAR_LENGTH = [(''1m'', minute), (''5m'', 5 * minute), (''15m'', 15 * minute), (''1h'', 60 * minute), (''4h'', 240 * minute),
     (''1d'', one_day)]"

definition bar_length :: "string \<Rightarrow> int" where
  "bar_length timeframe = (case map_of BAR_LENGTH timeframe of None \<Rightarrow> 5 * minute | Some b \<Rightarrow> b)"

section \<open>Values\<close>

definition finite_price :: "pyfloat option \<Rightarrow> real option" where
  "finite_price p = (case p of Some (Fin x) \<Rightarrow> Some x | _ \<Rightarrow> None)"

definition ohlcv_of :: "bar_values \<Rightarrow> ohlcv" where
  "ohlcv_of v =
     \<lparr>oh_open = finite_price (bv_open v), oh_high = finite_price (bv_high v), oh_low = finite_price (bv_low v),
      oh_close = finite_price (bv_close v), oh_volume = bv_volume v\<rparr>"

text \<open>A row of \<open>ohlcv_raw\<close> as the selection reads it.\<close>

definition price_of :: "pyfloat option \<Rightarrow> real" where
  "price_of p = (case finite_price p of None \<Rightarrow> 0 | Some x \<Rightarrow> x)"

definition candidate_of :: "raw_key \<times> raw_entry \<Rightarrow> candidate" where
  "candidate_of = (\<lambda>(((symbol, timeframe, vendor, kind), ts), e).
     \<lparr>c_timestamp = ts, c_symbol = symbol, c_timeframe = timeframe, c_vendor = vendor, c_kind = kind,
      c_open = price_of (bv_open (re_values e)), c_high = price_of (bv_high (re_values e)), c_low = price_of (bv_low (re_values e)),
      c_close = price_of (bv_close (re_values e)), c_volume = bv_volume (re_values e)\<rparr>)"

definition candidates_of :: "raw_db \<Rightarrow> candidate list" where
  "candidates_of db = map candidate_of (rd_raw db)"

section \<open>One series\<close>

definition stored_at_offer :: "(stamp \<times> served_bar) list \<Rightarrow> raw_delta \<Rightarrow> (stamp \<times> ohlcv) list" where
  "stored_at_offer latest delta =
     concat (map (\<lambda>(ts, r).
       case map_of (rx_changed_old delta) ts of
         Some old \<Rightarrow> [(ts, ohlcv_of old)]
       | None \<Rightarrow> if ts \<in> set (rx_new_timestamps delta) \<or> ts \<in> set (rx_superseded_timestamps delta) then []
                 else [(ts, ohlcv_of (row_values r))]) latest)"

definition offered_values :: "(stamp \<times> served_bar) list \<Rightarrow> raw_delta \<Rightarrow> (stamp \<times> ohlcv) list" where
  "offered_values latest delta =
     map (\<lambda>(ts, r). (ts, ohlcv_of (row_values r))) (filter (\<lambda>(ts, _). ts \<notin> set (rx_superseded_timestamps delta)) latest)"

definition load_of :: "string \<Rightarrow> series \<Rightarrow> string \<Rightarrow> stamp list \<Rightarrow> raw_delta \<Rightarrow> load_row" where
  "load_of load_id series caller stamps delta =
     \<lparr>ll_id = load_id, ll_series = series, ll_caller = caller, ll_n_bars = length stamps, ll_n_new = rx_new delta,
      ll_n_changed = rx_changed delta, ll_n_unchanged = rx_unchanged delta, ll_n_superseded = rx_superseded delta,
      ll_first_bar = utc_day (hd stamps), ll_last_bar = utc_day (last stamps), ll_outcome = OUTCOME_APPLIED,
      ll_destination = DESTINATION_RAW\<rparr>"

definition counts_of_delta :: "raw_delta \<Rightarrow> nat \<times> nat \<times> nat \<times> nat" where
  "counts_of_delta d = (rx_new d, rx_changed d, rx_unchanged d, rx_superseded d)"

definition record_flag :: "string \<Rightarrow> series \<Rightarrow> restatement \<Rightarrow> stamp \<Rightarrow> flag_row" where
  "record_flag load_id series r now =
     \<lparr>fl_load = load_id, fl_series = series, fl_restatement = r, fl_flagged_at = now, fl_review = None\<rparr>"

record series_outcome =
  sx_series :: series
  sx_stamps :: "stamp list"
  sx_delta :: raw_delta
  sx_load :: string
  sx_restatement :: restatement

definition apply_series ::
  "string \<Rightarrow> string \<Rightarrow> stamp \<Rightarrow> contract_params \<Rightarrow> (series \<Rightarrow> string) \<Rightarrow> stamp \<Rightarrow> series \<times> served_bar list \<Rightarrow> ingress_db
   \<Rightarrow> err + (series_outcome \<times> ingress_db)" where
  "apply_series caller request_id answered_at params new_id now = (\<lambda>(series, rows) db.
     let stamps = sorted_set (map sb_timestamp rows);
         latest = dict_of (map (\<lambda>r. (sb_timestamp r, r)) rows);
         load_id = new_id series
     in ebind (preview_series (ig_raw db) rows answered_at) (\<lambda>delta.
        ebind (detect (offered_values latest delta) (stored_at_offer latest delta) (bar_length (fst (snd series))) (kp_detector params))
          (\<lambda>restatement.
        ebind (write_raw (ig_raw db) rows load_id request_id answered_at (kp_vendor_codes params) (kp_kind_codes params)
                (kp_write params) now) (\<lambda>(written, raw).
        case written of
          [w] \<Rightarrow>
            if counts_of_delta w \<noteq> counts_of_delta delta then Inl RuntimeError
            else Inr (\<lparr>sx_series = series, sx_stamps = stamps, sx_delta = delta, sx_load = load_id, sx_restatement = restatement\<rparr>,
                      db\<lparr>ig_raw := raw, ig_loads := ig_loads db @ [load_of load_id series caller stamps delta],
                         ig_flags := ig_flags db @ (if flagged restatement then [record_flag load_id series restatement now] else [])\<rparr>)
        | _ \<Rightarrow> Inl ValueError))))"

fun apply_all ::
  "(series \<times> served_bar list \<Rightarrow> ingress_db \<Rightarrow> err + (series_outcome \<times> ingress_db)) \<Rightarrow> (series \<times> served_bar list) list \<Rightarrow> ingress_db
   \<Rightarrow> err + (series_outcome list \<times> ingress_db)" where
  "apply_all f [] db = Inr ([], db)"
| "apply_all f (s # rest) db =
     ebind (f s db) (\<lambda>(x, db). ebind (apply_all f rest db) (\<lambda>(xs, db). Inr (x # xs, db)))"

section \<open>The contract\<close>

text \<open>The stamps touched per (symbol, timeframe), as the window the selection is asked for.\<close>

definition spans_of :: "series_outcome list \<Rightarrow> ((string \<times> string) \<times> stamp list) list" where
  "spans_of xs =
     map (\<lambda>(k, ys). (k, concat (map sx_stamps ys)))
       (sort_key fst (group_by (\<lambda>x. (fst (sx_series x), fst (snd (sx_series x)))) xs))"

definition span_request :: "contract_params \<Rightarrow> string \<Rightarrow> stamp list \<Rightarrow> selection_request" where
  "span_request params timeframe stamps =
     \<lparr>rs_timeframe = timeframe, rs_start = Min (set stamps), rs_stop = Max (set stamps) + 1, rs_policy = None,
      rs_kind_order = kp_kind_order params, rs_batch_rows = wp_batch_rows (kp_write params), rs_exclude = []\<rparr>"

fun select_spans ::
  "schedule \<Rightarrow> (stamp \<Rightarrow> day) \<Rightarrow> (day \<Rightarrow> stamp) \<Rightarrow> contract_params \<Rightarrow> stamp \<Rightarrow> ((string \<times> string) \<times> stamp list) list \<Rightarrow> ingress_db
   \<Rightarrow> err + (selection_counts list \<times> ingress_db)" where
  "select_spans cal ny midnight_ny params now [] db = Inr ([], db)"
| "select_spans cal ny midnight_ny params now (((symbol, timeframe), stamps) # rest) db =
     (if timeframe \<notin> set DIRECT_TIMEFRAMES then select_spans cal ny midnight_ny params now rest db
      else ebind (select_and_write cal ny midnight_ny (candidates_of (ig_raw db)) (ig_policy db) now (span_request params timeframe stamps)
                    [symbol] (ig_canonical db)) (\<lambda>(n, canonical).
           ebind (select_spans cal ny midnight_ny params now rest (db\<lparr>ig_canonical := canonical\<rparr>)) (\<lambda>(ns, db). Inr (n # ns, db))))"

definition no_rows :: ingress_result where
  "no_rows = \<lparr>ir_n_offered = 0, ir_n_new = 0, ir_n_changed = 0, ir_n_unchanged = 0, ir_selected_slots = 0, ir_new_timestamps = [],
     ir_n_unselected = 0, ir_flagged = [], ir_n_superseded = 0, ir_n_excluded = 0\<rparr>"

definition result_of_chunk :: "served_bar list \<Rightarrow> series_outcome list \<Rightarrow> selection_counts list \<Rightarrow> ingress_result" where
  "result_of_chunk rows xs ns =
     \<lparr>ir_n_offered = length rows, ir_n_new = sum_list (map (\<lambda>x. rx_new (sx_delta x)) xs),
      ir_n_changed = sum_list (map (\<lambda>x. rx_changed (sx_delta x)) xs),
      ir_n_unchanged = sum_list (map (\<lambda>x. rx_unchanged (sx_delta x)) xs),
      ir_selected_slots = sum_list (map (\<lambda>n. se_new n + se_changed n) ns),
      ir_new_timestamps = sort (concat (map (\<lambda>x. rx_new_timestamps (sx_delta x)) xs)),
      ir_n_unselected = sum_list (map (\<lambda>n. se_unselected n + se_skipped_null_volume n) ns),
      ir_flagged = map (\<lambda>x. \<lparr>fs_series = sx_series x, fs_load = sx_load x, fs_restatement = sx_restatement x\<rparr>)
                     (filter (\<lambda>x. flagged (sx_restatement x)) xs),
      ir_n_superseded = sum_list (map (\<lambda>x. rx_superseded (sx_delta x)) xs),
      ir_n_excluded = sum_list (map se_excluded ns)\<rparr>"

definition apply_raw_contract ::
  "schedule \<Rightarrow> (stamp \<Rightarrow> day) \<Rightarrow> (day \<Rightarrow> stamp) \<Rightarrow> ingress_db \<Rightarrow> served_bar list \<Rightarrow> string \<Rightarrow> string \<Rightarrow> stamp \<Rightarrow> contract_params
   \<Rightarrow> (series \<Rightarrow> string) \<Rightarrow> stamp \<Rightarrow> err + (ingress_result \<times> ingress_db)" where
  "apply_raw_contract cal ny midnight_ny db rows caller request_id answered_at params new_id now =
     (if rows = [] then Inr (no_rows, db)
      else ebind (apply_all (apply_series caller request_id answered_at params new_id now) (sort_key fst (group_by row_series rows)) db)
             (\<lambda>(xs, db).
           ebind (select_spans cal ny midnight_ny params now (spans_of xs) db) (\<lambda>(ns, db).
             Inr (result_of_chunk rows xs ns, db))))"

section \<open>The review queue\<close>

definition is_space :: "char \<Rightarrow> bool" where
  "is_space c \<longleftrightarrow> of_char c \<in> ({9, 10, 11, 12, 13, 28, 29, 30, 31, 32, 133, 160} :: int set)"

definition mark_reviewed :: "ingress_db \<Rightarrow> string list \<Rightarrow> string \<Rightarrow> string \<Rightarrow> stamp \<Rightarrow> err + (nat \<times> ingress_db)" where
  "mark_reviewed db load_ids reviewed_by note now =
     (if list_all is_space reviewed_by \<or> list_all is_space note then Inl ValueError
      else let hit = (\<lambda>f. fl_load f \<in> set load_ids \<and> fl_review f = None)
           in Inr (length (filter hit (ig_flags db)),
                   db\<lparr>ig_flags := map (\<lambda>f. if hit f then f\<lparr>fl_review := Some (now, reviewed_by, note)\<rparr> else f) (ig_flags db)\<rparr>))"

definition read_unreviewed_basis :: "ingress_db \<Rightarrow> flag_row list" where
  "read_unreviewed_basis db =
     sort_key (\<lambda>f. (fl_flagged_at f, fst (fl_series f), fst (snd (fl_series f))))
       (filter (\<lambda>f. fl_review f = None \<and> basis_change (fl_restatement f)) (ig_flags db))"

end
