(* ===== verification/Raw_Correct.thy ===== *)
theory Raw_Correct
  imports Raw_Writer
begin

text \<open>
  Correctness of the raw table's writer: what a chunk of answers leaves at each key, which answer a key holds after any
  sequence of chunks, and that no served value is lost.
\<close>

section \<open>The offers of a chunk\<close>

definition offers :: "served_bar list \<Rightarrow> raw_key \<rightharpoonup> served_bar" where
  "offers rows = map_of (rev (map (\<lambda>r. (offer_key r, r)) rows))"

lemma offers_Some: "offers rows k = Some r \<Longrightarrow> r \<in> set rows \<and> offer_key r = k"
  by (auto simp: offers_def dest!: map_of_SomeD)

lemma offers_None: "offers rows k = None \<longleftrightarrow> k \<notin> offer_key ` set rows"
  by (simp add: offers_def map_of_eq_None_iff image_image)

lemma map_of_tagged:
  "map_of (map (\<lambda>r. (f r, r)) xs) k = find (\<lambda>r. f r = k) xs"
  by (induction xs) auto

lemma group_by_series_facts:
  assumes "group_by_series validate rows = Inr by_series"
  shows "\<not> contradicts [] rows" "distinct (map fst by_series)" "fst ` set by_series = row_series ` set rows"
    "\<forall>r \<in> set rows. \<exists>u. validate r = Inr u"
    "(s, keyed) \<in> set by_series \<Longrightarrow> map_of keyed ts = offers rows (s, ts) \<and> distinct (map fst keyed)"
proof -
  let ?by = "map (\<lambda>(s, rs). (s, dict_of (map (\<lambda>r. (sb_timestamp r, r)) rs))) (group_by row_series rows)"
  from assms obtain us where us: "emap validate rows = Inr us" and c: "\<not> contradicts [] rows" and by_series: "by_series = ?by"
    by (auto simp: group_by_series_def ebind_eq_Inr split: if_splits)
  show "\<not> contradicts [] rows" by (rule c)
  have keys: "map fst ?by = map fst (group_by row_series rows)" by (simp add: case_prod_beta comp_def)
  show "distinct (map fst by_series)" unfolding by_series keys by simp
  have "fst ` set by_series = set (map fst (group_by row_series rows))" unfolding by_series keys [symmetric] by (simp only: set_map)
  then show "fst ` set by_series = row_series ` set rows" by (simp add: group_by_keys)
  show "\<forall>r \<in> set rows. \<exists>u. validate r = Inr u"
    using emap_nth [OF us] by (metis in_set_conv_nth)
  assume "(s, keyed) \<in> set by_series"
  then obtain rs where rs: "(s, rs) \<in> set (group_by row_series rows)" "keyed = dict_of (map (\<lambda>r. (sb_timestamp r, r)) rs)"
    by (auto simp: by_series)
  have "rs = filter (\<lambda>r. row_series r = s) rows" using group_by_entry [OF rs(1)] by simp
  then have "map_of keyed ts = find (\<lambda>r. sb_timestamp r = ts) (rev (filter (\<lambda>r. row_series r = s) rows))"
    by (simp add: rs(2) dict_of_lookup rev_map map_of_tagged)
  also have "\<dots> = find (\<lambda>r. offer_key r = (s, ts)) (rev rows)"
    by (simp add: rev_filter) (induction rows rule: rev_induct; simp add: offer_key_def)
  also have "\<dots> = offers rows (s, ts)" by (simp add: offers_def rev_map map_of_tagged)
  finally show "map_of keyed ts = offers rows (s, ts) \<and> distinct (map fst keyed)" by (simp add: rs(2))
qed

section \<open>The stored rows read\<close>

lemma distinct_concat_tagged:
  assumes "distinct (map fst xss)" "\<And>t xs. (t, xs) \<in> set xss \<Longrightarrow> distinct (g t xs) \<and> (\<forall>x \<in> set (g t xs). tag x = t)"
  shows "distinct (concat (map (\<lambda>(t, xs). g t xs) xss))"
  using assms
proof (induction xss)
  case (Cons a xss)
  obtain t xs where a: "a = (t, xs)" by (cases a)
  have "set (g t xs) \<inter> set (concat (map (\<lambda>(t, xs). g t xs) xss)) = {}"
  proof (rule ccontr)
    assume "set (g t xs) \<inter> set (concat (map (\<lambda>(t, xs). g t xs) xss)) \<noteq> {}"
    then obtain x t' xs' where "x \<in> set (g t xs)" "(t', xs') \<in> set xss" "x \<in> set (g t' xs')" by auto
    with Cons.prems(2) [of t xs] Cons.prems(2) [of t' xs'] have "t = t'" by (auto simp: a)
    with Cons.prems(1) \<open>(t', xs') \<in> set xss\<close> show False by (force simp: a)
  qed
  with Cons show ?case by (auto simp: a)
qed simp

lemma read_stored_set:
  "(ts, e) \<in> set (read_stored db s stamps) \<longleftrightarrow> ts \<in> set stamps \<and> ((s, ts), e) \<in> set (rd_raw db)"
proof
  show "(ts, e) \<in> set (read_stored db s stamps) \<Longrightarrow> ts \<in> set stamps \<and> ((s, ts), e) \<in> set (rd_raw db)"
    by (auto simp: read_stored_def dest!: group_by_entry)
  assume a: "ts \<in> set stamps \<and> ((s, ts), e) \<in> set (rd_raw db)"
  let ?y = "\<lambda>ts. year_of (utc_day ts)" and ?w = "sorted_set stamps"
  let ?b = "filter (\<lambda>t. ?y t = ?y ts) ?w"
  have "map_of (group_by ?y ?w) (?y ts) = Some ?b" using a by (auto simp: group_by_lookup)
  then have m: "(?y ts, ?b) \<in> set (group_by ?y ?w)" by (rule map_of_SomeD)
  have ts: "ts \<in> set ?b" using a by simp
  have "sorted ?b" using sorted_filter [of id ?w "\<lambda>t. ?y t = ?y ts"] by simp
  then have "hd ?b \<le> ts \<and> ts \<le> last ?b" using ts by (rule sorted_bounds)
  with ts a m show "(ts, e) \<in> set (read_stored db s stamps)"
    unfolding read_stored_def set_concat set_map
    by (intro UN_I [of "(\<lambda>(_, batch). map (\<lambda>(k, e). (snd k, e))
        (filter (\<lambda>(k, _). fst k = s \<and> snd k \<in> set batch \<and> hd batch \<le> snd k \<and> snd k \<le> last batch) (rd_raw db))) (?y ts, ?b)"]
        imageI [OF m]) (auto intro!: image_eqI [of _ _ "((s, ts), e)"])
qed

definition raw_ok :: "raw_db \<Rightarrow> bool" where
  "raw_ok db \<longleftrightarrow> distinct (map fst (rd_raw db))"

lemma read_stored_lookup:
  assumes "raw_ok db"
  shows "map_of (read_stored db s stamps) ts = (if ts \<in> set stamps then map_of (rd_raw db) (s, ts) else None)"
    "distinct (map fst (read_stored db s stamps))"
proof -
  have raw: "((s, t), e) \<in> set (rd_raw db) \<longleftrightarrow> map_of (rd_raw db) (s, t) = Some e" for t e
    using assms by (simp add: raw_ok_def)
  have one: "a = b" if "(ts, a) \<in> set (read_stored db s stamps)" "(ts, b) \<in> set (read_stored db s stamps)" for a b
    using that unfolding read_stored_set raw by simp
  have "map_of (read_stored db s stamps) ts = Some e \<longleftrightarrow> (ts, e) \<in> set (read_stored db s stamps)" for e
    by (rule map_of_functional) (rule one)
  then have look: "map_of (read_stored db s stamps) ts = Some e \<longleftrightarrow> ts \<in> set stamps \<and> map_of (rd_raw db) (s, ts) = Some e" for e
    unfolding read_stored_set raw .
  show "map_of (read_stored db s stamps) ts = (if ts \<in> set stamps then map_of (rd_raw db) (s, ts) else None)"
    by (rule option_ext) (simp only: look split: if_splits, simp)
  let ?g = "\<lambda>batch. map (\<lambda>(k, e). snd k) (filter (\<lambda>(k, _). fst k = s \<and> snd k \<in> set batch \<and> hd batch \<le> snd k \<and> snd k \<le> last batch) (rd_raw db))"
  have "distinct (?g batch)" for batch
  proof -
    have "inj_on snd (set (filter (\<lambda>k. fst k = s) (map fst (rd_raw db))))" by (auto simp: inj_on_def)
    then have "distinct (map snd (filter (\<lambda>k. fst k = s \<and> snd k \<in> set batch \<and> hd batch \<le> snd k \<and> snd k \<le> last batch) (map fst (rd_raw db))))"
      using assms by (simp add: raw_ok_def distinct_map inj_on_def)
    then show ?thesis by (simp add: filter_map comp_def case_prod_unfold)
  qed
  then have "distinct (concat (map (\<lambda>(_, batch). ?g batch) (group_by (\<lambda>ts. year_of (utc_day ts)) (sorted_set stamps))))"
    by (intro distinct_concat_tagged [where tag = "\<lambda>ts. year_of (utc_day ts)"]) (auto dest!: group_by_entry)
  then show "distinct (map fst (read_stored db s stamps))"
    by (simp add: read_stored_def map_concat case_prod_unfold comp_def)
qed

section \<open>Classification\<close>

lemma sort_key_set_filter: "set (map f (filter P (sort_key k xs))) = f ` {x \<in> set xs. P x}"
  by auto

lemma classify_series_facts:
  assumes db: "raw_ok db" and keyed: "distinct (map fst keyed)" and f: "classify_series db s keyed t = Inr f"
  shows "distinct (rx_new_timestamps (cf_delta f))"
    "ts \<in> set (rx_new_timestamps (cf_delta f)) \<longleftrightarrow> map_of keyed ts \<noteq> None \<and> map_of (rd_raw db) (s, ts) = None"
    "distinct (map fst (cf_replaced f))"
    "(ts, v) \<in> set (cf_replaced f) \<longleftrightarrow> (\<exists>r e. map_of keyed ts = Some r \<and> map_of (rd_raw db) (s, ts) = Some e \<and>
       \<not> values_eq (row_values r) (re_values e) \<and> not_older t (re_served e) \<and> v = re_values e)"
    "(ts, v) \<in> set (cf_superseded f) \<longleftrightarrow> (\<exists>r e. map_of keyed ts = Some r \<and> map_of (rd_raw db) (s, ts) = Some e \<and>
       \<not> values_eq (row_values r) (re_values e) \<and> \<not> not_older t (re_served e) \<and> v = row_values r)"
    "map_of keyed ts \<noteq> None \<Longrightarrow> map_of (cf_old_request f) ts = map_option re_request (map_of (rd_raw db) (s, ts))"
    "rx_new (cf_delta f) + rx_changed (cf_delta f) + rx_unchanged (cf_delta f) + rx_superseded (cf_delta f) = length keyed"
    "rx_new_timestamps (cf_delta f) = sort (rx_new_timestamps (cf_delta f)) \<and> rx_new (cf_delta f) = length (rx_new_timestamps (cf_delta f)) \<and>
     rx_changed_old (cf_delta f) = cf_replaced f \<and> set (rx_superseded_timestamps (cf_delta f)) = fst ` set (cf_superseded f)"
proof -
  let ?stamps = "sort (map fst keyed)"
  define fetched where "fetched = read_stored db s ?stamps"
  define stored where "stored = map (\<lambda>(ts, e). (ts, re_values e)) fetched"
  define served where "served = map (\<lambda>(ts, e). (ts, re_served e)) fetched"
  define incoming where "incoming = map (\<lambda>ts. (ts, row_values (the (map_of keyed ts)))) ?stamps"
  define takes where "takes = (\<lambda>ts. not_older t (the (map_of served ts)))"
  from f obtain delta where delta: "classify incoming stored None = Inr delta"
    and fd: "cf_delta f = \<lparr>rx_series = s, rx_n_stored = length stored, rx_new = length (wd_new delta), rx_changed = length (cf_replaced f),
        rx_unchanged = wd_unchanged delta, rx_changed_old = cf_replaced f, rx_new_timestamps = sort (map fst (wd_new delta)),
        rx_superseded = length (cf_superseded f), rx_superseded_timestamps = sort (map fst (cf_superseded f))\<rparr>"
    and rep: "cf_replaced f = map (\<lambda>(ts, (_, old)). (ts, old)) (filter (\<lambda>(ts, _). takes ts) (sort_key fst (wd_changed delta)))"
    and sup: "cf_superseded f = map (\<lambda>(ts, (new, _)). (ts, new)) (filter (\<lambda>(ts, _). \<not> takes ts) (sort_key fst (wd_changed delta)))"
    and req: "cf_old_request f = map (\<lambda>(ts, e). (ts, re_request e)) fetched"
    unfolding classify_series_def Let_def fetched_def stored_def served_def incoming_def takes_def
    by (auto simp: ebind_eq_Inr)
  have fetched: "map_of fetched ts = (if map_of keyed ts \<noteq> None then map_of (rd_raw db) (s, ts) else None)" for ts
    unfolding fetched_def read_stored_lookup(1) [OF db] by (simp add: map_of_eq_None_iff)
  have stored: "map_of stored ts = (if map_of keyed ts \<noteq> None then map_option re_values (map_of (rd_raw db) (s, ts)) else None)" for ts
    unfolding stored_def using map_of_map_key [of "\<lambda>_. re_values" fetched ts] by (simp add: fetched)
  have served: "map_of served ts = map_option re_served (map_of fetched ts)" for ts
    unfolding served_def using map_of_map_key [of "\<lambda>_. re_served" fetched ts] by simp
  have inc: "(ts, v) \<in> set incoming \<longleftrightarrow> (\<exists>r. map_of keyed ts = Some r \<and> v = row_values r)" for ts v
  proof -
    have "ts \<in> fst ` set keyed \<longleftrightarrow> (\<exists>r. map_of keyed ts = Some r)" by (metis map_of_eq_None_iff not_None_eq)
    then show ?thesis by (auto simp: incoming_def)
  qed
  have incf: "ts \<in> fst ` set (filter P incoming) \<longleftrightarrow> (\<exists>r. map_of keyed ts = Some r \<and> P (ts, row_values r))" for ts P
    using inc by (auto simp: image_iff Bex_def)
  have keys: "map fst incoming = ?stamps" by (simp add: incoming_def comp_def)
  note parts = classify_split [OF delta]
  have dn: "distinct (map fst (filter P incoming))" for P
    using keyed keys by (metis distinct_map_filter distinct_sort)
  show "distinct (rx_new_timestamps (cf_delta f))" unfolding fd parts by (simp add: dn)
  show "ts \<in> set (rx_new_timestamps (cf_delta f)) \<longleftrightarrow> map_of keyed ts \<noteq> None \<and> map_of (rd_raw db) (s, ts) = None"
    unfolding fd parts raw_delta.simps set_sort set_map incf by (cases "map_of keyed ts") (simp_all add: is_new_def stored)
  have changed: "(ts, p) \<in> set (wd_changed delta) \<longleftrightarrow> (\<exists>r e. map_of keyed ts = Some r \<and> map_of (rd_raw db) (s, ts) = Some e \<and>
      \<not> values_eq (row_values r) (re_values e) \<and> p = (row_values r, re_values e))" for ts p
  proof -
    have "(ts, p) \<in> set (wd_changed delta) \<longleftrightarrow>
        (\<exists>v. (ts, v) \<in> set incoming \<and> is_changed stored (ts, v) \<and> p = (v, the (map_of stored ts)))"
      unfolding parts by auto
    then show ?thesis unfolding inc by (cases "map_of keyed ts") (auto simp: is_changed_def stored)
  qed
  have takes: "takes ts \<longleftrightarrow> not_older t (re_served e)" if "map_of keyed ts \<noteq> None" "map_of (rd_raw db) (s, ts) = Some e" for ts e
    using that by (simp add: takes_def served fetched)
  have changed_keys: "map fst (wd_changed delta) = map fst (filter (is_changed stored) incoming)"
    unfolding parts by (simp add: case_prod_unfold comp_def)
  show "distinct (map fst (cf_replaced f))"
  proof -
    have "map fst (cf_replaced f) = map fst (filter (\<lambda>(ts, _). takes ts) (sort_key fst (wd_changed delta)))"
      unfolding rep by (simp add: case_prod_unfold comp_def)
    moreover have "distinct (map fst (sort_key fst (wd_changed delta)))"
      using dn [of "is_changed stored"] unfolding changed_keys [symmetric]
      by (subst mset_eq_imp_distinct_iff [of _ "map fst (wd_changed delta)"]) simp_all
    ultimately show ?thesis by (simp add: distinct_map_filter)
  qed
  show "(ts, v) \<in> set (cf_replaced f) \<longleftrightarrow> (\<exists>r e. map_of keyed ts = Some r \<and> map_of (rd_raw db) (s, ts) = Some e \<and>
       \<not> values_eq (row_values r) (re_values e) \<and> not_older t (re_served e) \<and> v = re_values e)"
    unfolding rep using takes by (force simp: changed)
  show "(ts, v) \<in> set (cf_superseded f) \<longleftrightarrow> (\<exists>r e. map_of keyed ts = Some r \<and> map_of (rd_raw db) (s, ts) = Some e \<and>
       \<not> values_eq (row_values r) (re_values e) \<and> \<not> not_older t (re_served e) \<and> v = row_values r)"
    unfolding sup using takes by (force simp: changed)
  show "map_of keyed ts \<noteq> None \<Longrightarrow> map_of (cf_old_request f) ts = map_option re_request (map_of (rd_raw db) (s, ts))"
    unfolding req using map_of_map_key [of "\<lambda>_. re_request" fetched ts] by (simp add: fetched)
  have "length (filter (\<lambda>(ts, _). takes ts) xs) + length (filter (\<lambda>(ts, _). \<not> takes ts) xs) = length xs" for xs :: "(int \<times> bar_values \<times> bar_values) list"
    using sum_length_filter_compl [of "\<lambda>(ts, _). takes ts" xs] by (simp add: case_prod_unfold)
  then have "length (cf_replaced f) + length (cf_superseded f) = length (wd_changed delta)"
    unfolding rep sup by simp
  moreover have "length (wd_new delta) + length (wd_changed delta) + wd_unchanged delta = length incoming"
    unfolding parts by (induction incoming) (auto simp: is_new_def is_changed_def is_same_def split: option.splits)
  ultimately show "rx_new (cf_delta f) + rx_changed (cf_delta f) + rx_unchanged (cf_delta f) + rx_superseded (cf_delta f) = length keyed"
    unfolding fd by (simp add: incoming_def)
  show "rx_new_timestamps (cf_delta f) = sort (rx_new_timestamps (cf_delta f)) \<and> rx_new (cf_delta f) = length (rx_new_timestamps (cf_delta f)) \<and>
     rx_changed_old (cf_delta f) = cf_replaced f \<and> set (rx_superseded_timestamps (cf_delta f)) = fst ` set (cf_superseded f)"
    unfolding fd by (simp add: sort_key_id_if_sorted)
qed

section \<open>The statements\<close>

lemma chunk_Inr:
  "insert_chunk table c = Inr t \<longleftrightarrow> t = table @ c \<and> distinct (map fst c) \<and> set (map fst c) \<inter> set (map fst table) = {}"
  "upsert_chunk table c = Inr t \<longleftrightarrow> t = fold upsert_row c table \<and> distinct (map fst c)"
  by (auto simp: insert_chunk_def upsert_chunk_def split: if_splits)

lemma insert_chunks:
  "write_chunks insert_chunk table css = Inr t \<Longrightarrow> t = table @ concat css"
proof (induction css arbitrary: table)
  case (Cons c css)
  then have "write_chunks insert_chunk (table @ c) css = Inr t" by (auto simp: chunk_Inr ebind_eq_Inr)
  from Cons.IH [OF this] show ?case by simp
qed simp

lemma insert_chunks_total:
  "distinct (map fst (table @ concat css)) \<Longrightarrow> write_chunks insert_chunk table css = Inr (table @ concat css)"
proof (induction css arbitrary: table)
  case (Cons c css)
  then have "insert_chunk table c = Inr (table @ c)" by (auto simp: insert_chunk_def)
  with Cons.IH [of "table @ c"] Cons.prems show ?case by simp
qed simp

lemma upsert_chunks:
  "write_chunks upsert_chunk table css = Inr t \<Longrightarrow> t = fold upsert_row (concat css) table"
proof (induction css arbitrary: table)
  case (Cons c css)
  then have "write_chunks upsert_chunk (fold upsert_row c table) css = Inr t"
    by (auto simp: chunk_Inr ebind_eq_Inr)
  from Cons.IH [OF this] show ?case by simp
qed simp

lemma upsert_chunks_total:
  "distinct (map fst (concat css)) \<Longrightarrow> write_chunks upsert_chunk table css = Inr (fold upsert_row (concat css) table)"
  by (induction css arbitrary: table) (auto simp: upsert_chunk_def)

definition upserted :: "raw_entry option \<Rightarrow> raw_entry \<Rightarrow> raw_entry option" where
  "upserted stored e =
     (case stored of None \<Rightarrow> Some e | Some old \<Rightarrow> if not_older (the (re_served e)) (re_served old) then Some e else Some old)"

lemma upsert_row_lookup: "map_of (upsert_row (k, e) table) j = (if j = k then upserted (map_of table k) e else map_of table j)"
  by (cases "map_of table k") (auto simp: upsert_row_def upserted_def update_conv' map_add_def split: option.split)

lemma upsert_row_distinct:
  assumes "distinct (map fst table)"
  shows "distinct (map fst (upsert_row (k, e) table))"
proof (cases "map_of table k")
  case None
  then have "k \<notin> fst ` set table" by (simp add: map_of_eq_None_iff)
  with None assms show ?thesis by (simp add: upsert_row_def)
qed (simp add: upsert_row_def distinct_update assms)

lemma upserts_lookup:
  "distinct (map fst rows) \<Longrightarrow>
   map_of (fold upsert_row rows table) j = (case map_of rows j of None \<Rightarrow> map_of table j | Some e \<Rightarrow> upserted (map_of table j) e)"
proof (induction rows arbitrary: table)
  case (Cons a rows)
  obtain k e where a: "a = (k, e)" by (cases a)
  from Cons.prems have "map_of rows k = None" by (simp add: a map_of_eq_None_iff)
  with Cons show ?case by (auto simp: a upsert_row_lookup split: option.split)
qed simp

lemma upserts_distinct: "distinct (map fst table) \<Longrightarrow> distinct (map fst (fold upsert_row rows table))"
proof (induction rows arbitrary: table)
  case (Cons a rows)
  then show ?case using upsert_row_distinct [of table "fst a" "snd a"] by simp
qed simp

lemma batch_positive: "1 \<le> n \<Longrightarrow> 0 < min (nat n) (MAX_PARAMS div RAW_PARAMS_PER_ROW)"
  by (simp add: MAX_PARAMS_def RAW_PARAMS_PER_ROW_def)

section \<open>One chunk\<close>

definition kept :: "raw_entry option \<Rightarrow> served_bar option \<Rightarrow> stamp \<Rightarrow> string \<Rightarrow> string \<Rightarrow> raw_entry option" where
  "kept stored offer answered_at request_id load_id =
     (case offer of
        None \<Rightarrow> stored
      | Some r \<Rightarrow> (case stored of
          None \<Rightarrow> Some (snd (raw_params r answered_at request_id load_id))
        | Some e \<Rightarrow> if values_eq (row_values r) (re_values e) \<or> \<not> not_older answered_at (re_served e) then Some e
                   else Some (snd (raw_params r answered_at request_id load_id))))"

lemma write_raw_parts:
  assumes "write_raw db rows load_id request_id t vendors kinds params now = Inr (deltas, db')" "rows \<noteq> []"
  obtains by_series all table where
    "group_by_series (validate_row vendors kinds (now + wp_future_tolerance_s params * second)) rows = Inr by_series"
    "emap (\<lambda>(series, keyed). ebind (classify_series db series keyed t) (\<lambda>found. Inr (series, keyed, found))) (sort_key fst by_series) = Inr all"
    "write_raw_rows insert_chunk (rd_raw db)
       (concat (map (\<lambda>(_, keyed, found). new_rows_of keyed found t request_id load_id) all)) (nat (wp_batch_rows params)) = Inr table"
    "write_raw_rows upsert_chunk table
       (concat (map (\<lambda>(_, keyed, found). changed_rows_of keyed found t request_id load_id) all)) (nat (wp_batch_rows params)) = Inr (rd_raw db')"
    "rd_revisions db' = rd_revisions db @ concat (map (\<lambda>(series, _, found). revisions_of series found request_id load_id) all)"
    "deltas = map (\<lambda>(_, _, found). cf_delta found) all" "1 \<le> wp_batch_rows params" "t \<le> now + wp_future_tolerance_s params * second"
proof -
  from assms(1) obtain by_series where by_series:
    "group_by_series (validate_row vendors kinds (now + wp_future_tolerance_s params * second)) rows = Inr by_series"
    by (auto simp: write_raw_def Let_def ebind_eq_Inr split: if_splits)
  have "by_series \<noteq> []" using group_by_series_facts(3) [OF by_series] assms(2) by auto
  with assms(1) by_series obtain all table where
    all: "emap (\<lambda>(series, keyed). ebind (classify_series db series keyed t) (\<lambda>found. Inr (series, keyed, found))) (sort_key fst by_series) = Inr all"
    and table: "write_raw_rows insert_chunk (rd_raw db)
       (concat (map (\<lambda>(_, keyed, found). new_rows_of keyed found t request_id load_id) all)) (nat (wp_batch_rows params)) = Inr table"
    "write_raw_rows upsert_chunk table
       (concat (map (\<lambda>(_, keyed, found). changed_rows_of keyed found t request_id load_id) all)) (nat (wp_batch_rows params)) = Inr (rd_raw db')"
    and out: "rd_revisions db' = rd_revisions db @ concat (map (\<lambda>(series, _, found). revisions_of series found request_id load_id) all)"
    "deltas = map (\<lambda>(_, _, found). cf_delta found) all" "1 \<le> wp_batch_rows params" "t \<le> now + wp_future_tolerance_s params * second"
    by (auto simp: write_raw_def Let_def ebind_eq_Inr check_answered_at_def split: if_splits)
  show ?thesis by (rule that [OF by_series all table out])
qed

lemma classified_entries:
  assumes all: "emap (\<lambda>(series, keyed). ebind (classify_series db series keyed t) (\<lambda>found. Inr (series, keyed, found))) xs = Inr all"
  shows "(s, keyed, f) \<in> set all \<longleftrightarrow> (s, keyed) \<in> set xs \<and> classify_series db s keyed t = Inr f"
    "map (\<lambda>(s, keyed, f). (s, keyed)) all = xs"
proof -
  have nth: "\<exists>f. classify_series db (fst (xs ! i)) (snd (xs ! i)) t = Inr f \<and> all ! i = (fst (xs ! i), snd (xs ! i), f)"
    if "i < length xs" for i
    using emap_nth [OF all that] by (auto simp: case_prod_unfold ebind_eq_Inr)
  have len: "length all = length xs" by (rule emap_length [OF all])
  show "(s, keyed, f) \<in> set all \<longleftrightarrow> (s, keyed) \<in> set xs \<and> classify_series db s keyed t = Inr f"
  proof
    assume "(s, keyed, f) \<in> set all"
    then obtain i where "i < length xs" "all ! i = (s, keyed, f)" by (metis in_set_conv_nth len)
    with nth [of i] show "(s, keyed) \<in> set xs \<and> classify_series db s keyed t = Inr f"
      by (metis nth_mem prod.collapse prod.inject)
  next
    assume a: "(s, keyed) \<in> set xs \<and> classify_series db s keyed t = Inr f"
    then obtain i where i: "i < length xs" "xs ! i = (s, keyed)" by (metis in_set_conv_nth)
    with nth [of i] a have "all ! i = (s, keyed, f)" by auto
    with i(1) len show "(s, keyed, f) \<in> set all" by (metis nth_mem)
  qed
  show "map (\<lambda>(s, keyed, f). (s, keyed)) all = xs"
    by (rule nth_equalityI) (use nth len in \<open>force+\<close>)
qed


text \<open>What is read of a chunk: each series with its offers by stamp and their classification.\<close>

definition chunk_read ::
  "raw_db \<Rightarrow> served_bar list \<Rightarrow> stamp \<Rightarrow> (series \<times> (stamp \<times> served_bar) list \<times> classified) list \<Rightarrow> bool" where
  "chunk_read db rows t all \<longleftrightarrow>
     distinct (map fst all) \<and> (\<forall>s ts r. offers rows (s, ts) = Some r \<longrightarrow> s \<in> fst ` set all) \<and>
     (\<forall>(s, keyed, f) \<in> set all. distinct (map fst keyed) \<and> (\<forall>ts. map_of keyed ts = offers rows (s, ts)) \<and>
        classify_series db s keyed t = Inr f)"

lemma chunk_readI:
  assumes by_series: "group_by_series validate rows = Inr by_series"
    and all: "emap (\<lambda>(series, keyed). ebind (classify_series db series keyed t) (\<lambda>found. Inr (series, keyed, found))) (sort_key fst by_series) = Inr all"
  shows "chunk_read db rows t all"
proof -
  note g = group_by_series_facts [OF by_series] and e = classified_entries [OF all]
  have keys: "map fst all = map fst (sort_key fst by_series)"
    unfolding e(2) [symmetric] by (simp add: case_prod_unfold comp_def)
  have "distinct (map fst all)"
    unfolding keys using g(2) by (subst mset_eq_imp_distinct_iff [of _ "map fst by_series"]) simp_all
  moreover have "s \<in> fst ` set all" if "offers rows (s, ts) = Some r" for s ts r
  proof -
    from offers_Some [OF that] have "s \<in> fst ` set by_series" unfolding g(3) by (auto simp: offer_key_def)
    then have "s \<in> set (map fst all)" unfolding keys by simp
    then show ?thesis by simp
  qed
  ultimately show ?thesis using g(5) e(1) unfolding chunk_read_def by fastforce
qed

lemma chunk_read_keys:
  assumes "chunk_read db rows t all" "offers rows k = Some r"
  shows "fst k \<in> fst ` set all"
proof -
  from assms(1) have "\<And>s ts r. offers rows (s, ts) = Some r \<Longrightarrow> s \<in> fst ` set all" unfolding chunk_read_def by blast
  from this [of "fst k" "snd k" r] assms(2) show ?thesis by (simp only: prod.collapse)
qed

lemma in_concat_map: "y \<in> set (concat (map g xs)) \<longleftrightarrow> (\<exists>x \<in> set xs. y \<in> set (g x))"
  by auto

text \<open>What is collected over the series is collected over the offered keys.\<close>

lemma collected:
  assumes "chunk_read db rows t all"
    and "\<And>s keyed f. (s, keyed, f) \<in> set all \<Longrightarrow> distinct (map fst keyed) \<Longrightarrow> (\<And>ts. map_of keyed ts = offers rows (s, ts)) \<Longrightarrow>
      classify_series db s keyed t = Inr f \<Longrightarrow>
      x \<in> set (g s keyed f) \<longleftrightarrow> (\<exists>ts r. offers rows (s, ts) = Some r \<and> Q (s, ts) r)"
  shows "x \<in> set (concat (map (\<lambda>(s, keyed, f). g s keyed f) all)) \<longleftrightarrow> (\<exists>k r. offers rows k = Some r \<and> Q k r)"
proof -
  have entry: "x \<in> set (g s keyed f) \<longleftrightarrow> (\<exists>ts r. offers rows (s, ts) = Some r \<and> Q (s, ts) r)"
    if m: "(s, keyed, f) \<in> set all" for s keyed f
  proof -
    from m assms(1) have "distinct (map fst keyed)" "\<And>ts. map_of keyed ts = offers rows (s, ts)" "classify_series db s keyed t = Inr f"
      by (auto simp: chunk_read_def)
    from assms(2) [OF m this] show ?thesis .
  qed
  show ?thesis
  proof
    assume "x \<in> set (concat (map (\<lambda>(s, keyed, f). g s keyed f) all))"
    then obtain s keyed f where "(s, keyed, f) \<in> set all" "x \<in> set (g s keyed f)" unfolding in_concat_map by auto
    with entry show "\<exists>k r. offers rows k = Some r \<and> Q k r" by blast
  next
    assume "\<exists>k r. offers rows k = Some r \<and> Q k r"
    then obtain k r where k: "offers rows k = Some r" "Q k r" by blast
    from chunk_read_keys [OF assms(1) k(1)] obtain keyed f where m: "(fst k, keyed, f) \<in> set all" by auto
    from k have "\<exists>ts r. offers rows (fst k, ts) = Some r \<and> Q (fst k, ts) r" by (metis prod.collapse)
    with entry [OF m] show "x \<in> set (concat (map (\<lambda>(s, keyed, f). g s keyed f) all))"
      unfolding in_concat_map by (intro bexI [OF _ m]) simp
  qed
qed

lemma in_map_pair: "x \<in> set (map (\<lambda>(a, b). h a b) xs) \<longleftrightarrow> (\<exists>a b. (a, b) \<in> set xs \<and> x = h a b)"
  by force

lemma raw_params_key: "fst (raw_params r t request_id load_id) = offer_key r"
  by (simp add: raw_params_def)

lemma new_rows_set:
  assumes "raw_ok db" "chunk_read db rows t all"
  shows "x \<in> set (concat (map (\<lambda>(_, keyed, found). new_rows_of keyed found t request_id load_id) all)) \<longleftrightarrow>
    (\<exists>k r. offers rows k = Some r \<and> map_of (rd_raw db) k = None \<and> x = raw_params r t request_id load_id)"
proof (rule collected [OF assms(2)])
  fix s keyed f
  assume c: "distinct (map fst keyed)" "\<And>ts. map_of keyed ts = offers rows (s, ts)" "classify_series db s keyed t = Inr f"
  have "x \<in> set (new_rows_of keyed f t request_id load_id) \<longleftrightarrow>
      (\<exists>ts \<in> set (rx_new_timestamps (cf_delta f)). x = raw_params (the (offers rows (s, ts))) t request_id load_id)"
    by (simp add: new_rows_of_def c(2) image_iff)
  also have "\<dots> \<longleftrightarrow> (\<exists>ts. (\<exists>r. offers rows (s, ts) = Some r) \<and> map_of (rd_raw db) (s, ts) = None \<and>
      x = raw_params (the (offers rows (s, ts))) t request_id load_id)"
    unfolding Bex_def classify_series_facts(2) [OF assms(1) c(1,3)] c(2) not_None_eq by blast
  finally show "x \<in> set (new_rows_of keyed f t request_id load_id) \<longleftrightarrow>
      (\<exists>ts r. offers rows (s, ts) = Some r \<and> map_of (rd_raw db) (s, ts) = None \<and> x = raw_params r t request_id load_id)"
    by (metis option.sel)
qed

definition differs :: "raw_db \<Rightarrow> raw_key \<Rightarrow> served_bar \<Rightarrow> raw_entry \<Rightarrow> bool" where
  "differs db k r e \<longleftrightarrow> map_of (rd_raw db) k = Some e \<and> \<not> values_eq (row_values r) (re_values e)"

lemma changed_rows_set:
  assumes "raw_ok db" "chunk_read db rows t all"
  shows "x \<in> set (concat (map (\<lambda>(_, keyed, found). changed_rows_of keyed found t request_id load_id) all)) \<longleftrightarrow>
    (\<exists>k r. offers rows k = Some r \<and> (\<exists>e. differs db k r e \<and> not_older t (re_served e)) \<and> x = raw_params r t request_id load_id)"
proof (rule collected [OF assms(2)])
  fix s keyed f
  assume c: "distinct (map fst keyed)" "\<And>ts. map_of keyed ts = offers rows (s, ts)" "classify_series db s keyed t = Inr f"
  have "x \<in> set (changed_rows_of keyed f t request_id load_id) \<longleftrightarrow>
      (\<exists>ts v. (ts, v) \<in> set (cf_replaced f) \<and> x = raw_params (the (offers rows (s, ts))) t request_id load_id)"
    unfolding changed_rows_of_def in_map_pair c(2) by blast
  then show "x \<in> set (changed_rows_of keyed f t request_id load_id) \<longleftrightarrow>
      (\<exists>ts r. offers rows (s, ts) = Some r \<and> (\<exists>e. differs db (s, ts) r e \<and> not_older t (re_served e)) \<and> x = raw_params r t request_id load_id)"
    unfolding classify_series_facts(4) [OF assms(1) c(1,3)] c(2) differs_def by (metis option.sel)
qed

definition revision_for :: "raw_key \<Rightarrow> bar_values \<Rightarrow> string option \<Rightarrow> string \<Rightarrow> string \<Rightarrow> revision" where
  "revision_for = (\<lambda>((symbol, timeframe, vendor, kind), ts) v request origin load_id.
     \<lparr>rv_load = load_id, rv_key = ((symbol, timeframe, vendor, kind), ts), rv_values = v, rv_token = pair_token vendor kind,
      rv_request = request, rv_origin = origin\<rparr>)"

lemma revisions_set:
  assumes "raw_ok db" "chunk_read db rows t all"
  shows "x \<in> set (concat (map (\<lambda>(s, _, found). revisions_of s found request_id load_id) all)) \<longleftrightarrow>
    (\<exists>k r. offers rows k = Some r \<and> (\<exists>e. differs db k r e \<and>
       x = (if not_older t (re_served e) then revision_for k (re_values e) (re_request e) ORIGIN_RAW load_id
            else revision_for k (row_values r) (Some request_id) ORIGIN_SUPERSEDED load_id)))"
proof (rule collected [OF assms(2)])
  fix s keyed f
  assume c: "distinct (map fst keyed)" "\<And>ts. map_of keyed ts = offers rows (s, ts)" "classify_series db s keyed t = Inr f"
  note facts = classify_series_facts [OF assms(1) c(1,3)]
  have rev: "revisions_of s f request_id load_id =
      map (\<lambda>(ts, old). revision_for (s, ts) old (the (map_of (cf_old_request f) ts)) ORIGIN_RAW load_id) (cf_replaced f) @
      map (\<lambda>(ts, offered). revision_for (s, ts) offered (Some request_id) ORIGIN_SUPERSEDED load_id) (cf_superseded f)"
    by (cases s) (simp add: revisions_of_def revision_for_def Let_def)
  have old: "the (map_of (cf_old_request f) ts) = re_request e" if "(ts, v) \<in> set (cf_replaced f)" "map_of (rd_raw db) (s, ts) = Some e" for ts v e
    using that facts(4) facts(6) by force
  have "x \<in> set (revisions_of s f request_id load_id) \<longleftrightarrow>
      (\<exists>ts v. (ts, v) \<in> set (cf_replaced f) \<and> x = revision_for (s, ts) v (the (map_of (cf_old_request f) ts)) ORIGIN_RAW load_id) \<or>
      (\<exists>ts v. (ts, v) \<in> set (cf_superseded f) \<and> x = revision_for (s, ts) v (Some request_id) ORIGIN_SUPERSEDED load_id)"
    unfolding rev set_append Un_iff in_map_pair by blast
  also have "\<dots> \<longleftrightarrow> (\<exists>ts r e. offers rows (s, ts) = Some r \<and> differs db (s, ts) r e \<and>
       x = (if not_older t (re_served e) then revision_for (s, ts) (re_values e) (re_request e) ORIGIN_RAW load_id
            else revision_for (s, ts) (row_values r) (Some request_id) ORIGIN_SUPERSEDED load_id))"
    (is "?L \<longleftrightarrow> ?R")
  proof
    assume ?L
    then show ?R
    proof (elim disjE exE conjE)
      fix ts v assume r: "(ts, v) \<in> set (cf_replaced f)" and x: "x = revision_for (s, ts) v (the (map_of (cf_old_request f) ts)) ORIGIN_RAW load_id"
      from r [unfolded facts(4)] c(2) obtain r' e where "offers rows (s, ts) = Some r'" "differs db (s, ts) r' e" "not_older t (re_served e)"
        "v = re_values e" by (auto simp: differs_def)
      with x old [OF r] show ?R by (auto simp: differs_def)
    next
      fix ts v assume r: "(ts, v) \<in> set (cf_superseded f)" and x: "x = revision_for (s, ts) v (Some request_id) ORIGIN_SUPERSEDED load_id"
      from r [unfolded facts(5)] c(2) obtain r' e where "offers rows (s, ts) = Some r'" "differs db (s, ts) r' e" "\<not> not_older t (re_served e)"
        "v = row_values r'" by (auto simp: differs_def)
      with x show ?R by auto
    qed
  next
    assume ?R
    then obtain ts r e where r: "offers rows (s, ts) = Some r" "differs db (s, ts) r e"
      "x = (if not_older t (re_served e) then revision_for (s, ts) (re_values e) (re_request e) ORIGIN_RAW load_id
            else revision_for (s, ts) (row_values r) (Some request_id) ORIGIN_SUPERSEDED load_id)" by blast
    show ?L
    proof (cases "not_older t (re_served e)")
      case True
      then have m: "(ts, re_values e) \<in> set (cf_replaced f)" unfolding facts(4) using r(1,2) by (auto simp: differs_def c(2))
      have "map_of (rd_raw db) (s, ts) = Some e" using r(2) by (simp add: differs_def)
      from old [OF m this] r(3) True
      have "x = revision_for (s, ts) (re_values e) (the (map_of (cf_old_request f) ts)) ORIGIN_RAW load_id" by simp
      with m show ?L by blast
    next
      case False
      then have "(ts, row_values r) \<in> set (cf_superseded f)" unfolding facts(5) using r(1,2) by (auto simp: differs_def c(2))
      with r False show ?L by auto
    qed
  qed
  finally show "x \<in> set (revisions_of s f request_id load_id) \<longleftrightarrow>
      (\<exists>ts r. offers rows (s, ts) = Some r \<and> (\<exists>e. differs db (s, ts) r e \<and>
       x = (if not_older t (re_served e) then revision_for (s, ts) (re_values e) (re_request e) ORIGIN_RAW load_id
            else revision_for (s, ts) (row_values r) (Some request_id) ORIGIN_SUPERSEDED load_id)))" by blast
qed

lemma row_keys:
  assumes "raw_ok db" "distinct (map fst keyed)" "\<And>ts. map_of keyed ts = offers rows (s, ts)" "classify_series db s keyed t = Inr f"
  shows "map fst (new_rows_of keyed f t request_id load_id) = map (Pair s) (rx_new_timestamps (cf_delta f))"
    "map fst (changed_rows_of keyed f t request_id load_id) = map (Pair s) (map fst (cf_replaced f))"
proof -
  note facts = classify_series_facts [OF assms(1,2,4)]
  have key: "offer_key (the (map_of keyed ts)) = (s, ts)" if "map_of keyed ts \<noteq> None" for ts
  proof -
    from that obtain r where "offers rows (s, ts) = Some r" using assms(3) by auto
    with offers_Some [OF this] assms(3) show ?thesis by simp
  qed
  show "map fst (new_rows_of keyed f t request_id load_id) = map (Pair s) (rx_new_timestamps (cf_delta f))"
    using facts(2) key by (simp add: new_rows_of_def raw_params_key)
  have "map_of keyed ts \<noteq> None" if "(ts, v) \<in> set (cf_replaced f)" for ts v using that facts(4) by auto
  with key show "map fst (changed_rows_of keyed f t request_id load_id) = map (Pair s) (map fst (cf_replaced f))"
    by (auto simp: changed_rows_of_def raw_params_key)
qed

lemma written_distinct:
  assumes "raw_ok db" "chunk_read db rows t all"
  shows "distinct (map fst (concat (map (\<lambda>(_, keyed, found). new_rows_of keyed found t request_id load_id) all)))"
    "distinct (map fst (concat (map (\<lambda>(_, keyed, found). changed_rows_of keyed found t request_id load_id) all)))"
proof -
  have entry: "distinct (map fst keyed) \<and> (\<forall>ts. map_of keyed ts = offers rows (s, ts)) \<and> classify_series db s keyed t = Inr f"
    if "(s, keyed, f) \<in> set all" for s keyed f using assms(2) that by (auto simp: chunk_read_def)
  have keys: "distinct (map fst all)" using assms(2) by (simp add: chunk_read_def)
  have inj: "distinct xs \<Longrightarrow> distinct (map (Pair s) xs) \<and> (\<forall>x \<in> set (map (Pair s) xs). fst x = s)" for s :: series and xs :: "stamp list"
    by (auto simp: distinct_map inj_on_def)
  have "distinct (concat (map (\<lambda>(s, (keyed, f)). map fst (new_rows_of keyed f t request_id load_id)) all))"
  proof (rule distinct_concat_tagged [OF keys, where tag = fst and g = "\<lambda>s (keyed, f). map fst (new_rows_of keyed f t request_id load_id)"])
    fix s p assume "(s, p) \<in> set all"
    moreover obtain keyed f where "p = (keyed, f)" by (cases p)
    ultimately have e: "distinct (map fst keyed)" "\<And>ts. map_of keyed ts = offers rows (s, ts)" "classify_series db s keyed t = Inr f"
      and p: "p = (keyed, f)" using entry [of s keyed f] by auto
    from row_keys(1) [OF assms(1) e, of request_id load_id] inj [OF classify_series_facts(1) [OF assms(1) e(1,3)]]
    show "distinct (case p of (keyed, f) \<Rightarrow> map fst (new_rows_of keyed f t request_id load_id)) \<and>
        (\<forall>x \<in> set (case p of (keyed, f) \<Rightarrow> map fst (new_rows_of keyed f t request_id load_id)). fst x = s)" by (simp add: p)
  qed
  then show "distinct (map fst (concat (map (\<lambda>(_, keyed, found). new_rows_of keyed found t request_id load_id) all)))"
    by (simp add: map_concat case_prod_unfold comp_def)
  have "distinct (concat (map (\<lambda>(s, (keyed, f)). map fst (changed_rows_of keyed f t request_id load_id)) all))"
  proof (rule distinct_concat_tagged [OF keys, where tag = fst and g = "\<lambda>s (keyed, f). map fst (changed_rows_of keyed f t request_id load_id)"])
    fix s p assume "(s, p) \<in> set all"
    moreover obtain keyed f where "p = (keyed, f)" by (cases p)
    ultimately have e: "distinct (map fst keyed)" "\<And>ts. map_of keyed ts = offers rows (s, ts)" "classify_series db s keyed t = Inr f"
      and p: "p = (keyed, f)" using entry [of s keyed f] by auto
    from row_keys(2) [OF assms(1) e, of request_id load_id] inj [OF classify_series_facts(3) [OF assms(1) e(1,3)]]
    show "distinct (case p of (keyed, f) \<Rightarrow> map fst (changed_rows_of keyed f t request_id load_id)) \<and>
        (\<forall>x \<in> set (case p of (keyed, f) \<Rightarrow> map fst (changed_rows_of keyed f t request_id load_id)). fst x = s)" by (simp add: p)
  qed
  then show "distinct (map fst (concat (map (\<lambda>(_, keyed, found). changed_rows_of keyed found t request_id load_id) all)))"
    by (simp add: map_concat case_prod_unfold comp_def)
qed

lemma raw_params_pair: "raw_params r t request_id load_id = (offer_key r, snd (raw_params r t request_id load_id))"
  by (simp add: raw_params_def)

text \<open>The rows a chunk inserts and those it replaces.\<close>

abbreviation news_of where
  "news_of all t request_id load_id \<equiv> concat (map (\<lambda>(_, keyed, found). new_rows_of keyed found t request_id load_id) all)"

abbreviation changes_of where
  "changes_of all t request_id load_id \<equiv> concat (map (\<lambda>(_, keyed, found). changed_rows_of keyed found t request_id load_id) all)"

lemma entry_of_offer:
  "(\<exists>k' r. offers rows k' = Some r \<and> Q k' r \<and> (k, e) = raw_params r t request_id load_id) \<longleftrightarrow>
   (\<exists>r. offers rows k = Some r \<and> Q k r \<and> e = snd (raw_params r t request_id load_id))"
proof
  assume "\<exists>k' r. offers rows k' = Some r \<and> Q k' r \<and> (k, e) = raw_params r t request_id load_id"
  then obtain k' r where h: "offers rows k' = Some r" "Q k' r" "(k, e) = raw_params r t request_id load_id" by blast
  from h(3) have "k = offer_key r" "e = snd (raw_params r t request_id load_id)" by (simp_all add: raw_params_def)
  with h offers_Some [OF h(1)] show "\<exists>r. offers rows k = Some r \<and> Q k r \<and> e = snd (raw_params r t request_id load_id)" by blast
next
  assume "\<exists>r. offers rows k = Some r \<and> Q k r \<and> e = snd (raw_params r t request_id load_id)"
  then obtain r where h: "offers rows k = Some r" "Q k r" "e = snd (raw_params r t request_id load_id)" by blast
  with offers_Some [OF h(1)] have "(k, e) = raw_params r t request_id load_id" by (simp add: raw_params_def)
  with h show "\<exists>k' r. offers rows k' = Some r \<and> Q k' r \<and> (k, e) = raw_params r t request_id load_id" by blast
qed

lemma news_entry:
  assumes "raw_ok db" "chunk_read db rows t all"
  shows "(k, e) \<in> set (news_of all t request_id load_id) \<longleftrightarrow>
    (\<exists>r. offers rows k = Some r \<and> map_of (rd_raw db) k = None \<and> e = snd (raw_params r t request_id load_id))"
  unfolding new_rows_set [OF assms] by (rule entry_of_offer)

lemma changes_entry:
  assumes "raw_ok db" "chunk_read db rows t all"
  shows "(k, e) \<in> set (changes_of all t request_id load_id) \<longleftrightarrow>
    (\<exists>r. offers rows k = Some r \<and> (\<exists>old. differs db k r old \<and> not_older t (re_served old)) \<and>
      e = snd (raw_params r t request_id load_id))"
  unfolding changed_rows_set [OF assms] by (rule entry_of_offer)

lemma news_lookup:
  assumes "raw_ok db" "chunk_read db rows t all"
  shows "map_of (news_of all t request_id load_id) k = (case (offers rows k, map_of (rd_raw db) k) of
    (Some r, None) \<Rightarrow> Some (snd (raw_params r t request_id load_id)) | _ \<Rightarrow> None)"
proof (rule option_ext)
  fix e
  have "map_of (news_of all t request_id load_id) k = Some e \<longleftrightarrow> (k, e) \<in> set (news_of all t request_id load_id)"
    using written_distinct(1) [OF assms] by (rule map_of_eq_Some_iff)
  also have "\<dots> \<longleftrightarrow> (\<exists>r. offers rows k = Some r \<and> map_of (rd_raw db) k = None \<and> e = snd (raw_params r t request_id load_id))"
    by (rule news_entry [OF assms])
  also have "\<dots> \<longleftrightarrow> (case (offers rows k, map_of (rd_raw db) k) of
      (Some r, None) \<Rightarrow> Some (snd (raw_params r t request_id load_id)) | _ \<Rightarrow> None) = Some e"
    by (cases "offers rows k"; cases "map_of (rd_raw db) k") (simp_all only: option.simps prod.case simp_thms, blast)
  finally show "map_of (news_of all t request_id load_id) k = Some e \<longleftrightarrow> (case (offers rows k, map_of (rd_raw db) k) of
      (Some r, None) \<Rightarrow> Some (snd (raw_params r t request_id load_id)) | _ \<Rightarrow> None) = Some e" .
qed

lemma changes_lookup:
  assumes "raw_ok db" "chunk_read db rows t all"
  shows "map_of (changes_of all t request_id load_id) k = (case (offers rows k, map_of (rd_raw db) k) of
    (Some r, Some e) \<Rightarrow> if \<not> values_eq (row_values r) (re_values e) \<and> not_older t (re_served e)
      then Some (snd (raw_params r t request_id load_id)) else None | _ \<Rightarrow> None)"
proof (rule option_ext)
  fix e
  have "map_of (changes_of all t request_id load_id) k = Some e \<longleftrightarrow> (k, e) \<in> set (changes_of all t request_id load_id)"
    using written_distinct(2) [OF assms] by (rule map_of_eq_Some_iff)
  also have "\<dots> \<longleftrightarrow> (\<exists>r. offers rows k = Some r \<and> (\<exists>old. differs db k r old \<and> not_older t (re_served old)) \<and>
      e = snd (raw_params r t request_id load_id))"
    by (rule changes_entry [OF assms])
  also have "\<dots> \<longleftrightarrow> (case (offers rows k, map_of (rd_raw db) k) of
      (Some r, Some e) \<Rightarrow> if \<not> values_eq (row_values r) (re_values e) \<and> not_older t (re_served e)
        then Some (snd (raw_params r t request_id load_id)) else None | _ \<Rightarrow> None) = Some e"
    unfolding differs_def
    by (cases "offers rows k"; cases "map_of (rd_raw db) k") (simp_all only: option.simps prod.case simp_thms split: if_split, blast)
  finally show "map_of (changes_of all t request_id load_id) k = Some e \<longleftrightarrow> (case (offers rows k, map_of (rd_raw db) k) of
      (Some r, Some e) \<Rightarrow> if \<not> values_eq (row_values r) (re_values e) \<and> not_older t (re_served e)
        then Some (snd (raw_params r t request_id load_id)) else None | _ \<Rightarrow> None) = Some e" .
qed

lemma disjoint_keys:
  assumes "\<And>j e. (j, e) \<in> set xs \<Longrightarrow> j \<notin> set (map fst ys)"
  shows "set (map fst xs) \<inter> set (map fst ys) = {}"
proof -
  have "\<forall>p \<in> set xs. fst p \<notin> set (map fst ys)" using assms by (metis prod.collapse)
  then show ?thesis by auto
qed

lemma news_fresh:
  assumes "raw_ok db" "chunk_read db rows t all"
  shows "set (map fst (news_of all t request_id load_id)) \<inter> set (map fst (rd_raw db)) = {}"
proof (rule disjoint_keys)
  fix j e assume "(j, e) \<in> set (news_of all t request_id load_id)"
  then show "j \<notin> set (map fst (rd_raw db))"
    unfolding news_entry [OF assms] by (elim exE conjE) (simp add: map_of_eq_None_iff)
qed

definition logged :: "raw_db \<Rightarrow> served_bar list \<Rightarrow> stamp \<Rightarrow> string \<Rightarrow> string \<Rightarrow> revision \<Rightarrow> bool" where
  "logged db rows t request_id load_id x \<longleftrightarrow> (\<exists>k r. offers rows k = Some r \<and> (\<exists>e. differs db k r e \<and>
     x = (if not_older t (re_served e) then revision_for k (re_values e) (re_request e) ORIGIN_RAW load_id
          else revision_for k (row_values r) (Some request_id) ORIGIN_SUPERSEDED load_id)))"

text \<open>The effect of a chunk on every key and on the revision log.\<close>

lemma write_raw_effect:
  assumes ok: "raw_ok db" and w: "write_raw db rows load_id request_id t vendors kinds params now = Inr (deltas, db')"
  shows "raw_ok db' \<and> (\<forall>k. map_of (rd_raw db') k = kept (map_of (rd_raw db) k) (offers rows k) t request_id load_id) \<and>
    (\<exists>news. rd_revisions db' = rd_revisions db @ news \<and> (\<forall>x. x \<in> set news \<longleftrightarrow> logged db rows t request_id load_id x))"
proof (cases "rows = []")
  case True
  with w have "db' = db" by (auto simp: write_raw_def Let_def ebind_eq_Inr group_by_series_def split: if_splits)
  with True ok show ?thesis by (simp add: offers_def kept_def logged_def)
next
  case False
  from w False obtain by_series all table where
    by_series: "group_by_series (validate_row vendors kinds (now + wp_future_tolerance_s params * second)) rows = Inr by_series"
    and all: "emap (\<lambda>(series, keyed). ebind (classify_series db series keyed t) (\<lambda>found. Inr (series, keyed, found))) (sort_key fst by_series) = Inr all"
    and ins: "write_raw_rows insert_chunk (rd_raw db) (news_of all t request_id load_id) (nat (wp_batch_rows params)) = Inr table"
    and ups: "write_raw_rows upsert_chunk table (changes_of all t request_id load_id) (nat (wp_batch_rows params)) = Inr (rd_raw db')"
    and rev: "rd_revisions db' = rd_revisions db @ concat (map (\<lambda>(series, _, found). revisions_of series found request_id load_id) all)"
    and batch: "1 \<le> wp_batch_rows params"
    by (rule write_raw_parts)
  have read: "chunk_read db rows t all" by (rule chunk_readI [OF by_series all])
  note cc = concat_chunks [OF batch_positive [OF batch]]
  have table: "table = rd_raw db @ news_of all t request_id load_id"
    using insert_chunks [OF ins [unfolded write_raw_rows_def]] by (simp only: cc)
  have raw': "rd_raw db' = fold upsert_row (changes_of all t request_id load_id) table"
    using upsert_chunks [OF ups [unfolded write_raw_rows_def]] by (simp only: cc)
  have "distinct (map fst table)"
    unfolding table map_append distinct_append
    using ok [unfolded raw_ok_def] written_distinct(1) [OF ok read] news_fresh [OF ok read] by (simp only: Int_commute simp_thms)
  then have ok': "raw_ok db'" unfolding raw_ok_def raw' by (rule upserts_distinct)
  have "map_of table k = (case map_of (rd_raw db) k of Some e \<Rightarrow> Some e | None \<Rightarrow> map_of (news_of all t request_id load_id) k)" for k
    by (simp add: table map_add_def split: option.split)
  then have "map_of (rd_raw db') k = kept (map_of (rd_raw db) k) (offers rows k) t request_id load_id" for k
    unfolding raw' upserts_lookup [OF written_distinct(2) [OF ok read]] changes_lookup [OF ok read] news_lookup [OF ok read]
    by (auto simp: kept_def upserted_def raw_params_def split: option.splits)
  with ok' rev show ?thesis
    using revisions_set [OF ok read, where request_id = request_id and load_id = load_id] unfolding logged_def by blast
qed

section \<open>When a chunk is written\<close>

definition raw_finite :: "raw_db \<Rightarrow> bool" where
  "raw_finite db \<longleftrightarrow> (\<forall>(k, e) \<in> set (rd_raw db). \<not> has_nan (re_values e))"

lemma valid_no_nan: "validate_row vendors kinds latest r = Inr u \<Longrightarrow> \<not> has_nan (row_values r)"
  by (auto simp: validate_row_def row_values_def has_nan_def prices_def split: if_splits)

lemma classify_loop_total:
  "(\<And>k v. (k, v) \<in> set incoming \<Longrightarrow> \<not> has_nan v) \<Longrightarrow> (\<And>k v. map_of stored k = Some v \<Longrightarrow> \<not> has_nan v) \<Longrightarrow>
   \<exists>d. classify_loop stored incoming delta = Inr d"
proof (induction stored incoming delta rule: classify_loop.induct)
  case (2 stored key v rest delta)
  have v: "\<not> has_nan v" using 2(4) [of key v] by simp
  have rest: "\<not> has_nan w" if "(k, w) \<in> set rest" for k w using 2(4) [of k w] that by simp
  show ?case
  proof (cases "map_of stored key")
    case None
    with 2(1) [OF None v] rest 2(5) v show ?thesis by auto
  next
    case (Some old)
    with 2(5) have "\<not> has_nan old" by blast
    with Some 2(2) [OF Some] 2(3) [OF Some] rest 2(5) v show ?thesis by auto
  qed
qed simp

lemma classify_series_total:
  assumes "raw_ok db" "raw_finite db" "\<And>ts r. map_of keyed ts = Some r \<Longrightarrow> \<not> has_nan (row_values r)"
  shows "\<exists>f. classify_series db s keyed t = Inr f"
proof -
  let ?stamps = "sort (map fst keyed)" and ?stored = "map (\<lambda>(ts, e). (ts, re_values e)) (read_stored db s (sort (map fst keyed)))"
  have stored: "\<not> has_nan v" if v: "map_of ?stored ts = Some v" for ts v
  proof -
    from map_of_SomeD [OF v] obtain e where "(ts, e) \<in> set (read_stored db s ?stamps)" "v = re_values e" by auto
    then have "((s, ts), e) \<in> set (rd_raw db)" unfolding read_stored_set by blast
    with assms(2) \<open>v = re_values e\<close> show ?thesis by (auto simp: raw_finite_def)
  qed
  have inc: "\<not> has_nan v" if "(ts, v) \<in> set (map (\<lambda>ts. (ts, row_values (the (map_of keyed ts)))) ?stamps)" for ts v
  proof -
    from that have "ts \<in> fst ` set keyed" "v = row_values (the (map_of keyed ts))" by auto
    then obtain r where "map_of keyed ts = Some r" by (metis map_of_eq_None_iff not_None_eq)
    with assms(3) \<open>v = row_values (the (map_of keyed ts))\<close> show ?thesis by simp
  qed
  have "\<exists>d. classify_loop ?stored (map (\<lambda>ts. (ts, row_values (the (map_of keyed ts)))) ?stamps)
      \<lparr>wd_new = [], wd_changed = [], wd_unchanged = 0, wd_removed = []\<rparr> = Inr d"
    by (rule classify_loop_total) (erule inc, erule stored)
  then obtain d where "classify (map (\<lambda>ts. (ts, row_values (the (map_of keyed ts)))) ?stamps) ?stored None = Inr d"
    unfolding classify_def by fastforce
  then show ?thesis by (simp add: classify_series_def Let_def)
qed

lemma group_by_series_total:
  "(\<forall>r \<in> set rows. validate r = Inr ()) \<Longrightarrow> \<not> contradicts [] rows \<Longrightarrow> \<exists>b. group_by_series validate rows = Inr b"
  using emap_total [of rows validate] by (auto simp: group_by_series_def)

lemma write_raw_total:
  assumes ok: "raw_ok db" "raw_finite db" and batch: "1 \<le> wp_batch_rows params"
    and time: "t \<le> now + wp_future_tolerance_s params * second"
    and valid: "\<forall>r \<in> set rows. validate_row vendors kinds (now + wp_future_tolerance_s params * second) r = Inr ()"
    and "\<not> contradicts [] rows"
  shows "\<exists>x. write_raw db rows load_id request_id t vendors kinds params now = Inr x"
proof -
  from group_by_series_total [OF valid assms(6)] obtain by_series where
    by_series: "group_by_series (validate_row vendors kinds (now + wp_future_tolerance_s params * second)) rows = Inr by_series" by blast
  have "\<exists>f. classify_series db s keyed t = Inr f" if "(s, keyed) \<in> set (sort_key fst by_series)" for s keyed
  proof (rule classify_series_total [OF ok])
    fix ts r assume "map_of keyed ts = Some r"
    with that group_by_series_facts(5) [OF by_series, of s keyed ts] have "offers rows (s, ts) = Some r" by simp
    from offers_Some [OF this] have "r \<in> set rows" by simp
    from valid_no_nan [OF bspec [OF valid this]] show "\<not> has_nan (row_values r)" .
  qed
  then obtain all where
    all: "emap (\<lambda>(series, keyed). ebind (classify_series db series keyed t) (\<lambda>found. Inr (series, keyed, found))) (sort_key fst by_series) = Inr all"
    using emap_total [of "sort_key fst by_series" "\<lambda>(series, keyed). ebind (classify_series db series keyed t) (\<lambda>found. Inr (series, keyed, found))"]
    by fastforce
  have read: "chunk_read db rows t all" by (rule chunk_readI [OF by_series all])
  note cc = concat_chunks [OF batch_positive [OF batch]]
  have "distinct (map fst (rd_raw db @ news_of all t request_id load_id))"
    unfolding map_append distinct_append
    using ok(1) [unfolded raw_ok_def] written_distinct(1) [OF ok(1) read] news_fresh [OF ok(1) read] by (simp only: Int_commute simp_thms)
  then have "write_raw_rows insert_chunk (rd_raw db) (news_of all t request_id load_id) (nat (wp_batch_rows params)) =
      Inr (rd_raw db @ news_of all t request_id load_id)"
    unfolding write_raw_rows_def by (subst insert_chunks_total) (simp_all only: cc)
  moreover have "write_raw_rows upsert_chunk table (changes_of all t request_id load_id) (nat (wp_batch_rows params)) =
      Inr (fold upsert_row (changes_of all t request_id load_id) table)" for table
    unfolding write_raw_rows_def by (subst upsert_chunks_total) (simp_all only: cc written_distinct(2) [OF ok(1) read])
  ultimately show ?thesis
    using by_series all batch time by (auto simp: write_raw_def Let_def check_answered_at_def)
qed

text \<open>The exact errors of a chunk: nothing else makes the writer raise.\<close>

lemma write_raw_defined:
  assumes "raw_ok db" "raw_finite db"
  shows "(\<exists>x. write_raw db rows load_id request_id t vendors kinds params now = Inr x) \<longleftrightarrow>
    1 \<le> wp_batch_rows params \<and> t \<le> now + wp_future_tolerance_s params * second \<and> \<not> contradicts [] rows \<and>
    list_all (\<lambda>r. validate_row vendors kinds (now + wp_future_tolerance_s params * second) r = Inr ()) rows"
proof
  assume "\<exists>x. write_raw db rows load_id request_id t vendors kinds params now = Inr x"
  then obtain b where "1 \<le> wp_batch_rows params" "t \<le> now + wp_future_tolerance_s params * second"
    "group_by_series (validate_row vendors kinds (now + wp_future_tolerance_s params * second)) rows = Inr b"
    by (auto simp: write_raw_def Let_def ebind_eq_Inr check_answered_at_def split: if_splits)
  with group_by_series_facts(1,4) [OF this(3)] show "1 \<le> wp_batch_rows params \<and> t \<le> now + wp_future_tolerance_s params * second \<and>
      \<not> contradicts [] rows \<and> list_all (\<lambda>r. validate_row vendors kinds (now + wp_future_tolerance_s params * second) r = Inr ()) rows"
    by (auto simp: list_all_iff)
qed (use write_raw_total [OF assms] in \<open>auto simp: list_all_iff\<close>)

end
