(* ===== verification/Raw_History.thy ===== *)
theory Raw_History
  imports Raw_Correct
begin

text \<open>
  The raw table over any sequence of chunks: which answer a key holds, and that no answer is lost.
\<close>

record answer_chunk =
  ac_rows :: "served_bar list"
  ac_load :: string
  ac_request :: string
  ac_answered :: stamp
  ac_now :: stamp

fun write_all :: "raw_db \<Rightarrow> answer_chunk list \<Rightarrow> string list \<Rightarrow> string list \<Rightarrow> write_params \<Rightarrow> err + raw_db" where
  "write_all db [] vendors kinds params = Inr db"
| "write_all db (c # cs) vendors kinds params =
     ebind (write_raw db (ac_rows c) (ac_load c) (ac_request c) (ac_answered c) vendors kinds params (ac_now c))
       (\<lambda>(_, db). write_all db cs vendors kinds params)"

definition empty_raw :: raw_db where "empty_raw = \<lparr>rd_raw = [], rd_revisions = []\<rparr>"

text \<open>The answers a key was offered, with their serve times, in the order they were written.\<close>

definition answers_of :: "answer_chunk list \<Rightarrow> raw_key \<Rightarrow> (stamp \<times> bar_values) list" where
  "answers_of cs k = concat (map (\<lambda>c. case offers (ac_rows c) k of None \<Rightarrow> [] | Some r \<Rightarrow> [(ac_answered c, row_values r)]) cs)"

text \<open>The answer with the latest serve time, the later written of two served together.\<close>

fun newest_of :: "(stamp \<times> bar_values) option \<Rightarrow> (stamp \<times> bar_values) list \<Rightarrow> (stamp \<times> bar_values) option" where
  "newest_of best [] = best"
| "newest_of best ((t, v) # rest) =
     newest_of (case best of None \<Rightarrow> Some (t, v) | Some (t', v') \<Rightarrow> if t' \<le> t then Some (t, v) else best) rest"

definition held_values :: "raw_db \<Rightarrow> raw_key \<Rightarrow> bar_values option" where
  "held_values db k = map_option re_values (map_of (rd_raw db) k)"

definition recorded :: "raw_db \<Rightarrow> raw_key \<Rightarrow> bar_values \<Rightarrow> bool" where
  "recorded db k v \<longleftrightarrow> held_values db k = Some v \<or> (\<exists>x \<in> set (rd_revisions db). rv_key x = k \<and> rv_values x = v)"

section \<open>One step\<close>

lemma revision_for_parts: "rv_key (revision_for k v request origin load_id) = k" "rv_values (revision_for k v request origin load_id) = v"
  by (simp_all add: revision_for_def split: prod.split)

lemma written_snoc:
  "write_all db (cs @ [c]) vendors kinds params = Inr db' \<longleftrightarrow>
   (\<exists>mid deltas. write_all db cs vendors kinds params = Inr mid \<and>
     write_raw mid (ac_rows c) (ac_load c) (ac_request c) (ac_answered c) vendors kinds params (ac_now c) = Inr (deltas, db'))"
  by (induction cs arbitrary: db) (auto simp: ebind_eq_Inr)

lemma answers_of_snoc:
  "answers_of (cs @ [c]) k = answers_of cs k @ (case offers (ac_rows c) k of None \<Rightarrow> [] | Some r \<Rightarrow> [(ac_answered c, row_values r)])"
  by (simp add: answers_of_def)

lemma newest_of_snoc:
  "newest_of best (h @ [(t, v)]) =
   (case newest_of best h of None \<Rightarrow> Some (t, v) | Some (t', v') \<Rightarrow> if t' \<le> t then Some (t, v) else Some (t', v'))"
  by (induction best h rule: newest_of.induct) (auto split: option.splits if_splits)

lemma newest_of_in: "newest_of best h = Some a \<Longrightarrow> a \<in> set h \<or> best = Some a"
  by (induction best h rule: newest_of.induct) (auto split: option.splits if_splits)

lemma newest_of_sorted:
  "sorted (map fst h) \<Longrightarrow> h \<noteq> [] \<Longrightarrow> newest_of None h = Some (last h)"
proof (induction h rule: rev_induct)
  case (snoc a h)
  obtain t v where a: "a = (t, v)" by (cases a)
  show ?case
  proof (cases "h = []")
    case False
    with snoc have n: "newest_of None h = Some (last h)" and "fst (last h) \<le> t"
      by (auto simp: sorted_append a)
    then show ?thesis by (cases "last h") (simp add: a newest_of_snoc)
  qed (simp add: a)
qed simp

lemma write_all_ok: "write_all db cs vendors kinds params = Inr db' \<Longrightarrow> raw_ok db \<Longrightarrow> raw_ok db'"
proof (induction cs arbitrary: db' rule: rev_induct)
  case (snoc c cs)
  then obtain mid deltas where "write_all db cs vendors kinds params = Inr mid"
    "write_raw mid (ac_rows c) (ac_load c) (ac_request c) (ac_answered c) vendors kinds params (ac_now c) = Inr (deltas, db')"
    unfolding written_snoc by blast
  with snoc show ?case by (auto dest: write_raw_effect)
qed simp

section \<open>The answer a key holds\<close>

definition tracks :: "raw_db \<Rightarrow> raw_key \<Rightarrow> (stamp \<times> bar_values) option \<Rightarrow> bool" where
  "tracks db k best \<longleftrightarrow>
     (case best of
        None \<Rightarrow> map_of (rd_raw db) k = None
      | Some (t, v) \<Rightarrow> \<exists>e s. map_of (rd_raw db) k = Some e \<and> re_values e = v \<and> re_served e = Some s \<and> s \<le> t)"

lemma tracks_values: "tracks db k best \<Longrightarrow> held_values db k = map_option snd best"
  by (auto simp: tracks_def held_values_def split: option.splits)

lemma sorted_tracks:
  assumes "write_all empty_raw cs vendors kinds params = Inr db" "sorted (map fst (answers_of cs k))"
  shows "tracks db k (newest_of None (answers_of cs k))"
  using assms
proof (induction cs arbitrary: db rule: rev_induct)
  case Nil
  then show ?case by (auto simp: tracks_def answers_of_def empty_raw_def)
next
  case (snoc c cs)
  from snoc.prems(1) obtain mid deltas where mid: "write_all empty_raw cs vendors kinds params = Inr mid"
    and w: "write_raw mid (ac_rows c) (ac_load c) (ac_request c) (ac_answered c) vendors kinds params (ac_now c) = Inr (deltas, db)"
    unfolding written_snoc by blast
  let ?h = "answers_of cs k" and ?t = "ac_answered c"
  have sorted: "sorted (map fst ?h)" using snoc.prems(2) by (simp add: answers_of_snoc sorted_append)
  note IH = snoc.IH [OF mid sorted]
  have "raw_ok mid" using write_all_ok [OF mid] by (simp add: raw_ok_def empty_raw_def)
  from write_raw_effect [OF this w] have step:
    "map_of (rd_raw db) k = kept (map_of (rd_raw mid) k) (offers (ac_rows c) k) ?t (ac_request c) (ac_load c)" by blast
  show ?case
  proof (cases "offers (ac_rows c) k")
    case None
    then have "answers_of (cs @ [c]) k = ?h" "map_of (rd_raw db) k = map_of (rd_raw mid) k" using step by (simp_all add: answers_of_snoc kept_def)
    with IH show ?thesis by (simp only: tracks_def)
  next
    case (Some r)
    have last: "newest_of None (answers_of (cs @ [c]) k) = Some (?t, row_values r)"
      using newest_of_sorted [OF snoc.prems(2)] by (simp add: answers_of_snoc Some)
    have before: "t \<le> ?t" if "newest_of None ?h = Some (t, v)" for t v
      using newest_of_in [OF that] snoc.prems(2) by (auto simp: answers_of_snoc Some sorted_append)
    show ?thesis
    proof (cases "newest_of None ?h")
      case None
      with IH step Some last show ?thesis by (simp add: tracks_def kept_def raw_params_def)
    next
      case (Some a)
      obtain t v where a: "a = (t, v)" by (cases a)
      from IH Some obtain e s where e: "map_of (rd_raw mid) k = Some e" "re_served e = Some s" "s \<le> t"
        by (auto simp: tracks_def a)
      have "s \<le> ?t" using before [of t v] Some e(3) by (simp add: a)
      with step \<open>offers (ac_rows c) k = Some r\<close> last e show ?thesis
        by (auto simp: tracks_def kept_def raw_params_def not_older_def dest: values_eq_imp)
    qed
  qed
qed

lemma distinct_tracks:
  assumes "write_all empty_raw cs vendors kinds params = Inr db" "distinct (map snd (answers_of cs k))"
  shows "map_option (\<lambda>e. (re_served e, re_values e)) (map_of (rd_raw db) k) =
    map_option (\<lambda>(t, v). (Some t, v)) (newest_of None (answers_of cs k))"
  using assms
proof (induction cs arbitrary: db rule: rev_induct)
  case Nil
  then show ?case by (auto simp: answers_of_def empty_raw_def)
next
  case (snoc c cs)
  from snoc.prems(1) obtain mid deltas where mid: "write_all empty_raw cs vendors kinds params = Inr mid"
    and w: "write_raw mid (ac_rows c) (ac_load c) (ac_request c) (ac_answered c) vendors kinds params (ac_now c) = Inr (deltas, db)"
    unfolding written_snoc by blast
  let ?h = "answers_of cs k" and ?t = "ac_answered c"
  note IH = snoc.IH [OF mid]
  have "raw_ok mid" using write_all_ok [OF mid] by (simp add: raw_ok_def empty_raw_def)
  from write_raw_effect [OF this w] have step:
    "map_of (rd_raw db) k = kept (map_of (rd_raw mid) k) (offers (ac_rows c) k) ?t (ac_request c) (ac_load c)" by blast
  show ?case
  proof (cases "offers (ac_rows c) k")
    case None
    with IH step snoc.prems(2) show ?thesis by (simp add: answers_of_snoc kept_def)
  next
    case (Some r)
    have h: "answers_of (cs @ [c]) k = ?h @ [(?t, row_values r)]" by (simp add: answers_of_snoc Some)
    from snoc.prems(2) have d: "distinct (map snd ?h)" and new: "row_values r \<notin> snd ` set ?h" by (auto simp: h)
    show ?thesis
    proof (cases "newest_of None ?h")
      case None
      with IH [OF d] step Some show ?thesis by (simp add: h newest_of_snoc kept_def raw_params_def)
    next
      case (Some a)
      obtain t v where a: "a = (t, v)" by (cases a)
      from IH [OF d] Some obtain e where e: "map_of (rd_raw mid) k = Some e" "re_served e = Some t" "re_values e = v"
        by (auto simp: a)
      have "(t, v) \<in> set ?h" using newest_of_in Some a by fastforce
      with new have "row_values r \<noteq> v" by force
      then have "\<not> values_eq (row_values r) v" using values_eq_imp by blast
      with step \<open>offers (ac_rows c) k = Some r\<close> e Some show ?thesis
        by (simp add: h newest_of_snoc a kept_def raw_params_def not_older_def)
    qed
  qed
qed

section \<open>No answer is lost, none is invented\<close>

lemma logged_at:
  "(\<exists>x. (\<exists>k r. offers rows k = Some r \<and> (\<exists>e. differs db k r e \<and>
      x = (if not_older t (re_served e) then revision_for k (re_values e) (re_request e) ORIGIN_RAW load_id
           else revision_for k (row_values r) (Some request_id) ORIGIN_SUPERSEDED load_id))) \<and> rv_key x = k \<and> rv_values x = v) \<longleftrightarrow>
   (\<exists>r e. offers rows k = Some r \<and> differs db k r e \<and> v = (if not_older t (re_served e) then re_values e else row_values r))"
  (is "?L \<longleftrightarrow> ?R")
proof
  let ?x = "\<lambda>k r e. if not_older t (re_served e) then revision_for k (re_values e) (re_request e) ORIGIN_RAW load_id
      else revision_for k (row_values r) (Some request_id) ORIGIN_SUPERSEDED load_id"
  have parts: "rv_key (?x k r e) = k" "rv_values (?x k r e) = (if not_older t (re_served e) then re_values e else row_values r)" for k r e
    by (simp_all add: revision_for_parts)
  {
    assume ?L
    then obtain j r e where j: "offers rows j = Some r" "differs db j r e" "rv_key (?x j r e) = k" "rv_values (?x j r e) = v" by blast
    have "j = k" "v = (if not_older t (re_served e) then re_values e else row_values r)" using j(3,4) unfolding parts by simp_all
    with j(1,2) show ?R by blast
  next
    assume ?R
    then obtain r e where r: "offers rows k = Some r" "differs db k r e" "rv_values (?x k r e) = v" unfolding parts by blast
    have "rv_key (?x k r e) = k" by (rule parts(1))
    with r show ?L by blast
  }
qed

lemma step_recorded:
  assumes ok: "raw_ok db" and w: "write_raw db rows load_id request_id t vendors kinds params now = Inr (deltas, db')"
  shows "recorded db' k v \<longleftrightarrow> recorded db k v \<or> (\<exists>r. offers rows k = Some r \<and> row_values r = v)"
proof -
  from write_raw_effect [OF ok w] obtain news where
    look: "map_of (rd_raw db') k = kept (map_of (rd_raw db) k) (offers rows k) t request_id load_id"
    and news: "rd_revisions db' = rd_revisions db @ news" "\<And>x. x \<in> set news \<longleftrightarrow> logged db rows t request_id load_id x" by blast
  have new_log: "(\<exists>x \<in> set news. rv_key x = k \<and> rv_values x = v) \<longleftrightarrow>
      (\<exists>r e. offers rows k = Some r \<and> differs db k r e \<and> v = (if not_older t (re_served e) then re_values e else row_values r))"
    unfolding Bex_def news(2) logged_def by (rule logged_at)
  have rec: "recorded db' k v \<longleftrightarrow> held_values db' k = Some v \<or> (\<exists>x \<in> set (rd_revisions db). rv_key x = k \<and> rv_values x = v) \<or>
      (\<exists>r e. offers rows k = Some r \<and> differs db k r e \<and> v = (if not_older t (re_served e) then re_values e else row_values r))"
    unfolding recorded_def news(1) set_append bex_Un new_log by blast
  show ?thesis
  proof (cases "offers rows k")
    case None
    with look show ?thesis unfolding rec by (simp add: recorded_def held_values_def kept_def)
  next
    case (Some r)
    have kept: "held_values db' k = Some v \<or> (\<exists>e. differs db k r e \<and> v = (if not_older t (re_served e) then re_values e else row_values r)) \<longleftrightarrow>
        held_values db k = Some v \<or> row_values r = v"
    proof (cases "map_of (rd_raw db) k")
      case None
      with look Some show ?thesis by (simp add: held_values_def kept_def differs_def raw_params_def)
    next
      case (Some e)
      show ?thesis
      proof (cases "values_eq (row_values r) (re_values e)")
        case True
        with look Some \<open>offers rows k = Some r\<close> values_eq_imp [OF True] show ?thesis
          by (simp add: held_values_def kept_def differs_def)
      next
        case False
        with look Some \<open>offers rows k = Some r\<close> show ?thesis
          by (cases "not_older t (re_served e)") (auto simp: held_values_def kept_def differs_def raw_params_def)
      qed
    qed
    have "recorded db' k v \<longleftrightarrow> (held_values db' k = Some v \<or> (\<exists>e. differs db k r e \<and> v = (if not_older t (re_served e) then re_values e else row_values r))) \<or>
        (\<exists>x \<in> set (rd_revisions db). rv_key x = k \<and> rv_values x = v)"
      unfolding rec Some option.inject by blast
    then show ?thesis unfolding kept recorded_def Some option.inject by blast
  qed
qed

lemma recorded_iff:
  "write_all empty_raw cs vendors kinds params = Inr db \<Longrightarrow> recorded db k v \<longleftrightarrow> v \<in> snd ` set (answers_of cs k)"
proof (induction cs arbitrary: db rule: rev_induct)
  case Nil
  then show ?case by (auto simp: recorded_def held_values_def answers_of_def empty_raw_def)
next
  case (snoc c cs)
  from snoc.prems obtain mid deltas where mid: "write_all empty_raw cs vendors kinds params = Inr mid"
    and w: "write_raw mid (ac_rows c) (ac_load c) (ac_request c) (ac_answered c) vendors kinds params (ac_now c) = Inr (deltas, db)"
    unfolding written_snoc by blast
  have "raw_ok mid" using write_all_ok [OF mid] by (simp add: raw_ok_def empty_raw_def)
  show ?case unfolding step_recorded [OF \<open>raw_ok mid\<close> w] snoc.IH [OF mid] answers_of_snoc
    by (cases "offers (ac_rows c) k") auto
qed

section \<open>Every reachable table accepts a well-formed chunk\<close>

lemma raw_finite_alt: "raw_ok db \<Longrightarrow> raw_finite db \<longleftrightarrow> (\<forall>k e. map_of (rd_raw db) k = Some e \<longrightarrow> \<not> has_nan (re_values e))"
proof
  assume "raw_finite db"
  then have "\<not> has_nan (re_values e)" if "map_of (rd_raw db) k = Some e" for k e
  proof -
    from \<open>raw_finite db\<close> [unfolded raw_finite_def] map_of_SomeD [OF that] have "case (k, e) of (k, e) \<Rightarrow> \<not> has_nan (re_values e)" by (rule bspec)
    then show ?thesis by simp
  qed
  then show "\<forall>k e. map_of (rd_raw db) k = Some e \<longrightarrow> \<not> has_nan (re_values e)" by blast
next
  assume ok: "raw_ok db" and all: "\<forall>k e. map_of (rd_raw db) k = Some e \<longrightarrow> \<not> has_nan (re_values e)"
  show "raw_finite db"
    unfolding raw_finite_def
  proof
    fix x assume x: "x \<in> set (rd_raw db)"
    then have "map_of (rd_raw db) (fst x) = Some (snd x)" using ok by (simp add: raw_ok_def)
    with all have "\<not> has_nan (re_values (snd x))" by blast
    then show "case x of (k, e) \<Rightarrow> \<not> has_nan (re_values e)" by (simp add: case_prod_beta)
  qed
qed

lemma write_raw_finite:
  assumes ok: "raw_ok db" "raw_finite db" and w: "write_raw db rows load_id request_id t vendors kinds params now = Inr (deltas, db')"
  shows "raw_finite db'"
proof -
  from write_raw_effect [OF ok(1) w] have ok': "raw_ok db'"
    and look: "\<And>k. map_of (rd_raw db') k = kept (map_of (rd_raw db) k) (offers rows k) t request_id load_id" by blast+
  from w have "\<exists>x. write_raw db rows load_id request_id t vendors kinds params now = Inr x" by blast
  then have valid: "\<forall>r \<in> set rows. validate_row vendors kinds (now + wp_future_tolerance_s params * second) r = Inr ()"
    unfolding write_raw_defined [OF ok] list_all_iff by blast
  have "\<not> has_nan (re_values e)" if e: "map_of (rd_raw db') k = Some e" for k e
  proof (cases "map_of (rd_raw db) k = Some e")
    case True
    with ok(2) [unfolded raw_finite_alt [OF ok(1)]] show ?thesis by blast
  next
    case False
    with e look [of k] obtain r where r: "offers rows k = Some r" "e = snd (raw_params r t request_id load_id)"
      by (auto simp: kept_def split: option.splits if_splits)
    from offers_Some [OF r(1)] have "r \<in> set rows" by simp
    from valid_no_nan [OF bspec [OF valid this]] show ?thesis by (simp add: r(2) raw_params_def)
  qed
  then show ?thesis unfolding raw_finite_alt [OF ok'] by blast
qed

lemma reachable_raw: "write_all empty_raw cs vendors kinds params = Inr db \<Longrightarrow> raw_ok db \<and> raw_finite db"
proof (induction cs arbitrary: db rule: rev_induct)
  case Nil
  then show ?case by (auto simp: raw_ok_def raw_finite_def empty_raw_def)
next
  case (snoc c cs)
  from snoc.prems obtain mid deltas where mid: "write_all empty_raw cs vendors kinds params = Inr mid"
    and w: "write_raw mid (ac_rows c) (ac_load c) (ac_request c) (ac_answered c) vendors kinds params (ac_now c) = Inr (deltas, db)"
    unfolding written_snoc by blast
  from snoc.IH [OF mid] have ok: "raw_ok mid" "raw_finite mid" by simp_all
  from write_raw_effect [OF ok(1) w] write_raw_finite [OF ok w] show ?case by blast
qed

lemma emap_validate_error: "emap (validate_row vendors kinds latest) rows = Inl x \<Longrightarrow> x = ValueError"
  by (induction rows) (auto simp: validate_row_def ebind_def split: sum.splits if_splits)

lemma write_raw_error:
  assumes "raw_ok db" "raw_finite db" "write_raw db rows load_id request_id t vendors kinds params now = Inl x"
  shows "x = ValueError"
proof (rule ccontr)
  assume "x \<noteq> ValueError"
  let ?latest = "now + wp_future_tolerance_s params * second"
  from assms(3) \<open>x \<noteq> ValueError\<close> have "1 \<le> wp_batch_rows params" "t \<le> ?latest"
    by (auto simp: write_raw_def Let_def check_answered_at_def split: if_splits)
  moreover from assms(3) \<open>x \<noteq> ValueError\<close> this have "\<exists>b. group_by_series (validate_row vendors kinds ?latest) rows = Inr b"
    by (cases "group_by_series (validate_row vendors kinds ?latest) rows")
      (auto simp: write_raw_def Let_def check_answered_at_def group_by_series_def ebind_def dest: emap_validate_error split: if_splits sum.splits)
  then obtain b where b: "group_by_series (validate_row vendors kinds ?latest) rows = Inr b" by blast
  ultimately have "\<exists>x. write_raw db rows load_id request_id t vendors kinds params now = Inr x"
    using group_by_series_facts(1,4) [OF b] unfolding write_raw_defined [OF assms(1,2)] by (auto simp: list_all_iff)
  with assms(3) show False by simp
qed
section \<open>Any sequence of chunks\<close>

lemma stored_after:
  assumes "write_all db cs vendors kinds params = Inr db'" "raw_ok db"
  shows "map_of (rd_raw db') k = fold (\<lambda>c e. kept e (offers (ac_rows c) k) (ac_answered c) (ac_request c) (ac_load c)) cs (map_of (rd_raw db) k)"
  using assms(1)
proof (induction cs arbitrary: db' rule: rev_induct)
  case (snoc c cs)
  from snoc.prems obtain mid deltas where mid: "write_all db cs vendors kinds params = Inr mid"
    and w: "write_raw mid (ac_rows c) (ac_load c) (ac_request c) (ac_answered c) vendors kinds params (ac_now c) = Inr (deltas, db')"
    unfolding written_snoc by blast
  from write_raw_effect [OF write_all_ok [OF mid assms(2)] w] have
    "map_of (rd_raw db') k = kept (map_of (rd_raw mid) k) (offers (ac_rows c) k) (ac_answered c) (ac_request c) (ac_load c)" by blast
  then show ?case by (simp only: snoc.IH [OF mid] fold_append fold_simps comp_apply)
qed simp

definition chunk_fine :: "string list \<Rightarrow> string list \<Rightarrow> write_params \<Rightarrow> answer_chunk \<Rightarrow> bool" where
  "chunk_fine vendors kinds params c \<longleftrightarrow>
     1 \<le> wp_batch_rows params \<and> ac_answered c \<le> ac_now c + wp_future_tolerance_s params * second \<and> \<not> contradicts [] (ac_rows c) \<and>
     list_all (\<lambda>r. validate_row vendors kinds (ac_now c + wp_future_tolerance_s params * second) r = Inr ()) (ac_rows c)"

lemma write_all_defined:
  "(\<exists>db. write_all empty_raw cs vendors kinds params = Inr db) \<longleftrightarrow> list_all (chunk_fine vendors kinds params) cs"
proof (induction cs rule: rev_induct)
  case (snoc c cs)
  have "(\<exists>x. write_raw mid (ac_rows c) (ac_load c) (ac_request c) (ac_answered c) vendors kinds params (ac_now c) = Inr x) \<longleftrightarrow>
      chunk_fine vendors kinds params c" if "write_all empty_raw cs vendors kinds params = Inr mid" for mid
    unfolding chunk_fine_def using reachable_raw [OF that] by (intro write_raw_defined) simp_all
  with snoc show ?case unfolding written_snoc by simp (metis surj_pair)
qed simp

section \<open>Properties of the raw table\<close>

definition bar_at :: "stamp \<Rightarrow> real \<Rightarrow> served_bar" where
  "bar_at ts price =
     \<lparr>sb_timestamp = ts, sb_symbol = ''AA'', sb_timeframe = ''5m'', sb_vendor = ''ibkr'', sb_kind = ''trades'',
      sb_open = Fin price, sb_high = Fin price, sb_low = Fin price, sb_close = Fin price, sb_volume = Some 7\<rparr>"

definition chunk_at :: "stamp \<Rightarrow> real \<Rightarrow> answer_chunk" where
  "chunk_at t price = \<lparr>ac_rows = [bar_at 0 price], ac_load = ''l'', ac_request = ''r'', ac_answered = t, ac_now = 10\<rparr>"

definition one_row :: write_params where "one_row = \<lparr>wp_batch_rows = 1, wp_future_tolerance_s = 0\<rparr>"

lemma bar_at_valid: "t \<le> 10 \<Longrightarrow> chunk_fine [''ibkr''] [''trades''] one_row (chunk_at t price)"
  by (simp add: chunk_fine_def one_row_def chunk_at_def bar_at_def validate_row_def SOURCE_SYNTHETIC_FILL_def VENDOR_DERIVED_def
      CANONICAL_ONLY_KINDS_def)

lemma offers_at: "offers [bar_at 0 price] (offer_key (bar_at 0 1)) = Some (bar_at 0 price)"
  by (simp add: offers_def offer_key_def row_series_def bar_at_def)

definition chunks_at :: "(stamp \<times> real) list \<Rightarrow> answer_chunk list" where
  "chunks_at xs = map (\<lambda>(t, price). chunk_at t price) xs"

lemma answers_at:
  "answers_of (chunks_at xs) (offer_key (bar_at 0 1)) = map (\<lambda>(t, price). (t, row_values (bar_at 0 price))) xs"
  by (induction xs) (auto simp: chunks_at_def answers_of_def chunk_at_def offers_at)

lemma values_at: "row_values (bar_at 0 a) = row_values (bar_at 0 b) \<longleftrightarrow> a = b" "values_eq (row_values (bar_at 0 a)) (row_values (bar_at 0 b)) \<longleftrightarrow> a = b"
  by (auto simp: row_values_def bar_at_def values_eq_def prices_def py_eq_def)

lemma written_at:
  assumes "list_all (\<lambda>(t, _). t \<le> 10) xs"
  shows "\<exists>db. write_all empty_raw (chunks_at xs) [''ibkr''] [''trades''] one_row = Inr db"
  unfolding write_all_defined using assms bar_at_valid by (auto simp: chunks_at_def list_all_iff)

text \<open>
  An unchanged re-serve does not move the serve time, so an answer served before it but written after it replaces the value:
  the table then holds the answer of time 2 although the latest answer is that of time 3.
\<close>

lemma unchanged_reserve_superseded:
  assumes "write_all empty_raw (chunks_at [(1, 1), (3, 1), (2, 2)]) [''ibkr''] [''trades''] one_row = Inr db"
  shows "held_values db (offer_key (bar_at 0 1)) = Some (row_values (bar_at 0 2))"
    "newest_of None (answers_of (chunks_at [(1, 1), (3, 1), (2, 2)]) (offer_key (bar_at 0 1))) = Some (3, row_values (bar_at 0 1))"
proof -
  have "raw_ok empty_raw" by (simp add: raw_ok_def empty_raw_def)
  from stored_after [OF assms this, of "offer_key (bar_at 0 1)"]
  show "held_values db (offer_key (bar_at 0 1)) = Some (row_values (bar_at 0 2))"
    by (simp add: held_values_def chunks_at_def chunk_at_def offers_at kept_def raw_params_def not_older_def empty_raw_def values_at)
qed (simp add: answers_at)

text \<open>C40. Over any sequence of chunks written into an empty table, a key holds the values of its newest answer by serve time
  (the later written of two served together), whenever the answers of the key came in serve order or all differ: a late page or
  a replayed file never overwrites a not_older answer.\<close>

theorem raw_is_newest_answer:
  assumes "write_all empty_raw cs vendors kinds params = Inr db"
    and "sorted (map fst (answers_of cs k)) \<or> distinct (map snd (answers_of cs k))"
  shows "held_values db k = map_option snd (newest_of None (answers_of cs k))"
  using assms(2)
proof
  assume "sorted (map fst (answers_of cs k))"
  from tracks_values [OF sorted_tracks [OF assms(1) this]] show ?thesis .
next
  assume "distinct (map snd (answers_of cs k))"
  from distinct_tracks [OF assms(1) this] show ?thesis
    by (cases "newest_of None (answers_of cs k)") (auto simp: held_values_def)
qed

lemma raw_is_newest_answer_witness:
  "\<exists>db. write_all empty_raw (chunks_at [(1, 1), (3, 3), (2, 2)]) [''ibkr''] [''trades''] one_row = Inr db \<and>
     held_values db (offer_key (bar_at 0 1)) = Some (row_values (bar_at 0 3))"
proof -
  obtain db where db: "write_all empty_raw (chunks_at [(1, 1), (3, 3), (2, 2)]) [''ibkr''] [''trades''] one_row = Inr db"
    using written_at [of "[(1, 1), (3, 3), (2, 2)]"] by auto
  with raw_is_newest_answer [OF db disjI2, of "offer_key (bar_at 0 1)"] show ?thesis
    unfolding answers_at by (simp add: values_at)
qed

text \<open>C31. Nothing served is lost and nothing is invented: after any sequence of chunks, the values a key has in \<open>ohlcv_raw\<close> or in
  some row of \<open>ohlcv_revision\<close> are exactly the values its answers had.\<close>

theorem raw_keeps_every_answer:
  assumes "write_all empty_raw cs vendors kinds params = Inr db"
  shows "recorded db k v \<longleftrightarrow> v \<in> snd ` set (answers_of cs k)"
  by (rule recorded_iff [OF assms])

lemma raw_keeps_every_answer_witness:
  "\<exists>db. write_all empty_raw (chunks_at [(1, 1), (3, 3), (2, 2)]) [''ibkr''] [''trades''] one_row = Inr db \<and>
     recorded db (offer_key (bar_at 0 1)) (row_values (bar_at 0 2)) \<and> \<not> recorded db (offer_key (bar_at 0 1)) (row_values (bar_at 0 4))"
proof -
  obtain db where db: "write_all empty_raw (chunks_at [(1, 1), (3, 3), (2, 2)]) [''ibkr''] [''trades''] one_row = Inr db"
    using written_at [of "[(1, 1), (3, 3), (2, 2)]"] by auto
  show ?thesis by (intro exI conjI, rule db) (simp_all add: raw_keeps_every_answer [OF db] answers_at values_at)
qed



end
