(* ===== verification/Canonical_Correct.thy ===== *)
theory Canonical_Correct
  imports Canonical_Writer Selection_Correct
begin

text \<open>
  Correctness of the canonical writer: the table after a selection, slot by slot, what a second run changes, and the record of
  the session choices.
\<close>

section \<open>The statements\<close>

lemma retract_effect:
  "retract ks bars = (n, bars') \<Longrightarrow> bars' k = (if k \<in> set ks \<and> retracts bars k then None else bars k)"
proof (induction ks arbitrary: bars n bars')
  case (Cons j ks)
  let ?bars = "if retracts bars j then bars(j := None) else bars"
  obtain m b where r: "retract ks ?bars = (m, b)" by (metis surj_pair)
  with Cons.prems have b: "bars' = b" by (simp add: Let_def)
  have "retracts ?bars k \<longleftrightarrow> retracts bars k \<and> (k \<noteq> j)" if "retracts bars j" using that by (auto simp: retracts_def)
  with Cons.IH [OF r] b show ?case by (auto simp: retracts_def)
qed simp

lemma retract_count:
  "distinct ks \<Longrightarrow> fst (retract ks bars) = length (filter (retracts bars) ks)"
proof (induction ks arbitrary: bars)
  case (Cons j ks)
  let ?bars = "if retracts bars j then bars(j := None) else bars"
  have "filter (retracts ?bars) ks = filter (retracts bars) ks"
    using Cons.prems by (intro filter_cong) (auto simp: retracts_def)
  with Cons.IH [of ?bars] Cons.prems have "fst (retract ks ?bars) = length (filter (retracts bars) ks)" by simp
  then show ?case by (simp add: Let_def case_prod_beta)
qed simp

lemma upserted_lookup:
  "distinct (map fst rows) \<Longrightarrow> fold (\<lambda>(k, r) bars. bars(k \<mapsto> r)) rows bars k = (case map_of rows k of None \<Rightarrow> bars k | Some r \<Rightarrow> Some r)"
  by (induction rows arbitrary: bars) (auto split: option.splits dest: map_of_SomeD intro: rev_image_eqI)

lemma write_bar_chunks_eq:
  "distinct (map fst (concat css)) \<Longrightarrow> write_bar_chunks bars css = Inr (fold (\<lambda>(k, r) bars. bars(k \<mapsto> r)) (concat css) bars)"
  by (induction css arbitrary: bars) (auto simp: upsert_bars_def)

lemma write_bars_effect:
  assumes "distinct (map fst rows)" "0 < n"
  obtains bars' where "write_bars bars rows n = Inr bars'"
    "\<And>k. bars' k = (case map_of rows k of None \<Rightarrow> bars k | Some r \<Rightarrow> Some r)"
proof -
  have pos: "0 < min n (CANONICAL_MAX_PARAMS div CANONICAL_PARAMS_PER_ROW)"
    using assms(2) by (simp add: CANONICAL_MAX_PARAMS_def CANONICAL_PARAMS_PER_ROW_def)
  have "write_bars bars rows n = Inr (fold (\<lambda>(k, r) bars. bars(k \<mapsto> r)) rows bars)"
    using write_bar_chunks_eq [of "chunks (min n (CANONICAL_MAX_PARAMS div CANONICAL_PARAMS_PER_ROW)) rows" bars] assms(1)
    by (simp add: write_bars_def concat_chunks [OF pos])
  with that upserted_lookup [OF assms(1)] show ?thesis by blast
qed

section \<open>The winners written\<close>

text \<open>What a selection leaves at a slot: an excluded stamp keeps its row, a winner with a volume is written, a slot dropped or
  unselected loses the row of a bar vendor, every other slot keeps its row.\<close>

definition canonical_after :: "selection_outcome \<Rightarrow> stamp list \<Rightarrow> canonical_table \<Rightarrow> slot \<Rightarrow> canonical_row option" where
  "canonical_after out exclude bars k =
     (if snd (snd k) \<in> set exclude then bars k
      else case find (\<lambda>w. slot_of w = k \<and> c_volume w \<noteq> None) (so_winners out) of
          Some w \<Rightarrow> Some (snd (canonical_entry w))
        | None \<Rightarrow> if (k \<in> set (so_dropped out) \<or> k \<in> set (so_unselected out)) \<and> retracts bars k then None else bars k)"

lemma entry_slot: "fst (canonical_entry w) = slot_of w"
  by (simp add: canonical_entry_def slot_of_def)

lemma find_distinct:
  assumes "distinct (map f ws)"
  shows "find (\<lambda>w. f w = k \<and> Q w) ws = (case find (\<lambda>w. f w = k) ws of None \<Rightarrow> None | Some w \<Rightarrow> if Q w then Some w else None)"
  using assms
proof (induction ws)
  case (Cons w ws)
  have "f v \<noteq> f w" if "v \<in> set ws" for v using Cons.prems that by (metis distinct.simps(2) imageI list.set_map list.simps(9))
  then have "find (\<lambda>v. f v = f w \<and> P v) ws = None" for P unfolding find_None_iff by blast
  with Cons show ?case by (auto split: option.split)
qed simp

lemma map_of_keyed: "map_of (map (\<lambda>w. (f w, g w)) ws) k = map_option g (find (\<lambda>w. f w = k) ws)"
  by (induction ws) auto

lemma find_filter_conj: "find P (filter Q ws) = find (\<lambda>w. P w \<and> Q w) ws"
  by (induction ws) auto

lemma entries_lookup:
  assumes "distinct (map slot_of ws)"
  shows "map_of (map canonical_entry (filter Q ws)) k =
    (case find (\<lambda>w. slot_of w = k) ws of None \<Rightarrow> None | Some w \<Rightarrow> if Q w then Some (snd (canonical_entry w)) else None)"
proof -
  have "canonical_entry = (\<lambda>w. (slot_of w, snd (canonical_entry w)))" by (rule ext) (metis entry_slot prod.collapse)
  then have "map canonical_entry (filter Q ws) = map (\<lambda>w. (slot_of w, snd (canonical_entry w))) (filter Q ws)" by (rule arg_cong)
  then have "map_of (map canonical_entry (filter Q ws)) k = map_option (\<lambda>w. snd (canonical_entry w)) (find (\<lambda>w. slot_of w = k) (filter Q ws))"
    by (simp only: map_of_keyed)
  then show ?thesis unfolding find_filter_conj find_distinct [OF assms] by (simp split: option.split)
qed

text \<open>What a selection of the series (symbol, timeframe) over a window satisfies.\<close>

definition outcome_ok :: "selection_outcome \<Rightarrow> string \<Rightarrow> string \<Rightarrow> stamp \<times> stamp \<Rightarrow> bool" where
  "outcome_ok out symbol timeframe = (\<lambda>(start, stop).
     distinct (map slot_of (so_winners out) @ so_dropped out @ so_unselected out) \<and>
     (\<forall>k \<in> set (map slot_of (so_winners out) @ so_dropped out @ so_unselected out).
        \<exists>ts. k = (symbol, timeframe, ts) \<and> start \<le> ts \<and> ts < stop))"

lemma outcome_parts:
  assumes "outcome_ok out symbol timeframe (start, stop)"
  shows "distinct (map slot_of (so_winners out))" "distinct (so_dropped out @ so_unselected out)"
    "w \<in> set (so_winners out) \<Longrightarrow> slot_of w \<notin> set (so_dropped out @ so_unselected out)"
    "w \<in> set (so_winners out) \<Longrightarrow> slot_of w = (symbol, timeframe, c_timestamp w) \<and> start \<le> c_timestamp w \<and> c_timestamp w < stop"
proof -
  let ?rest = "so_dropped out @ so_unselected out"
  from assms have d: "distinct (map slot_of (so_winners out) @ ?rest)"
    and all: "\<forall>k \<in> set (map slot_of (so_winners out) @ ?rest). \<exists>ts. k = (symbol, timeframe, ts) \<and> start \<le> ts \<and> ts < stop"
    unfolding outcome_ok_def prod.case by blast+
  from d show "distinct (map slot_of (so_winners out))" "distinct ?rest" unfolding distinct_append [of "map slot_of (so_winners out)"] by blast+
  assume "w \<in> set (so_winners out)"
  then have w: "slot_of w \<in> set (map slot_of (so_winners out))" unfolding set_map by (rule imageI)
  with d show "slot_of w \<notin> set ?rest" unfolding distinct_append [of "map slot_of (so_winners out)"] by blast
  from w all obtain ts where "slot_of w = (symbol, timeframe, ts)" "start \<le> ts" "ts < stop" by (metis UnCI set_append)
  then show "slot_of w = (symbol, timeframe, c_timestamp w) \<and> start \<le> c_timestamp w \<and> c_timestamp w < stop" by (simp add: slot_of_def)
qed

lemma select_outcome_ok:
  assumes "select_slots cal ny (read_raw raw symbol timeframe start stop) P ko = Inr out"
  shows "outcome_ok out symbol timeframe (start, stop)"
proof -
  let ?all = "map slot_of (so_winners out) @ so_dropped out @ so_unselected out"
  from slots_accounted [OF assms] obtain on off where
    part: "partition_session cal (read_raw raw symbol timeframe start stop) = Inr (on, off)"
    and m: "mset ?all = mset_set (slot_of ` set on)" by (auto simp: add.assoc)
  have "distinct ?all"
    using m by (metis finite_imageI finite_set mset_eq_imp_distinct_iff mset_set_set remdups_id_iff_distinct
        distinct_remdups mset_set_set set_remdups finite_list)
  moreover have "set on \<subseteq> set (read_raw raw symbol timeframe start stop)"
    using part by (auto simp: partition_session_def ebind_eq_Inr)
  moreover have "set ?all = slot_of ` set on" using arg_cong [OF m, of set_mset] by simp
  ultimately show ?thesis unfolding outcome_ok_def by (fastforce simp: read_raw_def slot_of_def)
qed

lemma write_selection_effect:
  assumes ok: "outcome_ok out symbol timeframe window" and n: "0 < batch_rows"
  obtains m db' where "write_selection out symbol timeframe window exclude batch_rows now (n, db) = Inr (m, db')"
    "\<And>k. cd_bars db' k = canonical_after out exclude (cd_bars db) k"
    "cd_choices db' = cd_choices (record_session_choices symbol timeframe (so_sessions out) (so_choices out) now db)"
    "se_new m = se_new n + length (filter (\<lambda>w. c_timestamp w \<notin> set exclude \<and> c_volume w \<noteq> None \<and> cd_bars db (slot_of w) = None) (so_winners out))"
    "se_changed m = se_changed n + length (filter (\<lambda>w. c_timestamp w \<notin> set exclude \<and> c_volume w \<noteq> None \<and>
       cd_bars db (slot_of w) \<noteq> None \<and> cd_bars db (slot_of w) \<noteq> Some (snd (canonical_entry w))) (so_winners out))"
    "se_dropped m = se_dropped n + length (filter (\<lambda>k. snd (snd k) \<notin> set exclude \<and> retracts (cd_bars db) k) (so_dropped out @ so_unselected out))"
proof -
  obtain start stop where window: "window = (start, stop)" by (cases window)
  define W where "W = filter (\<lambda>w. c_timestamp w \<notin> set exclude) (so_winners out)"
  define gone where "gone = filter (\<lambda>(_, _, ts). ts \<notin> set exclude) (so_dropped out @ so_unselected out)"
  define db1 where "db1 = record_session_choices symbol timeframe (so_sessions out) (so_choices out) now db"
  have db1: "cd_bars db1 = cd_bars db" by (simp add: db1_def record_session_choices_def)
  obtain c bars where r: "retract gone (cd_bars db) = (c, bars)" by (metis surj_pair)
  have dist: "distinct (map slot_of (so_winners out))" "distinct (so_dropped out @ so_unselected out)"
    and apart: "\<And>w. w \<in> set (so_winners out) \<Longrightarrow> slot_of w \<notin> set (so_dropped out @ so_unselected out)"
    and inside: "\<And>w. w \<in> set (so_winners out) \<Longrightarrow> slot_of w = (symbol, timeframe, c_timestamp w) \<and> start \<le> c_timestamp w \<and> c_timestamp w < stop"
    by (rule outcome_parts [OF ok [unfolded window]], assumption?)+
  have gone: "k \<in> set gone \<longleftrightarrow> snd (snd k) \<notin> set exclude \<and> k \<in> set (so_dropped out @ so_unselected out)" for k
    by (cases k) (auto simp: gone_def)
  have bars: "bars k = (if k \<in> set gone \<and> retracts (cd_bars db) k then None else cd_bars db k)" for k by (rule retract_effect [OF r])
  let ?stored = "read_canonical bars symbol timeframe start stop"
  have stored: "?stored (c_timestamp w) = cd_bars db (slot_of w)" if "w \<in> set (so_winners out)" for w
  proof -
    have "slot_of w \<notin> set gone" unfolding gone using apart [OF that] by blast
    with inside [OF that] bars [of "slot_of w"] show ?thesis by (simp add: read_canonical_def)
  qed
  define is_new where "is_new = (\<lambda>w. c_timestamp w \<notin> set exclude \<and> c_volume w \<noteq> None \<and> cd_bars db (slot_of w) = None)"
  define is_changed where "is_changed = (\<lambda>w. c_timestamp w \<notin> set exclude \<and> c_volume w \<noteq> None \<and>
    cd_bars db (slot_of w) \<noteq> None \<and> cd_bars db (slot_of w) \<noteq> Some (snd (canonical_entry w)))"
  note result = that [folded is_new_def is_changed_def]
  have new: "new_winners ?stored W = filter is_new (so_winners out)"
    unfolding new_winners_def W_def filter_filter is_new_def using stored by (intro filter_cong) auto
  have changed: "changed_winners ?stored W = filter is_changed (so_winners out)"
    unfolding changed_winners_def W_def filter_filter is_changed_def same_row_def using stored by (intro filter_cong) auto
  have keys: "map fst (map canonical_entry ws) = map slot_of ws" for ws by (simp add: entry_slot)
  have part: "distinct (map fst (map canonical_entry (filter Q (so_winners out))))" for Q
    unfolding keys using dist(1) by (simp add: distinct_map_filter)
  obtain bars1 where w1: "write_bars bars (map canonical_entry (filter is_new (so_winners out))) batch_rows = Inr bars1"
    and b1: "\<And>k. bars1 k = (case map_of (map canonical_entry (filter is_new (so_winners out))) k of None \<Rightarrow> bars k | Some r \<Rightarrow> Some r)"
    using write_bars_effect [OF part n] by metis
  obtain bars2 where w2: "write_bars bars1 (map canonical_entry (filter is_changed (so_winners out))) batch_rows = Inr bars2"
    and b2: "\<And>k. bars2 k = (case map_of (map canonical_entry (filter is_changed (so_winners out))) k of None \<Rightarrow> bars1 k | Some r \<Rightarrow> Some r)"
    using write_bars_effect [OF part n] by metis
  have look: "bars2 k = canonical_after out exclude (cd_bars db) k" for k
  proof (cases "find (\<lambda>w. slot_of w = k) (so_winners out)")
    case None
    then show ?thesis
      unfolding b2 b1 entries_lookup [OF dist(1)] canonical_after_def find_distinct [OF dist(1)] bars gone by auto
  next
    case (Some w)
    then have w: "w \<in> set (so_winners out)" and k: "slot_of w = k" by (auto simp: find_Some_iff)
    have rest: "k \<notin> set (so_dropped out @ so_unselected out)" using apart [OF w] k by simp
    have ts: "snd (snd k) = c_timestamp w" by (simp add: k [symmetric] slot_of_def)
    have "bars k = cd_bars db k" using rest unfolding bars gone by simp
    with Some rest show ?thesis
      unfolding b2 b1 entries_lookup [OF dist(1)] canonical_after_def find_distinct [OF dist(1)] ts
      by (auto simp: is_new_def is_changed_def k)
  qed
  have count: "c = length (filter (\<lambda>k. snd (snd k) \<notin> set exclude \<and> retracts (cd_bars db) k) (so_dropped out @ so_unselected out))"
  proof -
    have "distinct gone" unfolding gone_def using dist(2) by (rule distinct_filter)
    from retract_count [OF this, of "cd_bars db"] r have "c = length (filter (retracts (cd_bars db)) gone)" by simp
    then show ?thesis unfolding gone_def filter_filter by (simp add: case_prod_beta conj_commute)
  qed
  have lens: "length (filter is_new (so_winners out)) = length (map canonical_entry (new_winners ?stored W))"
    "length (filter is_changed (so_winners out)) = length (map canonical_entry (changed_winners ?stored W))"
    by (simp_all add: new changed)
  define m where "m = n\<lparr>se_unselected := se_unselected n + so_n_unselected out, se_excluded := se_excluded n + so_n_excluded out,
      se_off_grid := se_off_grid n + so_n_off_grid out,
      se_sessions_fallback := se_sessions_fallback n + length (filter choice_fallback (so_choices out)),
      se_sessions_incomplete := se_sessions_incomplete n + length (filter (\<lambda>c. \<not> sc_complete c) (so_choices out)),
      se_dropped := se_dropped n + c\<rparr>"
  note step = write_selection_def window prod.case Let_def W_def [symmetric] gone_def [symmetric] db1_def [symmetric] db1 r m_def [symmetric]
  show ?thesis
  proof (cases "W = []")
    case True
    then have none: "filter is_new (so_winners out) = []" "filter is_changed (so_winners out) = []"
      using new changed by (simp_all add: new_winners_def changed_winners_def)
    have "write_selection out symbol timeframe window exclude batch_rows now (n, db) = Inr (m, db1\<lparr>cd_bars := bars\<rparr>)"
      using True unfolding step by simp
    moreover have "bars k = canonical_after out exclude (cd_bars db) k" for k using look b1 b2 none by simp
    ultimately show ?thesis
      using none count by (intro result [of m "db1\<lparr>cd_bars := bars\<rparr>"]) (simp_all add: m_def db1_def)
  next
    case False
    then obtain m' where "write_selection out symbol timeframe window exclude batch_rows now (n, db) = Inr (m', db1\<lparr>cd_bars := bars2\<rparr>)"
      "se_new m' = se_new m + length (filter is_new (so_winners out))" "se_changed m' = se_changed m + length (filter is_changed (so_winners out))"
      "se_dropped m' = se_dropped m"
      unfolding step by (simp add: new changed w1 w2)
    then show ?thesis
      using count look by (intro result [of m' "db1\<lparr>cd_bars := bars2\<rparr>"]) (simp_all add: m_def db1_def)
  qed
qed

section \<open>The record of the choices\<close>

definition choice_after :: "day list \<Rightarrow> session_choice list \<Rightarrow> stamp \<Rightarrow> day \<Rightarrow> (session_choice \<times> stamp) option \<Rightarrow> (session_choice \<times> stamp) option" where
  "choice_after sessions choices now d old =
     (if sessions = [] then old
      else case find (\<lambda>c. sc_session c = d) choices of
          Some c \<Rightarrow> if map_option fst old = Some c then old else Some (c, now)
        | None \<Rightarrow> if d \<in> set sessions then None else old)"

lemma upsert_choices_lookup:
  assumes "distinct (map sc_session cs)"
  shows "fold (upsert_choice s tf now) cs table (s', tf', d) =
    (if s' = s \<and> tf' = tf
     then case find (\<lambda>c. sc_session c = d) cs of
            Some c \<Rightarrow> if map_option fst (table (s, tf, d)) = Some c then table (s, tf, d) else Some (c, now)
          | None \<Rightarrow> table (s, tf, d)
     else table (s', tf', d))"
  using assms
proof (induction cs arbitrary: table)
  case (Cons c cs)
  have "sc_session v \<noteq> sc_session c" if "v \<in> set cs" for v using Cons.prems that by (metis distinct.simps(2) imageI list.set_map list.simps(9))
  then have "find (\<lambda>v. sc_session v = sc_session c) cs = None" unfolding find_None_iff by blast
  with Cons show ?case by (auto simp: upsert_choice_def Let_def split: option.split)
qed simp

lemma record_lookup:
  assumes "distinct (map sc_session cs)"
  shows "cd_choices (record_session_choices s tf ss cs now db) (s', tf', d) =
    (if s' = s \<and> tf' = tf then choice_after ss cs now d (cd_choices db (s', tf', d)) else cd_choices db (s', tf', d))"
proof -
  have "find (\<lambda>c. sc_session c = d) cs = None \<longleftrightarrow> d \<notin> set (map sc_session cs)" unfolding find_None_iff by (auto simp: image_iff)
  then show ?thesis
    unfolding record_session_choices_def choice_after_def
    by (cases "find (\<lambda>c. sc_session c = d) cs") (simp_all add: upsert_choices_lookup [OF assms] clear_choices_def)
qed

lemma choice_after_idem: "choice_after ss cs now' d (choice_after ss cs now d old) = choice_after ss cs now d old"
  by (auto simp: choice_after_def split: option.split)

lemma distinct_concat_singles:
  assumes "list_all2 (\<lambda>x r. set (map h (c r)) \<subseteq> {g x} \<and> distinct (map h (c r))) xs rs" "distinct (map g xs)"
  shows "distinct (map h (concat (map c rs))) \<and> set (map h (concat (map c rs))) \<subseteq> set (map g xs)"
  using assms
proof (induction rule: list_all2_induct)
  case (Cons x xs r rs)
  then have "distinct (map h (concat (map c rs)))" "set (map h (concat (map c rs))) \<subseteq> set (map g xs)"
    "set (map h (c r)) \<subseteq> {g x}" "distinct (map h (c r))" "g x \<notin> set (map g xs)" by simp_all
  then show ?case unfolding list.map concat.simps map_append distinct_append set_append list.set by blast
qed simp

lemma session_choices:
  assumes "select_session cal ny P ko ((s, tf, d), slots) = Inr r"
  shows "set (map sc_session (sr_choices r)) \<subseteq> {d} \<and> distinct (map sc_session (sr_choices r))"
proof -
  from assms obtain bv grid where "r = session_result_of s tf d slots bv grid" by (rule select_session_cases) blast
  then show ?thesis by (simp add: session_result_of_def Let_def) (simp add: session_choice_of_def Let_def case_prod_beta)
qed

lemma outcome_choices:
  assumes out: "select_slots cal ny cs P ko = Inr out" and one: "\<forall>c \<in> set cs. c_symbol c = s \<and> c_timeframe c = tf"
  shows "distinct (map sc_session (so_choices out))"
proof -
  from out obtain on off rs where part: "partition_session cal cs = Inr (on, off)"
    and rs: "emap (select_session cal ny P ko) (sort_key fst (sessions_of ny on)) = Inr rs"
    and choices: "so_choices out = concat (map sr_choices rs)"
    by (auto simp: select_slots_def Let_def ebind_eq_Inr)
  let ?S = "sort_key fst (sessions_of ny on)"
  have keys: "map fst (sessions_of ny on) = map fst (group_by (session_key ny) on)" by (simp add: sessions_of_def case_prod_beta)
  have "set on \<subseteq> set cs" using part by (auto simp: partition_session_def ebind_eq_Inr)
  then have key: "fst k = s \<and> fst (snd k) = tf" if "k \<in> set (map fst (sessions_of ny on))" for k
    using that one unfolding keys by (auto simp: group_by_keys session_key_def)
  have "distinct (map fst ?S)"
    using group_by_distinct [of "session_key ny" on] unfolding keys [symmetric] by (simp add: distinct_map inj_on_def)
  then have "distinct (map (\<lambda>x. snd (snd (fst x))) ?S)"
    unfolding distinct_map using key by (auto simp: inj_on_def) (metis fst_conv image_eqI snd_conv)+
  moreover have "list_all2 (\<lambda>x r. set (map sc_session (sr_choices r)) \<subseteq> {snd (snd (fst x))} \<and> distinct (map sc_session (sr_choices r))) ?S rs"
    unfolding list_all2_conv_all_nth
  proof (rule conjI, simp add: emap_length [OF rs], rule allI, rule impI)
    fix i assume i: "i < length ?S"
    obtain a b d slots where "?S ! i = ((a, b, d), slots)" by (metis surj_pair)
    with session_choices emap_nth [OF rs i]
    show "set (map sc_session (sr_choices (rs ! i))) \<subseteq> {snd (snd (fst (?S ! i)))} \<and> distinct (map sc_session (sr_choices (rs ! i)))"
      by (metis fst_conv snd_conv)
  qed
  ultimately show ?thesis
    unfolding choices using distinct_concat_singles [where g = "\<lambda>x. snd (snd (fst x))" and h = sc_session and c = sr_choices] by blast
qed

section \<open>A whole call\<close>

lemma after_local:
  assumes "bars k = bars' k"
  shows "canonical_after out exclude bars k = canonical_after out exclude bars' k"
  unfolding canonical_after_def retracts_def assms ..

lemma after_frame:
  assumes "outcome_ok out symbol timeframe window" "k \<noteq> (symbol, timeframe, snd (snd k))"
  shows "canonical_after out exclude bars k = bars k"
proof -
  obtain start stop where window: "window = (start, stop)" by (cases window)
  note ok = assms(1) [unfolded window]
  have gone: "k \<notin> set (so_dropped out @ so_unselected out)"
    using ok assms(2) unfolding outcome_ok_def prod.case set_append by (metis UnCI snd_conv)
  have "find (\<lambda>w. slot_of w = k \<and> c_volume w \<noteq> None) (so_winners out) = None"
    unfolding find_None_iff using outcome_parts(4) [OF ok] assms(2) by (metis snd_conv)
  with gone show ?thesis by (simp add: canonical_after_def)
qed

lemma outcome_of_ok:
  "outcome_of cal ny mid raw pol q s = Inr out \<Longrightarrow> outcome_ok out s (rs_timeframe q) (session_window ny mid (rs_start q) (rs_stop q))"
  by (cases "session_window ny mid (rs_start q) (rs_stop q)") (auto simp: outcome_of_def Let_def intro: select_outcome_ok)

lemma select_symbol_effect:
  assumes out: "outcome_of cal ny mid raw pol q s = Inr out" and batch: "1 \<le> rs_batch_rows q"
  obtains m db' where "select_symbol cal ny mid raw pol now q s (n, db) = Inr (m, db')"
    "\<And>k. cd_bars db' k = canonical_after out (rs_exclude q) (cd_bars db) k"
    "cd_choices db' = cd_choices (record_session_choices s (rs_timeframe q) (so_sessions out) (so_choices out) now db)"
    "se_new m = se_new n + length (filter (\<lambda>w. c_timestamp w \<notin> set (rs_exclude q) \<and> c_volume w \<noteq> None \<and> cd_bars db (slot_of w) = None) (so_winners out))"
    "se_changed m = se_changed n + length (filter (\<lambda>w. c_timestamp w \<notin> set (rs_exclude q) \<and> c_volume w \<noteq> None \<and>
       cd_bars db (slot_of w) \<noteq> None \<and> cd_bars db (slot_of w) \<noteq> Some (snd (canonical_entry w))) (so_winners out))"
    "se_dropped m = se_dropped n + length (filter (\<lambda>k. snd (snd k) \<notin> set (rs_exclude q) \<and> retracts (cd_bars db) k) (so_dropped out @ so_unselected out))"
proof -
  have "0 < nat (rs_batch_rows q)" using batch by simp
  show ?thesis
    by (rule write_selection_effect [OF outcome_of_ok [OF out] \<open>0 < nat (rs_batch_rows q)\<close>, of "rs_exclude q" now n db], rule that)
      (simp add: select_symbol_def out)
qed

definition canonical_expected ::
  "schedule \<Rightarrow> (stamp \<Rightarrow> day) \<Rightarrow> (day \<Rightarrow> stamp) \<Rightarrow> candidate list \<Rightarrow> policy list \<Rightarrow> selection_request \<Rightarrow> string set \<Rightarrow> canonical_table
   \<Rightarrow> canonical_table" where
  "canonical_expected cal ny mid raw pol q symbols bars = (\<lambda>(s, tf, ts).
     if s \<in> symbols \<and> tf = rs_timeframe q
     then canonical_after (projr (outcome_of cal ny mid raw pol q s)) (rs_exclude q) bars (s, tf, ts)
     else bars (s, tf, ts))"

lemma outcome_of_choices: "outcome_of cal ny mid raw pol q s = Inr out \<Longrightarrow> distinct (map sc_session (so_choices out))"
  by (auto simp: outcome_of_def Let_def read_raw_def split: prod.splits intro: outcome_choices)

definition choices_expected ::
  "schedule \<Rightarrow> (stamp \<Rightarrow> day) \<Rightarrow> (day \<Rightarrow> stamp) \<Rightarrow> candidate list \<Rightarrow> policy list \<Rightarrow> stamp \<Rightarrow> selection_request \<Rightarrow> string set
   \<Rightarrow> (string \<times> string \<times> day \<rightharpoonup> session_choice \<times> stamp) \<Rightarrow> (string \<times> string \<times> day \<rightharpoonup> session_choice \<times> stamp)" where
  "choices_expected cal ny mid raw pol now q symbols table = (\<lambda>(s, tf, d).
     if s \<in> symbols \<and> tf = rs_timeframe q
     then choice_after (so_sessions (projr (outcome_of cal ny mid raw pol q s))) (so_choices (projr (outcome_of cal ny mid raw pol q s)))
            now d (table (s, tf, d))
     else table (s, tf, d))"

lemma select_symbols_effect:
  assumes "distinct symbols" "1 \<le> rs_batch_rows q"
  shows "(\<exists>r. select_symbols (select_symbol cal ny mid raw pol now q) symbols (n, db) = Inr r) \<longleftrightarrow>
      (\<forall>s \<in> set symbols. \<exists>out. outcome_of cal ny mid raw pol q s = Inr out)"
    and "select_symbols (select_symbol cal ny mid raw pol now q) symbols (n, db) = Inr (m, db') \<Longrightarrow>
      cd_bars db' = canonical_expected cal ny mid raw pol q (set symbols) (cd_bars db) \<and>
      cd_choices db' = choices_expected cal ny mid raw pol now q (set symbols) (cd_choices db)"
  using assms(1)
proof (induction symbols arbitrary: n db)
  case (Cons s symbols)
  {
    case 1
    show ?case
    proof (cases "outcome_of cal ny mid raw pol q s")
      case (Inr out)
      obtain m1 db1 where "select_symbol cal ny mid raw pol now q s (n, db) = Inr (m1, db1)"
        by (rule select_symbol_effect [OF Inr assms(2), where now = now and n = n and db = db])
      with Cons.IH(1) [of m1 db1] 1 Inr show ?thesis by simp
    qed (simp add: select_symbol_def)
  next
    case 2
    from 2(1) obtain out where out: "outcome_of cal ny mid raw pol q s = Inr out"
      by (auto simp: select_symbol_def ebind_eq_Inr)
    obtain m1 db1 where s: "select_symbol cal ny mid raw pol now q s (n, db) = Inr (m1, db1)"
      and b1: "\<And>k. cd_bars db1 k = canonical_after out (rs_exclude q) (cd_bars db) k"
      and c1: "cd_choices db1 = cd_choices (record_session_choices s (rs_timeframe q) (so_sessions out) (so_choices out) now db)"
      by (rule select_symbol_effect [OF out assms(2), where now = now and n = n and db = db]) blast
    from 2(1) s have rest: "select_symbols (select_symbol cal ny mid raw pol now q) symbols (m1, db1) = Inr (m, db')" by simp
    from Cons.IH(2) [OF rest] 2(2) have b': "cd_bars db' = canonical_expected cal ny mid raw pol q (set symbols) (cd_bars db1)"
      and c': "cd_choices db' = choices_expected cal ny mid raw pol now q (set symbols) (cd_choices db1)" by simp_all
    have "choices_expected cal ny mid raw pol now q (set symbols) (cd_choices db1) (s', tf, d) =
        choices_expected cal ny mid raw pol now q (set (s # symbols)) (cd_choices db) (s', tf, d)" for s' tf d
      using 2(2) by (auto simp: choices_expected_def c1 record_lookup [OF outcome_of_choices [OF out]] out)
    then have "cd_choices db' = choices_expected cal ny mid raw pol now q (set (s # symbols)) (cd_choices db)" unfolding c' by (intro ext) auto
    moreover have "canonical_expected cal ny mid raw pol q (set symbols) (cd_bars db1) k =
        canonical_expected cal ny mid raw pol q (set (s # symbols)) (cd_bars db) k" for k
    proof -
      obtain s' tf ts where k: "k = (s', tf, ts)" by (cases k)
      show ?thesis
      proof (cases "s' = s \<and> tf = rs_timeframe q")
        case True
        then have "s' \<notin> set symbols" using 2(2) by simp
        with True out show ?thesis by (simp add: k canonical_expected_def b1)
      next
        case False
        then have "cd_bars db1 k = cd_bars db k"
          unfolding b1 by (intro after_frame [OF outcome_of_ok [OF out]]) (auto simp: k)
        with False show ?thesis by (auto simp: k canonical_expected_def intro: after_local)
      qed
    qed
    ultimately show ?case unfolding b' by auto
  }
qed (auto simp: canonical_expected_def choices_expected_def fun_eq_iff)

lemma select_and_write_defined:
  "(\<exists>r. select_and_write cal ny mid raw pol now q symbols db = Inr r) \<longleftrightarrow>
   rs_timeframe q \<in> set DIRECT_TIMEFRAMES \<and> 1 \<le> rs_batch_rows q \<and> (\<forall>s \<in> set symbols. \<exists>out. outcome_of cal ny mid raw pol q s = Inr out)"
proof (cases "rs_timeframe q \<in> set DIRECT_TIMEFRAMES \<and> 1 \<le> rs_batch_rows q")
  case True
  then show ?thesis
    using select_symbols_effect(1) [of "sorted_set symbols" q cal ny mid raw pol now no_counts db] by (auto simp: select_and_write_def)
qed (auto simp: select_and_write_def)

lemma select_and_write_effect:
  assumes "select_and_write cal ny mid raw pol now q symbols db = Inr (n, db')"
  shows "cd_bars db' = canonical_expected cal ny mid raw pol q (set symbols) (cd_bars db)"
    "cd_choices db' = choices_expected cal ny mid raw pol now q (set symbols) (cd_choices db)"
  using assms select_symbols_effect(2) [of "sorted_set symbols" q cal ny mid raw pol now no_counts db n db']
  by (auto simp: select_and_write_def split: if_splits)

section \<open>A second run\<close>

lemma after_idem: "canonical_after out e (canonical_after out e bars) k = canonical_after out e bars k"
  by (auto simp: canonical_after_def retracts_def split: option.splits)

lemma find_self:
  assumes "distinct (map f ws)" "w \<in> set ws"
  shows "find (\<lambda>v. f v = f w) ws = Some w"
  using assms
proof (induction ws)
  case (Cons v ws)
  have "f v \<noteq> f w" if "w \<in> set ws" using Cons.prems(1) that by (metis distinct.simps(2) imageI list.set_map list.simps(9))
  with Cons show ?case by auto
qed simp

text \<open>A selection whose effect is already in the tables writes nothing.\<close>

lemma select_symbol_fixpoint:
  assumes out: "outcome_of cal ny mid raw pol q s = Inr out" and batch: "1 \<le> rs_batch_rows q"
    and bars: "\<And>ts. canonical_after out (rs_exclude q) (cd_bars db) (s, rs_timeframe q, ts) = cd_bars db (s, rs_timeframe q, ts)"
    and choices: "\<And>d. choice_after (so_sessions out) (so_choices out) now d (cd_choices db (s, rs_timeframe q, d)) = cd_choices db (s, rs_timeframe q, d)"
  shows "\<exists>m. select_symbol cal ny mid raw pol now q s (n, db) = Inr (m, db) \<and>
    se_new m = se_new n \<and> se_changed m = se_changed n \<and> se_dropped m = se_dropped n"
proof -
  obtain start stop where window: "session_window ny mid (rs_start q) (rs_stop q) = (start, stop)" by (metis surj_pair)
  note ok = outcome_of_ok [OF out, unfolded window]
  obtain m db' where run: "select_symbol cal ny mid raw pol now q s (n, db) = Inr (m, db')"
    and b: "\<And>k. cd_bars db' k = canonical_after out (rs_exclude q) (cd_bars db) k"
    and c: "cd_choices db' = cd_choices (record_session_choices s (rs_timeframe q) (so_sessions out) (so_choices out) now db)"
    and new: "se_new m = se_new n + length (filter (\<lambda>w. c_timestamp w \<notin> set (rs_exclude q) \<and> c_volume w \<noteq> None \<and> cd_bars db (slot_of w) = None) (so_winners out))"
    and changed: "se_changed m = se_changed n + length (filter (\<lambda>w. c_timestamp w \<notin> set (rs_exclude q) \<and> c_volume w \<noteq> None \<and>
       cd_bars db (slot_of w) \<noteq> None \<and> cd_bars db (slot_of w) \<noteq> Some (snd (canonical_entry w))) (so_winners out))"
    and dropped: "se_dropped m = se_dropped n + length (filter (\<lambda>k. snd (snd k) \<notin> set (rs_exclude q) \<and> retracts (cd_bars db) k) (so_dropped out @ so_unselected out))"
    by (rule select_symbol_effect [OF out batch, where now = now and n = n and db = db]) blast
  have fixed: "canonical_after out (rs_exclude q) (cd_bars db) k = cd_bars db k" for k
  proof (cases "k = (s, rs_timeframe q, snd (snd k))")
    case True
    with bars [of "snd (snd k)"] show ?thesis by simp
  qed (rule after_frame [OF ok])
  have "cd_bars db' = cd_bars db" by (intro ext) (simp add: b fixed)
  moreover have "cd_choices db' (s', tf, d) = cd_choices db (s', tf, d)" for s' tf d
    using choices [of d] by (simp add: c record_lookup [OF outcome_of_choices [OF out]])
  then have "cd_choices db' = cd_choices db" by (intro ext) auto
  ultimately have "db' = db" by simp
  have win: "cd_bars db (slot_of w) = Some (snd (canonical_entry w))"
    if "w \<in> set (so_winners out)" "c_timestamp w \<notin> set (rs_exclude q)" "c_volume w \<noteq> None" for w
    using fixed [of "slot_of w"] that find_self [OF outcome_parts(1) [OF ok] that(1)]
    unfolding canonical_after_def find_distinct [OF outcome_parts(1) [OF ok]] by (simp add: slot_of_def)
  have "filter (\<lambda>w. c_timestamp w \<notin> set (rs_exclude q) \<and> c_volume w \<noteq> None \<and> cd_bars db (slot_of w) = None) (so_winners out) = []"
    "filter (\<lambda>w. c_timestamp w \<notin> set (rs_exclude q) \<and> c_volume w \<noteq> None \<and>
       cd_bars db (slot_of w) \<noteq> None \<and> cd_bars db (slot_of w) \<noteq> Some (snd (canonical_entry w))) (so_winners out) = []"
    unfolding filter_empty_conv using win by force+
  moreover have "\<not> (snd (snd k) \<notin> set (rs_exclude q) \<and> retracts (cd_bars db) k)" if k: "k \<in> set (so_dropped out @ so_unselected out)" for k
  proof
    assume a: "snd (snd k) \<notin> set (rs_exclude q) \<and> retracts (cd_bars db) k"
    have "find (\<lambda>w. slot_of w = k \<and> c_volume w \<noteq> None) (so_winners out) = None"
      unfolding find_None_iff using outcome_parts(3) [OF ok] k by blast
    with a k have "canonical_after out (rs_exclude q) (cd_bars db) k = None" by (simp add: canonical_after_def)
    with a show False unfolding fixed by (simp add: retracts_def)
  qed
  then have "filter (\<lambda>k. snd (snd k) \<notin> set (rs_exclude q) \<and> retracts (cd_bars db) k) (so_dropped out @ so_unselected out) = []"
    unfolding filter_empty_conv by blast
  ultimately show ?thesis using run new changed dropped \<open>db' = db\<close> by (simp only: list.size add_0_right) blast
qed

lemma select_symbols_fixpoint:
  assumes batch: "1 \<le> rs_batch_rows q"
    and bars: "canonical_expected cal ny mid raw pol q A (cd_bars db) = cd_bars db"
    and choices: "choices_expected cal ny mid raw pol now q A (cd_choices db) = cd_choices db"
    and outs: "\<forall>s \<in> set symbols. s \<in> A \<and> (\<exists>out. outcome_of cal ny mid raw pol q s = Inr out)"
  shows "\<exists>m. select_symbols (select_symbol cal ny mid raw pol now q) symbols (n, db) = Inr (m, db) \<and>
    se_new m = se_new n \<and> se_changed m = se_changed n \<and> se_dropped m = se_dropped n"
  using outs
proof (induction symbols arbitrary: n)
  case (Cons s symbols)
  then obtain out where out: "outcome_of cal ny mid raw pol q s = Inr out" and s: "s \<in> A" by auto
  have "canonical_after out (rs_exclude q) (cd_bars db) (s, rs_timeframe q, ts) = cd_bars db (s, rs_timeframe q, ts)" for ts
    using fun_cong [OF bars, of "(s, rs_timeframe q, ts)"] s by (simp add: canonical_expected_def out)
  moreover have "choice_after (so_sessions out) (so_choices out) now d (cd_choices db (s, rs_timeframe q, d)) = cd_choices db (s, rs_timeframe q, d)" for d
    using fun_cong [OF choices, of "(s, rs_timeframe q, d)"] s by (simp add: choices_expected_def out)
  ultimately obtain m where m: "select_symbol cal ny mid raw pol now q s (n, db) = Inr (m, db)"
    "se_new m = se_new n" "se_changed m = se_changed n" "se_dropped m = se_dropped n"
    using select_symbol_fixpoint [OF out batch] by blast
  from Cons.IH [of m] Cons.prems m show ?case by simp
qed simp

lemma expected_at:
  "s \<in> A \<Longrightarrow> canonical_expected cal ny mid raw pol q A bars (s, rs_timeframe q, ts) =
     canonical_after (projr (outcome_of cal ny mid raw pol q s)) (rs_exclude q) bars (s, rs_timeframe q, ts)"
  "\<not> (s \<in> A \<and> tf = rs_timeframe q) \<Longrightarrow> canonical_expected cal ny mid raw pol q A bars (s, tf, ts) = bars (s, tf, ts)"
  by (auto simp: canonical_expected_def)

lemma expected_idem:
  "canonical_expected cal ny mid raw pol q A (canonical_expected cal ny mid raw pol q A bars) = canonical_expected cal ny mid raw pol q A bars"
  "choices_expected cal ny mid raw pol now' q A (choices_expected cal ny mid raw pol now q A table) = choices_expected cal ny mid raw pol now q A table"
proof -
  show "canonical_expected cal ny mid raw pol q A (canonical_expected cal ny mid raw pol q A bars) = canonical_expected cal ny mid raw pol q A bars"
  proof (rule ext)
    fix k :: slot
    obtain s tf ts where k: "k = (s, tf, ts)" by (cases k)
    let ?b = "canonical_expected cal ny mid raw pol q A bars"
    show "canonical_expected cal ny mid raw pol q A ?b k = ?b k"
    proof (cases "s \<in> A \<and> tf = rs_timeframe q")
      case True
      let ?out = "projr (outcome_of cal ny mid raw pol q s)"
      from True have k': "k = (s, rs_timeframe q, ts)" and s: "s \<in> A" by (simp_all add: k)
      have "?b k = canonical_after ?out (rs_exclude q) bars k" unfolding k' by (rule expected_at(1) [OF s])
      with after_local [where bars = ?b and bars' = "canonical_after ?out (rs_exclude q) bars" and k = k]
      have "canonical_after ?out (rs_exclude q) ?b k = ?b k" by (simp only: after_idem)
      then show ?thesis unfolding k' by (simp only: expected_at(1) [OF s, of cal ny mid raw pol q ?b])
    next
      case False
      show ?thesis unfolding k by (rule expected_at(2) [OF False])
    qed
  qed
qed (auto simp: choices_expected_def choice_after_idem)

section \<open>Properties of the canonical table\<close>

text \<open>C24. What a selection writes.  Each slot of a selected series that is not excluded holds the winner of its slot when the
  winner has a volume, loses the row of a bar vendor when the slot was dropped or left unselected, and keeps its row otherwise;
  nothing else in the table changes.\<close>

theorem canonical_written:
  assumes "select_and_write cal ny mid raw pol now q symbols db = Inr (n, db')"
  shows "cd_bars db' (s, tf, ts) =
    (if s \<notin> set symbols \<or> tf \<noteq> rs_timeframe q \<or> ts \<in> set (rs_exclude q) then cd_bars db (s, tf, ts)
     else let out = projr (outcome_of cal ny mid raw pol q s) in
       case find (\<lambda>w. slot_of w = (s, tf, ts) \<and> c_volume w \<noteq> None) (so_winners out) of
         Some w \<Rightarrow> Some (canonical_values w (the (c_volume w)))
       | None \<Rightarrow> if (s, tf, ts) \<in> set (so_dropped out @ so_unselected out) \<and> retracts (cd_bars db) (s, tf, ts) then None
                 else cd_bars db (s, tf, ts))"
  unfolding select_and_write_effect [OF assms]
  by (auto simp: canonical_expected_def canonical_after_def canonical_entry_def Let_def cong: option.case_cong)

text \<open>C33. A selection is idempotent: over the same raw rows and policy a second call succeeds, changes neither the bars nor the
  recorded choices (their decision times included), and reports nothing new, changed or dropped.\<close>

theorem selection_idempotent:
  assumes "select_and_write cal ny mid raw pol now q symbols db = Inr (n, db')"
  shows "\<exists>m. select_and_write cal ny mid raw pol now' q symbols db' = Inr (m, db') \<and>
    se_new m = 0 \<and> se_changed m = 0 \<and> se_dropped m = 0"
proof -
  from assms select_and_write_defined [of cal ny mid raw pol now q symbols db] have
    q: "rs_timeframe q \<in> set DIRECT_TIMEFRAMES" "1 \<le> rs_batch_rows q" "\<forall>s \<in> set symbols. \<exists>out. outcome_of cal ny mid raw pol q s = Inr out" by blast+
  note fixed = expected_idem(1) [of cal ny mid raw pol q "set symbols" "cd_bars db", folded select_and_write_effect [OF assms]]
    expected_idem(2) [of cal ny mid raw pol now' q "set symbols" now "cd_choices db", folded select_and_write_effect [OF assms]]
  from select_symbols_fixpoint [OF q(2) fixed(1) fixed(2), of "sorted_set symbols" no_counts] q show ?thesis
    by (simp add: select_and_write_def no_counts_def)
qed

text \<open>C20. One vendor per session in the table.  After a selection without excluded stamps in which every winner has a volume, two
  canonical bars of one session of a selected series that stand at slots with on-grid answers, and whose vendors are bar vendors,
  have the same vendor: a vendor switch is written across the session, and what the new vendor does not hold is retracted.\<close>

theorem session_uniform:
  assumes run: "select_and_write cal ny mid raw pol now q symbols db = Inr (n, db')" and s: "s \<in> set symbols"
    and all: "rs_exclude q = []" "list_all (\<lambda>w. c_volume w \<noteq> None) (so_winners (projr (outcome_of cal ny mid raw pol q s)))"
    and on: "partition_session cal (read_raw raw s (rs_timeframe q) start stop) = Inr (on, off)"
      "session_window ny mid (rs_start q) (rs_stop q) = (start, stop)" "(s, rs_timeframe q, ts) \<in> slot_of ` set on" "(s, rs_timeframe q, ts') \<in> slot_of ` set on"
    and rows: "cd_bars db' (s, rs_timeframe q, ts) = Some r" "cr_vendor r \<in> set BAR_VENDORS"
      "cd_bars db' (s, rs_timeframe q, ts') = Some r'" "cr_vendor r' \<in> set BAR_VENDORS" and d: "ny ts = ny ts'"
  shows "cr_vendor r = cr_vendor r'"
proof -
  from run s select_and_write_defined [of cal ny mid raw pol now q symbols db] obtain out where
    out: "outcome_of cal ny mid raw pol q s = Inr out" by blast
  then obtain P where sel: "select_slots cal ny (read_raw raw s (rs_timeframe q) start stop) P (rs_kind_order q) = Inr out"
    by (auto simp: outcome_of_def Let_def on(2))
  note ok = select_outcome_ok [OF sel]
  have cover: "slot_of ` set on = set (map slot_of (so_winners out) @ so_dropped out @ so_unselected out)"
  proof -
    have "mset (map slot_of (so_winners out) @ so_dropped out @ so_unselected out) = mset_set (slot_of ` set on)"
      using slots_accounted [OF sel] on(1) by (auto simp: add.assoc)
    from arg_cong [OF this, of set_mset] show ?thesis by simp
  qed
  have winner: "\<exists>w \<in> set (so_winners out). slot_of w = (s, rs_timeframe q, t) \<and> cr_vendor x = c_vendor w"
    if t: "(s, rs_timeframe q, t) \<in> slot_of ` set on" and x: "cd_bars db' (s, rs_timeframe q, t) = Some x" "cr_vendor x \<in> set BAR_VENDORS" for t x
  proof (cases "find (\<lambda>w. slot_of w = (s, rs_timeframe q, t) \<and> c_volume w \<noteq> None) (so_winners out)")
    case None
    with all(2) t out have gone: "(s, rs_timeframe q, t) \<in> set (so_dropped out) \<or> (s, rs_timeframe q, t) \<in> set (so_unselected out)"
      unfolding cover find_None_iff by (auto simp: list_all_iff)
    have "cd_bars db' (s, rs_timeframe q, t) = (if retracts (cd_bars db) (s, rs_timeframe q, t) then None else cd_bars db (s, rs_timeframe q, t))"
      using s all(1) None gone unfolding select_and_write_effect [OF run] by (simp add: canonical_expected_def canonical_after_def out)
    with x show ?thesis by (auto simp: retracts_def split: if_splits)
  next
    case (Some w)
    then have w: "w \<in> set (so_winners out)" "slot_of w = (s, rs_timeframe q, t)" by (auto simp: find_Some_iff)
    have "cd_bars db' (s, rs_timeframe q, t) = Some (snd (canonical_entry w))"
      unfolding select_and_write_effect [OF run] expected_at(1) [OF s] out sum.sel canonical_after_def all(1) Some by simp
    with x w show ?thesis by (auto simp: canonical_entry_def canonical_values_def)
  qed
  from winner [OF on(3) rows(1,2)] winner [OF on(4) rows(3,4)] obtain w w' where
    w: "w \<in> set (so_winners out)" "slot_of w = (s, rs_timeframe q, ts)" "cr_vendor r = c_vendor w"
      "w' \<in> set (so_winners out)" "slot_of w' = (s, rs_timeframe q, ts')" "cr_vendor r' = c_vendor w'" by blast
  then have "session_key ny w = session_key ny w'" using d by (simp add: slot_of_def session_key_def)
  with winners_of_one_vendor [OF sel] w show ?thesis by metis
qed

section \<open>A concrete selection\<close>

text \<open>The session of the selection example with volumes, into a table that holds the primary's bars of both slots; the primary
  no longer answers the second slot.\<close>

definition ex_volumes :: "candidate list" where
  "ex_volumes = map (\<lambda>c. c\<lparr>c_volume := Some 7\<rparr>) ex_cands"

definition ex_request :: selection_request where
  "ex_request = \<lparr>rs_timeframe = ''5m'', rs_start = ex_open, rs_stop = ex_open + 1, rs_policy = None, rs_kind_order = ex_kinds,
     rs_batch_rows = 1, rs_exclude = []\<rparr>"

definition ex_midnight :: "day \<Rightarrow> stamp" where "ex_midnight d = (d - 719163) * one_day"

definition ex_stored_policy :: "policy list" where
  "ex_stored_policy = [\<lparr>po_timeframe = ''5m'', po_symbol = None, po_valid_from = 0, po_valid_to = None, po_ingress_mode = ''direct'',
     po_primary = ''alpaca'', po_fallback = Some ''ibkr''\<rparr>]"

definition ex_canonical :: canonical_db where
  "ex_canonical = \<lparr>cd_bars = (\<lambda>(s, tf, ts). if s = ''SPY'' \<and> tf = ''5m'' \<and> ts \<in> {ex_open, ex_open + 5 * minute}
       then Some (canonical_values (ex_bar ts ''alpaca'' ''sip_rth'') 3) else None), cd_choices = (\<lambda>_. None)\<rparr>"

definition ex_selected :: selection_outcome where
  "ex_selected = projr (outcome_of ex_cal utc_day ex_midnight ex_volumes ex_stored_policy ex_request ''SPY'')"

lemma ex_selected: "outcome_of ex_cal utc_day ex_midnight ex_volumes ex_stored_policy ex_request ''SPY'' = Inr ex_selected"
  unfolding ex_selected_def by code_simp

lemma ex_selected_winners:
  "so_winners ex_selected = [(ex_bar ex_open ''ibkr'' ''named'')\<lparr>c_volume := Some 7\<rparr>,
     (ex_bar (ex_open + 5 * minute) ''ibkr'' ''named'')\<lparr>c_volume := Some 7\<rparr>]"
  by code_simp

lemma ex_selection_runs:
  "\<exists>n db'. select_and_write ex_cal utc_day ex_midnight ex_volumes ex_stored_policy 0 ex_request [''SPY''] ex_canonical = Inr (n, db')"
proof -
  have "rs_timeframe ex_request \<in> set DIRECT_TIMEFRAMES \<and> 1 \<le> rs_batch_rows ex_request" by code_simp
  then show ?thesis using ex_selected select_and_write_defined [of ex_cal utc_day ex_midnight ex_volumes ex_stored_policy 0 ex_request "[''SPY'']" ex_canonical]
    by auto
qed

lemma canonical_written_witness:
  "\<exists>n db'. select_and_write ex_cal utc_day ex_midnight ex_volumes ex_stored_policy 0 ex_request [''SPY''] ex_canonical = Inr (n, db') \<and>
     cd_bars db' (''SPY'', ''5m'', ex_open) = Some (canonical_values (ex_bar ex_open ''ibkr'' ''named'') 7)"
proof -
  obtain n db' where run: "select_and_write ex_cal utc_day ex_midnight ex_volumes ex_stored_policy 0 ex_request [''SPY''] ex_canonical = Inr (n, db')"
    using ex_selection_runs by blast
  have "cd_bars db' (''SPY'', ''5m'', ex_open) = Some (canonical_values (ex_bar ex_open ''ibkr'' ''named'') 7)"
    unfolding canonical_written [OF run] ex_selected sum.sel Let_def ex_selected_winners
    by (simp add: ex_request_def slot_of_def ex_bar_def canonical_values_def)
  with run show ?thesis by blast
qed

lemma selection_idempotent_witness:
  "\<exists>n db' m. select_and_write ex_cal utc_day ex_midnight ex_volumes ex_stored_policy 0 ex_request [''SPY''] ex_canonical = Inr (n, db') \<and>
     select_and_write ex_cal utc_day ex_midnight ex_volumes ex_stored_policy 5 ex_request [''SPY''] db' = Inr (m, db') \<and> se_dropped m = 0"
  using ex_selection_runs selection_idempotent [of ex_cal utc_day ex_midnight ex_volumes ex_stored_policy 0 ex_request "[''SPY'']" ex_canonical _ _ 5] by blast

lemma ex_on_grid:
  "session_window utc_day ex_midnight (rs_start ex_request) (rs_stop ex_request) = (1728000000000000, 1728086400000000)"
  "\<exists>off. partition_session ex_cal (read_raw ex_volumes ''SPY'' ''5m'' 1728000000000000 1728086400000000) = Inr (ex_volumes, off)"
proof -
  have "partition_session ex_cal (read_raw ex_volumes ''SPY'' ''5m'' 1728000000000000 1728086400000000) = Inr (ex_volumes, [])" by code_simp
  then show "\<exists>off. partition_session ex_cal (read_raw ex_volumes ''SPY'' ''5m'' 1728000000000000 1728086400000000) = Inr (ex_volumes, off)" by blast
qed code_simp

text \<open>A winner without a volume leaves the row of its slot: the session then holds bars of two vendors.\<close>

definition ex_one_null :: "candidate list" where
  "ex_one_null = map (\<lambda>c. c\<lparr>c_volume := (if c_timestamp c = ex_open then Some 7 else None)\<rparr>) ex_cands"

lemma null_volume_mixes:
  assumes "select_and_write ex_cal utc_day ex_midnight ex_one_null ex_stored_policy 0 ex_request [''SPY''] ex_canonical = Inr (n, db')"
  shows "map_option cr_vendor (cd_bars db' (''SPY'', ''5m'', ex_open)) = Some ''ibkr''"
    "map_option cr_vendor (cd_bars db' (''SPY'', ''5m'', ex_open + 5 * minute)) = Some ''alpaca''"
proof -
  have w: "so_winners (projr (outcome_of ex_cal utc_day ex_midnight ex_one_null ex_stored_policy ex_request ''SPY'')) =
      [(ex_bar ex_open ''ibkr'' ''named'')\<lparr>c_volume := Some 7\<rparr>, ex_bar (ex_open + 5 * minute) ''ibkr'' ''named'']" by code_simp
  have d: "so_dropped (projr (outcome_of ex_cal utc_day ex_midnight ex_one_null ex_stored_policy ex_request ''SPY'')) = []"
    "so_unselected (projr (outcome_of ex_cal utc_day ex_midnight ex_one_null ex_stored_policy ex_request ''SPY'')) = []" by code_simp+
  have tf: "rs_timeframe ex_request = ''5m''" "rs_exclude ex_request = []" by (simp_all add: ex_request_def)
  note at = select_and_write_effect(1) [OF assms] expected_at(1) [of "''SPY''" "{''SPY''}" _ _ _ _ _ ex_request, unfolded tf]
  show "map_option cr_vendor (cd_bars db' (''SPY'', ''5m'', ex_open)) = Some ''ibkr''"
    by (simp add: at canonical_after_def w d canonical_entry_def canonical_values_def slot_of_def ex_bar_def)
  show "map_option cr_vendor (cd_bars db' (''SPY'', ''5m'', ex_open + 5 * minute)) = Some ''alpaca''"
    by (simp add: at canonical_after_def w d canonical_values_def slot_of_def ex_bar_def ex_canonical_def minute_def)
qed

lemma session_uniform_witness:
  "\<exists>n db' r r'. select_and_write ex_cal utc_day ex_midnight ex_volumes ex_stored_policy 0 ex_request [''SPY''] ex_canonical = Inr (n, db') \<and>
     cd_bars db' (''SPY'', ''5m'', ex_open) = Some r \<and> cd_bars db' (''SPY'', ''5m'', ex_open + 5 * minute) = Some r' \<and> cr_vendor r = cr_vendor r'"
proof -
  obtain n db' where run: "select_and_write ex_cal utc_day ex_midnight ex_volumes ex_stored_policy 0 ex_request [''SPY''] ex_canonical = Inr (n, db')"
    using ex_selection_runs by blast
  have tf: "rs_timeframe ex_request = ''5m''" "rs_exclude ex_request = []" by (simp_all add: ex_request_def)
  note at = select_and_write_effect(1) [OF run] expected_at(1) [of "''SPY''" "{''SPY''}" _ _ _ _ _ ex_request, unfolded tf]
  have rows: "cd_bars db' (''SPY'', ''5m'', ts) = Some (canonical_values (ex_bar ts ''ibkr'' ''named'') 7)"
    if "ts \<in> {ex_open, ex_open + 5 * minute}" for ts
    using that by (auto simp: at ex_selected canonical_after_def ex_selected_winners canonical_entry_def canonical_values_def slot_of_def ex_bar_def minute_def)
  obtain off where on: "partition_session ex_cal (read_raw ex_volumes ''SPY'' ''5m'' 1728000000000000 1728086400000000) = Inr (ex_volumes, off)"
    using ex_on_grid(2) by blast
  have slots: "(''SPY'', ''5m'', ts) \<in> slot_of ` set ex_volumes" if "ts \<in> {ex_open, ex_open + 5 * minute}" for ts
    using that by (auto simp: ex_volumes_def ex_cands_def slot_of_def ex_bar_def)
  have day: "utc_day ex_open = utc_day (ex_open + 5 * minute)" by code_simp
  have bv: "cr_vendor (canonical_values (ex_bar ts ''ibkr'' ''named'') 7) \<in> set BAR_VENDORS" for ts
    by (simp add: canonical_values_def ex_bar_def BAR_VENDORS_def VENDOR_IBKR_def)
  have vol: "list_all (\<lambda>w. c_volume w \<noteq> None) (so_winners (projr (outcome_of ex_cal utc_day ex_midnight ex_volumes ex_stored_policy ex_request ''SPY'')))"
    by (simp add: ex_selected ex_selected_winners)
  from session_uniform [OF run _ tf(2) vol, unfolded tf, OF _ on ex_on_grid(1) slots [of ex_open] slots [of "ex_open + 5 * minute"]
      rows [of ex_open] bv rows [of "ex_open + 5 * minute"] bv day] rows [of ex_open] rows [of "ex_open + 5 * minute"] run
  show ?thesis by (intro exI conjI) (assumption | simp)+
qed

end
