(* ===== verification/Ingress_Correct.thy ===== *)
theory Ingress_Correct
  imports Ingress Raw_History Canonical_Correct
begin

text \<open>
  Correctness of the ingress contract: its preview is what the write finds, so it never refuses its own write; and the tables it
  leaves, raw, canonical, loads and flags.
\<close>

section \<open>The preview\<close>

lemma group_single:
  assumes "xs \<noteq> []" "\<forall>x \<in> set xs. f x = s"
  shows "group_by f xs = [(s, xs)]"
proof -
  have keys: "fst ` set (group_by f xs) = {s}" unfolding group_by_keys using assms by (cases xs) auto
  have "distinct (map fst (group_by f xs))" by (rule group_by_distinct)
  with keys obtain p where p: "group_by f xs = [p]"
    by (cases "group_by f xs"; cases "tl (group_by f xs)") auto
  then have "p = (s, filter (\<lambda>x. f x = s) xs)" using keys group_by_entry [of "fst p" "snd p" f xs] by (cases p) auto
  moreover have "filter (\<lambda>x. f x = s) xs = xs" using assms(2) by (simp add: filter_id_conv)
  ultimately show ?thesis using p by simp
qed

lemma grouped_Inr:
  "group_by_series validate rows = Inr b \<Longrightarrow>
   b = map (\<lambda>(s, rs). (s, dict_of (map (\<lambda>r. (sb_timestamp r, r)) rs))) (group_by row_series rows)"
  by (auto simp: group_by_series_def ebind_eq_Inr split: if_splits)

lemma preview_is_written:
  assumes one: "rows \<noteq> []" "\<forall>r \<in> set rows. row_series r = s" and p: "preview_series db rows t = Inr delta"
    and w: "write_raw db rows load_id request_id t vendors kinds params now = Inr (ws, db')"
  shows "ws = [delta]"
proof -
  let ?keyed = "dict_of (map (\<lambda>r. (sb_timestamp r, r)) rows)"
  from w one(1) obtain by_series all table where
    b: "group_by_series (validate_row vendors kinds (now + wp_future_tolerance_s params * second)) rows = Inr by_series"
    and all: "emap (\<lambda>(series, keyed). ebind (classify_series db series keyed t) (\<lambda>found. Inr (series, keyed, found))) (sort_key fst by_series) = Inr all"
    and ws: "ws = map (\<lambda>(_, _, found). cf_delta found) all"
    by (rule write_raw_parts)
  have by_series: "by_series = [(s, ?keyed)]" using grouped_Inr [OF b] by (simp add: group_single [OF one])
  then obtain found where found: "classify_series db s ?keyed t = Inr found" "all = [(s, ?keyed, found)]"
    using all by (auto simp: ebind_eq_Inr)
  from p obtain b' where "group_by_series (\<lambda>_. Inr ()) rows = Inr b'"
    "(case b' of [(series, keyed)] \<Rightarrow> ebind (classify_series db series keyed t) (\<lambda>found. Inr (cf_delta found)) | _ \<Rightarrow> Inl ValueError) = Inr delta"
    by (auto simp: preview_series_def ebind_eq_Inr)
  moreover from grouped_Inr [OF this(1)] have "b' = [(s, ?keyed)]" by (simp add: group_single [OF one])
  ultimately have "cf_delta found = delta" by (simp add: found(1))
  with ws found(2) show ?thesis by simp
qed

section \<open>Errors\<close>

lemma classify_loop_error: "classify_loop stored incoming delta = Inl e \<Longrightarrow> e = ValueError"
  by (induction stored incoming delta rule: classify_loop.induct) (auto split: option.splits if_splits)

lemma classify_series_error: "classify_series db s keyed t = Inl e \<Longrightarrow> e = ValueError"
  by (auto simp: classify_series_def Let_def classify_def ebind_def split: sum.splits dest: classify_loop_error)

lemma preview_error: "preview_series db rows t = Inl e \<Longrightarrow> e = ValueError"
proof -
  assume p: "preview_series db rows t = Inl e"
  show ?thesis
  proof (cases "group_by_series (\<lambda>_. Inr ()) rows")
    case (Inl x)
    have "emap (\<lambda>_. Inr ()) rows \<noteq> Inl y" for y :: err using emap_Inl_ex by fastforce
    with Inl have "x = ValueError" by (auto simp: group_by_series_def ebind_def split: sum.splits if_splits)
    with p Inl show ?thesis by (simp add: preview_series_def)
  next
    case (Inr b)
    with p show ?thesis
      by (auto simp: preview_series_def ebind_def split: list.splits prod.splits sum.splits dest: classify_series_error)
  qed
qed

lemma detect_error: "detect offered stored bar p = Inl e \<Longrightarrow> e = ValueError"
  by (auto simp: detect_def Let_def ebind_def price_multiple_def volume_multiple_def split: sum.splits if_splits)

lemma apply_series_error:
  assumes ok: "raw_ok (ig_raw db)" "raw_finite (ig_raw db)" and one: "rows \<noteq> []" "\<forall>r \<in> set rows. row_series r = s"
    and e: "apply_series caller request_id t params new_id now (s, rows) db = Inl e"
  shows "e = ValueError"
proof (cases "preview_series (ig_raw db) rows t")
  case (Inl x)
  with e preview_error [OF Inl] show ?thesis by (simp add: apply_series_def Let_def)
next
  case (Inr delta)
  let ?latest = "dict_of (map (\<lambda>r. (sb_timestamp r, r)) rows)"
  show ?thesis
  proof (cases "detect (offered_values ?latest delta) (stored_at_offer ?latest delta) (bar_length (fst (snd s))) (kp_detector params)")
    case (Inl x)
    with e detect_error [OF Inl] \<open>preview_series _ _ _ = _\<close> show ?thesis by (simp add: apply_series_def Let_def)
  next
    case (Inr restatement)
    show ?thesis
    proof (cases "write_raw (ig_raw db) rows (new_id s) request_id t (kp_vendor_codes params) (kp_kind_codes params) (kp_write params) now")
      case (Inl x)
      with e write_raw_error [OF ok Inl] Inr \<open>preview_series _ _ _ = _\<close> show ?thesis by (simp add: apply_series_def Let_def)
    next
      case (Inr y)
      obtain ws raw where y: "y = (ws, raw)" by (cases y)
      from preview_is_written [OF one \<open>preview_series _ _ _ = _\<close> Inr [unfolded y]] e Inr y \<open>detect _ _ _ _ = _\<close> \<open>preview_series _ _ _ = _\<close>
      show ?thesis by (simp add: apply_series_def Let_def)
    qed
  qed
qed

lemma apply_series_parts:
  assumes one: "rows \<noteq> []" "\<forall>r \<in> set rows. row_series r = s"
    and run: "apply_series caller request_id t params new_id now (s, rows) db = Inr (x, db')"
  obtains delta where
    "preview_series (ig_raw db) rows t = Inr delta" "sx_series x = s" "sx_stamps x = sorted_set (map sb_timestamp rows)" "sx_delta x = delta"
    "sx_load x = new_id s"
    "detect (offered_values (dict_of (map (\<lambda>r. (sb_timestamp r, r)) rows)) delta) (stored_at_offer (dict_of (map (\<lambda>r. (sb_timestamp r, r)) rows)) delta)
       (bar_length (fst (snd s))) (kp_detector params) = Inr (sx_restatement x)"
    "write_raw (ig_raw db) rows (new_id s) request_id t (kp_vendor_codes params) (kp_kind_codes params) (kp_write params) now = Inr ([delta], ig_raw db')"
    "ig_canonical db' = ig_canonical db" "ig_policy db' = ig_policy db"
    "ig_loads db' = ig_loads db @ [load_of (new_id s) s caller (sorted_set (map sb_timestamp rows)) delta]"
    "ig_flags db' = ig_flags db @ (if flagged (sx_restatement x) then [record_flag (new_id s) s (sx_restatement x) now] else [])"
proof -
  from run obtain delta restatement ws raw where
    p: "preview_series (ig_raw db) rows t = Inr delta" and
    d: "detect (offered_values (dict_of (map (\<lambda>r. (sb_timestamp r, r)) rows)) delta) (stored_at_offer (dict_of (map (\<lambda>r. (sb_timestamp r, r)) rows)) delta)
       (bar_length (fst (snd s))) (kp_detector params) = Inr restatement" and
    w: "write_raw (ig_raw db) rows (new_id s) request_id t (kp_vendor_codes params) (kp_kind_codes params) (kp_write params) now = Inr (ws, raw)"
    by (auto simp: apply_series_def Let_def ebind_eq_Inr)
  have ws: "ws = [delta]" by (rule preview_is_written [OF one p w])
  from run p d w ws have x: "x = \<lparr>sx_series = s, sx_stamps = sorted_set (map sb_timestamp rows), sx_delta = delta, sx_load = new_id s, sx_restatement = restatement\<rparr>"
    and db': "db' = db\<lparr>ig_raw := raw, ig_loads := ig_loads db @ [load_of (new_id s) s caller (sorted_set (map sb_timestamp rows)) delta],
       ig_flags := ig_flags db @ (if flagged restatement then [record_flag (new_id s) s restatement now] else [])\<rparr>"
    by (simp_all add: apply_series_def Let_def)
  show ?thesis by (rule that [of delta]) (use p d w ws in \<open>simp_all add: x db'\<close>)
qed

section \<open>All the series of a chunk\<close>

text \<open>The rows of a chunk by series, each series once.\<close>

definition by_series_ok :: "(series \<times> served_bar list) list \<Rightarrow> bool" where
  "by_series_ok ss \<longleftrightarrow> distinct (map fst ss) \<and> (\<forall>(s, rows) \<in> set ss. rows \<noteq> [] \<and> (\<forall>r \<in> set rows. row_series r = s))"

lemma by_series_Cons: "by_series_ok ((s, rows) # ss) \<longleftrightarrow> s \<notin> fst ` set ss \<and> rows \<noteq> [] \<and> (\<forall>r \<in> set rows. row_series r = s) \<and> by_series_ok ss"
  unfolding by_series_ok_def by (simp only: list.map distinct.simps list.set ball_simps prod.case fst_conv set_map) blast

lemma offers_key: "\<forall>r \<in> set rows. row_series r = s \<Longrightarrow> offers rows k = Some r \<Longrightarrow> fst k = s"
  using offers_Some [of rows k r] by (auto simp: offer_key_def)

definition raw_after :: "(series \<times> served_bar list) list \<Rightarrow> raw_db \<Rightarrow> stamp \<Rightarrow> string \<Rightarrow> (series \<Rightarrow> string) \<Rightarrow> raw_key \<Rightarrow> raw_entry option" where
  "raw_after ss raw t request_id new_id k =
     (case map_of ss (fst k) of
        None \<Rightarrow> map_of (rd_raw raw) k
      | Some rows \<Rightarrow> kept (map_of (rd_raw raw) k) (offers rows k) t request_id (new_id (fst k)))"

lemma apply_all_parts:
  assumes "apply_all (apply_series caller request_id t params new_id now) ss db = Inr (xs, db')" "by_series_ok ss"
    "raw_ok (ig_raw db)" "raw_finite (ig_raw db)"
  shows "raw_ok (ig_raw db') \<and> raw_finite (ig_raw db') \<and> ig_canonical db' = ig_canonical db \<and> ig_policy db' = ig_policy db \<and>
    (\<forall>k. map_of (rd_raw (ig_raw db')) k = raw_after ss (ig_raw db) t request_id new_id k) \<and>
    list_all2 (\<lambda>(s, rows) x. sx_series x = s \<and> sx_stamps x = sorted_set (map sb_timestamp rows) \<and> sx_load x = new_id s) ss xs \<and>
    ig_loads db' = ig_loads db @ map (\<lambda>x. load_of (sx_load x) (sx_series x) caller (sx_stamps x) (sx_delta x)) xs \<and>
    ig_flags db' = ig_flags db @ map (\<lambda>x. record_flag (sx_load x) (sx_series x) (sx_restatement x) now) (filter (\<lambda>x. flagged (sx_restatement x)) xs)"
  using assms
proof (induction ss arbitrary: db xs)
  case Nil
  then show ?case by (simp add: raw_after_def)
next
  case (Cons a ss)
  obtain s rows where a: "a = (s, rows)" by (cases a)
  from Cons.prems(2) have one: "rows \<noteq> []" "\<forall>r \<in> set rows. row_series r = s" and fresh: "s \<notin> fst ` set ss" and rest: "by_series_ok ss"
    unfolding a by_series_Cons by blast+
  from Cons.prems(1) obtain x db1 ys where x: "apply_series caller request_id t params new_id now (s, rows) db = Inr (x, db1)"
    and ys: "apply_all (apply_series caller request_id t params new_id now) ss db1 = Inr (ys, db')" "xs = x # ys"
    by (auto simp: a ebind_eq_Inr)
  from one x obtain delta where w: "write_raw (ig_raw db) rows (new_id s) request_id t (kp_vendor_codes params) (kp_kind_codes params) (kp_write params) now =
      Inr ([delta], ig_raw db1)" and sx: "sx_series x = s" "sx_stamps x = sorted_set (map sb_timestamp rows)" "sx_delta x = delta" "sx_load x = new_id s"
    and same: "ig_canonical db1 = ig_canonical db" "ig_policy db1 = ig_policy db"
    and loads: "ig_loads db1 = ig_loads db @ [load_of (new_id s) s caller (sorted_set (map sb_timestamp rows)) delta]"
    and flags: "ig_flags db1 = ig_flags db @ (if flagged (sx_restatement x) then [record_flag (new_id s) s (sx_restatement x) now] else [])"
    by (rule apply_series_parts) blast
  from write_raw_effect [OF Cons.prems(3) w] have ok1: "raw_ok (ig_raw db1)"
    and look: "\<And>k. map_of (rd_raw (ig_raw db1)) k = kept (map_of (rd_raw (ig_raw db)) k) (offers rows k) t request_id (new_id s)" by blast+
  have fin1: "raw_finite (ig_raw db1)" by (rule write_raw_finite [OF Cons.prems(3,4) w])
  note IH = Cons.IH [OF ys(1) rest ok1 fin1]
  have "raw_after ss (ig_raw db1) t request_id new_id k = raw_after (a # ss) (ig_raw db) t request_id new_id k" for k
  proof (cases "fst k = s")
    case True
    then have "map_of ss (fst k) = None" using fresh by (simp add: map_of_eq_None_iff)
    with True show ?thesis by (simp add: raw_after_def a look)
  next
    case False
    then have "offers rows k = None" using offers_key [OF one(2)] by (metis not_Some_eq)
    then have same: "map_of (rd_raw (ig_raw db1)) k = map_of (rd_raw (ig_raw db)) k" by (simp add: look kept_def)
    show ?thesis unfolding raw_after_def a same using False by simp
  qed
  with IH have raw: "\<forall>k. map_of (rd_raw (ig_raw db')) k = raw_after (a # ss) (ig_raw db) t request_id new_id k" by metis
  show ?case
    using IH raw by (simp only: ys(2) a list_all2_Cons prod.case sx same loads flags) (simp add: sx)
qed

lemma apply_all_error:
  assumes "apply_all (apply_series caller request_id t params new_id now) ss db = Inl e" "by_series_ok ss" "raw_ok (ig_raw db)" "raw_finite (ig_raw db)"
  shows "e = ValueError"
  using assms
proof (induction ss arbitrary: db)
  case (Cons a ss)
  obtain s rows where a: "a = (s, rows)" by (cases a)
  from Cons.prems(2) have one: "rows \<noteq> []" "\<forall>r \<in> set rows. row_series r = s" and rest: "by_series_ok ss"
    unfolding a by_series_Cons by blast+
  show ?case
  proof (cases "apply_series caller request_id t params new_id now (s, rows) db")
    case (Inl x)
    with Cons.prems(1) apply_series_error [OF Cons.prems(3,4) one Inl] show ?thesis by (simp add: a)
  next
    case (Inr y)
    obtain x db1 where y: "y = (x, db1)" by (cases y)
    from one Inr obtain delta where w: "write_raw (ig_raw db) rows (new_id s) request_id t (kp_vendor_codes params) (kp_kind_codes params) (kp_write params) now =
        Inr ([delta], ig_raw db1)" unfolding y by (rule apply_series_parts) blast
    have "apply_all (apply_series caller request_id t params new_id now) ss db1 = Inl e"
      using Cons.prems(1) Inr by (auto simp: a y ebind_def split: sum.splits)
    from Cons.IH [OF this rest] write_raw_effect [OF Cons.prems(3) w] write_raw_finite [OF Cons.prems(3,4) w] show ?thesis by blast
  qed
qed simp

section \<open>Selection of the spans\<close>

definition selection_errors :: "err set" where "selection_errors = {ValueError, LookupError, KeyError}"

lemma rth_grid_stamps_error: "rth_grid_stamps cal tf a b = Inl e \<Longrightarrow> e \<in> selection_errors"
  by (auto simp: rth_grid_stamps_def nyse_sessions_def selection_errors_def split: option.splits if_splits)

lemma rank_scopes_error: "rank_scopes rows scopes = Inl e \<Longrightarrow> e \<in> selection_errors"
  by (induction rows scopes rule: rank_scopes.induct) (auto simp: selection_errors_def split: list.splits)

lemma ebind_error: "ebind m f = Inl e \<longleftrightarrow> m = Inl e \<or> (\<exists>x. m = Inr x \<and> f x = Inl e)"
  by (cases m) auto

lemma held_by_error: "held_by ko slots v = Inl e \<Longrightarrow> e \<in> selection_errors"
  by (auto simp: held_by_def ebind_error selection_errors_def dest!: emap_Inl_ex dest: select_slot_error)

lemma rank_vendors_error: "rank_vendors rows symbol tf d = Inl e \<Longrightarrow> e \<in> selection_errors"
  unfolding rank_vendors_def by (rule rank_scopes_error)

lemma session_grid_error: "session_grid cal ny tf d = Inl e \<Longrightarrow> e \<in> selection_errors"
  by (auto simp: session_grid_def grid_by_session_def ebind_error split: if_splits dest: rth_grid_stamps_error)

lemma select_session_error:
  assumes "select_session cal ny P ko s = Inl e"
  shows "e \<in> selection_errors"
proof -
  obtain symbol tf d slots where s: "s = ((symbol, tf, d), slots)" by (metis surj_pair)
  from assms have "(\<exists>rows. rank_vendors rows symbol tf d = Inl e) \<or> (\<exists>v. held_by ko slots v = Inl e) \<or> session_grid cal ny tf d = Inl e"
    unfolding s select_session_def prod.case Let_def by (auto simp: ebind_error dest!: emap_Inl_ex)
  then show ?thesis
    by (blast dest: rank_vendors_error held_by_error session_grid_error)
qed

lemma select_slots_error: "select_slots cal ny cs P ko = Inl e \<Longrightarrow> e \<in> selection_errors"
  by (auto simp: select_slots_def Let_def ebind_error partition_session_def session_grids_def emap_dict_def
      dest!: emap_Inl_ex dest: select_session_error rth_grid_stamps_error)

lemma select_and_write_error:
  assumes "select_and_write cal ny mid raw pol now q symbols db = Inl e"
  shows "e \<in> selection_errors"
proof (cases "rs_timeframe q \<in> set DIRECT_TIMEFRAMES \<and> 1 \<le> rs_batch_rows q")
  case True
  have "select_symbols (select_symbol cal ny mid raw pol now q) ss (n, db) = Inl e \<Longrightarrow> e \<in> selection_errors" for ss n db
  proof (induction ss arbitrary: n db)
    case (Cons s ss)
    show ?case
    proof (cases "outcome_of cal ny mid raw pol q s")
      case (Inl x)
      with Cons.prems show ?thesis
        by (auto simp: select_symbol_def outcome_of_def Let_def split: prod.splits dest: select_slots_error)
    next
      case (Inr out)
      obtain m1 db1 where "select_symbol cal ny mid raw pol now q s (n, db) = Inr (m1, db1)"
        by (rule select_symbol_effect [OF Inr, where now = now and n = n and db = db]) (use True in blast)+
      with Cons show ?thesis by simp
    qed
  qed simp
  with assms True show ?thesis by (auto simp: select_and_write_def)
qed (use assms in \<open>auto simp: select_and_write_def selection_errors_def\<close>)

lemma select_spans_error: "select_spans cal ny mid params now spans db = Inl e \<Longrightarrow> e \<in> selection_errors"
  by (induction cal ny mid params now spans db rule: select_spans.induct)
    (auto simp: ebind_error split: if_splits dest: select_and_write_error)

section \<open>A whole chunk\<close>

lemma grouped_ok: "by_series_ok (sort_key fst (group_by row_series rows))"
proof -
  have "distinct (map fst (sort_key fst (group_by row_series rows)))"
    by (subst mset_eq_imp_distinct_iff [of _ "map fst (group_by row_series rows)"]) simp_all
  moreover have "rs \<noteq> [] \<and> (\<forall>r \<in> set rs. row_series r = s)" if "(s, rs) \<in> set (group_by row_series rows)" for s rs
  proof -
    from group_by_entry [OF that] have rs: "rs = filter (\<lambda>r. row_series r = s) rows" "rs \<noteq> []" by blast+
    from rs(2) show ?thesis by (subst (2) rs(1)) simp
  qed
  ultimately show ?thesis unfolding by_series_ok_def set_sort by blast
qed

lemma map_of_sorted: "distinct (map fst xs) \<Longrightarrow> map_of (sort_key fst xs) k = map_of xs k"
proof -
  assume d: "distinct (map fst xs)"
  then have d': "distinct (map fst (sort_key fst xs))" by (subst mset_eq_imp_distinct_iff [of _ "map fst xs"]) simp_all
  show ?thesis by (rule option_ext) (simp only: map_of_eq_Some_iff [OF d] map_of_eq_Some_iff [OF d'] set_sort)
qed

lemma offers_filter: "offers (filter (\<lambda>r. row_series r = fst k) rows) k = offers rows k"
proof -
  have "find (\<lambda>r. offer_key r = k) (filter (\<lambda>r. row_series r = fst k) xs) = find (\<lambda>r. offer_key r = k) xs" for xs
    by (induction xs) (auto simp: offer_key_def)
  then show ?thesis unfolding offers_def rev_map map_of_tagged rev_filter [symmetric] by (simp only: rev_filter)
qed

lemma select_spans_effect:
  assumes "select_spans cal ny mid params now spans db = Inr (ns, db')" "distinct (map fst spans)"
  shows "ig_raw db' = ig_raw db \<and> ig_policy db' = ig_policy db \<and> ig_loads db' = ig_loads db \<and> ig_flags db' = ig_flags db \<and>
    (\<forall>s tf ts. cd_bars (ig_canonical db') (s, tf, ts) =
      (case map_of spans (s, tf) of
         None \<Rightarrow> cd_bars (ig_canonical db) (s, tf, ts)
       | Some stamps \<Rightarrow>
           if tf \<in> set DIRECT_TIMEFRAMES
           then canonical_after (projr (outcome_of cal ny mid (candidates_of (ig_raw db)) (ig_policy db) (span_request params tf stamps) s)) []
                  (cd_bars (ig_canonical db)) (s, tf, ts)
           else cd_bars (ig_canonical db) (s, tf, ts)))"
  using assms
proof (induction spans arbitrary: db ns)
  case (Cons a spans)
  obtain symbol timeframe stamps where a: "a = ((symbol, timeframe), stamps)" by (metis surj_pair)
  from Cons.prems(2) have fresh: "(symbol, timeframe) \<notin> set (map fst spans)" and rest: "distinct (map fst spans)" by (simp_all add: a)
  from fresh have none: "map_of spans (symbol, timeframe) = None" by (simp add: map_of_eq_None_iff)
  show ?case
  proof (cases "timeframe \<in> set DIRECT_TIMEFRAMES")
    case False
    with Cons.prems(1) have "select_spans cal ny mid params now spans db = Inr (ns, db')" by (simp add: a)
    from Cons.IH [OF this rest] False none show ?thesis by (auto simp: a)
  next
    case True
    let ?q = "span_request params timeframe stamps"
    from Cons.prems(1) True obtain n canonical ms where
      run: "select_and_write cal ny mid (candidates_of (ig_raw db)) (ig_policy db) now ?q [symbol] (ig_canonical db) = Inr (n, canonical)"
      and tail: "select_spans cal ny mid params now spans (db\<lparr>ig_canonical := canonical\<rparr>) = Inr (ms, db')"
      by (auto simp: a ebind_eq_Inr)
    have bars: "cd_bars canonical = canonical_expected cal ny mid (candidates_of (ig_raw db)) (ig_policy db) ?q {symbol} (cd_bars (ig_canonical db))"
      using select_and_write_effect(1) [OF run] by simp
    have q: "rs_timeframe ?q = timeframe" "rs_exclude ?q = []" by (simp_all add: span_request_def)
    have here: "cd_bars canonical (symbol, timeframe, ts) =
        canonical_after (projr (outcome_of cal ny mid (candidates_of (ig_raw db)) (ig_policy db) ?q symbol)) [] (cd_bars (ig_canonical db)) (symbol, timeframe, ts)" for ts
      unfolding bars using expected_at(1) [of symbol "{symbol}" cal ny mid "candidates_of (ig_raw db)" "ig_policy db" ?q] by (simp add: q)
    have other: "cd_bars canonical (s, tf, ts) = cd_bars (ig_canonical db) (s, tf, ts)" if "(s, tf) \<noteq> (symbol, timeframe)" for s tf ts
      unfolding bars using that by (intro expected_at(2)) (simp add: q)
    note IH = Cons.IH [OF tail rest]
    have "cd_bars (ig_canonical db') (s, tf, ts) =
      (case map_of (a # spans) (s, tf) of
         None \<Rightarrow> cd_bars (ig_canonical db) (s, tf, ts)
       | Some stamps \<Rightarrow>
           if tf \<in> set DIRECT_TIMEFRAMES
           then canonical_after (projr (outcome_of cal ny mid (candidates_of (ig_raw db)) (ig_policy db) (span_request params tf stamps) s)) []
                  (cd_bars (ig_canonical db)) (s, tf, ts)
           else cd_bars (ig_canonical db) (s, tf, ts))" for s tf ts
    proof (cases "(s, tf) = (symbol, timeframe)")
      case True
      then have "cd_bars (ig_canonical db') (s, tf, ts) = cd_bars canonical (symbol, timeframe, ts)" using IH none by simp
      with True here \<open>timeframe \<in> set DIRECT_TIMEFRAMES\<close> show ?thesis by (simp add: a)
    next
      case False
      have eq: "cd_bars (ig_canonical (db\<lparr>ig_canonical := canonical\<rparr>)) (s, tf, ts) = cd_bars (ig_canonical db) (s, tf, ts)"
        using other [OF False] by simp
      from False have m: "map_of (a # spans) (s, tf) = map_of spans (s, tf)" by (auto simp: a)
      show ?thesis
        unfolding m using IH after_local [where k = "(s, tf, ts)" and bars = "cd_bars canonical" and bars' = "cd_bars (ig_canonical db)", OF other [OF False]] other [OF False]
        by (cases "map_of spans (s, tf)") simp_all
    qed
    with IH show ?thesis by simp
  qed
qed simp

definition series_pair :: "series \<Rightarrow> string \<times> string" where "series_pair s = (fst s, fst (snd s))"

lemma spans_lookup:
  "map_of (spans_of xs) k =
    (if k \<in> (\<lambda>x. series_pair (sx_series x)) ` set xs
     then Some (concat (map sx_stamps (filter (\<lambda>x. series_pair (sx_series x) = k) xs))) else None)"
  "distinct (map fst (spans_of xs))"
proof -
  let ?g = "group_by (\<lambda>x. series_pair (sx_series x)) xs"
  have spans: "spans_of xs = map (\<lambda>(k, ys). (k, concat (map sx_stamps ys))) (sort_key fst ?g)" by (simp add: spans_of_def series_pair_def)
  have look: "map_of (map (\<lambda>(k, ys). (k, concat (map sx_stamps ys))) zs) k = map_option (\<lambda>ys. concat (map sx_stamps ys)) (map_of zs k)" for zs
    by (induction zs) auto
  then show "map_of (spans_of xs) k = (if k \<in> (\<lambda>x. series_pair (sx_series x)) ` set xs
     then Some (concat (map sx_stamps (filter (\<lambda>x. series_pair (sx_series x) = k) xs))) else None)"
    unfolding spans look map_of_sorted [OF group_by_distinct] group_by_lookup by simp
  have "map fst (spans_of xs) = map fst (sort_key fst ?g)" unfolding spans by (simp add: case_prod_beta comp_def)
  then show "distinct (map fst (spans_of xs))" by (subst mset_eq_imp_distinct_iff [of _ "map fst ?g"]) simp_all
qed


text \<open>The stamps a chunk offers of a (symbol, timeframe).\<close>

definition touched :: "served_bar list \<Rightarrow> string \<Rightarrow> string \<Rightarrow> stamp list" where
  "touched rows symbol timeframe = map sb_timestamp (filter (\<lambda>r. sb_symbol r = symbol \<and> sb_timeframe r = timeframe) rows)"

lemma span_request_cong: "set stamps = set stamps' \<Longrightarrow> span_request params tf stamps = span_request params tf stamps'"
  by (simp add: span_request_def)

lemma series_pair_row: "series_pair (row_series r) = (sb_symbol r, sb_timeframe r)"
  by (simp add: series_pair_def row_series_def)

lemma all2_left: "list_all2 R xs ys \<Longrightarrow> x \<in> set xs \<Longrightarrow> \<exists>y \<in> set ys. R x y"
  by (induction rule: list_all2_induct) auto

lemma all2_right: "list_all2 R xs ys \<Longrightarrow> y \<in> set ys \<Longrightarrow> \<exists>x \<in> set xs. R x y"
  by (induction rule: list_all2_induct) auto

lemma spans_touched:
  assumes all: "list_all2 (\<lambda>(s, rs) x. sx_series x = s \<and> sx_stamps x = sorted_set (map sb_timestamp rs) \<and> sx_load x = new_id s)
      (sort_key fst (group_by row_series rows)) xs"
  shows "case map_of (spans_of xs) (s, tf) of None \<Rightarrow> touched rows s tf = [] | Some stamps \<Rightarrow> touched rows s tf \<noteq> [] \<and> set stamps = set (touched rows s tf)"
proof -
  have fwd: "\<exists>rs. (sx_series x, rs) \<in> set (group_by row_series rows) \<and> sx_stamps x = sorted_set (map sb_timestamp rs)" if "x \<in> set xs" for x
    using all2_right [OF all that] by auto
  have bwd: "\<exists>x \<in> set xs. sx_series x = sr \<and> sx_stamps x = sorted_set (map sb_timestamp rs)" if "(sr, rs) \<in> set (group_by row_series rows)" for sr rs
    using all2_left [OF all, of "(sr, rs)"] that by auto
  let ?T = "\<Union>x \<in> {x \<in> set xs. series_pair (sx_series x) = (s, tf)}. set (sx_stamps x)"
  have T: "?T = set (touched rows s tf)"
  proof (rule set_eqI, rule iffI)
    fix ts assume "ts \<in> ?T"
    then obtain x where x: "x \<in> set xs" "series_pair (sx_series x) = (s, tf)" "ts \<in> set (sx_stamps x)" by blast
    from fwd [OF x(1)] obtain rs where rs: "(sx_series x, rs) \<in> set (group_by row_series rows)" "sx_stamps x = sorted_set (map sb_timestamp rs)" by blast
    from rs(2) x(3) obtain r where "r \<in> set rs" "ts = sb_timestamp r" by auto
    moreover from group_by_entry [OF rs(1)] this have "r \<in> set rows" "row_series r = sx_series x" by auto
    ultimately show "ts \<in> set (touched rows s tf)" using x(2) series_pair_row [of r] by (auto simp: touched_def)
  next
    fix ts assume "ts \<in> set (touched rows s tf)"
    then obtain r where r: "r \<in> set rows" "ts = sb_timestamp r" "sb_symbol r = s" "sb_timeframe r = tf" by (auto simp: touched_def)
    let ?rs = "filter (\<lambda>q. row_series q = row_series r) rows"
    have "map_of (group_by row_series rows) (row_series r) = Some ?rs" using r(1) by (simp add: group_by_lookup)
    from bwd [OF map_of_SomeD [OF this]] obtain x where "x \<in> set xs" "sx_series x = row_series r" "sx_stamps x = sorted_set (map sb_timestamp ?rs)" by blast
    moreover have "r \<in> set ?rs" using r(1) by simp
    ultimately show "ts \<in> ?T" using r series_pair_row [of r] by (auto intro!: bexI [of _ x])
  qed
  show ?thesis
  proof (cases "(s, tf) \<in> (\<lambda>x. series_pair (sx_series x)) ` set xs")
    case True
    then obtain x where x: "x \<in> set xs" "series_pair (sx_series x) = (s, tf)" by (metis imageE)
    from fwd [OF x(1)] group_by_entry have "sx_stamps x \<noteq> []" by (metis map_is_Nil_conv set_empty set_sorted_set)
    then have "?T \<noteq> {}" using x by (auto simp: neq_Nil_conv intro!: exI [of _ x])
    then have "touched rows s tf \<noteq> []" unfolding T by auto
    moreover have "set (concat (map sx_stamps (filter (\<lambda>x. series_pair (sx_series x) = (s, tf)) xs))) = ?T" by auto
    ultimately show ?thesis using True T by (simp add: spans_lookup)
  next
    case False
    then have "?T = {}" by force
    with False T show ?thesis by (simp add: spans_lookup)
  qed
qed


lemma chunk_raw:
  "raw_after (sort_key fst (group_by row_series rows)) raw t request_id new_id k =
   kept (map_of (rd_raw raw) k) (offers rows k) t request_id (new_id (fst k))"
proof (cases "fst k \<in> row_series ` set rows")
  case True
  then show ?thesis unfolding raw_after_def map_of_sorted [OF group_by_distinct] group_by_lookup by (simp add: offers_filter)
next
  case False
  then have "offers rows k = None" unfolding offers_None by (auto simp: offer_key_def)
  with False show ?thesis unfolding raw_after_def map_of_sorted [OF group_by_distinct] group_by_lookup by (simp add: kept_def)
qed

lemma contract_effect:
  assumes ok: "raw_ok (ig_raw db)" "raw_finite (ig_raw db)"
    and run: "apply_raw_contract cal ny mid db rows caller request_id t params new_id now = Inr (res, db')"
  shows "raw_ok (ig_raw db') \<and> raw_finite (ig_raw db') \<and> ig_policy db' = ig_policy db \<and>
    (\<forall>k. map_of (rd_raw (ig_raw db')) k = kept (map_of (rd_raw (ig_raw db)) k) (offers rows k) t request_id (new_id (fst k))) \<and>
    ig_flags db' = ig_flags db @ map (\<lambda>f. record_flag (fs_load f) (fs_series f) (fs_restatement f) now) (ir_flagged res) \<and>
    (\<forall>s tf ts. cd_bars (ig_canonical db') (s, tf, ts) =
      (if tf \<in> set DIRECT_TIMEFRAMES \<and> touched rows s tf \<noteq> []
       then canonical_after (projr (outcome_of cal ny mid (candidates_of (ig_raw db')) (ig_policy db) (span_request params tf (touched rows s tf)) s)) []
              (cd_bars (ig_canonical db)) (s, tf, ts)
       else cd_bars (ig_canonical db) (s, tf, ts)))"
proof (cases "rows = []")
  case True
  with run ok show ?thesis by (auto simp: apply_raw_contract_def no_rows_def offers_def kept_def touched_def)
next
  case False
  let ?ss = "sort_key fst (group_by row_series rows)"
  from run False obtain xs db1 ns where
    all: "apply_all (apply_series caller request_id t params new_id now) ?ss db = Inr (xs, db1)"
    and spans: "select_spans cal ny mid params now (spans_of xs) db1 = Inr (ns, db')" and res: "res = result_of_chunk rows xs ns"
    by (auto simp: apply_raw_contract_def ebind_eq_Inr)
  note parts = apply_all_parts [OF all grouped_ok ok, unfolded chunk_raw]
  note eff = select_spans_effect [OF spans spans_lookup(2)]
  from parts have xs: "list_all2 (\<lambda>(s, rs) x. sx_series x = s \<and> sx_stamps x = sorted_set (map sb_timestamp rs) \<and> sx_load x = new_id s) ?ss xs" by blast
  have bars: "cd_bars (ig_canonical db') (s, tf, ts) =
      (if tf \<in> set DIRECT_TIMEFRAMES \<and> touched rows s tf \<noteq> []
       then canonical_after (projr (outcome_of cal ny mid (candidates_of (ig_raw db')) (ig_policy db) (span_request params tf (touched rows s tf)) s)) []
              (cd_bars (ig_canonical db)) (s, tf, ts)
       else cd_bars (ig_canonical db) (s, tf, ts))" for s tf ts
  proof (cases "map_of (spans_of xs) (s, tf)")
    case None
    with spans_touched [OF xs, of s tf] eff parts show ?thesis by simp
  next
    case (Some stamps)
    with spans_touched [OF xs, of s tf] have "touched rows s tf \<noteq> []" "set stamps = set (touched rows s tf)" by simp_all
    with span_request_cong [OF this(2), of params tf] Some eff parts show ?thesis by simp
  qed
  have "ig_flags db' = ig_flags db @ map (\<lambda>f. record_flag (fs_load f) (fs_series f) (fs_restatement f) now) (ir_flagged res)"
    using parts eff by (simp add: res result_of_chunk_def comp_def)
  with bars parts eff show ?thesis by simp
qed

section \<open>Reachable databases\<close>

text \<open>The contract, the reviews, changes of the policy, and selections asked for elsewhere, in any order.\<close>

inductive ingress_reach :: "schedule \<Rightarrow> (stamp \<Rightarrow> day) \<Rightarrow> (day \<Rightarrow> stamp) \<Rightarrow> ingress_db \<Rightarrow> bool" for cal ny mid where
  start: "ingress_reach cal ny mid
    \<lparr>ig_raw = empty_raw, ig_canonical = \<lparr>cd_bars = (\<lambda>_. None), cd_choices = (\<lambda>_. None)\<rparr>, ig_policy = pol, ig_loads = [], ig_flags = []\<rparr>"
| chunk: "ingress_reach cal ny mid db \<Longrightarrow>
    apply_raw_contract cal ny mid db rows caller request_id t params new_id now = Inr (res, db') \<Longrightarrow> ingress_reach cal ny mid db'"
| review: "ingress_reach cal ny mid db \<Longrightarrow> mark_reviewed db load_ids reviewed_by remark now = Inr (n, db') \<Longrightarrow> ingress_reach cal ny mid db'"
| repolicy: "ingress_reach cal ny mid db \<Longrightarrow> ingress_reach cal ny mid (db\<lparr>ig_policy := pol\<rparr>)"
| reselect: "ingress_reach cal ny mid db \<Longrightarrow>
    select_and_write cal ny mid (candidates_of (ig_raw db)) (ig_policy db) now q symbols (ig_canonical db) = Inr (n, canonical) \<Longrightarrow>
    ingress_reach cal ny mid (db\<lparr>ig_canonical := canonical\<rparr>)"

lemma ingress_raw: "ingress_reach cal ny mid db \<Longrightarrow> raw_ok (ig_raw db) \<and> raw_finite (ig_raw db)"
proof (induction rule: ingress_reach.induct)
  case (chunk db rows caller request_id t params new_id now res db')
  from contract_effect [OF _ _ chunk.hyps(2)] chunk.IH show ?case by blast
next
  case (review db load_ids reviewed_by remark now n db')
  then show ?case by (auto simp: mark_reviewed_def Let_def split: if_splits)
qed (simp_all add: raw_ok_def raw_finite_def empty_raw_def)

section \<open>Properties of the contract\<close>

text \<open>C10. What a chunk leaves.  On every reachable database a call that returns puts each offered key into the raw table as the
  serve-time rule says and no other key, records every flagged series with its restatement, and leaves in the canonical table of
  each direct series it touches, over the whole sessions it touches, what the selection of the new raw rows under the policy in
  force leaves; every other canonical bar keeps its row.\<close>

theorem contract_writes:
  assumes "ingress_reach cal ny mid db"
    and "apply_raw_contract cal ny mid db rows caller request_id t params new_id now = Inr (res, db')"
  shows "map_of (rd_raw (ig_raw db')) k = kept (map_of (rd_raw (ig_raw db)) k) (offers rows k) t request_id (new_id (fst k)) \<and>
    ig_flags db' = ig_flags db @ map (\<lambda>f. record_flag (fs_load f) (fs_series f) (fs_restatement f) now) (ir_flagged res) \<and>
    cd_bars (ig_canonical db') (s, tf, ts) =
      (if tf \<in> set DIRECT_TIMEFRAMES \<and> touched rows s tf \<noteq> []
       then canonical_after (projr (outcome_of cal ny mid (candidates_of (ig_raw db')) (ig_policy db) (span_request params tf (touched rows s tf)) s)) []
              (cd_bars (ig_canonical db)) (s, tf, ts)
       else cd_bars (ig_canonical db) (s, tf, ts))"
  using contract_effect [OF _ _ assms(2)] ingress_raw [OF assms(1)] by blast


section \<open>A chunk of two bars\<close>

definition ex_params :: contract_params where
  "ex_params = \<lparr>kp_detector = ex_detector, kp_write = \<lparr>wp_batch_rows = 1, wp_future_tolerance_s = 0\<rparr>, kp_vendor_codes = [''ibkr''],
     kp_kind_codes = [''trades''], kp_kind_order = [(''trades'', 1)]\<rparr>"

definition ex_ingress :: "policy list \<Rightarrow> ingress_db" where
  "ex_ingress pol = \<lparr>ig_raw = empty_raw, ig_canonical = \<lparr>cd_bars = (\<lambda>_. None), cd_choices = (\<lambda>_. None)\<rparr>, ig_policy = pol,
     ig_loads = [], ig_flags = []\<rparr>"

definition ex_ibkr_only :: "policy list" where
  "ex_ibkr_only = [\<lparr>po_timeframe = ''5m'', po_symbol = None, po_valid_from = 0, po_valid_to = None, po_ingress_mode = ''direct'',
     po_primary = ''ibkr'', po_fallback = None\<rparr>]"

lemma ex_chunk:
  "map_sum id (\<lambda>(res, db). (ir_n_new res, ir_selected_slots res, cd_bars (ig_canonical db) (''AA'', ''5m'', 0)))
     (apply_raw_contract [] utc_day ex_midnight (ex_ingress ex_ibkr_only) [bar_at 0 1, bar_at 1 2] ''c'' ''r'' 1 ex_params (\<lambda>_. ''l'') 10) =
   Inr (2, 2, Some \<lparr>cr_open = 1, cr_high = 1, cr_low = 1, cr_close = 1, cr_volume = 7, cr_vendor = ''ibkr'', cr_kind = ''trades''\<rparr>)"
  by code_simp

lemma ex_reach: "ingress_reach cal ny mid (ex_ingress pol)"
  unfolding ex_ingress_def by (rule ingress_reach.start)

lemma contract_writes_witness:
  "\<exists>res db'. apply_raw_contract [] utc_day ex_midnight (ex_ingress ex_ibkr_only) [bar_at 0 1, bar_at 1 2] ''c'' ''r'' 1 ex_params (\<lambda>_. ''l'') 10 =
       Inr (res, db') \<and>
     map_of (rd_raw (ig_raw db')) (offer_key (bar_at 0 1)) =
       Some \<lparr>re_values = row_values (bar_at 0 1), re_served = Some 1, re_request = Some ''r'', re_load = Some ''l''\<rparr>"
proof -
  obtain res db' where run: "apply_raw_contract [] utc_day ex_midnight (ex_ingress ex_ibkr_only) [bar_at 0 1, bar_at 1 2] ''c'' ''r'' 1 ex_params
      (\<lambda>_. ''l'') 10 = Inr (res, db')"
    using ex_chunk by (cases "apply_raw_contract [] utc_day ex_midnight (ex_ingress ex_ibkr_only) [bar_at 0 1, bar_at 1 2] ''c'' ''r'' 1 ex_params
      (\<lambda>_. ''l'') 10") auto
  have "offers [bar_at 0 1, bar_at 1 2] (offer_key (bar_at 0 1)) = Some (bar_at 0 1)"
    by (simp add: offers_def offer_key_def row_series_def bar_at_def)
  with contract_writes [OF ex_reach run, of "offer_key (bar_at 0 1)" undefined undefined undefined]
  have "map_of (rd_raw (ig_raw db')) (offer_key (bar_at 0 1)) =
      Some \<lparr>re_values = row_values (bar_at 0 1), re_served = Some 1, re_request = Some ''r'', re_load = Some ''l''\<rparr>"
    by (simp add: kept_def raw_params_def ex_ingress_def empty_raw_def)
  with run show ?thesis by blast
qed


end
