(* ===== verification/Spec2Isabelle.thy ===== *)
theory Spec2Isabelle
  imports Selection_Correct Gap_Plan_Correct Daily_Correct Write_Contract Circuit_Breaker Lifecycle_Correct Fetch_Queue_Correct
    Aggregator_Correct Provider_Merger Integrity_Correct Verdict_Gate_Correct
    Arbitration_Correct Ingress_Correct
begin

text \<open>
  A verification development for IndicAgent, a market-research platform in Python: bars arrive from vendors, are
  stored raw, selected and derived into canonical series, and feed a feature pipeline whose concepts move through a
  governed lifecycle.  The development models the parts that decide: what is a bar of record, what is missing, what is
  fetched next, what is published live, when a plugin or a feature is switched off.  Paths
  beginning \<open>services/\<close> or \<open>scripts/\<close> are under \<open>src/\<close>, those beginning \<open>core/\<close> or \<open>intelligence/\<close> under \<open>src/src/\<close>.

  \<^bold>\<open>The parts and how they interact.\<close>  The history fetcher (\<open>Fetch_Queue\<close>) ranks the series to fetch; the windows it
  asks for a series are those of the gap plan (\<open>Gap_Plan\<close>), which compares the expected slots (\<open>Bar_Slots\<close>, over the
  sessions of \<open>Sessions\<close>) with what is stored, answered or proven empty.  What the vendors answer is labelled by the
  vocabulary of \<open>Vendor_Kind\<close>.  From the raw rows the intraday selection (\<open>Selection\<close>) and the daily rule
  (\<open>Daily_Rule\<close>) choose the canonical bars by the source policy (\<open>Policy\<close>), and a write goes through the contract of
  \<open>Write_Contract\<close>; the integrity report (\<open>Integrity_1d\<close>)
  judges the stored daily table against the same rule and policy.  The policy table has one writer (\<open>Source_Policy\<close>, \<open>Policy_Plan\<close>),
  and the arbitration of the vendors' closes (\<open>Vendor_Arbitration\<close>) writes the plan that ranked them.  Live bars pass the gateway (\<open>Provider_Merger\<close>), are accumulated into higher timeframes
  (\<open>Bar_Accumulator\<close>) and published and checkpointed by the aggregation service (\<open>Bar_Aggregator\<close>).  Plugins run
  behind the circuit breaker (\<open>Circuit_Breaker\<close>).  The concept registry (\<open>Concept_Registry\<close>) owns every status, which the
  feature lifecycle (\<open>Feature_Lifecycle\<close>) moves on the verdicts of \<open>Feature_Quality\<close>.

  \<^bold>\<open>Theories.\<close>
  \<^item> \<open>Prelude\<close>: stamps and days, the error sum and its monadic map, dictionaries as association lists, extrema, medians,
    stepped loops, time.  \<open>Transition\<close>: runs and reachability of a step relation, the locale \<open>invariant\<close>, and the locale
    \<open>cas_store\<close> of a store moved by compare-and-set.
  \<^item> \<open>Vendor_Kind\<close>: \<open>intelligence/bars/vendor_kind.py\<close>, \<open>sources.py\<close> and the labels of \<open>core/bar_normalizer.py\<close>.
  \<^item> \<open>Sessions\<close>: \<open>intelligence/bars/sessions.py\<close>, \<open>complete_bars.py\<close>.
  \<^item> \<open>Policy\<close>: the locale \<open>scoped_policy\<close>, the contract of a policy lookup, interpreted on the lookups of \<open>selection.py\<close> and
    \<open>daily_rule.py\<close>.
  \<^item> \<open>Selection\<close>, \<open>Selection_Correct\<close>: \<open>intelligence/bars/selection.py\<close>; the outcome depends on the rows and not on their
    order (C1), one vendor per session (C3), every slot accounted (C4), the vendor rule.
  \<^item> \<open>Bar_Slots\<close>: \<open>core/market_calendar.py\<close> and \<open>generate_session_slots\<close> of \<open>core/bar_normalizer.py\<close> (C5).
  \<^item> \<open>Gap_Plan\<close>, \<open>Gap_Plan_Correct\<close>: \<open>intelligence/bars/gap_plan.py\<close>; coverage against the set of answered instants,
    confirmation by every route, exactly the missing slots are asked for, a completed fetch plans nothing (C6 to C9).
  \<^item> \<open>Daily_Rule\<close>, \<open>Daily_Correct\<close>: \<open>intelligence/bars/daily_rule.py\<close>, \<open>derivation.py\<close>; the basis window, sourcing by
    policy (C11), one decision per session (C12), the fallback era (C13).
  \<^item> \<open>Write_Contract\<close>: \<open>intelligence/bars/write_contract.py\<close>; a write applies, can be undone, and is idempotent (C14, C15).
  \<^item> \<open>Raw_Writer\<close>: \<open>services/ohlcv_raw_writer.py\<close>, the table of vendor answers.  \<open>Raw_Correct\<close>: what a chunk leaves at each
    key and when it is refused.  \<open>Raw_History\<close>: over any sequence of chunks, the newest answer is held (C40), no answer is
    lost (C31), the refusals (C34).
  \<^item> \<open>Canonical_Writer\<close>, \<open>Canonical_Correct\<close>: \<open>services/bar_selection.py\<close>, which runs the selection on the raw rows and writes the
    canonical table; what it leaves at each slot (C24), that a second run changes nothing (C33), one vendor per session (C20).
  \<^item> \<open>Restatement\<close>: \<open>intelligence/bars/restatement.py\<close>; a restated basis is found with its exact multiple (C2).
    \<open>Ingress\<close>, \<open>Ingress_Correct\<close>: \<open>services/ohlcv_ingress_contract.py\<close>, which composes the raw writer, the detector and the
    canonical writer; what a chunk leaves in every table of a reachable database (C10), the errors a call may raise (C19).
  \<^item> \<open>Integrity_1d\<close>, \<open>Integrity_Correct\<close>: the 1d report of \<open>intelligence/bars/integrity_checks.py\<close>, \<open>vendor_basis.py\<close>,
    \<open>digest.py\<close> and \<open>split_continuity\<close> of \<open>corporate_actions.py\<close>; a table the daily rule filled passes the report's
    comparisons with the rule (C16), the proven start against a reference search.
  \<^item> \<open>Verdict_Gate\<close>, \<open>Verdict_Gate_Correct\<close>: \<open>intelligence/bars/verdict_gate.py\<close>; the gate in Python and the promotion
    predicate in SQL decide alike (C18).
  \<^item> \<open>Vendor_Arbitration\<close>: \<open>intelligence/bars/vendor_arbitration.py\<close>, the disagreement spans of a name and the plan document.
    \<open>Source_Policy\<close>, \<open>Policy_Plan\<close>: the table \<open>bar_source_policy\<close> and \<open>scripts/ops/bars/ops_source_policy.py\<close>.
    \<open>Source_Policy_Correct\<close>: the reachable tables, in which the daily rule's lookup is unambiguous (C22).
    \<open>Arbitration_Correct\<close>: arbitration, plan file, table and lookup composed; which vendor the applied plan makes the daily rule
    use (C35), and that the file parses (C21).
  \<^item> \<open>Circuit_Breaker\<close>: \<open>core/plugin_circuit_breaker.py\<close>; a step relation whose steps split a call at its await, the
    reachable states, recovery, persistence (C17).
  \<^item> \<open>Feature_Quality\<close>: \<open>intelligence/statistics/feature_coverage.py\<close>; when the verdict of a feature passes.
  \<^item> \<open>Concept_Registry\<close>: \<open>intelligence/concept_registry_service.py\<close>; the reachable registries, the effect of a transition,
    one winner among racing requests (C23, C25), as an instance of \<open>cas_store\<close>.
  \<^item> \<open>Feature_Lifecycle\<close>, \<open>Lifecycle_Correct\<close>: \<open>services/feature_lifecycle.py\<close>; the windowed read refines derivation over
    the whole ledger, measurement is independent of the chunking, what a run may move and that it moves it (C26 to C29).
  \<^item> \<open>Fetch_Queue\<close>, \<open>Fetch_Queue_Correct\<close>: \<open>scripts/infrastructure/backfill/_fetch_queue.py\<close> and the claim loop of
    \<open>ohlcv_history_fetcher.py\<close>; a load partitions the candidates, the order, termination of the claim loop over any
    evolution of the ledger (C30, C32), the fetch order, the configuration checks, the rotation of gap fills.
  \<^item> \<open>Bar_Accumulator\<close>, \<open>Accumulator_Correct\<close>: \<open>core/bar_accumulator.py\<close>, \<open>core/schemas/bar_message.py\<close>,
    \<open>core/bar_history.py\<close>; the accumulator refines the segmentation of the accepted bars (C36).
  \<^item> \<open>Bar_Aggregator\<close>, \<open>Aggregator_Correct\<close>: \<open>services/bar_aggregator.py\<close>; what the emit-once guard publishes, what a
    restart restores (C37, C38).
  \<^item> \<open>Provider_Merger\<close>: \<open>services/provider_merger.py\<close>; one provider serves a symbol at a time (C39), and alternating
    secondaries starve it.

  \<^bold>\<open>Conventions.\<close>  An instant is the integer number of microseconds since the epoch, a date its proleptic ordinal; a Python
  int is \<open>int\<close>, a float is \<open>real\<close> (so rounding is outside the model, and where the code tests for NaN the theory has a value
  for it).  An exception is a value of the error sum.  A dictionary whose order is observed is an association list, any
  other a map.  A query is a function on a record of its tables, and clocks are arguments.

  \<^bold>\<open>Parameters.\<close>  Code outside the repository is an argument: exchange schedules (\<open>cal\<close>, \<open>mk_pmc\<close>), time zone conversion
  (\<open>ny\<close>, \<open>et\<close>, the fields of \<open>market\<close>), the hash of a canonical JSON text (\<open>digest\<close>), the first bytes of a SHA-256
  (\<open>hash64\<close>), the parsing of configuration text (\<open>conv\<close>), and whether a publish to a topic succeeds (\<open>sent\<close>, \<open>saved\<close>,
  \<open>sends\<close>).  No theorem assumes anything of them beyond what its statement says.

  \<^bold>\<open>Bounds and termination.\<close>  No function of the model has fuel.  Loops are structural recursion or have a termination proof:
  \<open>steps\<close> by the distance to the end, the nearest-session walk by what is left on both sides, the claim loop by the
  number of candidates not yet claimed.  The bounds in the definitions are the code's: ten recent failures and the
  half-open limit of the breaker, 800 feature columns per query, 100 entries of the boundary log, three checkpoint
  failures in 60 seconds.

  \<^bold>\<open>Not modelled.\<close>  The numerical kernels, research statistics and model training (arrays of floats, where reals would not be
  faithful); vendor clients, sockets, Kafka and database access; the API, dashboards, configuration screens and metrics;
  JSON decoding of stored rows and of live payloads; the fetch of one item and its persistence.  Planned next: the
  scrub rules, the intraday integrity checks and the rest of the corporate actions of \<open>intelligence/bars/\<close>, the resource lease
  of \<open>core/\<close>, and the empty-history writers of the backfill.
\<close>

end
